(* ===== verification/Prelude.thy ===== *)
theory Prelude
  imports
    Main
    "HOL-Library.Multiset"
    "HOL-Library.AList"
    "HOL-Library.Char_ord"
    "HOL-Library.List_Lexorder"
    "HOL-Library.Sublist"
begin

text \<open>
  Shared vocabulary of the swarmy development: the pieces of the JavaScript standard library
  that the modelled TypeScript uses, written as total HOL functions, with the lemmas the
  component theories apply.

  \<^item> \<open>js_sort\<close> is \<^verbatim>\<open>Array.prototype.sort\<close> with a comparator: a stable insertion sort.
    ECMAScript fixes the result only for a consistent comparator, which is the contract of
    the locale \<open>js_comparator\<close>; each comparator of the program interprets it.
  \<^item> \<open>cmp_or\<close> is the chain \<^verbatim>\<open>c1 || c2 || ...\<close> the comparators are written with.
  \<^item> \<open>js_set_add\<close>, \<open>js_dedup\<close> are \<^verbatim>\<open>Set\<close> with its insertion order, \<open>AList.update\<close>
    and \<open>map_of\<close> are \<^verbatim>\<open>Map\<close> with its insertion order.
  \<^item> \<open>js_ends_with\<close>, \<open>js_trim\<close>, \<open>js_lower\<close>, \<open>strip_dots\<close>, \<open>js_split\<close> are the
    string operations in use. A string is a list of 8-bit characters; \<open>js_lower\<close> and \<open>js_upper\<close>
    map the ASCII letters.
\<close>

named_theorems js_defs \<open>definitions of the JavaScript helpers\<close>
named_theorems js_cmp \<open>comparators that are consistent\<close>

type_synonym labels = "(string \<times> string) list"
type_synonym 'v jsmap = "(string \<times> 'v) list"

section \<open>Definitions\<close>

subsection \<open>Comparators and sorting\<close>

definition cmp_or :: "int \<Rightarrow> int \<Rightarrow> int" where
  "cmp_or c d = (if c \<noteq> 0 then c else d)"

definition by_key :: "('a \<Rightarrow> 'k::linorder) \<Rightarrow> 'a \<Rightarrow> 'a \<Rightarrow> int" where
  "by_key f a b = (if f a < f b then -1 else if f b < f a then 1 else 0)"

definition by_key_desc :: "('a \<Rightarrow> 'k::linorder) \<Rightarrow> 'a \<Rightarrow> 'a \<Rightarrow> int" where
  "by_key_desc f a b = by_key f b a"

definition then_by :: "('a \<Rightarrow> 'a \<Rightarrow> int) \<Rightarrow> ('a \<Rightarrow> 'a \<Rightarrow> int) \<Rightarrow> 'a \<Rightarrow> 'a \<Rightarrow> int" where
  "then_by c d a b = cmp_or (c a b) (d a b)"

fun js_insert :: "('a \<Rightarrow> 'a \<Rightarrow> int) \<Rightarrow> 'a \<Rightarrow> 'a list \<Rightarrow> 'a list" where
  "js_insert cmp x [] = [x]"
| "js_insert cmp x (y # ys) = (if cmp x y \<le> 0 then x # y # ys else y # js_insert cmp x ys)"

fun js_sort :: "('a \<Rightarrow> 'a \<Rightarrow> int) \<Rightarrow> 'a list \<Rightarrow> 'a list" where
  "js_sort cmp [] = []"
| "js_sort cmp (x # xs) = js_insert cmp x (js_sort cmp xs)"

subsection \<open>Sets and maps with insertion order\<close>

definition js_set_add :: "'a \<Rightarrow> 'a list \<Rightarrow> 'a list" where
  "js_set_add x xs = (if x \<in> set xs then xs else xs @ [x])"

definition js_dedup :: "'a list \<Rightarrow> 'a list" where
  "js_dedup xs = fold js_set_add xs []"

definition lbl :: "labels \<Rightarrow> string \<Rightarrow> string option" where
  "lbl l k = map_of l k"

definition opt_or :: "'a option \<Rightarrow> 'a \<Rightarrow> 'a" where
  "opt_or x d = (case x of None \<Rightarrow> d | Some v \<Rightarrow> v)"

text \<open>Truthiness of an optional string: absent and empty are falsy.\<close>

definition truthy :: "string option \<Rightarrow> bool" where
  "truthy x = (case x of None \<Rightarrow> False | Some s \<Rightarrow> s \<noteq> [])"

text \<open>\<^verbatim>\<open>a || b\<close> on optional strings.\<close>

definition str_or :: "string option \<Rightarrow> string option \<Rightarrow> string option" where
  "str_or a b = (if truthy a then a else b)"

subsection \<open>Strings\<close>

definition js_ends_with :: "string \<Rightarrow> string \<Rightarrow> bool" where
  "js_ends_with s suf =
     (length suf \<le> length s \<and> drop (length s - length suf) s = suf)"

definition js_starts_with :: "string \<Rightarrow> string \<Rightarrow> bool" where
  "js_starts_with s pre = (take (length pre) s = pre)"

fun js_index_of :: "string \<Rightarrow> string \<Rightarrow> nat option" where
  "js_index_of pat [] = (if pat = [] then Some 0 else None)"
| "js_index_of pat (c # cs) =
     (if js_starts_with (c # cs) pat then Some 0 else map_option Suc (js_index_of pat cs))"

definition js_space :: "char \<Rightarrow> bool" where
  "js_space c = (c \<in> {CHR 0x09, CHR 0x0A, CHR 0x0B, CHR 0x0C, CHR 0x0D, CHR 0x20, CHR 0xA0})"

definition js_trim :: "string \<Rightarrow> string" where
  "js_trim s = rev (dropWhile js_space (rev (dropWhile js_space s)))"

definition lower_char :: "char \<Rightarrow> char" where
  "lower_char c =
     (if CHR ''A'' \<le> c \<and> c \<le> CHR ''Z'' then char_of (of_char c + (32::nat)) else c)"

definition js_lower :: "string \<Rightarrow> string" where
  "js_lower s = map lower_char s"

definition upper_char :: "char \<Rightarrow> char" where
  "upper_char c =
     (if CHR ''a'' \<le> c \<and> c \<le> CHR ''z'' then char_of (of_char c - (32::nat)) else c)"

definition js_upper :: "string \<Rightarrow> string" where
  "js_upper s = map upper_char s"

definition strip_dots :: "string \<Rightarrow> string" where
  "strip_dots s = rev (dropWhile (\<lambda>c. c = CHR ''.'') (rev s))"

fun js_split :: "char \<Rightarrow> string \<Rightarrow> string list" where
  "js_split d [] = [[]]"
| "js_split d (c # cs) =
     (if c = d then [] # js_split d cs
      else (case js_split d cs of [] \<Rightarrow> [[c]] | w # ws \<Rightarrow> (c # w) # ws))"

fun js_join :: "string \<Rightarrow> string list \<Rightarrow> string" where
  "js_join sep [] = []"
| "js_join sep [w] = w"
| "js_join sep (w # v # ws) = w @ sep @ js_join sep (v # ws)"

fun digits_of :: "nat \<Rightarrow> string" where
  "digits_of n = (if n < 10 then [char_of (48 + n)] else digits_of (n div 10) @ [char_of (48 + n mod 10)])"

definition hex_digit :: "char \<Rightarrow> nat option" where
  "hex_digit c =
     (let n = of_char c :: nat
      in if 48 \<le> n \<and> n \<le> 57 then Some (n - 48)
         else if 97 \<le> n \<and> n \<le> 102 then Some (n - 87)
         else if 65 \<le> n \<and> n \<le> 70 then Some (n - 55)
         else None)"

text \<open>The value of a string of hexadecimal digits, most significant first.\<close>

definition hex_value :: "string \<Rightarrow> nat" where
  "hex_value s = foldl (\<lambda>v c. 16 * v + opt_or (hex_digit c) 0) 0 s"

section \<open>Consistent comparators\<close>

locale js_comparator =
  fixes cmp :: "'a \<Rightarrow> 'a \<Rightarrow> int"
  assumes cmp_anti: "0 < cmp a b \<longleftrightarrow> cmp b a < 0"
    and cmp_trans: "cmp a b \<le> 0 \<Longrightarrow> cmp b c \<le> 0 \<Longrightarrow> cmp a c \<le> 0"
begin

lemma cmp_refl: "cmp a a = 0"
  using cmp_anti [of a a] by linarith

lemma cmp_total: "cmp a b \<le> 0 \<or> cmp b a \<le> 0"
  using cmp_anti [of a b] by linarith

lemma cmp_flip: "\<not> cmp a b \<le> 0 \<Longrightarrow> cmp b a < 0"
  using cmp_anti [of a b] by linarith

lemma set_insert_cmp: "set (js_insert cmp x xs) = insert x (set xs)"
  by (induction xs) auto

lemma sorted_insert_cmp:
  "sorted_wrt (\<lambda>a b. cmp a b \<le> 0) xs \<Longrightarrow> sorted_wrt (\<lambda>a b. cmp a b \<le> 0) (js_insert cmp x xs)"
proof (induction xs)
  case Nil
  then show ?case by simp
next
  case (Cons y ys)
  show ?case
  proof (cases "cmp x y \<le> 0")
    case True
    with Cons.prems show ?thesis by (auto intro: cmp_trans)
  next
    case False
    then have "cmp y x \<le> 0" using cmp_flip [of x y] by linarith
    with False Cons show ?thesis by (auto simp: set_insert_cmp)
  qed
qed

lemma sorted_js_sort: "sorted_wrt (\<lambda>a b. cmp a b \<le> 0) (js_sort cmp xs)"
  by (induction xs) (auto intro: sorted_insert_cmp)

lemma js_sort_head_le:
  assumes "js_sort cmp xs = y # ys" and "z \<in> set (y # ys)"
  shows "cmp y z \<le> 0"
  using sorted_js_sort [of xs] assms by (auto simp: cmp_refl)

end

section \<open>Lemmas\<close>

lemma mset_js_insert [simp]: "mset (js_insert cmp x xs) = add_mset x (mset xs)"
  by (induction xs) auto

lemma mset_js_sort [simp]: "mset (js_sort cmp xs) = mset xs"
  by (induction xs) auto

lemma set_js_sort [simp]: "set (js_sort cmp xs) = set xs"
  by (metis mset_js_sort set_mset_mset)

lemma length_js_sort [simp]: "length (js_sort cmp xs) = length xs"
  by (metis mset_js_sort size_mset)

lemma distinct_map_js_sort [simp]: "distinct (map f (js_sort cmp xs)) \<longleftrightarrow> distinct (map f xs)"
  by (metis mset_js_sort mset_map mset_eq_imp_distinct_iff)

lemma js_sort_Nil_iff [simp]: "js_sort cmp xs = [] \<longleftrightarrow> xs = []"
  by (metis length_0_conv length_js_sort)

lemma cmp_or_le_0: "cmp_or c d \<le> 0 \<longleftrightarrow> c < 0 \<or> c = 0 \<and> d \<le> 0"
  by (auto simp: cmp_or_def)

lemma cmp_or_pos: "0 < cmp_or c d \<longleftrightarrow> 0 < c \<or> c = 0 \<and> 0 < d"
  by (auto simp: cmp_or_def)

lemma cmp_or_neg: "cmp_or c d < 0 \<longleftrightarrow> c < 0 \<or> c = 0 \<and> d < 0"
  by (auto simp: cmp_or_def)

lemma by_key_sign [simp]:
  "by_key f a b < 0 \<longleftrightarrow> f a < f b" "by_key f a b = 0 \<longleftrightarrow> f a = f b" "by_key f a b \<le> 0 \<longleftrightarrow> f a \<le> f b"
  by (auto simp: by_key_def)

lemma by_key_desc_sign [simp]:
  "by_key_desc f a b < 0 \<longleftrightarrow> f b < f a" "by_key_desc f a b = 0 \<longleftrightarrow> f a = f b" "by_key_desc f a b \<le> 0 \<longleftrightarrow> f b \<le> f a"
  by (auto simp: by_key_desc_def)

lemma then_by_le_0: "then_by c d a b \<le> 0 \<longleftrightarrow> c a b < 0 \<or> c a b = 0 \<and> d a b \<le> 0"
  by (simp add: then_by_def cmp_or_le_0)

lemma js_comparator_by_key [js_cmp]: "js_comparator (by_key f)"
  by unfold_locales (auto simp: by_key_def split: if_splits)

lemma js_comparator_by_key_desc [js_cmp]: "js_comparator (by_key_desc f)"
  by unfold_locales (auto simp: by_key_def by_key_desc_def split: if_splits)

lemma js_comparator_then_by [js_cmp]:
  assumes "js_comparator c" and "js_comparator d"
  shows "js_comparator (then_by c d)"
proof -
  note ca = js_comparator.cmp_anti [OF assms(1)] and ct = js_comparator.cmp_trans [OF assms(1)]
  note da = js_comparator.cmp_anti [OF assms(2)] and dt = js_comparator.cmp_trans [OF assms(2)]
  show ?thesis
  proof
    fix a b
    show "0 < then_by c d a b \<longleftrightarrow> then_by c d b a < 0"
      using ca [of a b] ca [of b a] da [of a b]
      by (simp add: then_by_def cmp_or_pos cmp_or_neg) linarith
  next
    fix x y z
    assume xy: "then_by c d x y \<le> 0" and yz: "then_by c d y z \<le> 0"
    then have le: "c x y \<le> 0" "c y z \<le> 0" by (auto simp: then_by_def cmp_or_le_0)
    then have xz: "c x z \<le> 0" by (rule ct)
    show "then_by c d x z \<le> 0"
    proof (cases "c x z = 0")
      case False
      with xz show ?thesis by (simp add: then_by_def cmp_or_le_0)
    next
      case True
      then have "c z x \<le> 0" using ca [of z x] by linarith
      from ct [OF this le(1)] ct [OF le(2) this] have "c x y = 0" "c y z = 0"
        using le ca [of z y] ca [of y z] ca [of x y] ca [of y x] by linarith+
      with xy yz have "d x y \<le> 0" "d y z \<le> 0" by (auto simp: then_by_def cmp_or_le_0)
      then have "d x z \<le> 0" by (rule dt)
      with True show ?thesis by (simp add: then_by_def cmp_or_le_0)
    qed
  qed
qed

lemma set_js_set_add [simp]: "set (js_set_add x xs) = insert x (set xs)"
  by (auto simp: js_set_add_def)

lemma distinct_js_set_add: "distinct xs \<Longrightarrow> distinct (js_set_add x xs)"
  by (auto simp: js_set_add_def)

lemma set_fold_js_set_add: "set (fold js_set_add xs acc) = set xs \<union> set acc"
  by (induction xs arbitrary: acc) auto

lemma set_js_dedup [simp]: "set (js_dedup xs) = set xs"
  by (simp add: js_dedup_def set_fold_js_set_add)

lemma distinct_fold_js_set_add: "distinct acc \<Longrightarrow> distinct (fold js_set_add xs acc)"
  by (induction xs arbitrary: acc) (auto intro: distinct_js_set_add)

lemma distinct_js_dedup [simp]: "distinct (js_dedup xs)"
  by (simp add: js_dedup_def distinct_fold_js_set_add)

lemma find_SomeD: "find P xs = Some x \<Longrightarrow> x \<in> set xs \<and> P x"
  by (induction xs) (auto split: if_splits)

lemma find_NoneD: "find P xs = None \<Longrightarrow> x \<in> set xs \<Longrightarrow> \<not> P x"
  by (induction xs) (auto split: if_splits)

lemma js_split_no_sep: "d \<notin> set x \<Longrightarrow> js_split d x = [x]"
  by (induction x) auto

lemma js_split_Nil_iff [simp]: "js_split d x \<noteq> []"
  by (induction x) (auto split: list.splits)

lemma js_split_append: "d \<notin> set x \<Longrightarrow> js_split d (x @ d # y) = x # js_split d y"
  by (induction x) auto

lemma js_starts_with_append [simp]: "js_starts_with (p @ x) p"
  by (simp add: js_starts_with_def)

lemma js_starts_with_iff: "js_starts_with s p \<longleftrightarrow> (\<exists>x. s = p @ x)"
  by (metis append_take_drop_id js_starts_with_append js_starts_with_def)

lemma concat_map_if: "concat (map (\<lambda>x. if P x then [f x] else []) xs) = map f (filter P xs)"
  by (induction xs) auto

lemma alist_update_fresh: "k \<notin> fst ` set m \<Longrightarrow> AList.update k v m = m @ [(k, v)]"
  by (induction m) auto

lemma js_ends_with_append [simp]: "js_ends_with (p @ suf) suf"
  by (simp add: js_ends_with_def)

lemma js_ends_with_iff: "js_ends_with s suf \<longleftrightarrow> (\<exists>p. s = p @ suf)"
proof
  assume "js_ends_with s suf"
  then have "s = take (length s - length suf) s @ suf"
    unfolding js_ends_with_def by (metis append_take_drop_id)
  then show "\<exists>p. s = p @ suf" by blast
qed auto

end
