(* ===== verification/Json.thy ===== *)
theory Json
  imports Prelude Complex_Main
begin

text \<open>
  The values \<^verbatim>\<open>JSON.parse\<close> produces, as the parsers of the program read them. A number is a
  finite double, hence a rational. An object is its list of entries in insertion order.
  Property access (\<open>jget\<close>) on a value that is not an object gives \<open>None\<close>, JavaScript's
  \<^verbatim>\<open>undefined\<close>. A parser of the program is modelled as a function of the outcome of
  \<^verbatim>\<open>JSON.parse\<close>: \<open>None\<close> where the text is absent, empty or does not parse.
\<close>

datatype json =
    JNull
  | JBool bool
  | JNum rat
  | JStr string
  | JArr "json list"
  | JObj "(string \<times> json) list"

fun jget :: "json \<Rightarrow> string \<Rightarrow> json option" where
  "jget (JObj kvs) k = map_of kvs k"
| "jget _ k = None"

fun is_obj :: "json \<Rightarrow> bool" where
  "is_obj (JObj _) = True"
| "is_obj _ = False"

fun as_str :: "json option \<Rightarrow> string option" where
  "as_str (Some (JStr s)) = Some s"
| "as_str _ = None"

fun as_num :: "json option \<Rightarrow> rat option" where
  "as_num (Some (JNum r)) = Some r"
| "as_num _ = None"

fun as_bool :: "json option \<Rightarrow> bool option" where
  "as_bool (Some (JBool b)) = Some b"
| "as_bool _ = None"

text \<open>\<^verbatim>\<open>Number.isInteger\<close>.\<close>

definition rat_int :: "rat \<Rightarrow> int option" where
  "rat_int r = (let (n, d) = quotient_of r in if d = 1 then Some n else None)"

definition as_int :: "json option \<Rightarrow> int option" where
  "as_int j = Option.bind (as_num j) rat_int"

definition jint :: "int \<Rightarrow> json" where
  "jint n = JNum (of_int n)"

text \<open>An optional entry of an object literal: \<^verbatim>\<open>...(x ? { k: x } : {})\<close>.\<close>

definition entry :: "string \<Rightarrow> json option \<Rightarrow> (string \<times> json) list" where
  "entry k j = (case j of None \<Rightarrow> [] | Some v \<Rightarrow> [(k, v)])"

lemma rat_int_of_int [simp]: "rat_int (of_int n) = Some n"
  by (simp add: rat_int_def)

lemma as_int_jint [simp]: "as_int (Some (jint n)) = Some n"
  by (simp add: as_int_def jint_def)

lemma as_num_jint [simp]: "as_num (Some (jint n)) = Some (of_int n)"
  by (simp add: jint_def)

lemma as_str_jint [simp]: "as_str (Some (jint n)) = None"
  by (simp add: jint_def)

lemma as_str_eq_Some: "as_str j = Some s \<longleftrightarrow> j = Some (JStr s)"
  by (cases j rule: as_str.cases) auto

lemma as_bool_eq_Some: "as_bool j = Some b \<longleftrightarrow> j = Some (JBool b)"
  by (cases j rule: as_bool.cases) auto

lemma map_of_entry: "map_of (entry k j) k' = (if k' = k then j else None)"
  by (auto simp: entry_def split: option.splits)

end
