(* ===== verification/Lease.thy ===== *)
theory Lease
  imports Prelude Json
begin

text \<open>
  The controller's single-writer lease: the pure decisions of
  \<^verbatim>\<open>apps/api/src/controller-store/lease.ts\<close>, the agent-side decision of
  \<^verbatim>\<open>packages/core/src/protocol/controllerService.ts\<close> and the agent's handler
  \<^verbatim>\<open>apps/agent/src/handlers/controller-service.ts\<close>.

  Times and TTLs are integers (milliseconds). A record's optional \<^verbatim>\<open>released\<close> flag is a
  Boolean, absent being \<open>False\<close>: every reader tests it for truth. What the handler asks of
  Docker (the inspected service, the outcome of the version-checked update, the label read
  again after a lost race, the node list, the secret lookup) is an argument of the model of
  the handler, and what it asks Docker to write is part of its result.
\<close>

section \<open>Definitions\<close>

subsection \<open>controllerService.ts: records and operations\<close>

record lease_record =
  l_holder :: string
  l_node :: string
  l_hostname :: "string option"
  l_epoch :: nat
  l_renewedAt :: int
  l_ttlMs :: int
  l_released :: bool

datatype lease_op =
    LeaseAcquire string string "string option" int "lease_record option" nat
  | LeaseRenew string string "string option" int nat
  | LeaseRelease string nat

datatype cs_reason = Held | Lost | Conflict | NotFound | NotSystem

record cs_result =
  r_ok :: bool
  r_lease :: "lease_record option"
  r_reason :: "cs_reason option"
  r_restarting :: bool
  r_labelled :: "string list"

definition lease_result :: "bool \<Rightarrow> lease_record option \<Rightarrow> cs_reason option \<Rightarrow> cs_result" where
  "lease_result b l r =
     \<lparr>r_ok = b, r_lease = l, r_reason = r, r_restarting = False, r_labelled = []\<rparr>"

definition CONTROLLER_LEASE_LABEL :: string where
  "CONTROLLER_LEASE_LABEL = ''swarmy.controller.lease''"

definition CONTROLLER_AVOID_LABEL :: string where
  "CONTROLLER_AVOID_LABEL = ''swarmy.controller.avoid''"

definition CONTROLLER_AVOID_CONSTRAINT :: string where
  "CONTROLLER_AVOID_CONSTRAINT = ''node.labels.'' @ CONTROLLER_AVOID_LABEL @ '' != true''"

definition CONTROLLER_FLOATING_CONSTRAINT :: string where
  "CONTROLLER_FLOATING_CONSTRAINT = ''node.role == manager''"

definition CONTROLLER_STORE_SECRET_TARGET :: string where
  "CONTROLLER_STORE_SECRET_TARGET = ''control_store''"

definition pinnedConstraint :: "string \<Rightarrow> string" where
  "pinnedConstraint hostname = ''node.hostname == '' @ hostname"

text \<open>\<^verbatim>\<open>c.replace(/\s+/g, '')\<close>.\<close>

definition squeeze :: "string \<Rightarrow> string" where
  "squeeze s = filter (\<lambda>c. \<not> js_space c) s"

definition isControllerPlacementConstraint :: "string \<Rightarrow> bool" where
  "isControllerPlacementConstraint c =
     (let s = squeeze c in js_starts_with s ''node.hostname=='' \<or> s = ''node.role==manager'')"

text \<open>The label's schema: what \<^verbatim>\<open>safeParse\<close> accepts, unknown keys dropped.\<close>

definition opt_field :: "(json option \<Rightarrow> 'a option) \<Rightarrow> json option \<Rightarrow> 'a option option" where
  "opt_field f j = (case j of None \<Rightarrow> Some None | Some v \<Rightarrow> map_option Some (f (Some v)))"

definition parseLeaseLabel :: "json option \<Rightarrow> lease_record option" where
  "parseLeaseLabel v =
     (case v of None \<Rightarrow> None
      | Some j \<Rightarrow>
         (case (as_str (jget j ''holder''), as_str (jget j ''node''),
                opt_field as_str (jget j ''hostname''), as_int (jget j ''epoch''),
                as_int (jget j ''renewedAt''), as_int (jget j ''ttlMs''),
                opt_field as_bool (jget j ''released''))
          of (Some h, Some n, Some hn, Some e, Some ra, Some ttl, Some rel) \<Rightarrow>
               if h \<noteq> [] \<and> 0 \<le> e \<and> 0 \<le> ra \<and> 0 < ttl
               then Some \<lparr>l_holder = h, l_node = n, l_hostname = hn, l_epoch = nat e,
                          l_renewedAt = ra, l_ttlMs = ttl, l_released = (rel = Some True)\<rparr>
               else None
          | _ \<Rightarrow> None))"

text \<open>The JSON written to the label (\<^verbatim>\<open>JSON.stringify(next)\<close>).\<close>

definition leaseJson :: "lease_record \<Rightarrow> json" where
  "leaseJson r = JObj
     ([(''holder'', JStr (l_holder r)), (''node'', JStr (l_node r))]
      @ entry ''hostname'' (map_option JStr (l_hostname r))
      @ [(''epoch'', jint (int (l_epoch r))), (''renewedAt'', jint (l_renewedAt r)),
         (''ttlMs'', jint (l_ttlMs r))]
      @ (if l_released r then [(''released'', JBool True)] else []))"

definition sameLeaseWrite :: "lease_record option \<Rightarrow> lease_record option \<Rightarrow> bool" where
  "sameLeaseWrite a b =
     (case (a, b) of
        (Some x, Some y) \<Rightarrow> l_holder x = l_holder y \<and> l_epoch x = l_epoch y
           \<and> l_renewedAt x = l_renewedAt y \<and> l_released x = l_released y
      | (None, None) \<Rightarrow> True
      | _ \<Rightarrow> False)"

text \<open>An optional hostname is written only when it is a non-empty string.\<close>

definition host_field :: "string option \<Rightarrow> string option" where
  "host_field h = (if truthy h then h else None)"

fun decideLeaseWrite ::
  "lease_record option \<Rightarrow> lease_op \<Rightarrow> int \<Rightarrow> lease_record option \<times> cs_result" where
  "decideLeaseWrite live (LeaseAcquire holder node hostname ttl expect minE) now =
     (let free = (case live of None \<Rightarrow> True | Some r \<Rightarrow> l_released r);
          stale = (expect \<noteq> None \<and> sameLeaseWrite live expect)
      in if \<not> free \<and> \<not> stale then (None, lease_result False live (Some Held))
         else (let next = \<lparr>l_holder = holder, l_node = node, l_hostname = host_field hostname,
                           l_epoch = max (case live of None \<Rightarrow> 0 | Some r \<Rightarrow> l_epoch r) minE + 1,
                           l_renewedAt = now, l_ttlMs = ttl, l_released = False\<rparr>
               in (Some next, lease_result True (Some next) None)))"
| "decideLeaseWrite live (LeaseRenew holder node hostname ttl e) now =
     (case live of
        None \<Rightarrow> (None, lease_result False live (Some Lost))
      | Some r \<Rightarrow>
          if l_holder r \<noteq> holder \<or> l_epoch r \<noteq> e \<or> l_released r
          then (None, lease_result False live (Some Lost))
          else (let next = r\<lparr>l_node := node, l_renewedAt := now, l_ttlMs := ttl,
                             l_hostname := (if truthy hostname then hostname else l_hostname r)\<rparr>
                in (Some next, lease_result True (Some next) None)))"
| "decideLeaseWrite live (LeaseRelease holder e) now =
     (case live of
        None \<Rightarrow> (None, lease_result True live None)
      | Some r \<Rightarrow>
          if l_holder r \<noteq> holder \<or> l_epoch r \<noteq> e \<or> l_released r
          then (None, lease_result True live None)
          else (let next = r\<lparr>l_released := True, l_renewedAt := now\<rparr>
                in (Some next, lease_result True (Some next) None)))"

fun casLossReason :: "lease_op \<Rightarrow> lease_record option \<Rightarrow> cs_reason" where
  "casLossReason (LeaseRenew holder node hostname ttl e) current =
     (case current of
        None \<Rightarrow> Lost
      | Some r \<Rightarrow> if \<not> l_released r \<and> l_holder r = holder \<and> l_epoch r = e then Conflict else Lost)"
| "casLossReason _ current = Conflict"

subsection \<open>lease.ts: the controller's decisions\<close>

definition LEASE_TTL_MS :: int where "LEASE_TTL_MS = 60000"
definition LEASE_RENEW_EVERY_MS :: int where "LEASE_RENEW_EVERY_MS = 10000"
definition LEASE_RETRY_MS :: int where "LEASE_RETRY_MS = 2000"
definition LEASE_FENCE_MARGIN_MS :: int where "LEASE_FENCE_MARGIN_MS = 8000"

record lease_self =
  self_holder :: string
  self_node :: string

record lease_observation =
  o_record :: "lease_record option"
  o_firstSeenAt :: int

definition observe ::
  "lease_observation option \<Rightarrow> lease_record option \<Rightarrow> int \<Rightarrow> lease_observation" where
  "observe prev rec now =
     (case prev of
        Some p \<Rightarrow> if sameLeaseWrite (o_record p) rec then p
                  else \<lparr>o_record = rec, o_firstSeenAt = now\<rparr>
      | None \<Rightarrow> \<lparr>o_record = rec, o_firstSeenAt = now\<rparr>)"

datatype take_why = Free | Released | Ours | SameNode | Expired

datatype takeover = Take "lease_record option" take_why | Wait int lease_record

definition takeoverDecision :: "lease_observation \<Rightarrow> lease_self \<Rightarrow> int \<Rightarrow> takeover" where
  "takeoverDecision obs self now =
     (case o_record obs of
        None \<Rightarrow> Take None Free
      | Some r \<Rightarrow>
          if l_released r then Take (Some r) Released
          else if l_holder r = self_holder self then Take (Some r) Ours
          else if l_node r \<noteq> [] \<and> l_node r = self_node self then Take (Some r) SameNode
          else (let waited = now - o_firstSeenAt obs
                in if l_ttlMs r \<le> waited then Take (Some r) Expired
                   else Wait (l_ttlMs r - waited) r))"

definition fenceDeadline :: "int \<Rightarrow> int \<Rightarrow> int \<Rightarrow> int" where
  "fenceDeadline lastOkSentAt ttlMs marginMs = lastOkSentAt + ttlMs - marginMs"

definition mustFence :: "int \<Rightarrow> int \<Rightarrow> bool" where
  "mustFence now lastOkSentAt \<longleftrightarrow>
     fenceDeadline lastOkSentAt LEASE_TTL_MS LEASE_FENCE_MARGIN_MS \<le> now"

text \<open>An absent or non-finite epoch is \<open>None\<close>.\<close>

definition minEpoch :: "nat option list \<Rightarrow> nat" where
  "minEpoch seen = foldr (\<lambda>e m. max (opt_or e 0) m) seen 0"

definition stillHeld :: "cs_result \<Rightarrow> lease_self \<Rightarrow> nat \<Rightarrow> bool" where
  "stillHeld res self e =
     (r_ok res \<and> (case r_lease res of
        None \<Rightarrow> False
      | Some l \<Rightarrow> l_holder l = self_holder self \<and> l_epoch l = e \<and> \<not> l_released l))"

datatype verdict = VHeld lease_record | VLost lease_record | VFree "lease_record option" | VUnknown

definition renewalVerdict :: "cs_result option \<Rightarrow> lease_self \<Rightarrow> verdict" where
  "renewalVerdict res self =
     (case res of
        None \<Rightarrow> VUnknown
      | Some x \<Rightarrow>
          if r_reason x = Some NotFound \<or> r_reason x = Some NotSystem then VUnknown
          else (case r_lease x of
                  None \<Rightarrow> VFree None
                | Some l \<Rightarrow>
                    if l_released l then VFree (Some l)
                    else if l_holder l = self_holder self
                         then (if r_ok x then VHeld l else VUnknown)
                         else VLost l))"

definition fenceOnSilence :: "int \<Rightarrow> int \<Rightarrow> nat option \<Rightarrow> bool" where
  "fenceOnSilence now lastOkSentAt managers =
     (if managers = Some 1 then False else mustFence now lastOkSentAt)"

subsection \<open>controller-service.ts: the agent's handler\<close>

record secret_ref =
  s_id :: "string option"
  s_name :: "string option"
  s_fileName :: "string option"
  s_uid :: "string option"
  s_gid :: "string option"
  s_mode :: "nat option"

text \<open>
  The part of a service's spec the handler reads or writes. The lease label is kept apart
  as the JSON value it holds; \<open>sp_rest\<close> stands for every other field, which the handler
  copies.
\<close>

record service_spec =
  sp_labels :: labels
  sp_lease :: "json option"
  sp_constraints :: "string list option"
  sp_secrets :: "secret_ref list option"
  sp_rest :: json

record swarm_node =
  n_id :: string
  n_role :: string
  n_availability :: "string option"
  n_labels :: labels

datatype placement = Floating | Pinned

datatype cs_op =
    LeaseOp lease_op
  | Configure "string option" placement "string option"
  | Move string "string option"
  | MoveClear

datatype write_outcome = Accepted | OutOfSequence | WriteFailed string

datatype effect = SpecWrite service_spec | SetNodeAvoid string bool

definition nextConstraints ::
  "string list option \<Rightarrow> placement \<Rightarrow> string option \<Rightarrow> string + string list" where
  "nextConstraints current pl pinnedHostname =
     (let kept = filter (\<lambda>c. \<not> isControllerPlacementConstraint c
                   \<and> squeeze c \<noteq> squeeze CONTROLLER_AVOID_CONSTRAINT) (opt_or current [])
      in case (pl, pinnedHostname) of
           (Floating, _) \<Rightarrow> Inr (CONTROLLER_FLOATING_CONSTRAINT # CONTROLLER_AVOID_CONSTRAINT # kept)
         | (Pinned, Some h) \<Rightarrow> Inr (pinnedConstraint h # CONTROLLER_AVOID_CONSTRAINT # kept)
         | (Pinned, None) \<Rightarrow> Inl ''pinned placement needs a hostname'')"

definition nextSecrets :: "secret_ref list option \<Rightarrow> string \<Rightarrow> string \<Rightarrow> secret_ref list" where
  "nextSecrets current secretId secretName =
     filter (\<lambda>s. s_fileName s \<noteq> Some CONTROLLER_STORE_SECRET_TARGET) (opt_or current [])
     @ [\<lparr>s_id = Some secretId, s_name = Some secretName,
         s_fileName = Some CONTROLLER_STORE_SECRET_TARGET,
         s_uid = Some ''0'', s_gid = Some ''0'', s_mode = Some 256\<rparr>]"

text \<open>
  The lease operations. \<open>outcome\<close> is what Docker answers to the version-checked update and
  \<open>again\<close> the label inspected after a lost race.
\<close>

definition applyLeaseOp ::
  "service_spec \<Rightarrow> lease_op \<Rightarrow> int \<Rightarrow> write_outcome \<Rightarrow> json option
     \<Rightarrow> effect list \<times> (string + cs_result)" where
  "applyLeaseOp spec lop now outcome again =
     (let (next, result) = decideLeaseWrite (parseLeaseLabel (sp_lease spec)) lop now
      in case next of
           None \<Rightarrow> ([], Inr result)
         | Some nx \<Rightarrow>
             (case outcome of
                Accepted \<Rightarrow> ([SpecWrite (spec\<lparr>sp_lease := Some (leaseJson nx)\<rparr>)], Inr result)
              | OutOfSequence \<Rightarrow>
                  (let current = parseLeaseLabel again
                   in ([], Inr (lease_result False current (Some (casLossReason lop current)))))
              | WriteFailed e \<Rightarrow> ([], Inl e)))"

definition applyConfigure ::
  "service_spec \<Rightarrow> string option \<Rightarrow> placement \<Rightarrow> string option \<Rightarrow> (string \<Rightarrow> string option)
     \<Rightarrow> write_outcome \<Rightarrow> effect list \<times> (string + cs_result)" where
  "applyConfigure spec storeSecret pl pinnedHostname secretId outcome =
     (let live = parseLeaseLabel (sp_lease spec);
          secrets = (if truthy storeSecret
                     then (case secretId (the storeSecret) of
                             None \<Rightarrow> Inl (''secret not found: '' @ the storeSecret)
                           | Some i \<Rightarrow> Inr (Some (nextSecrets (sp_secrets spec) i (the storeSecret))))
                     else Inr (sp_secrets spec))
      in case secrets of
           Inl e \<Rightarrow> ([], Inl e)
         | Inr secs \<Rightarrow>
             (case nextConstraints (sp_constraints spec) pl pinnedHostname of
                Inl e \<Rightarrow> ([], Inl e)
              | Inr cons \<Rightarrow>
                  (case outcome of
                     Accepted \<Rightarrow>
                       ([SpecWrite (spec\<lparr>sp_secrets := secs, sp_constraints := Some cons\<rparr>)],
                        Inr ((lease_result True live None)\<lparr>r_restarting := True\<rparr>))
                   | OutOfSequence \<Rightarrow> ([], Inr (lease_result False live (Some Conflict)))
                   | WriteFailed e \<Rightarrow> ([], Inl e))))"

text \<open>The node labels a move changes, in the order they are written: the controller's own node last.\<close>

definition moveOrder :: "swarm_node list \<Rightarrow> string option \<Rightarrow> swarm_node list" where
  "moveOrder nodes from = js_sort (by_key (\<lambda>n. if Some (n_id n) = from then 1 else 0 :: nat)) nodes"

definition moveLabels :: "swarm_node list \<Rightarrow> string \<Rightarrow> string option \<Rightarrow> (string \<times> bool) list" where
  "moveLabels nodes target from =
     [(n_id n, n_id n \<noteq> target). n \<leftarrow> moveOrder nodes from,
        n_role n = ''manager'' \<and>
        (n_id n \<noteq> target) \<noteq> (lbl (n_labels n) CONTROLLER_AVOID_LABEL = Some ''true'')]"

definition applyMove ::
  "service_spec \<Rightarrow> swarm_node list \<Rightarrow> string \<Rightarrow> string option \<Rightarrow> write_outcome
     \<Rightarrow> effect list \<times> (string + cs_result)" where
  "applyMove spec nodes target from outcome =
     (case find (\<lambda>n. n_id n = target) nodes of
        None \<Rightarrow> ([], Inl ''the target must be an active manager node'')
      | Some t \<Rightarrow>
          if n_role t \<noteq> ''manager'' \<or> opt_or (n_availability t) ''active'' \<noteq> ''active''
          then ([], Inl ''the target must be an active manager node'')
          else
            (let live = parseLeaseLabel (sp_lease spec);
                 labelled = moveLabels nodes target from;
                 sets = map (\<lambda>(i, a). SetNodeAvoid i a) labelled;
                 done = (lease_result True live None)\<lparr>r_restarting := True, r_labelled := map fst labelled\<rparr>
             in case nextConstraints (sp_constraints spec) Floating None of
                  Inl e \<Rightarrow> (sets, Inl e)
                | Inr cons \<Rightarrow>
                    if js_join [CHR 0x0A] cons \<noteq> js_join [CHR 0x0A] (opt_or (sp_constraints spec) [])
                    then (case outcome of
                            Accepted \<Rightarrow> (sets @ [SpecWrite (spec\<lparr>sp_constraints := Some cons\<rparr>)], Inr done)
                          | OutOfSequence \<Rightarrow>
                              (sets, Inr ((lease_result False live (Some Conflict))
                                             \<lparr>r_labelled := map fst labelled\<rparr>))
                          | WriteFailed e \<Rightarrow> (sets, Inl e))
                    else (sets, Inr done)))"

definition applyMoveClear ::
  "service_spec \<Rightarrow> swarm_node list \<Rightarrow> effect list \<times> (string + cs_result)" where
  "applyMoveClear spec nodes =
     (let ids = map n_id (filter (\<lambda>n. lbl (n_labels n) CONTROLLER_AVOID_LABEL \<noteq> None) nodes)
      in (map (\<lambda>i. SetNodeAvoid i False) ids,
          Inr ((lease_result True (parseLeaseLabel (sp_lease spec)) None)\<lparr>r_labelled := ids\<rparr>)))"

definition applyControllerService ::
  "service_spec option \<Rightarrow> cs_op \<Rightarrow> int \<Rightarrow> swarm_node list \<Rightarrow> (string \<Rightarrow> string option)
     \<Rightarrow> write_outcome \<Rightarrow> json option \<Rightarrow> effect list \<times> (string + cs_result)" where
  "applyControllerService svc op now nodes secretId outcome again =
     (case svc of
        None \<Rightarrow> ([], Inr (lease_result False None (Some NotFound)))
      | Some spec \<Rightarrow>
          if lbl (sp_labels spec) ''swarmy.system'' \<noteq> Some ''true''
          then ([], Inr (lease_result False None (Some NotSystem)))
          else (case op of
                  LeaseOp lop \<Rightarrow> applyLeaseOp spec lop now outcome again
                | Configure sec pl host \<Rightarrow> applyConfigure spec sec pl host secretId outcome
                | Move target from \<Rightarrow> applyMove spec nodes target from outcome
                | MoveClear \<Rightarrow> applyMoveClear spec nodes))"

text \<open>\<^verbatim>\<open>setNodeAvoid\<close>: the labels written back to one node.\<close>

definition setNodeAvoid :: "labels \<Rightarrow> bool \<Rightarrow> labels" where
  "setNodeAvoid l avoid =
     (if avoid then AList.update CONTROLLER_AVOID_LABEL ''true'' l
      else AList.delete CONTROLLER_AVOID_LABEL l)"


text \<open>The label after a sequence of lease operations, each with the wall clock of its agent.\<close>

fun lease_run ::
  "(lease_record option \<Rightarrow> lease_op \<Rightarrow> int \<Rightarrow> lease_record option \<times> cs_result)
     \<Rightarrow> lease_record option \<Rightarrow> (lease_op \<times> int) list \<Rightarrow> lease_record option" where
  "lease_run decide live [] = live"
| "lease_run decide live ((lop, w) # ops) =
     lease_run decide (case fst (decide live lop w) of None \<Rightarrow> live | Some nx \<Rightarrow> Some nx) ops"

fun op_holder :: "lease_op \<Rightarrow> string" where
  "op_holder (LeaseAcquire h n hn ttl ex me) = h"
| "op_holder (LeaseRenew h n hn ttl e) = h"
| "op_holder (LeaseRelease h e) = h"

fun is_release :: "lease_op \<Rightarrow> bool" where
  "is_release (LeaseRelease h e) = True"
| "is_release _ = False"

section \<open>The contract of a lease cell\<close>

text \<open>
  What the controller relies on from the agent's decision: who may overwrite the label, what
  is written, and what the answer says about it.
\<close>

locale lease_cell =
  fixes decide :: "lease_record option \<Rightarrow> lease_op \<Rightarrow> int \<Rightarrow> lease_record option \<times> cs_result"
  assumes acquire_guard: "decide live (LeaseAcquire h n hn ttl ex me) w = (Some nx, res) \<Longrightarrow>
      (case live of None \<Rightarrow> True | Some r \<Rightarrow> l_released r) \<or> ex \<noteq> None \<and> sameLeaseWrite live ex"
    and acquire_writes: "decide live (LeaseAcquire h n hn ttl ex me) w = (Some nx, res) \<Longrightarrow>
      l_holder nx = h \<and> l_node nx = n \<and> l_ttlMs nx = ttl \<and> \<not> l_released nx \<and> me < l_epoch nx
      \<and> (\<forall>r. live = Some r \<longrightarrow> l_epoch r < l_epoch nx)"
    and renew_writes: "decide live (LeaseRenew h n hn ttl e) w = (Some nx, res) \<Longrightarrow>
      \<exists>r. live = Some r \<and> l_holder r = h \<and> l_epoch r = e \<and> \<not> l_released r
        \<and> l_holder nx = h \<and> l_node nx = n \<and> l_epoch nx = e \<and> l_ttlMs nx = ttl \<and> \<not> l_released nx"
    and release_writes: "decide live (LeaseRelease h e) w = (Some nx, res) \<Longrightarrow>
      \<exists>r. live = Some r \<and> l_holder r = h \<and> l_epoch r = e \<and> \<not> l_released r
        \<and> l_holder nx = h \<and> l_node nx = l_node r \<and> l_epoch nx = e \<and> l_ttlMs nx = l_ttlMs r
        \<and> l_released nx"
    and written_answer: "decide live lop w = (Some nx, res) \<Longrightarrow> r_ok res \<and> r_lease res = Some nx"
    and unwritten_answer: "decide live lop w = (None, res) \<Longrightarrow>
      r_lease res = live \<and> (r_ok res \<longrightarrow> is_release lop)"
begin

lemma writer_holds: "decide live lop w = (Some nx, res) \<Longrightarrow> l_holder nx = op_holder lop"
  by (cases lop) (auto dest: acquire_writes renew_writes release_writes)

lemma released_iff: "decide live lop w = (Some nx, res) \<Longrightarrow> l_released nx \<longleftrightarrow> is_release lop"
  by (cases lop) (auto dest: acquire_writes renew_writes release_writes)

lemma epoch_mono: "decide (Some r) lop w = (Some nx, res) \<Longrightarrow> l_epoch r \<le> l_epoch nx"
  by (cases lop) (auto dest!: acquire_writes renew_writes release_writes)

lemma foreign_write:
  assumes "decide (Some r) lop w = (Some nx, res)" and "\<not> l_released r" and "op_holder lop \<noteq> l_holder r"
  shows "\<exists>h n hn ttl e me. lop = LeaseAcquire h n hn ttl (Some e) me \<and> sameLeaseWrite (Some r) (Some e)"
proof (cases lop)
  case (LeaseAcquire h n hn ttl ex me)
  with acquire_guard assms show ?thesis by fastforce
qed (use assms in \<open>auto dest!: renew_writes release_writes\<close>)

lemma run_epoch_mono:
  "\<exists>r'. lease_run decide (Some r) ops = Some r' \<and> l_epoch r \<le> l_epoch r'"
proof (induction ops arbitrary: r)
  case Nil
  then show ?case by simp
next
  case (Cons x ops)
  obtain lop w where x: "x = (lop, w)" by (cases x)
  show ?case
  proof (cases "fst (decide (Some r) lop w)")
    case None
    with Cons x show ?thesis by simp
  next
    case (Some nx)
    then obtain res where d: "decide (Some r) lop w = (Some nx, res)" by (metis prod.collapse)
    from Cons.IH [of nx] epoch_mono [OF d] Some x show ?thesis by fastforce
  qed
qed

text \<open>A superseded epoch stays superseded: no later sequence lets it renew or release.\<close>

lemma superseded_forever:
  assumes "e < l_epoch r"
  shows "\<exists>r'. lease_run decide (Some r) ops = Some r' \<and>
           fst (decide (Some r') (LeaseRenew h n hn ttl e) w) = None \<and>
           fst (decide (Some r') (LeaseRelease h e) w) = None"
proof -
  from run_epoch_mono obtain r' where r': "lease_run decide (Some r) ops = Some r'" "l_epoch r \<le> l_epoch r'"
    by blast
  have "fst (decide (Some r') (LeaseRenew h n hn ttl e) w) = None"
    using renew_writes [of "Some r'" h n hn ttl e w] r'(2) assms
    by (cases "decide (Some r') (LeaseRenew h n hn ttl e) w"; cases "fst (decide (Some r') (LeaseRenew h n hn ttl e) w)") auto
  moreover have "fst (decide (Some r') (LeaseRelease h e) w) = None"
    using release_writes [of "Some r'" h e w] r'(2) assms
    by (cases "decide (Some r') (LeaseRelease h e) w"; cases "fst (decide (Some r') (LeaseRelease h e) w)") auto
  ultimately show ?thesis using r'(1) by blast
qed

end

interpretation cell: lease_cell decideLeaseWrite
proof
  fix live lop w nx res h n hn ttl ex me e
  show "decideLeaseWrite live (LeaseAcquire h n hn ttl ex me) w = (Some nx, res) \<Longrightarrow>
      (case live of None \<Rightarrow> True | Some r \<Rightarrow> l_released r) \<or> ex \<noteq> None \<and> sameLeaseWrite live ex"
    by (auto simp: Let_def split: if_splits option.splits)
  show "decideLeaseWrite live (LeaseAcquire h n hn ttl ex me) w = (Some nx, res) \<Longrightarrow>
      l_holder nx = h \<and> l_node nx = n \<and> l_ttlMs nx = ttl \<and> \<not> l_released nx \<and> me < l_epoch nx
      \<and> (\<forall>r. live = Some r \<longrightarrow> l_epoch r < l_epoch nx)"
    by (auto simp: Let_def split: if_splits)
  show "decideLeaseWrite live (LeaseRenew h n hn ttl e) w = (Some nx, res) \<Longrightarrow>
      \<exists>r. live = Some r \<and> l_holder r = h \<and> l_epoch r = e \<and> \<not> l_released r
        \<and> l_holder nx = h \<and> l_node nx = n \<and> l_epoch nx = e \<and> l_ttlMs nx = ttl \<and> \<not> l_released nx"
    by (cases live) (auto simp: Let_def split: if_splits)
  show "decideLeaseWrite live (LeaseRelease h e) w = (Some nx, res) \<Longrightarrow>
      \<exists>r. live = Some r \<and> l_holder r = h \<and> l_epoch r = e \<and> \<not> l_released r
        \<and> l_holder nx = h \<and> l_node nx = l_node r \<and> l_epoch nx = e \<and> l_ttlMs nx = l_ttlMs r
        \<and> l_released nx"
    by (cases live) (auto simp: Let_def split: if_splits)
  show "decideLeaseWrite live lop w = (Some nx, res) \<Longrightarrow> r_ok res \<and> r_lease res = Some nx"
    by (cases lop) (auto simp: Let_def lease_result_def split: if_splits option.splits)
  show "decideLeaseWrite live lop w = (None, res) \<Longrightarrow> r_lease res = live \<and> (r_ok res \<longrightarrow> is_release lop)"
    by (cases lop) (auto simp: Let_def lease_result_def split: if_splits option.splits)
qed

section \<open>Properties\<close>

text \<open>
  The label round trip: what the agent writes for a record is read back as that record by
  every parser of the label.
\<close>

theorem lease_label_roundtrip:
  assumes "l_holder r \<noteq> []" and "0 \<le> l_renewedAt r" and "0 < l_ttlMs r"
  shows "parseLeaseLabel (Some (leaseJson r)) = Some r"
  using assms
  by (cases r; cases "l_hostname r")
    (auto simp: parseLeaseLabel_def leaseJson_def map_of_entry opt_field_def entry_def)

theorem lease_label_roundtrip_witness:
  "parseLeaseLabel (Some (leaseJson \<lparr>l_holder = ''t1'', l_node = ''n1'', l_hostname = None, l_epoch = 3,
     l_renewedAt = 5, l_ttlMs = 60000, l_released = True\<rparr>))
   = Some \<lparr>l_holder = ''t1'', l_node = ''n1'', l_hostname = None, l_epoch = 3,
     l_renewedAt = 5, l_ttlMs = 60000, l_released = True\<rparr>"
  by (rule lease_label_roundtrip) simp_all

text \<open>
  C2. Epoch fencing. Once the label carries a later epoch, no sequence of lease operations by
  any controllers lets the old epoch renew or release again: both are answered without a write.
\<close>

theorem superseded_epoch_never_writes:
  assumes "e < l_epoch r"
  shows "\<exists>r'. lease_run decideLeaseWrite (Some r) ops = Some r' \<and>
           fst (decideLeaseWrite (Some r') (LeaseRenew h n hn ttl e) w) = None \<and>
           fst (decideLeaseWrite (Some r') (LeaseRelease h e) w) = None"
  by (rule cell.superseded_forever [OF assms])

theorem superseded_epoch_never_writes_witness:
  "\<exists>r'. lease_run decideLeaseWrite (Some \<lparr>l_holder = ''b'', l_node = ''n2'', l_hostname = None, l_epoch = 2,
            l_renewedAt = 5, l_ttlMs = 60000, l_released = False\<rparr>) [(LeaseRelease ''b'' 2, 9)] = Some r' \<and>
          fst (decideLeaseWrite (Some r') (LeaseRenew ''a'' ''n1'' None 60000 1) 10) = None \<and>
          fst (decideLeaseWrite (Some r') (LeaseRelease ''a'' 1) 10) = None"
  by (rule superseded_epoch_never_writes) simp

lemma applyLeaseOp_writes:
  assumes "applyLeaseOp spec lop w outcome again = (effs, res)" and "e \<in> set effs"
  shows "\<exists>nx ans. decideLeaseWrite (parseLeaseLabel (sp_lease spec)) lop w = (Some nx, ans)
     \<and> outcome = Accepted \<and> effs = [SpecWrite (spec\<lparr>sp_lease := Some (leaseJson nx)\<rparr>)] \<and> res = Inr ans"
  using assms
  by (auto simp: applyLeaseOp_def Let_def split: prod.splits option.splits write_outcome.splits)

text \<open>
  The agent's handler for a lease operation: it writes the service at most once, only when
  the decision on the inspected label allows it and Docker accepted the version-checked update;
  it changes nothing of the spec but the lease label; and whenever it reports success of an
  acquire or a renewal, that write was made and the answer carries the record written.
\<close>

theorem lease_handler_writes_label_only:
  assumes "applyControllerService (Some spec) (LeaseOp lop) w nodes sec outcome again = (effs, res)"
  shows "(effs = [] \<or> (\<exists>nx. effs = [SpecWrite (spec\<lparr>sp_lease := Some (leaseJson nx)\<rparr>)]
            \<and> fst (decideLeaseWrite (parseLeaseLabel (sp_lease spec)) lop w) = Some nx \<and> outcome = Accepted))
    \<and> (\<forall>ans. res = Inr ans \<and> r_ok ans \<and> \<not> is_release lop \<longrightarrow>
          (\<exists>nx. effs = [SpecWrite (spec\<lparr>sp_lease := Some (leaseJson nx)\<rparr>)] \<and> r_lease ans = Some nx))"
proof (cases "lbl (sp_labels spec) ''swarmy.system'' = Some ''true''")
  case False
  with assms show ?thesis by (auto simp: applyControllerService_def lease_result_def)
next
  case True
  then have a: "applyLeaseOp spec lop w outcome again = (effs, res)"
    using assms by (simp add: applyControllerService_def)
  obtain nx ans0 where d: "decideLeaseWrite (parseLeaseLabel (sp_lease spec)) lop w = (nx, ans0)" by fastforce
  show ?thesis
  proof (cases nx)
    case None
    with a d cell.unwritten_answer [of "parseLeaseLabel (sp_lease spec)" lop w ans0] show ?thesis
      by (auto simp: applyLeaseOp_def)
  next
    case (Some nx')
    with a d cell.written_answer [of "parseLeaseLabel (sp_lease spec)" lop w nx' ans0] show ?thesis
      by (cases outcome) (auto simp: applyLeaseOp_def Let_def lease_result_def)
  qed
qed

definition demo_spec :: service_spec where
  "demo_spec = \<lparr>sp_labels = [(''swarmy.system'', ''true'')], sp_lease = None, sp_constraints = None,
     sp_secrets = None, sp_rest = JNull\<rparr>"

theorem lease_handler_writes_label_only_witness:
  "\<exists>effs ans nx. applyControllerService (Some demo_spec) (LeaseOp (LeaseAcquire ''t1'' ''n1'' None 60000 None 0)) 5
       [] (\<lambda>_. None) Accepted None = (effs, Inr ans)
     \<and> effs = [SpecWrite (demo_spec\<lparr>sp_lease := Some (leaseJson nx)\<rparr>)] \<and> r_lease ans = Some nx"
proof -
  have "\<exists>effs ans. applyControllerService (Some demo_spec) (LeaseOp (LeaseAcquire ''t1'' ''n1'' None 60000 None 0)) 5
       [] (\<lambda>_. None) Accepted None = (effs, Inr ans) \<and> r_ok ans"
    by (simp add: applyControllerService_def demo_spec_def lbl_def applyLeaseOp_def parseLeaseLabel_def
        lease_result_def Let_def)
  then obtain effs ans where a: "applyControllerService (Some demo_spec) (LeaseOp (LeaseAcquire ''t1'' ''n1'' None 60000 None 0)) 5
       [] (\<lambda>_. None) Accepted None = (effs, Inr ans)" and ok: "r_ok ans" by blast
  from lease_handler_writes_label_only [OF a] ok
  have "\<exists>nx. effs = [SpecWrite (demo_spec\<lparr>sp_lease := Some (leaseJson nx)\<rparr>)] \<and> r_lease ans = Some nx"
    by (metis is_release.simps(2))
  with a show ?thesis by blast
qed

text \<open>
  The handler acts only on a service that carries \<^verbatim>\<open>swarmy.system=true\<close>: for any other
  service, and for any operation, it has no effect at all and answers \<open>NotSystem\<close>.
\<close>

theorem handler_refuses_other_services:
  assumes "lbl (sp_labels spec) ''swarmy.system'' \<noteq> Some ''true''"
  shows "applyControllerService (Some spec) op w nodes sec outcome again
           = ([], Inr (lease_result False None (Some NotSystem)))"
  using assms by (simp add: applyControllerService_def)

theorem handler_refuses_other_services_witness:
  "applyControllerService (Some (demo_spec\<lparr>sp_labels := []\<rparr>)) (Move ''n2'' None) 5 [] (\<lambda>_. None) Accepted None
     = ([], Inr (lease_result False None (Some NotSystem)))"
  by (rule handler_refuses_other_services) (simp add: lbl_def)

lemma squeeze_simps:
  "squeeze CONTROLLER_FLOATING_CONSTRAINT = ''node.role==manager''"
  "squeeze (pinnedConstraint h) = ''node.hostname=='' @ squeeze h"
  by (simp_all add: squeeze_def CONTROLLER_FLOATING_CONSTRAINT_def pinnedConstraint_def js_space_def)

definition controller_owned :: "string \<Rightarrow> bool" where
  "controller_owned c \<longleftrightarrow> isControllerPlacementConstraint c \<or> squeeze c = squeeze CONTROLLER_AVOID_CONSTRAINT"

lemma nextConstraints_eq:
  assumes "nextConstraints cur pl host = Inr cons"
  shows "\<exists>p. cons = p # CONTROLLER_AVOID_CONSTRAINT # filter (\<lambda>c. \<not> controller_owned c) (opt_or cur [])
     \<and> controller_owned p \<and> p = (case pl of Floating \<Rightarrow> CONTROLLER_FLOATING_CONSTRAINT | Pinned \<Rightarrow> pinnedConstraint (the host))"
  using assms
  by (auto simp: nextConstraints_def Let_def controller_owned_def isControllerPlacementConstraint_def
      squeeze_simps js_starts_with_def split: placement.splits option.splits)

text \<open>
  Reconfiguring placement is idempotent and keeps what it does not own: applying the same
  placement to its own result changes nothing, exactly one placement constraint and the avoid
  constraint are set, and every other constraint is kept in its order.
\<close>

theorem placement_idempotent:
  assumes "nextConstraints cur pl host = Inr cons"
  shows "nextConstraints (Some cons) pl host = Inr cons
    \<and> filter (\<lambda>c. \<not> controller_owned c) cons = filter (\<lambda>c. \<not> controller_owned c) (opt_or cur [])
    \<and> length (filter controller_owned cons) = 2"
proof -
  from nextConstraints_eq [OF assms] obtain p where c: "cons = p # CONTROLLER_AVOID_CONSTRAINT
      # filter (\<lambda>c. \<not> controller_owned c) (opt_or cur [])" "controller_owned p" by blast
  have av: "controller_owned CONTROLLER_AVOID_CONSTRAINT" by (simp add: controller_owned_def)
  have k: "filter (\<lambda>c. \<not> controller_owned c) cons = filter (\<lambda>c. \<not> controller_owned c) (opt_or cur [])"
    using c av by simp
  moreover have "filter controller_owned cons = [p, CONTROLLER_AVOID_CONSTRAINT]"
    using c av by (simp add: filter_empty_conv)
  moreover have "nextConstraints (Some cons) pl host = Inr cons"
    using assms k unfolding nextConstraints_def Let_def controller_owned_def
    by (auto simp: opt_or_def split: placement.splits option.splits)
  ultimately show ?thesis by simp
qed

theorem placement_idempotent_witness:
  "nextConstraints (Some [CONTROLLER_FLOATING_CONSTRAINT, CONTROLLER_AVOID_CONSTRAINT, ''node.labels.ssd == true''])
      Floating None
   = Inr [CONTROLLER_FLOATING_CONSTRAINT, CONTROLLER_AVOID_CONSTRAINT, ''node.labels.ssd == true'']"
proof -
  have "nextConstraints (Some [''node.hostname == old'', ''node.labels.ssd == true'']) Floating None
     = Inr [CONTROLLER_FLOATING_CONSTRAINT, CONTROLLER_AVOID_CONSTRAINT, ''node.labels.ssd == true'']"
    by (simp add: nextConstraints_def opt_or_def isControllerPlacementConstraint_def squeeze_def js_space_def
        js_starts_with_def CONTROLLER_AVOID_CONSTRAINT_def CONTROLLER_AVOID_LABEL_def)
  from placement_idempotent [OF this] show ?thesis by blast
qed

interpretation move_cmp: js_comparator "by_key (\<lambda>n. if Some (n_id n) = frm then 1 else 0 :: nat)" for frm
  by (rule js_comparator_by_key)

text \<open>A node's avoid label after the moves' label writes were carried out.\<close>

definition avoid_after :: "(string \<times> bool) list \<Rightarrow> swarm_node \<Rightarrow> string option" where
  "avoid_after writes n =
     (case map_of writes (n_id n) of
        None \<Rightarrow> lbl (n_labels n) CONTROLLER_AVOID_LABEL
      | Some a \<Rightarrow> lbl (setNodeAvoid (n_labels n) a) CONTROLLER_AVOID_LABEL)"

lemma lbl_setNodeAvoid: "lbl (setNodeAvoid l a) CONTROLLER_AVOID_LABEL = (if a then Some ''true'' else None)"
  by (simp add: lbl_def setNodeAvoid_def update_conv' delete_conv')

lemma moveOrder_perm: "mset (moveOrder nodes from) = mset nodes"
  by (simp add: moveOrder_def)

lemma moveLabels_eq: "moveLabels nodes target from = map (\<lambda>n. (n_id n, n_id n \<noteq> target))
    (filter (\<lambda>n. n_role n = ''manager'' \<and>
       (n_id n \<noteq> target) \<noteq> (lbl (n_labels n) CONTROLLER_AVOID_LABEL = Some ''true'')) (moveOrder nodes from))"
  by (simp add: moveLabels_def concat_map_if)

lemma moveLabels_mem:
  "(i, a) \<in> set (moveLabels nodes target from) \<longleftrightarrow>
     (\<exists>n \<in> set nodes. n_id n = i \<and> a = (i \<noteq> target) \<and> n_role n = ''manager''
        \<and> a \<noteq> (lbl (n_labels n) CONTROLLER_AVOID_LABEL = Some ''true''))"
  using mset_eq_setD [OF moveOrder_perm, of nodes "from"] by (auto simp: moveLabels_def)

lemma moveLabels_ids:
  assumes "distinct (map n_id nodes)"
  shows "distinct (map fst (moveLabels nodes target from))"
proof -
  have "mset (map n_id (moveOrder nodes from)) = mset (map n_id nodes)" by (simp add: moveOrder_perm)
  with assms have "distinct (map n_id (moveOrder nodes from))" by (metis mset_eq_imp_distinct_iff)
  then show ?thesis by (simp add: moveLabels_eq comp_def distinct_map_filter)
qed

text \<open>
  A move leaves the controller exactly one place to go: once its label writes are carried
  out, a manager carries the avoid label if and only if it is not the target.
\<close>

theorem move_leaves_only_target:
  assumes "distinct (map n_id nodes)" and "n \<in> set nodes" and "n_role n = ''manager''"
  shows "avoid_after (moveLabels nodes target from) n = Some ''true'' \<longleftrightarrow> n_id n \<noteq> target"
proof (cases "map_of (moveLabels nodes target from) (n_id n)")
  case None
  then have "(n_id n, n_id n \<noteq> target) \<notin> set (moveLabels nodes target from)"
    by (auto simp: map_of_eq_None_iff image_iff)
  with None assms show ?thesis by (auto simp: avoid_after_def moveLabels_mem)
next
  case (Some a)
  then have "a = (n_id n \<noteq> target)" by (auto simp: moveLabels_mem dest: map_of_SomeD)
  with Some show ?thesis by (simp add: avoid_after_def lbl_setNodeAvoid)
qed

definition demo_nodes :: "swarm_node list" where
  "demo_nodes = [\<lparr>n_id = ''a'', n_role = ''manager'', n_availability = None, n_labels = []\<rparr>,
     \<lparr>n_id = ''b'', n_role = ''manager'', n_availability = None, n_labels = [(''swarmy.controller.avoid'', ''true'')]\<rparr>,
     \<lparr>n_id = ''c'', n_role = ''manager'', n_availability = None, n_labels = []\<rparr>]"

theorem move_leaves_only_target_witness:
  "avoid_after (moveLabels demo_nodes ''b'' (Some ''a'')) (demo_nodes ! 0) = Some ''true''
   \<and> avoid_after (moveLabels demo_nodes ''b'' (Some ''a'')) (demo_nodes ! 1) \<noteq> Some ''true''"
proof -
  have d: "distinct (map n_id demo_nodes)" "demo_nodes ! 0 \<in> set demo_nodes" "n_role (demo_nodes ! 0) = ''manager''"
    "demo_nodes ! 1 \<in> set demo_nodes" "n_role (demo_nodes ! 1) = ''manager''"
    "n_id (demo_nodes ! 0) = ''a''" "n_id (demo_nodes ! 1) = ''b''"
    by (simp_all add: demo_nodes_def)
  from move_leaves_only_target [OF d(1-3), of "''b''" "Some ''a''"] move_leaves_only_target [OF d(1,4,5), of "''b''" "Some ''a''"]
  show ?thesis unfolding d(6,7) by simp
qed

text \<open>
  The node the controller runs on is labelled last: nothing is written after it, so a
  restart that its label write causes cannot cut the move short.
\<close>

theorem move_labels_own_node_last:
  assumes "distinct (map n_id nodes)" and "moveLabels nodes target (Some i) = xs @ (i, a) # ys"
  shows "ys = []"
proof -
  let ?k = "\<lambda>n. if Some (n_id n) = Some i then 1 else 0 :: nat"
  have "sorted_wrt (\<lambda>a b. ?k a \<le> ?k b) (moveOrder nodes (Some i))"
    using move_cmp.sorted_js_sort [of "Some i" nodes] unfolding moveOrder_def
    by (rule sorted_wrt_mono_rel [rotated]) (auto simp: by_key_def split: if_splits)
  then have "sorted_wrt (\<lambda>x y. fst x = i \<longrightarrow> fst y = i) (moveLabels nodes target (Some i))"
    unfolding moveLabels_eq sorted_wrt_map
    by (intro sorted_wrt_filter) (erule sorted_wrt_mono_rel [rotated], auto split: if_splits)
  with assms(2) have "\<forall>y \<in> set ys. fst y = i" by (simp add: sorted_wrt_append)
  moreover from moveLabels_ids [OF assms(1), of target "Some i"] assms(2) have "i \<notin> fst ` set ys"
    by (auto simp: image_iff)
  ultimately show ?thesis by (cases ys) auto
qed

theorem move_labels_own_node_last_witness:
  "moveLabels demo_nodes ''b'' (Some ''a'') = [(''b'', False), (''c'', True)] @ (''a'', True) # []"
proof -
  have e: "moveLabels demo_nodes ''b'' (Some ''a'') = [(''b'', False), (''c'', True)] @ [(''a'', True)]"
    by (simp add: moveLabels_def demo_nodes_def moveOrder_def by_key_def lbl_def CONTROLLER_AVOID_LABEL_def)
  have "distinct (map n_id demo_nodes)" by (simp add: demo_nodes_def)
  from move_labels_own_node_last [OF this e] e show ?thesis by simp
qed

end
