(* ===== verification/BootSelect.thy ===== *)
theory BootSelect
  imports Lease
begin

text \<open>
  Restore-on-boot: \<^verbatim>\<open>apps/api/src/controller-store/restore-select.ts\<close>, the part of
  \<^verbatim>\<open>replica.ts\<close> that reads a replica's lineage and the sidecar files, and
  \<^verbatim>\<open>boot.ts\<close>, which carries the decision out.

  A \<^verbatim>\<open>reason\<close> is a value of \<open>boot_reason\<close> that carries what the message interpolates.
  The disk is a record: whether \<^verbatim>\<open>control.db\<close> holds data, the writer marker beside it, and
  the files moved aside. The outcomes of the calls boot makes (the replica reads, the
  Litestream restore, the bundle restore) are arguments of \<open>runBoot\<close>.
\<close>

section \<open>Definitions\<close>

subsection \<open>restore-select.ts\<close>

record writer_marker =
  m_holder :: string
  m_epoch :: nat
  m_node :: "string option"
  m_hostname :: "string option"
  m_at :: "int option"

definition sameWriter :: "writer_marker option \<Rightarrow> writer_marker option \<Rightarrow> bool" where
  "sameWriter a b =
     (case (a, b) of
        (Some x, Some y) \<Rightarrow> m_holder x = m_holder y \<and> m_epoch x = m_epoch y
      | (None, None) \<Rightarrow> True
      | _ \<Rightarrow> False)"

datatype boot_kind = KeepLocal | RestoreReplica | RestoreBundle | Fresh | WaitReplica | Refuse

datatype forced_source = FLocal | FReplica | FBundle | FFresh

record lease_at_start =
  la_epoch :: nat
  la_node :: "string option"
  la_hostname :: "string option"

datatype boot_reason =
    StaleLocal "writer_marker option" "writer_marker option"
  | BehindLease nat lease_at_start
  | UnreachableKeepLocal
  | CurrentLineage
  | OnlyCopy
  | ReplicaHasData
  | UnreachableNoLocal
  | LatestBundle
  | PriorControllerRan
  | FirstBoot
  | ForcedBy forced_source

record boot_decision =
  bd_kind :: boot_kind
  bd_reason :: boot_reason
  bd_moveAside :: bool

record boot_facts =
  f_localExists :: bool
  f_localMarker :: "writer_marker option"
  f_configured :: bool
  f_reachable :: bool
  f_hasData :: bool
  f_replicaMarker :: "writer_marker option"
  f_bundle :: bool
  f_priorController :: bool
  f_lease :: "lease_at_start option"
  f_selfNode :: "string option"
  f_forced :: "forced_source option"
  f_allowFresh :: bool

definition localBehindLease ::
  "writer_marker option \<Rightarrow> lease_at_start option \<Rightarrow> string option \<Rightarrow> boot_reason option" where
  "localBehindLease marker lease selfNode =
     (case lease of
        None \<Rightarrow> None
      | Some l \<Rightarrow>
          (let localEpoch = (case marker of None \<Rightarrow> 0 | Some m \<Rightarrow> m_epoch m)
           in if la_epoch l \<le> localEpoch then None
              else if truthy (la_node l) \<and> truthy selfNode \<and> la_node l = selfNode then None
              else Some (BehindLease localEpoch l)))"

definition forcedDecision :: "boot_facts \<Rightarrow> forced_source \<Rightarrow> boot_decision" where
  "forcedDecision f src =
     (case src of
        FLocal \<Rightarrow> \<lparr>bd_kind = (if f_localExists f then KeepLocal else Fresh),
                   bd_reason = ForcedBy src, bd_moveAside = False\<rparr>
      | FReplica \<Rightarrow> \<lparr>bd_kind = RestoreReplica, bd_reason = ForcedBy src, bd_moveAside = f_localExists f\<rparr>
      | FBundle \<Rightarrow> \<lparr>bd_kind = RestoreBundle, bd_reason = ForcedBy src, bd_moveAside = f_localExists f\<rparr>
      | FFresh \<Rightarrow> \<lparr>bd_kind = Fresh, bd_reason = ForcedBy src, bd_moveAside = f_localExists f\<rparr>)"

definition decision :: "boot_kind \<Rightarrow> boot_reason \<Rightarrow> boot_decision" where
  "decision k r = \<lparr>bd_kind = k, bd_reason = r, bd_moveAside = False\<rparr>"

definition selectBootSource :: "boot_facts \<Rightarrow> boot_decision" where
  "selectBootSource f =
     (case f_forced f of Some src \<Rightarrow> forcedDecision f src
      | None \<Rightarrow>
        (let replicaUsable = (f_configured f \<and> f_reachable f \<and> f_hasData f)
         in if f_localExists f then
              (if replicaUsable \<and> \<not> sameWriter (f_localMarker f) (f_replicaMarker f)
               then \<lparr>bd_kind = RestoreReplica,
                      bd_reason = StaleLocal (f_localMarker f) (f_replicaMarker f),
                      bd_moveAside = True\<rparr>
               else if f_configured f \<and> \<not> f_reachable f
               then (case localBehindLease (f_localMarker f) (f_lease f) (f_selfNode f) of
                       Some r \<Rightarrow> decision WaitReplica r
                     | None \<Rightarrow> decision KeepLocal UnreachableKeepLocal)
               else decision KeepLocal (if replicaUsable then CurrentLineage else OnlyCopy))
            else if replicaUsable then decision RestoreReplica ReplicaHasData
            else if f_configured f \<and> \<not> f_reachable f then decision WaitReplica UnreachableNoLocal
            else if f_bundle f then decision RestoreBundle LatestBundle
            else if f_priorController f \<and> \<not> f_allowFresh f then decision Refuse PriorControllerRan
            else decision Fresh FirstBoot))"

datatype precheck = PrecheckOk
  | WriterChanged "writer_marker option" "writer_marker option"
  | ReplicaAdvanced nat nat

definition replicationPrecheck ::
  "writer_marker option \<Rightarrow> nat \<Rightarrow> writer_marker option \<Rightarrow> nat \<Rightarrow> precheck" where
  "replicationPrecheck bootMarker bootHead nowMarker nowHead =
     (if \<not> sameWriter bootMarker nowMarker then WriterChanged bootMarker nowMarker
      else if bootHead < nowHead then ReplicaAdvanced bootHead nowHead
      else PrecheckOk)"

subsection \<open>replica.ts\<close>

record replica_state =
  rs_reachable :: bool
  rs_hasData :: bool
  rs_headTxid :: nat
  rs_marker :: "writer_marker option"

definition is_decimal :: "char \<Rightarrow> bool" where
  "is_decimal c = (CHR ''0'' \<le> c \<and> c \<le> CHR ''9'')"

definition is_lower_hex :: "char \<Rightarrow> bool" where
  "is_lower_hex c = (is_decimal c \<or> CHR ''a'' \<le> c \<and> c \<le> CHR ''f'')"

text \<open>
  \<^verbatim>\<open>LTX_RE\<close>: the key ends in a level of decimal digits, a slash, two 16-digit hexadecimal
  TXIDs joined by a dash, and \<^verbatim>\<open>.ltx\<close>; the level has a slash before it (the optional
  \<^verbatim>\<open>ltx/\<close> group is itself preceded by one, so it changes no match). The result is the
  second TXID.
\<close>

definition ltx_max :: "string \<Rightarrow> string option" where
  "ltx_max k =
     (case rev (js_split (CHR ''/'') k) of
        f # level # _ # _ \<Rightarrow>
          (let mn = take 16 f; mx = take 16 (drop 17 f)
           in if level \<noteq> [] \<and> list_all is_decimal level
                 \<and> length f = 37 \<and> list_all is_lower_hex mn \<and> f ! 16 = CHR ''-''
                 \<and> list_all is_lower_hex mx \<and> drop 33 f = ''.ltx''
              then Some mx else None)
      | _ \<Rightarrow> None)"

definition headTxidFromKeys :: "string list \<Rightarrow> nat" where
  "headTxidFromKeys keys =
     fold (\<lambda>k head. case ltx_max k of None \<Rightarrow> head
                    | Some m \<Rightarrow> if head < hex_value m then hex_value m else head) keys 0"

text \<open>
  \<^verbatim>\<open>readReplicaState\<close>: \<open>pages\<close> is what the listing returned, page by page (\<open>None\<close> a thrown
  request), and \<open>marker\<close> the marker object (\<open>None\<close> a thrown read).
\<close>

definition replica_error :: replica_state where
  "replica_error = \<lparr>rs_reachable = False, rs_hasData = False, rs_headTxid = 0, rs_marker = None\<rparr>"

definition readReplicaState ::
  "string list option list \<Rightarrow> writer_marker option option \<Rightarrow> replica_state" where
  "readReplicaState pages marker =
     (if None \<in> set pages then replica_error
      else case marker of
             None \<Rightarrow> replica_error
           | Some m \<Rightarrow>
               (let headTxid = headTxidFromKeys (concat (map the pages))
                in \<lparr>rs_reachable = True, rs_hasData = (0 < headTxid), rs_headTxid = headTxid,
                    rs_marker = m\<rparr>))"

record disk =
  dk_db :: bool
  dk_marker :: "writer_marker option"
  dk_aside :: nat

text \<open>\<^verbatim>\<open>clearSidecarFiles\<close> removes the WAL, the Litestream meta directory and the marker.\<close>

definition clearSidecarFiles :: "disk \<Rightarrow> disk" where
  "clearSidecarFiles d = d\<lparr>dk_marker := None\<rparr>"

definition moveAsideLocal :: "disk \<Rightarrow> disk" where
  "moveAsideLocal d =
     (if dk_db d then clearSidecarFiles (d\<lparr>dk_db := False, dk_aside := dk_aside d + 1\<rparr>) else d)"

definition writeLocalMarker :: "writer_marker \<Rightarrow> disk \<Rightarrow> disk" where
  "writeLocalMarker m d = d\<lparr>dk_marker := Some m\<rparr>"

subsection \<open>boot.ts\<close>

text \<open>The first reachable answer of at most \<open>n\<close> reads, else the last one.\<close>

fun readReplicaWithRetry :: "nat \<Rightarrow> replica_state list \<Rightarrow> replica_state" where
  "readReplicaWithRetry 0 rs = replica_error"
| "readReplicaWithRetry (Suc n) [] = replica_error"
| "readReplicaWithRetry (Suc n) (r # rs) =
     (if rs_reachable r \<or> n = 0 \<or> rs = [] then r else readReplicaWithRetry n rs)"

record boot_report =
  br_decision :: boot_decision
  br_expectMarker :: "writer_marker option"
  br_bootHeadTxid :: "nat option"
  br_replicaConfigured :: bool

record boot_env =
  be_replica :: bool
  be_bundle :: bool
  be_leaseAtStartSet :: bool
  be_lease :: "lease_at_start option"
  be_selfNode :: string
  be_allowFresh :: bool
  be_forced :: "forced_source option"

definition boot_facts_of :: "boot_env \<Rightarrow> disk \<Rightarrow> replica_state option \<Rightarrow> boot_facts" where
  "boot_facts_of e d rep =
     \<lparr>f_localExists = dk_db d, f_localMarker = dk_marker d,
      f_configured = be_replica e,
      f_reachable = (case rep of None \<Rightarrow> False | Some r \<Rightarrow> rs_reachable r),
      f_hasData = (case rep of None \<Rightarrow> False | Some r \<Rightarrow> rs_hasData r),
      f_replicaMarker = (case rep of None \<Rightarrow> None | Some r \<Rightarrow> rs_marker r),
      f_bundle = be_bundle e,
      f_priorController = (be_leaseAtStartSet e \<or> dk_marker d \<noteq> None
         \<or> (case rep of None \<Rightarrow> False | Some r \<Rightarrow> rs_marker r \<noteq> None)),
      f_lease = be_lease e, f_selfNode = Some (be_selfNode e),
      f_forced = be_forced e, f_allowFresh = be_allowFresh e\<rparr>"

datatype boot_error = NoReplicaTarget | NoBundleSource | RestoreFailed

text \<open>
  \<^verbatim>\<open>runBoot\<close>: the exit code, the disk it leaves and the report it writes; \<open>Inl\<close> where it
  throws. \<open>restored\<close> is the outcome of the Litestream restore (\<open>None\<close> it threw,
  \<open>Some False\<close> the replica turned out empty), \<open>after\<close> the replica read again after it,
  \<open>bundleOk\<close> the outcome of the bundle restore.
\<close>

definition runBoot ::
  "boot_env \<Rightarrow> disk \<Rightarrow> replica_state list \<Rightarrow> bool option \<Rightarrow> replica_state \<Rightarrow> bool
     \<Rightarrow> boot_error + (nat \<times> disk \<times> boot_report option)" where
  "runBoot e d reads restored after bundleOk =
     (let rep = (if be_replica e then Some (readReplicaWithRetry (if dk_db d then 5 else 10) reads) else None);
          dec = selectBootSource (boot_facts_of e d rep);
          head0 = (case rep of None \<Rightarrow> None | Some r \<Rightarrow> if rs_reachable r then Some (rs_headTxid r) else None);
          repMarker = (case rep of None \<Rightarrow> None | Some r \<Rightarrow> rs_marker r);
          report = (\<lambda>m h. Some \<lparr>br_decision = dec, br_expectMarker = m, br_bootHeadTxid = h,
                               br_replicaConfigured = be_replica e\<rparr>);
          d1 = (if bd_moveAside dec then moveAsideLocal d else d)
      in case bd_kind dec of
           Refuse \<Rightarrow> Inr (1, d, None)
         | WaitReplica \<Rightarrow> Inr (75, d, report (dk_marker d) None)
         | KeepLocal \<Rightarrow>
             Inr (0, d, report (dk_marker d)
                     (if (case rep of None \<Rightarrow> True | Some r \<Rightarrow> \<not> rs_reachable r) then None else head0))
         | Fresh \<Rightarrow> Inr (0, d1, report repMarker head0)
         | RestoreReplica \<Rightarrow>
             if \<not> be_replica e then Inl NoReplicaTarget
             else (case restored of
                     None \<Rightarrow> Inl RestoreFailed
                   | Some ok \<Rightarrow>
                       (let expect = (case rs_marker after of None \<Rightarrow> repMarker | Some m \<Rightarrow> Some m);
                            head = (if rs_reachable after then Some (rs_headTxid after)
                                    else map_option rs_headTxid rep);
                            d2 = d1\<lparr>dk_db := ok\<rparr>;
                            d3 = (case expect of None \<Rightarrow> d2 | Some m \<Rightarrow> writeLocalMarker m d2)
                        in Inr (0, d3, report expect head)))
         | RestoreBundle \<Rightarrow>
             if \<not> be_bundle e then Inl NoBundleSource
             else if \<not> bundleOk then Inl RestoreFailed
             else Inr (0, (clearSidecarFiles d1)\<lparr>dk_db := True\<rparr>, report repMarker head0))"

section \<open>Properties\<close>

lemmas select_defs = selectBootSource_def forcedDecision_def decision_def Let_def

definition demo_facts :: boot_facts where
  "demo_facts = \<lparr>f_localExists = False, f_localMarker = None, f_configured = True, f_reachable = True,
     f_hasData = False, f_replicaMarker = None, f_bundle = False, f_priorController = False, f_lease = None,
     f_selfNode = Some ''n1'', f_forced = None, f_allowFresh = False\<rparr>"

text \<open>
  Without an operator's override the controller starts empty only when nothing can be lost:
  there is no local file, no replica that holds data or cannot be asked, no bundle, and either
  no controller ran before or starting fresh was allowed.
\<close>

theorem fresh_only_when_nothing_to_lose:
  assumes "f_forced f = None" and "bd_kind (selectBootSource f) = Fresh"
  shows "\<not> f_localExists f \<and> (f_configured f \<longrightarrow> f_reachable f \<and> \<not> f_hasData f) \<and> \<not> f_bundle f
     \<and> (f_priorController f \<longrightarrow> f_allowFresh f)"
  using assms by (auto simp: select_defs split: if_splits option.splits)

theorem fresh_only_when_nothing_to_lose_witness:
  "bd_kind (selectBootSource demo_facts) = Fresh \<and> \<not> f_hasData demo_facts \<and> \<not> f_bundle demo_facts"
proof -
  have "f_forced demo_facts = None" "bd_kind (selectBootSource demo_facts) = Fresh" "f_configured demo_facts"
    by (simp_all add: demo_facts_def select_defs)
  with fresh_only_when_nothing_to_lose [OF this(1,2)] show ?thesis by blast
qed

text \<open>
  A stale file is never served. If the local file is kept without an override while a
  replica is configured, then either the replica holds no data, or both were last written by
  the same writer, or the replica cannot be asked and the lease in raft proves no later epoch
  on another node.
\<close>

theorem kept_file_is_current:
  assumes "f_forced f = None" and "bd_kind (selectBootSource f) = KeepLocal" and "f_configured f"
  shows "f_localExists f \<and>
     (if f_reachable f then f_hasData f \<longrightarrow> sameWriter (f_localMarker f) (f_replicaMarker f)
      else \<forall>l. f_lease f = Some l \<longrightarrow> la_epoch l \<le> (case f_localMarker f of None \<Rightarrow> 0 | Some m \<Rightarrow> m_epoch m)
             \<or> la_node l = f_selfNode f)"
  using assms by (auto simp: select_defs localBehindLease_def split: if_splits option.splits)

theorem kept_file_is_current_witness:
  "let m = \<lparr>m_holder = ''t1'', m_epoch = 4, m_node = None, m_hostname = None, m_at = None\<rparr>;
       f = demo_facts\<lparr>f_localExists := True, f_hasData := True, f_localMarker := Some m, f_replicaMarker := Some m\<rparr>
   in bd_kind (selectBootSource f) = KeepLocal \<and> sameWriter (f_localMarker f) (f_replicaMarker f)"
proof -
  let ?m = "\<lparr>m_holder = ''t1'', m_epoch = 4, m_node = None, m_hostname = None, m_at = None\<rparr>"
  let ?f = "demo_facts\<lparr>f_localExists := True, f_hasData := True, f_localMarker := Some ?m, f_replicaMarker := Some ?m\<rparr>"
  have "f_forced ?f = None" "bd_kind (selectBootSource ?f) = KeepLocal" "f_configured ?f"
    by (simp_all add: demo_facts_def select_defs sameWriter_def)
  from kept_file_is_current [OF this] this show ?thesis by (simp add: demo_facts_def)
qed

lemma overwriting_decision_moves_aside:
  assumes "f_localExists f" and "bd_kind (selectBootSource f) \<in> {RestoreReplica, RestoreBundle, Fresh}"
  shows "bd_moveAside (selectBootSource f)"
  using assms by (auto simp: select_defs split: if_splits option.splits forced_source.splits)

lemma moveAside_counts: "dk_db d \<Longrightarrow> dk_aside (moveAsideLocal d) = dk_aside d + 1"
  by (simp add: moveAsideLocal_def clearSidecarFiles_def)


definition demo_env :: boot_env where
  "demo_env = \<lparr>be_replica = True, be_bundle = False, be_leaseAtStartSet = False, be_lease = None,
     be_selfNode = ''n1'', be_allowFresh = False, be_forced = None\<rparr>"


lemma headTxid_fold:
  "fold (\<lambda>k head. case ltx_max k of None \<Rightarrow> head | Some m \<Rightarrow> if head < hex_value m then hex_value m else head) keys h
     = Max (insert h {hex_value m | m. Some m \<in> ltx_max ` set keys})"
proof (induction keys arbitrary: h)
  case Nil
  then show ?case by simp
next
  case (Cons k keys)
  let ?S = "\<lambda>ks. {hex_value m | m. Some m \<in> ltx_max ` set ks}"
  have fin: "finite (?S ks)" for ks
  proof (rule finite_subset)
    show "?S ks \<subseteq> (\<lambda>k. hex_value (the (ltx_max k))) ` set ks"
    proof
      fix v
      assume "v \<in> ?S ks"
      then obtain k m where "k \<in> set ks" "Some m = ltx_max k" "v = hex_value m" by auto
      then show "v \<in> (\<lambda>k. hex_value (the (ltx_max k))) ` set ks" by (metis imageI option.sel)
    qed
  qed simp
  show ?case
  proof (cases "ltx_max k")
    case None
    then have "?S (k # keys) = ?S keys" by auto
    with None Cons show ?thesis by simp
  next
    case (Some m)
    then have S: "?S (k # keys) = insert (hex_value m) (?S keys)" by (auto simp: image_iff)
    have "fold (\<lambda>k head. case ltx_max k of None \<Rightarrow> head | Some m \<Rightarrow> if head < hex_value m then hex_value m else head) (k # keys) h
       = Max (insert (max h (hex_value m)) (?S keys))"
    proof -
      have "max h (hex_value m) = (if h < hex_value m then hex_value m else h)" by simp
      with Some Cons.IH show ?thesis by simp
    qed
    also have "\<dots> = Max (insert h (insert (hex_value m) (?S keys)))"
      using fin by (cases "?S keys = {}") (simp_all add: max.assoc)
    finally show ?thesis unfolding S .
  qed
qed

text \<open>
  The head of a replica is the largest upper TXID of any LTX key listed, over every page
  and in whatever order the listing returns them (zero when there is none), and the replica
  counts as holding data exactly when that head is past zero.
\<close>

theorem replica_head_is_max:
  assumes "\<And>p. p \<in> set pages \<Longrightarrow> p \<noteq> None"
  shows "let rs = readReplicaState pages (Some mk) in
     rs_reachable rs \<and> rs_marker rs = mk \<and> rs_hasData rs = (0 < rs_headTxid rs)
     \<and> rs_headTxid rs = Max (insert 0 {hex_value m | m. \<exists>p \<in> set pages. Some m \<in> ltx_max ` set (the p)})"
proof -
  have "None \<notin> set pages" using assms by blast
  moreover have "{hex_value m | m. Some m \<in> ltx_max ` set (concat (map the pages))}
      = {hex_value m | m. \<exists>p \<in> set pages. Some m \<in> ltx_max ` set (the p)}" by auto
  ultimately show ?thesis by (simp add: readReplicaState_def headTxidFromKeys_def headTxid_fold Let_def)
qed

theorem replica_head_is_max_witness:
  "rs_headTxid (readReplicaState [Some [''db/0/0000000000000001-000000000000001f.ltx''], Some [''db/marker.json'']] (Some None)) = 31"
proof -
  let ?pages = "[Some [''db/0/0000000000000001-000000000000001f.ltx''], Some [''db/marker.json'']]"
  have k: "ltx_max ''db/0/0000000000000001-000000000000001f.ltx'' = Some ''000000000000001f''"
    "ltx_max ''db/marker.json'' = None" "hex_value ''000000000000001f'' = 31" by code_simp+
  have "{hex_value m | m. \<exists>p \<in> set ?pages. Some m \<in> ltx_max ` set (the p)} = {31}"
    by (auto simp: k)
  with replica_head_is_max [of ?pages None] show ?thesis by (auto simp: Let_def)
qed

end
