(* ===== verification/Supervisor.thy ===== *)
theory Supervisor
  imports BootSelect
begin

text \<open>
  The controller store at runtime: the class \<^verbatim>\<open>ControllerStore\<close> of
  \<^verbatim>\<open>apps/api/src/controller-store/supervisor.ts\<close>, as a state machine.

  Each method is split at its \<^verbatim>\<open>await\<close>s: a handler runs the code up to the next await and
  returns the new state and the effects it had, in order. The state's \<open>st_await\<close> is the
  lease call a suspended \<^verbatim>\<open>acquireTick\<close> or \<^verbatim>\<open>renewTick\<close> waits for, with what the rest of the
  method needs: when the call was sent and, inside the renewal loop, the managers not yet
  tried. A call that failed answers \<open>None\<close> after \<open>callFailed\<close> ran; one that was answered
  passes \<open>callAnswered\<close> first. Log lines are left out; \<^verbatim>\<open>waitingFor\<close> and
  \<^verbatim>\<open>replicationBlocked\<close> carry what their messages interpolate.
\<close>

section \<open>Definitions\<close>

datatype role = Standalone | Acquiring | Leader | Fenced | Stopping

datatype waiting =
    WaitingManager
  | WaitingHolder lease_record int
  | WaitingCall string

datatype awaiting =
    AwaitNone
  | AwaitAcquire string int
  | AwaitRenew int "string list" string
  | AwaitReacquire int "string list" string

datatype timer = AcquireTimer | RenewTimer | WatchdogTimer

record store_conf =
  c_taskId :: string
  c_nodeId :: string
  c_hostname :: string
  c_replica :: bool
  c_leaseEnabled :: bool
  c_boot :: "boot_report option"

record store =
  st_role :: role
  st_epoch :: "nat option"
  st_lease :: "lease_record option"
  st_obs :: "lease_observation option"
  st_lastOk :: int
  st_waitingFor :: "waiting option"
  st_blocked :: bool
  st_litestream :: bool
  st_workers :: bool
  st_timers :: "timer list"
  st_timeouts :: nat
  st_acquiring :: bool
  st_renewing :: bool
  st_retryTimer :: bool
  st_silenceWarned :: bool
  st_await :: awaiting
  st_marker :: "writer_marker option"

datatype eff =
    Call string cs_op int
  | StartWorkers
  | StopWorkers
  | ReadReplica
  | RetryReplicationIn int
  | WriteLocalMarker writer_marker
  | WriteReplicaMarker writer_marker
  | Pragma string
  | LitestreamStart
  | LitestreamStop
  | LitestreamKill
  | Exit nat

definition init_store :: "writer_marker option \<Rightarrow> store" where
  "init_store marker =
     \<lparr>st_role = Acquiring, st_epoch = None, st_lease = None, st_obs = None, st_lastOk = 0,
      st_waitingFor = None, st_blocked = False, st_litestream = False, st_workers = False,
      st_timers = [], st_timeouts = 0, st_acquiring = False, st_renewing = False,
      st_retryTimer = False, st_silenceWarned = False, st_await = AwaitNone, st_marker = marker\<rparr>"

definition store_self :: "store_conf \<Rightarrow> lease_self" where
  "store_self cf = \<lparr>self_holder = c_taskId cf, self_node = c_nodeId cf\<rparr>"

definition acquireOp :: "store_conf \<Rightarrow> lease_record option \<Rightarrow> nat \<Rightarrow> lease_op" where
  "acquireOp cf expect minE =
     LeaseAcquire (c_taskId cf) (c_nodeId cf) (Some (c_hostname cf)) LEASE_TTL_MS expect minE"

definition renewOp :: "store_conf \<Rightarrow> nat \<Rightarrow> lease_op" where
  "renewOp cf e = LeaseRenew (c_taskId cf) (c_nodeId cf) (Some (c_hostname cf)) LEASE_TTL_MS e"

definition call_timeout :: int where "call_timeout = 8000"

subsection \<open>Replication\<close>

definition startReplication :: "store_conf \<Rightarrow> store \<Rightarrow> store \<times> eff list" where
  "startReplication cf st =
     (if \<not> c_replica cf \<or> st_litestream st then (st, []) else (st, [ReadReplica]))"

definition isWriter :: "store \<Rightarrow> bool" where
  "isWriter st = (st_role st = Leader \<or> st_role st = Standalone)"

text \<open>
  \<^verbatim>\<open>shutdown\<close> up to its last awaits: writes stop, Litestream ships what is left. What follows
  is \<open>shutdownRelease\<close>.
\<close>

definition shutdown :: "nat \<Rightarrow> store \<Rightarrow> store \<times> eff list" where
  "shutdown code st =
     (if st_role st = Stopping \<or> st_role st = Fenced then (st, [Exit code])
      else (st\<lparr>st_role := Stopping, st_timers := [], st_retryTimer := False\<rparr>,
            (if st_workers st then [StopWorkers] else [])
            @ [Pragma ''query_only=1'']
            @ (if st_litestream st then [LitestreamStop] else [])))"

definition shutdownRelease ::
  "store_conf \<Rightarrow> bool \<Rightarrow> string list \<Rightarrow> nat \<Rightarrow> store \<Rightarrow> eff list" where
  "shutdownRelease cf wasLeader managers code st =
     (case (wasLeader, st_epoch st, managers) of
        (True, Some e, node # _) \<Rightarrow>
          [Call node (LeaseOp (LeaseRelease (c_taskId cf) e)) 5000, Exit code]
      | _ \<Rightarrow> [Exit code])"

text \<open>The rest of \<^verbatim>\<open>startReplication\<close> once the replica has been read (\<open>wall\<close> is \<^verbatim>\<open>Date.now()\<close>).\<close>

definition replicationResume ::
  "store_conf \<Rightarrow> replica_state \<Rightarrow> int \<Rightarrow> store \<Rightarrow> store \<times> eff list" where
  "replicationResume cf rep wall st =
     (if \<not> rs_reachable rep
      then (st\<lparr>st_blocked := True\<rparr>, [RetryReplicationIn 15000])
      else
        (let expected = (case c_boot cf of
                           None \<Rightarrow> st_marker st
                         | Some b \<Rightarrow> (case br_expectMarker b of None \<Rightarrow> st_marker st | Some m \<Rightarrow> Some m));
             bootHead = (case c_boot cf of
                           None \<Rightarrow> rs_headTxid rep
                         | Some b \<Rightarrow> opt_or (br_bootHeadTxid b) (rs_headTxid rep))
         in if replicationPrecheck expected bootHead (rs_marker rep) (rs_headTxid rep) \<noteq> PrecheckOk
            then shutdown 75 st
            else
              (let m = \<lparr>m_holder = c_taskId cf, m_epoch = opt_or (st_epoch st) 0,
                        m_node = Some (c_nodeId cf), m_hostname = Some (c_hostname cf),
                        m_at = Some wall\<rparr>
               in (st\<lparr>st_marker := Some m, st_litestream := True, st_blocked := False\<rparr>,
                   [WriteLocalMarker m, WriteReplicaMarker m, Pragma ''wal_autocheckpoint=0'',
                    LitestreamStart]))))"

subsection \<open>Acquiring\<close>

definition becomeWriter :: "store_conf \<Rightarrow> store \<Rightarrow> store \<times> eff list" where
  "becomeWriter cf st =
     (if st_workers st then (st, [])
      else (let st' = st\<lparr>st_workers := True\<rparr>
            in if st_role st = Standalone \<and> c_replica cf
               then (case startReplication cf st' of (st'', es) \<Rightarrow> (st'', StartWorkers # es))
               else (st', [StartWorkers])))"

definition onAcquired :: "store_conf \<Rightarrow> string \<Rightarrow> store \<Rightarrow> store \<times> eff list" where
  "onAcquired cf node st =
     (let st1 = st\<lparr>st_role := Leader, st_waitingFor := None,
                   st_timers := [RenewTimer, WatchdogTimer]\<rparr>;
          (st2, es2) = becomeWriter cf st1;
          (st3, es3) = startReplication cf st2
      in (st3, Call node MoveClear call_timeout # es2 @ es3))"

definition acquireTick :: "store_conf \<Rightarrow> string list \<Rightarrow> int \<Rightarrow> store \<Rightarrow> store \<times> eff list" where
  "acquireTick cf managers now st =
     (if st_role st \<noteq> Acquiring \<or> st_acquiring st then (st, [])
      else (case managers of
              [] \<Rightarrow> (st\<lparr>st_waitingFor := Some WaitingManager\<rparr>, [])
            | node # _ \<Rightarrow>
                (let floor = minEpoch [map_option m_epoch (st_marker st),
                               Option.bind (Option.bind (c_boot cf) br_expectMarker) (\<lambda>m. Some (m_epoch m))];
                     d = map_option (\<lambda>obs. takeoverDecision obs (store_self cf) now) (st_obs st);
                     expect = (case d of Some (Take r w) \<Rightarrow> r | _ \<Rightarrow> None);
                     st' = (case d of Some (Wait ms r) \<Rightarrow> st\<lparr>st_waitingFor := Some (WaitingHolder r ms)\<rparr>
                            | _ \<Rightarrow> st)
                 in (st'\<lparr>st_acquiring := True, st_await := AwaitAcquire node now\<rparr>,
                     [Call node (LeaseOp (acquireOp cf expect floor)) call_timeout]))))"

text \<open>The bookkeeping of \<^verbatim>\<open>call\<close> around a dispatch that answered or threw.\<close>

definition callAnswered :: "store \<Rightarrow> store" where
  "callAnswered st = st\<lparr>st_timeouts := 0\<rparr>"

definition callFailed :: "store_conf \<Rightarrow> bool \<Rightarrow> string \<Rightarrow> store \<Rightarrow> store \<times> eff list" where
  "callFailed cf isTimeout msg st =
     (let st1 = (if isTimeout then st\<lparr>st_timeouts := st_timeouts st + 1\<rparr> else st)
      in if st_role st1 = Acquiring
         then (let st2 = st1\<lparr>st_waitingFor := Some (WaitingCall msg)\<rparr>
               in if 4 \<le> st_timeouts st2 \<and> \<not> c_replica cf
                  then becomeWriter cf (st2\<lparr>st_role := Standalone, st_timers := []\<rparr>)
                  else (st2, []))
         else (st1, []))"

definition acquireResume ::
  "store_conf \<Rightarrow> string \<Rightarrow> int \<Rightarrow> cs_result option \<Rightarrow> int \<Rightarrow> store \<Rightarrow> store \<times> eff list" where
  "acquireResume cf node sentAt res now st =
     (let st0 = st\<lparr>st_await := AwaitNone, st_acquiring := False\<rparr>
      in case res of
           None \<Rightarrow> (st0, [])
         | Some x \<Rightarrow>
             (case r_lease x of
                Some l \<Rightarrow>
                  if r_ok x \<and> l_holder l = c_taskId cf
                  then onAcquired cf node
                         (st0\<lparr>st_lastOk := sentAt, st_lease := Some l, st_epoch := Some (l_epoch l)\<rparr>)
                  else (st0\<lparr>st_obs := Some (observe (st_obs st0) (Some l) now)\<rparr>, [])
              | None \<Rightarrow> (st0\<lparr>st_obs := Some (observe (st_obs st0) None now)\<rparr>, [])))"

definition start :: "store_conf \<Rightarrow> string list \<Rightarrow> int \<Rightarrow> store \<Rightarrow> store \<times> eff list" where
  "start cf managers now st =
     (if \<not> c_leaseEnabled cf then becomeWriter cf (st\<lparr>st_role := Standalone\<rparr>)
      else (case acquireTick cf managers now st of
              (st', es) \<Rightarrow> (st'\<lparr>st_timers := st_timers st' @ [AcquireTimer]\<rparr>, es)))"

subsection \<open>Leading\<close>

definition fence :: "store \<Rightarrow> store \<times> eff list" where
  "fence st =
     (st\<lparr>st_role := Fenced\<rparr>,
      (if st_litestream st then [LitestreamKill] else []) @ [Pragma ''query_only=1'', Exit 70])"

definition confirmed :: "int \<Rightarrow> lease_record \<Rightarrow> store \<Rightarrow> store" where
  "confirmed sentAt l st =
     st\<lparr>st_lastOk := sentAt, st_lease := Some l,
        st_epoch := (case st_epoch st of
                       None \<Rightarrow> Some (l_epoch l)
                     | Some e \<Rightarrow> if e < l_epoch l then Some (l_epoch l) else Some e),
        st_silenceWarned := False\<rparr>"

text \<open>The renewal loop: the next manager is asked, or the tick ends with a retry timer.\<close>

definition renewNext :: "store_conf \<Rightarrow> string list \<Rightarrow> int \<Rightarrow> store \<Rightarrow> store \<times> eff list" where
  "renewNext cf managers now st =
     (case managers of
        [] \<Rightarrow> (st\<lparr>st_retryTimer := True, st_renewing := False, st_await := AwaitNone\<rparr>, [])
      | node # rest \<Rightarrow>
          (st\<lparr>st_await := AwaitRenew now rest node\<rparr>,
           [Call node (LeaseOp (renewOp cf (opt_or (st_epoch st) 0))) call_timeout]))"

definition renewTick :: "store_conf \<Rightarrow> string list \<Rightarrow> int \<Rightarrow> store \<Rightarrow> store \<times> eff list" where
  "renewTick cf managers now st =
     (if st_role st \<noteq> Leader \<or> st_renewing st \<or> st_epoch st = None then (st, [])
      else renewNext cf managers now (st\<lparr>st_renewing := True, st_retryTimer := False\<rparr>))"

definition renewDone :: "store \<Rightarrow> store" where
  "renewDone st = st\<lparr>st_renewing := False, st_await := AwaitNone\<rparr>"

definition renewResume ::
  "store_conf \<Rightarrow> int \<Rightarrow> string list \<Rightarrow> string \<Rightarrow> cs_result option \<Rightarrow> int \<Rightarrow> store \<Rightarrow> store \<times> eff list" where
  "renewResume cf sentAt rest node res now st =
     (case renewalVerdict res (store_self cf) of
        VHeld l \<Rightarrow> (renewDone (confirmed sentAt l st), [])
      | VLost l \<Rightarrow> fence (renewDone st)
      | VFree l \<Rightarrow>
          (st\<lparr>st_await := AwaitReacquire sentAt rest node\<rparr>,
           [Call node (LeaseOp (acquireOp cf l (opt_or (st_epoch st) 0))) call_timeout])
      | VUnknown \<Rightarrow> renewNext cf rest now st)"

definition reacquireResume ::
  "store_conf \<Rightarrow> int \<Rightarrow> string list \<Rightarrow> cs_result option \<Rightarrow> int \<Rightarrow> store \<Rightarrow> store \<times> eff list" where
  "reacquireResume cf sentAt rest res now st =
     (case renewalVerdict res (store_self cf) of
        VHeld l \<Rightarrow> (renewDone (confirmed sentAt l st), [])
      | VLost l \<Rightarrow> fence (renewDone st)
      | _ \<Rightarrow> renewNext cf rest now st)"

definition watchdog :: "nat option \<Rightarrow> int \<Rightarrow> store \<Rightarrow> store \<times> eff list" where
  "watchdog managers now st =
     (if st_role st \<noteq> Leader then (st, [])
      else if fenceOnSilence now (st_lastOk st) managers then fence st
      else if managers = Some 1 \<and> \<not> st_silenceWarned st \<and> LEASE_TTL_MS < now - st_lastOk st
           then (st\<lparr>st_silenceWarned := True\<rparr>, [])
           else (st, []))"

text \<open>The suspended method resumes with the answer of the call it waits for.\<close>

definition resume :: "store_conf \<Rightarrow> cs_result option \<Rightarrow> int \<Rightarrow> store \<Rightarrow> store \<times> eff list" where
  "resume cf res now st =
     (case st_await st of
        AwaitNone \<Rightarrow> (st, [])
      | AwaitAcquire node sentAt \<Rightarrow> acquireResume cf node sentAt res now st
      | AwaitRenew sentAt rest node \<Rightarrow> renewResume cf sentAt rest node res now st
      | AwaitReacquire sentAt rest node \<Rightarrow> reacquireResume cf sentAt rest res now st)"

text \<open>
  Every way the store's code runs: a timer, the answer or the failure of a call, the replica
  read, the signal to stop. The failure of a call first runs the catch block of \<^verbatim>\<open>call\<close>.
\<close>

inductive store_step :: "store_conf \<Rightarrow> store \<Rightarrow> store \<Rightarrow> eff list \<Rightarrow> bool" for cf where
  starts: "start cf ms now st = (st', es) \<Longrightarrow> store_step cf st st' es"
| acquires: "acquireTick cf ms now st = (st', es) \<Longrightarrow> store_step cf st st' es"
| renews: "renewTick cf ms now st = (st', es) \<Longrightarrow> store_step cf st st' es"
| watches: "watchdog mc now st = (st', es) \<Longrightarrow> store_step cf st st' es"
| answers: "resume cf (Some res) now (callAnswered st) = (st', es) \<Longrightarrow> store_step cf st st' es"
| fails: "callFailed cf tmo e st = (st1, es1) \<Longrightarrow> resume cf None now st1 = (st', es) \<Longrightarrow>
     store_step cf st st' (es1 @ es)"
| replica_read: "replicationResume cf rep wall st = (st', es) \<Longrightarrow> store_step cf st st' es"
| stops: "shutdown code st = (st', es) \<Longrightarrow> store_step cf st st' es"

section \<open>Properties\<close>

lemmas store_defs = start_def acquireTick_def renewTick_def renewNext_def watchdog_def fence_def
  resume_def acquireResume_def renewResume_def reacquireResume_def onAcquired_def becomeWriter_def
  startReplication_def callAnswered_def callFailed_def renewDone_def confirmed_def shutdown_def
  replicationResume_def Let_def

definition starts_as_writer :: "store \<Rightarrow> store \<Rightarrow> eff list \<Rightarrow> bool" where
  "starts_as_writer st st' es \<longleftrightarrow> (StartWorkers \<in> set es \<longrightarrow> isWriter st' \<and> \<not> st_workers st \<and> st_workers st')"

lemma becomeWriter_workers:
  assumes "becomeWriter cf st = (st', es)"
  shows "st_role st' = st_role st \<and> (StartWorkers \<in> set es \<longrightarrow> \<not> st_workers st \<and> st_workers st')"
  using assms by (auto simp: becomeWriter_def startReplication_def Let_def split: if_splits prod.splits)

lemma onAcquired_workers:
  assumes "onAcquired cf node st = (st', es)"
  shows "st_role st' = Leader \<and> (StartWorkers \<in> set es \<longrightarrow> \<not> st_workers st \<and> st_workers st')"
  using assms
  by (auto simp: onAcquired_def becomeWriter_def startReplication_def Let_def split: if_splits prod.splits)

lemma resume_workers:
  assumes "resume cf res now st = (st', es)"
  shows "starts_as_writer st st' es"
  using assms
  by (auto dest!: onAcquired_workers simp: starts_as_writer_def isWriter_def resume_def acquireResume_def renewResume_def reacquireResume_def
      renewNext_def fence_def Let_def split: awaiting.splits option.splits if_splits verdict.splits list.splits)

lemma resume_failed_quiet:
  assumes "resume cf None now st = (st', es)"
  shows "StartWorkers \<notin> set es \<and> st_role st' = st_role st \<and> st_workers st' = st_workers st"
  using assms
  by (auto simp: resume_def acquireResume_def renewResume_def reacquireResume_def renewNext_def
      renewalVerdict_def Let_def split: awaiting.splits list.splits)

text \<open>
  The write workers are started only by a step that leaves this process leader, or
  standalone, and never twice: not while it waits for the lease, is fenced, or stops.
\<close>

theorem workers_start_only_as_writer:
  assumes "store_step cf st st' es" and "StartWorkers \<in> set es"
  shows "isWriter st' \<and> \<not> st_workers st \<and> st_workers st'"
  using assms
proof cases
  case (starts ms now)
  with assms(2) show ?thesis
    by (auto simp: start_def acquireTick_def isWriter_def Let_def
        dest!: becomeWriter_workers split: if_splits list.splits prod.splits)
next
  case (answers res now)
  with resume_workers [OF answers] assms(2) show ?thesis by (simp add: starts_as_writer_def callAnswered_def)
next
  case (fails tmo e st1 es1 now es)
  with resume_failed_quiet [OF fails(3)] assms(2) show ?thesis
    by (auto simp: callFailed_def isWriter_def Let_def dest!: becomeWriter_workers split: if_splits)
qed (use assms(2) in \<open>auto simp: store_defs split: if_splits list.splits option.splits\<close>)

definition demo_conf :: store_conf where
  "demo_conf = \<lparr>c_taskId = ''task1'', c_nodeId = ''node1'', c_hostname = ''host1'', c_replica = True,
     c_leaseEnabled = True, c_boot = None\<rparr>"

definition demo_waiting :: store where
  "demo_waiting = (init_store None)\<lparr>st_acquiring := True, st_await := AwaitAcquire ''mgr'' 0\<rparr>"

definition demo_granted :: lease_record where
  "demo_granted = \<lparr>l_holder = ''task1'', l_node = ''node1'', l_hostname = Some ''host1'', l_epoch = 1,
     l_renewedAt = 7, l_ttlMs = LEASE_TTL_MS, l_released = False\<rparr>"

theorem workers_start_only_as_writer_witness:
  "\<exists>st' es. store_step demo_conf demo_waiting st' es \<and> StartWorkers \<in> set es \<and> isWriter st'"
proof -
  have "\<exists>st' es. resume demo_conf (Some (lease_result True (Some demo_granted) None)) 5 (callAnswered demo_waiting)
      = (st', es) \<and> StartWorkers \<in> set es"
    by (simp add: demo_conf_def demo_waiting_def demo_granted_def init_store_def lease_result_def resume_def
        acquireResume_def onAcquired_def becomeWriter_def startReplication_def callAnswered_def)
  then obtain st' es where "store_step demo_conf demo_waiting st' es" "StartWorkers \<in> set es"
    by (blast intro: store_step.answers)
  with workers_start_only_as_writer [OF this] show ?thesis by blast
qed

text \<open>The lineage and the head a controller booted from, as \<^verbatim>\<open>startReplication\<close> reads them.\<close>

definition expected_marker :: "store_conf \<Rightarrow> store \<Rightarrow> writer_marker option" where
  "expected_marker cf st =
     (case Option.bind (c_boot cf) br_expectMarker of None \<Rightarrow> st_marker st | Some m \<Rightarrow> Some m)"



text \<open>
  C38. A stop is not final while an acquire is in flight: the rest of \<^verbatim>\<open>acquireTick\<close> does not look
  at the role again after its call, so an acquire answered during shutdown makes the stopping
  process leader and starts its workers and its replication.
\<close>

theorem late_acquire_answer_leads_after_stop:
  assumes "st_await st = AwaitAcquire node sent" and "st_role st = Stopping" and "\<not> st_workers st"
    and "r_ok ans" and "r_lease ans = Some l" and "l_holder l = c_taskId cf"
    and "c_replica cf" and "\<not> st_litestream st"
  shows "\<exists>st' es. resume cf (Some ans) now (callAnswered st) = (st', es) \<and> st_role st' = Leader
    \<and> StartWorkers \<in> set es \<and> ReadReplica \<in> set es"
  using assms
  by (simp add: resume_def callAnswered_def acquireResume_def onAcquired_def becomeWriter_def startReplication_def Let_def)

theorem late_acquire_answer_leads_after_stop_witness:
  "\<exists>st' es. resume demo_conf (Some (lease_result True (Some demo_granted) None)) 5
      (callAnswered (fst (shutdown 0 demo_waiting))) = (st', es) \<and> st_role st' = Leader
    \<and> StartWorkers \<in> set es \<and> ReadReplica \<in> set es"
  by (rule late_acquire_answer_leads_after_stop [where node = "''mgr''" and sent = 0 and l = demo_granted])
    (simp_all add: shutdown_def demo_waiting_def init_store_def lease_result_def demo_granted_def demo_conf_def)

end
