(* ===== verification/LeaseSystem.thy ===== *)
theory LeaseSystem
  imports Supervisor
begin

text \<open>
  The whole lease protocol: any number of controller processes (\<open>Supervisor\<close>), the calls
  they have in flight, the manager agents that carry them out (\<open>Lease\<close>) and the lease label
  in the swarm's raft store.

  A call is a message that is sent, inspected by an agent (which reads the label together
  with the service's version index), written, and answered. The update is accepted only at
  the inspected version, which is what Docker documents for
  \<^verbatim>\<open>service update ?version=<index>\<close>; any update of the service moves the version on. A call
  the controller gave up on stays in flight and may still land. Processes crash at any time.

  What the protocol rests on appears as premises of the steps:
  \<^item> \<open>start\<close>: a task id is never used twice, and Swarm starts a controller on a node only
    when no other one runs there (\<^verbatim>\<open>replicas: 1\<close>, \<^verbatim>\<open>stop-first\<close>); the store is replicated;
  \<^item> \<open>tick\<close>: time does not pass a leader's next watchdog run, which comes at most \<open>P\<close>
    after the last one;
  \<^item> \<open>watch\<close>: the swarm does not have exactly one manager;
  \<^item> \<open>answer\<close>: an answer is delivered within the call's timeout, else the call has failed;
  \<^item> \<open>landed\<close>: the agent's wall clock gives every lease write a stamp of its own.

  The fields \<open>wrote\<close>, \<open>stamps\<close> and \<open>home\<close> record history for the proofs; no handler
  reads them.
\<close>

section \<open>Definitions\<close>

datatype phase = Sent | Inspected nat "lease_record option" | Answered cs_result

record msg =
  g_from :: string
  g_op :: lease_op
  g_sent :: int
  g_phase :: phase

type_synonym stamp = "string \<times> nat \<times> int \<times> bool"

record sys =
  now :: int
  version :: nat
  live :: "lease_record option"
  wrote :: int
  stamps :: "stamp set"
  ctl :: "string \<rightharpoonup> store_conf \<times> store"
  home :: "string \<rightharpoonup> string"
  net :: "nat \<rightharpoonup> msg"
  pend :: "string \<rightharpoonup> nat"
  wdDue :: "string \<Rightarrow> int"
  closing :: "string \<rightharpoonup> bool"

definition init_sys :: sys where
  "init_sys = \<lparr>now = 0, version = 0, live = None, wrote = 0, stamps = {}, ctl = Map.empty,
     home = Map.empty, net = Map.empty, pend = Map.empty, wdDue = (\<lambda>_. 0), closing = Map.empty\<rparr>"

definition stamp_of :: "lease_record \<Rightarrow> stamp" where
  "stamp_of r = (l_holder r, l_epoch r, l_renewedAt r, l_released r)"

text \<open>The lease operation among a handler's calls, and whether the process exits.\<close>

fun lease_call :: "eff list \<Rightarrow> lease_op option" where
  "lease_call [] = None"
| "lease_call (Call n (LeaseOp lop) t # es) = Some lop"
| "lease_call (_ # es) = lease_call es"

fun exits :: "eff list \<Rightarrow> bool" where
  "exits [] = False"
| "exits (Exit c # es) = True"
| "exits (_ # es) = exits es"

definition kill :: "string \<Rightarrow> sys \<Rightarrow> sys" where
  "kill t s = s\<lparr>ctl := (ctl s)(t := None), pend := (pend s)(t := None)\<rparr>"

definition send :: "string \<Rightarrow> nat \<Rightarrow> lease_op \<Rightarrow> sys \<Rightarrow> sys" where
  "send t k lop s = s\<lparr>net := (net s)(k \<mapsto> \<lparr>g_from = t, g_op = lop, g_sent = now s, g_phase = Sent\<rparr>)\<rparr>"

definition commit :: "string \<Rightarrow> store_conf \<Rightarrow> nat \<Rightarrow> store \<times> eff list \<Rightarrow> sys \<Rightarrow> sys" where
  "commit t cf k out s =
     (if exits (snd out) then kill t s
      else (let s1 = s\<lparr>ctl := (ctl s)(t \<mapsto> (cf, fst out))\<rparr>
            in case lease_call (snd out) of
                 None \<Rightarrow> s1
               | Some lop \<Rightarrow> (send t k lop s1)\<lparr>pend := (pend s)(t \<mapsto> k)\<rparr>))"

definition set_phase :: "nat \<Rightarrow> phase \<Rightarrow> sys \<Rightarrow> sys" where
  "set_phase k ph s = s\<lparr>net := (net s)(k := map_option (\<lambda>m. m\<lparr>g_phase := ph\<rparr>) (net s k))\<rparr>"

definition alive_on :: "sys \<Rightarrow> string \<Rightarrow> bool" where
  "alive_on s n \<longleftrightarrow> (\<exists>t cf st. ctl s t = Some (cf, st) \<and> c_nodeId cf = n)"

definition is_leader :: "sys \<Rightarrow> string \<Rightarrow> bool" where
  "is_leader s t \<longleftrightarrow> (\<exists>cf st. ctl s t = Some (cf, st) \<and> st_role st = Leader)"

inductive step :: "int \<Rightarrow> sys \<Rightarrow> sys \<Rightarrow> bool" for P :: int where
  begin_task: "\<lbrakk>home s t = None; c_taskId cf = t; c_nodeId cf \<noteq> []; c_replica cf; c_leaseEnabled cf;
     \<not> alive_on s (c_nodeId cf)\<rbrakk>
     \<Longrightarrow> step P s (s\<lparr>ctl := (ctl s)(t \<mapsto> (cf, fst (start cf [] (now s) (init_store mk)))),
                     home := (home s)(t \<mapsto> c_nodeId cf), closing := (closing s)(t := None)\<rparr>)"
| acquire: "\<lbrakk>ctl s t = Some (cf, st); net s k = None\<rbrakk>
     \<Longrightarrow> step P s (commit t cf k (acquireTick cf ms (now s) st) s)"
| renew: "\<lbrakk>ctl s t = Some (cf, st); net s k = None\<rbrakk>
     \<Longrightarrow> step P s (commit t cf k (renewTick cf ms (now s) st) s)"
| watch: "\<lbrakk>ctl s t = Some (cf, st); net s k = None; mc \<noteq> Some 1\<rbrakk>
     \<Longrightarrow> step P s ((commit t cf k (watchdog mc (now s) st) s)\<lparr>wdDue := (wdDue s)(t := now s + P)\<rparr>)"
| inspect: "\<lbrakk>net s k = Some m; g_phase m = Sent\<rbrakk>
     \<Longrightarrow> step P s (set_phase k (Inspected (version s) (live s)) s)"
| landed: "\<lbrakk>net s k = Some m; g_phase m = Inspected (version s) seen;
     decideLeaseWrite seen (g_op m) wall = (Some nx, res); stamp_of nx \<notin> stamps s\<rbrakk>
     \<Longrightarrow> step P s ((set_phase k (Answered res) s)
            \<lparr>live := Some nx, version := version s + 1, wrote := now s,
             stamps := insert (stamp_of nx) (stamps s)\<rparr>)"
| no_write: "\<lbrakk>net s k = Some m; g_phase m = Inspected v seen;
     decideLeaseWrite seen (g_op m) wall = (None, res)\<rbrakk>
     \<Longrightarrow> step P s (set_phase k (Answered res) s)"
| conflict: "\<lbrakk>net s k = Some m; g_phase m = Inspected v seen; v \<noteq> version s;
     decideLeaseWrite seen (g_op m) wall = (Some nx, res)\<rbrakk>
     \<Longrightarrow> step P s (set_phase k
            (Answered (lease_result False (live s) (Some (casLossReason (g_op m) (live s))))) s)"
| other_update: "step P s (s\<lparr>version := version s + 1\<rparr>)"
| answer: "\<lbrakk>ctl s t = Some (cf, st); pend s t = Some k; net s k = Some m; g_phase m = Answered res;
     now s \<le> g_sent m + call_timeout; net s k' = None\<rbrakk>
     \<Longrightarrow> step P s ((commit t cf k' (resume cf (Some res) (now s) (callAnswered st))
                       (s\<lparr>pend := (pend s)(t := None)\<rparr>))
            \<lparr>wdDue := (if st_role st = Leader then wdDue s else (wdDue s)(t := now s + P))\<rparr>)"
| fail: "\<lbrakk>ctl s t = Some (cf, st); pend s t = Some k; net s k' = None\<rbrakk>
     \<Longrightarrow> step P s (commit t cf k' (resume cf None (now s) (fst (callFailed cf tmo e st)))
                     (s\<lparr>pend := (pend s)(t := None)\<rparr>))"
| stop: "\<lbrakk>ctl s t = Some (cf, st); net s k = None\<rbrakk>
     \<Longrightarrow> step P s ((commit t cf k (shutdown code st) s)
            \<lparr>closing := (closing s)(t \<mapsto> (st_role st = Leader \<or> closing s t = Some True))\<rparr>)"
| release: "\<lbrakk>ctl s t = Some (cf, st); closing s t = Some wasLeader;
     lease_call (shutdownRelease cf wasLeader ms code st) = Some lop; net s k = None\<rbrakk>
     \<Longrightarrow> step P s (send t k lop s)"
| crash: "step P s (kill t s)"
| tick: "\<lbrakk>now s < n; \<forall>t. is_leader s t \<longrightarrow> n \<le> wdDue s t\<rbrakk> \<Longrightarrow> step P s (s\<lparr>now := n\<rparr>)"

inductive reach :: "int \<Rightarrow> sys \<Rightarrow> bool" for P :: int where
  init: "reach P init_sys"
| more: "reach P s \<Longrightarrow> step P s s' \<Longrightarrow> reach P s'"


section \<open>What the handlers do, seen from the system\<close>

text \<open>
  Each handler's effect on what the protocol depends on: the role, the time of the last good
  renewal, the observation, the call it waits for and the call it makes.
\<close>

lemma lease_call_append: "lease_call (xs @ ys) = (case lease_call xs of None \<Rightarrow> lease_call ys | Some l \<Rightarrow> Some l)"
  by (induction xs rule: lease_call.induct) auto

lemma exits_append: "exits (xs @ ys) \<longleftrightarrow> exits xs \<or> exits ys"
  by (induction xs rule: exits.induct) auto

lemmas handler_defs =
  acquireTick_def renewTick_def renewNext_def watchdog_def fence_def shutdown_def
  startReplication_def becomeWriter_def onAcquired_def callFailed_def callAnswered_def
  renewDone_def confirmed_def Let_def lease_call_append exits_append

definition same_but_await :: "store \<Rightarrow> store \<Rightarrow> bool" where
  "same_but_await st st' \<longleftrightarrow>
     st_role st' = st_role st \<and> st_lastOk st' = st_lastOk st \<and> st_obs st' = st_obs st"

lemma acquireTick_effect:
  assumes "acquireTick cf ms n st = (st', es)"
  shows "\<not> exits es \<and> same_but_await st st' \<and>
    (lease_call es = None \<and> st_await st' = st_await st \<or>
     st_role st = Acquiring \<and> (\<exists>node ex me. st_await st' = AwaitAcquire node n
       \<and> lease_call es = Some (acquireOp cf ex me)
       \<and> (\<forall>E. ex = Some E \<longrightarrow> (\<exists>ob w. st_obs st = Some ob
              \<and> takeoverDecision ob (store_self cf) n = Take (Some E) w))))"
  using assms
  by (auto simp: handler_defs same_but_await_def acquireOp_def
      split: if_splits list.splits option.splits takeover.splits)

lemma renewTick_effect:
  assumes "renewTick cf ms n st = (st', es)"
  shows "\<not> exits es \<and> same_but_await st st' \<and>
    (lease_call es = None \<and> (st_await st' = st_await st \<or> st_await st' = AwaitNone) \<or>
     st_role st = Leader \<and> (\<exists>rest node e. st_await st' = AwaitRenew n rest node
       \<and> lease_call es = Some (renewOp cf e)))"
  using assms
  by (auto simp: handler_defs same_but_await_def split: if_splits list.splits)

lemma watchdog_effect:
  assumes "watchdog mc n st = (st', es)" and "\<not> exits es"
  shows "same_but_await st st' \<and> lease_call es = None \<and> st_await st' = st_await st \<and>
    (st_role st = Leader \<and> mc \<noteq> Some 1 \<longrightarrow> \<not> mustFence n (st_lastOk st))"
  using assms
  by (auto simp: handler_defs same_but_await_def fenceOnSilence_def split: if_splits)

lemma shutdown_effect:
  assumes "shutdown code st = (st', es)" and "\<not> exits es"
  shows "st_role st' = Stopping \<and> st_obs st' = st_obs st \<and> st_await st' = st_await st
    \<and> lease_call es = None"
  using assms by (auto simp: handler_defs split: if_splits)

lemma callFailed_effect:
  assumes "c_replica cf"
  shows "same_but_await st (fst (callFailed cf tmo e st)) \<and>
    st_await (fst (callFailed cf tmo e st)) = st_await st"
  using assms by (auto simp: handler_defs same_but_await_def)

text \<open>A suspended method resumes in one of five ways.\<close>

definition quiet_resume :: "cs_result option \<Rightarrow> int \<Rightarrow> store \<Rightarrow> store \<Rightarrow> eff list \<Rightarrow> bool" where
  "quiet_resume res n st st' es \<longleftrightarrow> st_role st' = st_role st \<and> st_lastOk st' = st_lastOk st
     \<and> st_await st' = AwaitNone \<and> lease_call es = None
     \<and> (st_obs st' = st_obs st
        \<or> (\<exists>x. res = Some x \<and> st_obs st' = Some (observe (st_obs st) (r_lease x) n)))"

definition leads_resume :: "store_conf \<Rightarrow> cs_result option \<Rightarrow> store \<Rightarrow> store \<Rightarrow> eff list \<Rightarrow> bool" where
  "leads_resume cf res st st' es \<longleftrightarrow> (\<exists>node x y l. st_await st = AwaitAcquire node x \<and> res = Some y
     \<and> r_ok y \<and> r_lease y = Some l \<and> l_holder l = c_taskId cf \<and> st_role st' = Leader
     \<and> st_lastOk st' = x \<and> st_await st' = AwaitNone \<and> st_obs st' = st_obs st \<and> lease_call es = None)"

definition confirms_resume :: "store_conf \<Rightarrow> cs_result option \<Rightarrow> store \<Rightarrow> store \<Rightarrow> eff list \<Rightarrow> bool" where
  "confirms_resume cf res st st' es \<longleftrightarrow> (\<exists>x rest node y l.
     (st_await st = AwaitRenew x rest node \<or> st_await st = AwaitReacquire x rest node) \<and> res = Some y
     \<and> r_ok y \<and> r_lease y = Some l \<and> l_holder l = c_taskId cf \<and> \<not> l_released l
     \<and> st_role st' = st_role st \<and> st_lastOk st' = x \<and> st_await st' = AwaitNone
     \<and> st_obs st' = st_obs st \<and> lease_call es = None)"

definition retries_resume :: "store_conf \<Rightarrow> int \<Rightarrow> store \<Rightarrow> store \<Rightarrow> eff list \<Rightarrow> bool" where
  "retries_resume cf n st st' es \<longleftrightarrow> (\<exists>x rest node rest' node' e.
     (st_await st = AwaitRenew x rest node \<or> st_await st = AwaitReacquire x rest node)
     \<and> same_but_await st st' \<and> st_await st' = AwaitRenew n rest' node'
     \<and> lease_call es = Some (renewOp cf e))"

definition reacquires_resume :: "store_conf \<Rightarrow> cs_result option \<Rightarrow> store \<Rightarrow> store \<Rightarrow> eff list \<Rightarrow> bool" where
  "reacquires_resume cf res st st' es \<longleftrightarrow> (\<exists>x rest node y ex e.
     st_await st = AwaitRenew x rest node \<and> res = Some y \<and> r_lease y = ex
     \<and> (\<forall>r. ex = Some r \<longrightarrow> l_released r)
     \<and> same_but_await st st' \<and> st_await st' = AwaitReacquire x rest node
     \<and> lease_call es = Some (acquireOp cf ex e))"

lemmas resume_defs =
  quiet_resume_def leads_resume_def confirms_resume_def retries_resume_def reacquires_resume_def

lemma acquireResume_effect:
  assumes "st_await st = AwaitAcquire node x" and "acquireResume cf node x res n st = (st', es)"
  shows "quiet_resume res n st st' es \<or> leads_resume cf res st st' es"
  using assms unfolding acquireResume_def resume_defs
  by (auto simp: handler_defs split: option.splits if_splits)

lemma renewNext_effect:
  assumes "renewNext cf ms n st = (st', es)"
  shows "same_but_await st st' \<and> \<not> exits es \<and>
    (st_await st' = AwaitNone \<and> lease_call es = None \<or>
     (\<exists>rest node e. st_await st' = AwaitRenew n rest node \<and> lease_call es = Some (renewOp cf e)))"
  using assms by (auto simp: handler_defs same_but_await_def split: list.splits)

lemma renewalVerdict_held:
  "renewalVerdict res self = VHeld l \<Longrightarrow>
     \<exists>y. res = Some y \<and> r_ok y \<and> r_lease y = Some l \<and> l_holder l = self_holder self \<and> \<not> l_released l"
  by (auto simp: renewalVerdict_def split: option.splits if_splits)

lemma renewalVerdict_free:
  "renewalVerdict res self = VFree ex \<Longrightarrow>
     \<exists>y. res = Some y \<and> r_lease y = ex \<and> (\<forall>r. ex = Some r \<longrightarrow> l_released r)"
  by (auto simp: renewalVerdict_def split: option.splits if_splits)

lemma renewResume_effect:
  assumes "st_await st = AwaitRenew x rest node" and "renewResume cf x rest node res n st = (st', es)"
    and "\<not> exits es"
  shows "quiet_resume res n st st' es \<or> confirms_resume cf res st st' es
    \<or> retries_resume cf n st st' es \<or> reacquires_resume cf res st st' es"
proof (cases "renewalVerdict res (store_self cf)")
  case (VHeld l)
  with renewalVerdict_held [OF VHeld] assms show ?thesis
    unfolding renewResume_def resume_defs by (auto simp: handler_defs store_self_def)
next
  case (VLost l)
  with assms show ?thesis by (auto simp: renewResume_def handler_defs)
next
  case (VFree ex)
  with renewalVerdict_free [OF VFree] assms show ?thesis
    unfolding renewResume_def resume_defs by (auto simp: same_but_await_def)
next
  case VUnknown
  with assms have "renewNext cf rest n st = (st', es)" by (simp add: renewResume_def)
  from renewNext_effect [OF this] assms(1) show ?thesis
    unfolding resume_defs same_but_await_def by blast
qed

lemma reacquireResume_effect:
  assumes "st_await st = AwaitReacquire x rest node" and "reacquireResume cf x rest res n st = (st', es)"
    and "\<not> exits es"
  shows "quiet_resume res n st st' es \<or> confirms_resume cf res st st' es \<or> retries_resume cf n st st' es"
proof (cases "renewalVerdict res (store_self cf)")
  case (VHeld l)
  with renewalVerdict_held [OF VHeld] assms show ?thesis
    unfolding reacquireResume_def resume_defs by (auto simp: handler_defs store_self_def)
next
  case (VLost l)
  with assms show ?thesis by (auto simp: reacquireResume_def handler_defs)
next
  case (VFree ex)
  with assms have "renewNext cf rest n st = (st', es)" by (simp add: reacquireResume_def)
  from renewNext_effect [OF this] assms(1) show ?thesis
    unfolding resume_defs same_but_await_def by blast
next
  case VUnknown
  with assms have "renewNext cf rest n st = (st', es)" by (simp add: reacquireResume_def)
  from renewNext_effect [OF this] assms(1) show ?thesis
    unfolding resume_defs same_but_await_def by blast
qed

lemma resume_effect:
  assumes "resume cf res n st = (st', es)" and "\<not> exits es"
  shows "st' = st \<and> lease_call es = None \<and> st_await st = AwaitNone
    \<or> quiet_resume res n st st' es \<or> leads_resume cf res st st' es \<or> confirms_resume cf res st st' es
    \<or> retries_resume cf n st st' es \<or> reacquires_resume cf res st st' es"
proof (cases "st_await st")
  case AwaitNone
  with assms show ?thesis by (simp add: resume_def)
next
  case (AwaitAcquire node x)
  with assms have "acquireResume cf node x res n st = (st', es)" by (simp add: resume_def)
  from acquireResume_effect [OF AwaitAcquire this] show ?thesis by blast
next
  case (AwaitRenew x rest node)
  with assms have "renewResume cf x rest node res n st = (st', es)" by (simp add: resume_def)
  from renewResume_effect [OF AwaitRenew this assms(2)] show ?thesis by blast
next
  case (AwaitReacquire x rest node)
  with assms have "reacquireResume cf x rest res n st = (st', es)" by (simp add: resume_def)
  from reacquireResume_effect [OF AwaitReacquire this assms(2)] show ?thesis by blast
qed

end
