(* ===== verification/LeaseSafety.thy ===== *)
theory LeaseSafety
  imports LeaseSystem
begin

text \<open>
  At most one controller leads at a time. The invariant says what every lease record the
  system holds, every observation, every call in flight and every leader's clock must
  satisfy; its core is that whoever leads, or is about to lead on an answer under way, owns
  the live label since at least the moment its last good call was sent (\<open>claims_held\<close>).
\<close>

section \<open>The invariant\<close>

definition good :: "sys \<Rightarrow> lease_record \<Rightarrow> bool" where
  "good s r \<longleftrightarrow> l_ttlMs r = LEASE_TTL_MS \<and> home s (l_holder r) = Some (l_node r)
     \<and> l_node r \<noteq> [] \<and> stamp_of r \<in> stamps s"

text \<open>Why a call may name \<open>E\<close> as the write it expects to replace.\<close>

definition justified :: "sys \<Rightarrow> string \<Rightarrow> int \<Rightarrow> lease_record \<Rightarrow> bool" where
  "justified s t x E \<longleftrightarrow> l_released E \<or> l_holder E = t \<or> ctl s (l_holder E) = None
     \<or> (\<forall>r. live s = Some r \<longrightarrow> stamp_of r = stamp_of E \<longrightarrow> wrote s + LEASE_TTL_MS \<le> x)"

definition no_lead :: "store \<Rightarrow> bool" where
  "no_lead st \<longleftrightarrow> st_role st = Stopping \<and> (\<forall>n x. st_await st \<noteq> AwaitAcquire n x)"

fun op_ok :: "sys \<Rightarrow> string \<Rightarrow> int \<Rightarrow> lease_op \<Rightarrow> bool" where
  "op_ok s t x (LeaseAcquire h n hn ttl ex me) \<longleftrightarrow> h = t \<and> home s t = Some n \<and> n \<noteq> []
     \<and> ttl = LEASE_TTL_MS \<and> (\<forall>E. ex = Some E \<longrightarrow> good s E \<and> justified s t x E)"
| "op_ok s t x (LeaseRenew h n hn ttl e) \<longleftrightarrow> h = t \<and> home s t = Some n \<and> n \<noteq> [] \<and> ttl = LEASE_TTL_MS"
| "op_ok s t x (LeaseRelease h e) \<longleftrightarrow> h = t \<and> (\<forall>cf st. ctl s t = Some (cf, st) \<longrightarrow> no_lead st)"

fun phase_ok :: "sys \<Rightarrow> phase \<Rightarrow> bool" where
  "phase_ok s Sent \<longleftrightarrow> True"
| "phase_ok s (Inspected v seen) \<longleftrightarrow> v \<le> version s \<and> (v = version s \<longrightarrow> seen = live s)
     \<and> (\<forall>r. seen = Some r \<longrightarrow> good s r)"
| "phase_ok s (Answered res) \<longleftrightarrow> (\<forall>r. r_lease res = Some r \<longrightarrow> good s r)"

definition msg_ok :: "sys \<Rightarrow> msg \<Rightarrow> bool" where
  "msg_ok s m \<longleftrightarrow> g_sent m \<le> now s \<and> home s (g_from m) \<noteq> None
     \<and> op_ok s (g_from m) (g_sent m) (g_op m) \<and> phase_ok s (g_phase m)"

definition obs_ok :: "sys \<Rightarrow> store_conf \<Rightarrow> lease_observation \<Rightarrow> bool" where
  "obs_ok s cf ob \<longleftrightarrow> (\<forall>r. o_record ob = Some r \<longrightarrow> good s r
     \<and> (l_node r = c_nodeId cf \<and> l_holder r \<noteq> c_taskId cf \<longrightarrow> ctl s (l_holder r) = None)
     \<and> (\<forall>l. live s = Some l \<longrightarrow> stamp_of l = stamp_of r \<longrightarrow> wrote s \<le> o_firstSeenAt ob))"

text \<open>When the suspended method's call was sent, and in which role it can be suspended.\<close>

fun await_ok :: "sys \<Rightarrow> store \<Rightarrow> awaiting \<Rightarrow> bool" where
  "await_ok s st AwaitNone \<longleftrightarrow> True"
| "await_ok s st (AwaitAcquire n x) \<longleftrightarrow> st_role st \<noteq> Leader \<and> x \<le> now s"
| "await_ok s st (AwaitRenew x rest n) \<longleftrightarrow> st_role st \<noteq> Acquiring \<and> x \<le> now s
     \<and> (st_role st = Leader \<longrightarrow> st_lastOk st \<le> x)"
| "await_ok s st (AwaitReacquire x rest n) \<longleftrightarrow> st_role st \<noteq> Acquiring \<and> x \<le> now s
     \<and> (st_role st = Leader \<longrightarrow> st_lastOk st \<le> x)"

fun sent_ok :: "awaiting \<Rightarrow> int \<Rightarrow> bool" where
  "sent_ok AwaitNone y \<longleftrightarrow> True"
| "sent_ok (AwaitAcquire n x) y \<longleftrightarrow> y = x"
| "sent_ok (AwaitRenew x rest n) y \<longleftrightarrow> y = x"
| "sent_ok (AwaitReacquire x rest n) y \<longleftrightarrow> x \<le> y"

definition ctl_ok :: "sys \<Rightarrow> string \<Rightarrow> store_conf \<Rightarrow> store \<Rightarrow> bool" where
  "ctl_ok s t cf st \<longleftrightarrow> c_taskId cf = t \<and> home s t = Some (c_nodeId cf) \<and> c_nodeId cf \<noteq> []
     \<and> c_replica cf \<and> (\<forall>ob. st_obs st = Some ob \<longrightarrow> obs_ok s cf ob)
     \<and> await_ok s st (st_await st)
     \<and> (st_role st = Leader \<longrightarrow> now s \<le> wdDue s t \<and> wdDue s t < st_lastOk st + LEASE_TTL_MS)
     \<and> (closing s t = Some True \<longrightarrow> no_lead st)"

definition pend_ok :: "sys \<Rightarrow> string \<Rightarrow> nat \<Rightarrow> bool" where
  "pend_ok s t k \<longleftrightarrow> (\<exists>cf st m. ctl s t = Some (cf, st) \<and> net s k = Some m \<and> g_from m = t
     \<and> \<not> is_release (g_op m) \<and> sent_ok (st_await st) (g_sent m))"

definition held :: "sys \<Rightarrow> string \<Rightarrow> int \<Rightarrow> bool" where
  "held s t x \<longleftrightarrow> (\<exists>r. live s = Some r \<and> l_holder r = t \<and> \<not> l_released r \<and> x \<le> wrote s)"

definition leads :: "sys \<Rightarrow> string \<Rightarrow> int \<Rightarrow> bool" where
  "leads s t x \<longleftrightarrow> (\<exists>cf st. ctl s t = Some (cf, st) \<and> st_role st = Leader \<and> st_lastOk st = x)"

text \<open>An answer under way that will make its controller lead, or confirm its lead.\<close>

definition answered :: "sys \<Rightarrow> string \<Rightarrow> int \<Rightarrow> bool" where
  "answered s t x \<longleftrightarrow> (\<exists>cf st k m res. ctl s t = Some (cf, st) \<and> \<not> no_lead st
     \<and> pend s t = Some k \<and> net s k = Some m \<and> g_phase m = Answered res \<and> r_ok res \<and> g_sent m = x)"

definition claims_held :: "sys \<Rightarrow> bool" where
  "claims_held s \<longleftrightarrow> (\<forall>t x. leads s t x \<or> answered s t x \<longrightarrow> now s < x + LEASE_TTL_MS \<longrightarrow> held s t x)"

definition one_per_node :: "sys \<Rightarrow> bool" where
  "one_per_node s \<longleftrightarrow> (\<forall>t t' cf cf' st st'. ctl s t = Some (cf, st) \<longrightarrow> ctl s t' = Some (cf', st')
     \<longrightarrow> c_nodeId cf = c_nodeId cf' \<longrightarrow> t = t')"

definition inv :: "sys \<Rightarrow> bool" where
  "inv s \<longleftrightarrow> (\<forall>r. live s = Some r \<longrightarrow> good s r) \<and> wrote s \<le> now s
     \<and> (\<forall>t cf st. ctl s t = Some (cf, st) \<longrightarrow> ctl_ok s t cf st)
     \<and> (\<forall>k m. net s k = Some m \<longrightarrow> msg_ok s m)
     \<and> (\<forall>t k. pend s t = Some k \<longrightarrow> pend_ok s t k)
     \<and> one_per_node s \<and> claims_held s"

section \<open>Preservation\<close>

text \<open>
  How a step may change what records and observations are judged by: history only grows,
  the dead stay dead, and a new label carries a stamp of its own.
\<close>

definition extends :: "sys \<Rightarrow> sys \<Rightarrow> bool" where
  "extends s s' \<longleftrightarrow> (\<forall>t n. home s t = Some n \<longrightarrow> home s' t = Some n) \<and> stamps s \<subseteq> stamps s'
     \<and> now s \<le> now s' \<and> (\<forall>t. home s t \<noteq> None \<longrightarrow> ctl s t = None \<longrightarrow> ctl s' t = None)
     \<and> version s \<le> version s' \<and> (version s' = version s \<longrightarrow> live s' = live s)
     \<and> (live s' = live s \<and> wrote s' = wrote s \<or> (\<exists>r. live s' = Some r \<and> stamp_of r \<notin> stamps s))"

lemma sameLeaseWrite_stamp: "sameLeaseWrite (Some a) (Some b) \<longleftrightarrow> stamp_of a = stamp_of b"
  by (auto simp: sameLeaseWrite_def stamp_of_def)

lemma good_extends: "extends s s' \<Longrightarrow> good s r \<Longrightarrow> good s' r"
  by (auto simp: extends_def good_def)

lemma justified_extends:
  assumes "extends s s'" and "good s E" and "justified s t x E"
  shows "justified s' t x E"
  using assms unfolding extends_def good_def justified_def by (metis option.distinct(1) option.inject)

lemma op_ok_extends:
  assumes "extends s s'" and "op_ok s t x lop" and "\<not> is_release lop"
  shows "op_ok s' t x lop"
  using assms good_extends [OF assms(1)] justified_extends [OF assms(1)]
  by (cases lop) (auto simp: extends_def)

lemma phase_ok_extends:
  assumes "extends s s'" and "phase_ok s ph"
  shows "phase_ok s' ph"
  using assms good_extends [OF assms(1)] by (cases ph) (auto simp: extends_def)

lemma obs_ok_extends:
  assumes "extends s s'" and "obs_ok s cf ob"
  shows "obs_ok s' cf ob"
  unfolding obs_ok_def
proof (intro allI impI)
  fix r
  assume "o_record ob = Some r"
  with assms(2) have r: "good s r"
    "l_node r = c_nodeId cf \<and> l_holder r \<noteq> c_taskId cf \<longrightarrow> ctl s (l_holder r) = None"
    "\<forall>l. live s = Some l \<longrightarrow> stamp_of l = stamp_of r \<longrightarrow> wrote s \<le> o_firstSeenAt ob"
    by (auto simp: obs_ok_def)
  then have "home s (l_holder r) \<noteq> None" "stamp_of r \<in> stamps s" by (auto simp: good_def)
  with r assms(1) good_extends [OF assms(1) r(1)] show "good s' r
     \<and> (l_node r = c_nodeId cf \<and> l_holder r \<noteq> c_taskId cf \<longrightarrow> ctl s' (l_holder r) = None)
     \<and> (\<forall>l. live s' = Some l \<longrightarrow> stamp_of l = stamp_of r \<longrightarrow> wrote s' \<le> o_firstSeenAt ob)"
    by (auto simp: extends_def)
qed

lemma await_ok_later:
  "await_ok s st a \<Longrightarrow> now s \<le> now s' \<Longrightarrow> await_ok s' st a"
  by (cases a) auto


lemma invD:
  assumes "inv s"
  shows "\<And>r. live s = Some r \<Longrightarrow> good s r" and "wrote s \<le> now s"
    and "\<And>t cf st. ctl s t = Some (cf, st) \<Longrightarrow> ctl_ok s t cf st"
    and "\<And>k m. net s k = Some m \<Longrightarrow> msg_ok s m"
    and "\<And>t k. pend s t = Some k \<Longrightarrow> pend_ok s t k"
    and "one_per_node s" and "claims_held s"
  using assms by (auto simp: inv_def)

text \<open>A step that leaves the other controllers alone keeps what is known of them.\<close>

lemma ctl_ok_extends:
  assumes "extends s s'" and "ctl_ok s t cf st" and "now s' = now s"
    and "wdDue s' t = wdDue s t" and "closing s' t = closing s t"
  shows "ctl_ok s' t cf st"
  using assms obs_ok_extends [OF assms(1)] await_ok_later [of s st "st_await st" s']
  unfolding ctl_ok_def by (auto simp: extends_def)

lemma msg_ok_extends:
  assumes "extends s s'" and "msg_ok s m"
    and "is_release (g_op m) \<Longrightarrow> op_ok s' (g_from m) (g_sent m) (g_op m)"
  shows "msg_ok s' m"
proof (cases "is_release (g_op m)")
  case True
  with assms phase_ok_extends [OF assms(1)] show ?thesis by (auto simp: msg_ok_def extends_def)
next
  case False
  with assms phase_ok_extends [OF assms(1)] op_ok_extends [OF assms(1)] show ?thesis
    by (auto simp: msg_ok_def extends_def)
qed

lemma release_ok_iff: "is_release lop \<Longrightarrow> op_ok s t x lop \<longleftrightarrow>
    op_holder lop = t \<and> (\<forall>cf st. ctl s t = Some (cf, st) \<longrightarrow> no_lead st)"
  by (cases lop) auto

lemma kill_extends: "extends s (kill t s)"
  by (auto simp: extends_def kill_def)

lemma inv_kill:
  assumes "inv s"
  shows "inv (kill t s)"
  unfolding inv_def
proof (intro conjI allI impI)
  note ext = kill_extends [of s t]
  fix r assume "live (kill t s) = Some r"
  then have "live s = Some r" by (simp add: kill_def)
  from good_extends [OF ext invD(1) [OF assms this]] show "good (kill t s) r" .
next
  show "wrote (kill t s) \<le> now (kill t s)" using invD(2) [OF assms] by (simp add: kill_def)
next
  fix u cf st assume "ctl (kill t s) u = Some (cf, st)"
  then have "ctl s u = Some (cf, st)" by (auto simp: kill_def split: if_splits)
  from ctl_ok_extends [OF kill_extends invD(3) [OF assms this]] show "ctl_ok (kill t s) u cf st"
    by (simp add: kill_def)
next
  fix k m assume "net (kill t s) k = Some m"
  then have "net s k = Some m" by (simp add: kill_def)
  from invD(4) [OF assms this] show "msg_ok (kill t s) m"
    by (intro msg_ok_extends [OF kill_extends]) (auto simp: release_ok_iff msg_ok_def kill_def)
next
  fix u k assume "pend (kill t s) u = Some k"
  with invD(5) [OF assms] show "pend_ok (kill t s) u k"
    by (fastforce simp: pend_ok_def kill_def split: if_splits)
next
  show "one_per_node (kill t s)"
    using invD(6) [OF assms] unfolding one_per_node_def kill_def by (auto split: if_splits; metis)
next
  show "claims_held (kill t s)"
    using invD(7) [OF assms] unfolding claims_held_def leads_def answered_def held_def kill_def
    by (auto split: if_splits; metis)
qed


text \<open>
  One controller moves: its store changes, its own watchdog and closing marks may change, and
  it either keeps waiting, stops waiting, or sends a new call.
\<close>

definition same_world :: "sys \<Rightarrow> sys \<Rightarrow> bool" where
  "same_world s s' \<longleftrightarrow> now s' = now s \<and> version s' = version s \<and> live s' = live s
     \<and> wrote s' = wrote s \<and> stamps s' = stamps s \<and> home s' = home s"

definition no_call :: "string \<Rightarrow> store \<Rightarrow> store \<Rightarrow> sys \<Rightarrow> sys \<Rightarrow> bool" where
  "no_call t st st' s s' \<longleftrightarrow> net s' = net s \<and> (pend s' = (pend s)(t := None)
     \<or> pend s' = pend s \<and> (st_await st' = st_await st \<or> st_await st' = AwaitNone))"

definition new_call :: "string \<Rightarrow> store \<Rightarrow> sys \<Rightarrow> sys \<Rightarrow> bool" where
  "new_call t st' s s' \<longleftrightarrow> (\<exists>k lop. net s k = None \<and> pend s' = (pend s)(t \<mapsto> k)
     \<and> net s' = (net s)(k \<mapsto> \<lparr>g_from = t, g_op = lop, g_sent = now s, g_phase = Sent\<rparr>)
     \<and> op_ok s t (now s) lop \<and> \<not> is_release lop \<and> sent_ok (st_await st') (now s))"

lemma same_world_extends:
  assumes "same_world s s'" and "ctl s' = (ctl s)(t \<mapsto> c)" and "ctl s t \<noteq> None"
  shows "extends s s'"
  using assms by (auto simp: extends_def same_world_def)

lemma inv_local:
  assumes inv: "inv s" and old: "ctl s t = Some (cf, st)"
    and world: "same_world s s'" and ctl': "ctl s' = (ctl s)(t \<mapsto> (cf, st'))"
    and frame: "\<And>u. u \<noteq> t \<Longrightarrow> wdDue s' u = wdDue s u \<and> closing s' u = closing s u"
    and calls: "no_call t st st' s s' \<or> new_call t st' s s'"
    and ok: "ctl_ok s' t cf st'"
    and stays: "no_lead st \<Longrightarrow> no_lead st'"
    and lead: "st_role st' = Leader \<Longrightarrow> now s < st_lastOk st' + LEASE_TTL_MS \<Longrightarrow> held s t (st_lastOk st')"
  shows "inv s'"
  unfolding inv_def
proof (intro conjI allI impI)
  note ext = same_world_extends [OF world ctl']
  have ext: "extends s s'" using ext old by simp
  note w = world [unfolded same_world_def]
  { fix r assume "live s' = Some r"
    with good_extends [OF ext invD(1) [OF inv]] w show "good s' r" by simp }
  show "wrote s' \<le> now s'" using invD(2) [OF inv] w by simp
  { fix u cf' st'' assume u: "ctl s' u = Some (cf', st'')"
    show "ctl_ok s' u cf' st''"
    proof (cases "u = t")
      case True
      with u ctl' ok show ?thesis by simp
    next
      case False
      with u ctl' have "ctl s u = Some (cf', st'')" by simp
      from ctl_ok_extends [OF ext invD(3) [OF inv this]] frame [OF False] w show ?thesis by simp
    qed }
  { fix k m assume m: "net s' k = Some m"
    have old_msg: "msg_ok s' m" if "net s k = Some m"
    proof (rule msg_ok_extends [OF ext invD(4) [OF inv that]])
      assume "is_release (g_op m)"
      with invD(4) [OF inv that] show "op_ok s' (g_from m) (g_sent m) (g_op m)"
        using old ctl' stays by (auto simp: msg_ok_def release_ok_iff)
    qed
    from calls show "msg_ok s' m"
    proof
      assume "no_call t st st' s s'"
      with m old_msg show ?thesis by (simp add: no_call_def)
    next
      assume "new_call t st' s s'"
      then obtain k' lop where net: "net s' = (net s)(k' \<mapsto> \<lparr>g_from = t, g_op = lop, g_sent = now s, g_phase = Sent\<rparr>)"
        and op: "op_ok s t (now s) lop" "\<not> is_release lop" by (auto simp: new_call_def)
      from invD(3) [OF inv old] have "home s' t \<noteq> None" using w by (simp add: ctl_ok_def)
      with op_ok_extends [OF ext op] w m net old_msg show ?thesis
        by (auto simp: msg_ok_def split: if_splits)
    qed }
  { fix u k assume p: "pend s' u = Some k"
    from calls show "pend_ok s' u k"
    proof
      assume nc: "no_call t st st' s s'"
      then have "pend s u = Some k" using p by (auto simp: no_call_def split: if_splits)
      from invD(5) [OF inv this] show ?thesis
        using nc p old ctl' by (fastforce simp: pend_ok_def no_call_def split: if_splits)
    next
      assume nc: "new_call t st' s s'"
      show ?thesis
      proof (cases "u = t")
        case True
        with nc p ctl' show ?thesis by (auto simp: pend_ok_def new_call_def)
      next
        case False
        with nc p have "pend s u = Some k" by (auto simp: new_call_def)
        from invD(5) [OF inv this] False nc ctl' show ?thesis
          by (auto simp: pend_ok_def new_call_def)
      qed
    qed }
  show "one_per_node s'"
    using invD(6) [OF inv] old ctl' unfolding one_per_node_def by (auto split: if_splits)
  show "claims_held s'"
    unfolding claims_held_def
  proof (intro allI impI)
    fix u x assume c: "leads s' u x \<or> answered s' u x" and lt: "now s' < x + LEASE_TTL_MS"
    have keep: "held s' u x" if "leads s u x \<or> answered s u x"
      using invD(7) [OF inv] that lt w by (auto simp: claims_held_def held_def)
    from c show "held s' u x"
    proof
      assume l: "leads s' u x"
      show ?thesis
      proof (cases "u = t")
        case True
        with l ctl' lead lt w show ?thesis by (auto simp: leads_def held_def)
      next
        case False
        with l ctl' keep show ?thesis by (auto simp: leads_def)
      qed
    next
      assume a: "answered s' u x"
      have "answered s u x"
        using a calls old ctl' stays unfolding answered_def no_call_def new_call_def
        by (fastforce split: if_splits)
      with keep show ?thesis by blast
    qed
  qed
qed


subsection \<open>Steps of one controller\<close>

lemma commit_quiet: "\<not> exits es \<Longrightarrow> lease_call es = None \<Longrightarrow>
    commit t cf k (st', es) s = s\<lparr>ctl := (ctl s)(t \<mapsto> (cf, st'))\<rparr>"
  by (simp add: commit_def)

lemma commit_call: "\<not> exits es \<Longrightarrow> lease_call es = Some lop \<Longrightarrow>
    commit t cf k (st', es) s = s\<lparr>ctl := (ctl s)(t \<mapsto> (cf, st')), pend := (pend s)(t \<mapsto> k),
      net := (net s)(k \<mapsto> \<lparr>g_from = t, g_op = lop, g_sent = now s, g_phase = Sent\<rparr>)\<rparr>"
  by (simp add: commit_def send_def)

lemma commit_exit: "exits es \<Longrightarrow> commit t cf k (st', es) s = kill t s"
  by (simp add: commit_def)

lemma inv_marks_of_dead:
  assumes "inv s" and "ctl s t = None"
  shows "inv (s\<lparr>wdDue := (wdDue s)(t := x)\<rparr>)" and "inv (s\<lparr>closing := (closing s)(t := c)\<rparr>)"
proof -
  have *: "op_ok (s\<lparr>wdDue := w\<rparr>) u y lop = op_ok s u y lop" "op_ok (s\<lparr>closing := d\<rparr>) u y lop = op_ok s u y lop"
    for w d u y lop by (cases lop; simp add: good_def justified_def)+
  have **: "phase_ok (s\<lparr>wdDue := w\<rparr>) ph = phase_ok s ph" "phase_ok (s\<lparr>closing := d\<rparr>) ph = phase_ok s ph"
    for w d ph by (cases ph; simp add: good_def)+
  have ***: "await_ok (s\<lparr>wdDue := w\<rparr>) st a = await_ok s st a" "await_ok (s\<lparr>closing := d\<rparr>) st a = await_ok s st a"
    for w d st a by (cases a; simp)+
  note defs = inv_def good_def ctl_ok_def msg_ok_def pend_ok_def obs_ok_def one_per_node_def
    claims_held_def leads_def answered_def held_def * ** ***
  from assms show "inv (s\<lparr>wdDue := (wdDue s)(t := x)\<rparr>)" by (auto simp: defs)
  from assms show "inv (s\<lparr>closing := (closing s)(t := c)\<rparr>)" by (auto simp: defs)
qed

lemma ctl_ok_same:
  assumes "ctl_ok s t cf st" and "same_but_await st st'" and "st_await st' = st_await st"
  shows "ctl_ok s t cf st'"
  using assms by (cases "st_await st") (auto simp: ctl_ok_def same_but_await_def no_lead_def)

lemma leader_holds:
  assumes "inv s" and "ctl s t = Some (cf, st)" and "st_role st = Leader"
    and "now s < st_lastOk st + LEASE_TTL_MS"
  shows "held s t (st_lastOk st)"
  using invD(7) [OF assms(1)] assms(2-4) by (auto simp: claims_held_def leads_def)

text \<open>A handler that keeps role, clock and observation: it may stop waiting or make a call.\<close>

lemma inv_commit_same:
  assumes inv: "inv s" and c: "ctl s t = Some (cf, st)" and k: "net s k = None" and nx: "\<not> exits es"
    and same: "same_but_await st st'" and aw: "await_ok s st' (st_await st')"
    and cl: "no_lead st \<Longrightarrow> no_lead st'"
    and p: "s0 = s \<or> s0 = s\<lparr>pend := (pend s)(t := None)\<rparr>"
    and quiet: "lease_call es = None \<Longrightarrow> st_await st' = st_await st \<or> st_await st' = AwaitNone"
    and call: "\<And>lop. lease_call es = Some lop \<Longrightarrow>
         op_ok s t (now s) lop \<and> \<not> is_release lop \<and> sent_ok (st_await st') (now s)"
    and w: "w = wdDue s \<or> st_role st \<noteq> Leader \<and> w = (wdDue s)(t := y)
       \<or> w = (wdDue s)(t := y) \<and> now s \<le> y \<and> y < st_lastOk st + LEASE_TTL_MS"
  shows "inv ((commit t cf k (st', es) s0)\<lparr>wdDue := w\<rparr>)"
proof (rule inv_local [OF inv c])
  let ?s' = "(commit t cf k (st', es) s0)\<lparr>wdDue := w\<rparr>"
  show world: "same_world s ?s'"
    using p nx by (cases "lease_call es") (auto simp: same_world_def commit_quiet commit_call)
  show ctl': "ctl ?s' = (ctl s)(t \<mapsto> (cf, st'))"
    using p nx by (cases "lease_call es") (auto simp: commit_quiet commit_call)
  have closing': "closing ?s' = closing s"
    using p nx by (cases "lease_call es") (auto simp: commit_quiet commit_call)
  then show "\<And>u. u \<noteq> t \<Longrightarrow> wdDue ?s' u = wdDue s u \<and> closing ?s' u = closing s u"
    using w by auto
  show "no_call t st st' s ?s' \<or> new_call t st' s ?s'"
  proof (cases "lease_call es")
    case None
    with p nx quiet show ?thesis by (auto simp: no_call_def commit_quiet)
  next
    case (Some lop)
    have "new_call t st' s ?s'"
      unfolding new_call_def
      by (rule exI [of _ k], rule exI [of _ lop]) (use p nx call [OF Some] k Some in \<open>auto simp: commit_call\<close>)
    then show ?thesis by blast
  qed
  have ext: "extends s ?s'" using same_world_extends [OF world ctl'] c by simp
  from invD(3) [OF inv c] have ok: "ctl_ok s t cf st" .
  show "ctl_ok ?s' t cf st'"
    using ok same aw cl w world closing' obs_ok_extends [OF ext] await_ok_later [OF aw, of ?s']
    unfolding ctl_ok_def same_but_await_def same_world_def by auto
  show "no_lead st \<Longrightarrow> no_lead st'" by (rule cl)
  show "st_role st' = Leader \<Longrightarrow> now s < st_lastOk st' + LEASE_TTL_MS \<Longrightarrow> held s t (st_lastOk st')"
    using leader_holds [OF inv c] same by (simp add: same_but_await_def)
qed

lemma commit_wdDue: "(commit t cf k out s)\<lparr>wdDue := wdDue s\<rparr> = commit t cf k out s"
  by (cases "lease_call (snd out)") (auto simp: commit_def kill_def send_def Let_def)

lemma op_ok_acquireOp:
  assumes "ctl_ok s t cf st" and "\<And>E. ex = Some E \<Longrightarrow> good s E \<and> justified s t x E"
  shows "op_ok s t x (acquireOp cf ex me)"
  using assms by (simp add: acquireOp_def ctl_ok_def)

lemma op_ok_renewOp: "ctl_ok s t cf st \<Longrightarrow> op_ok s t x (renewOp cf e)"
  by (simp add: renewOp_def ctl_ok_def)

lemma is_release_ops [simp]: "\<not> is_release (acquireOp cf ex me)" "\<not> is_release (renewOp cf e)"
  by (simp_all add: acquireOp_def renewOp_def)

text \<open>The takeover decision only ever names a record whose holder cannot lead any more.\<close>

lemma takeover_justified:
  assumes "ctl_ok s t cf st" and "st_obs st = Some ob"
    and "takeoverDecision ob (store_self cf) (now s) = Take (Some E) w"
  shows "good s E \<and> justified s t (now s) E"
  using assms unfolding takeoverDecision_def
  by (auto simp: ctl_ok_def obs_ok_def store_self_def justified_def good_def Let_def
      split: option.splits if_splits)

lemma inv_acquire:
  assumes inv: "inv s" and c: "ctl s t = Some (cf, st)" and k: "net s k = None"
  shows "inv (commit t cf k (acquireTick cf ms (now s) st) s)"
proof -
  obtain st' es where out: "acquireTick cf ms (now s) st = (st', es)" by fastforce
  note eff = acquireTick_effect [OF out]
  note ok = invD(3) [OF inv c]
  have "inv ((commit t cf k (st', es) s)\<lparr>wdDue := wdDue s\<rparr>)"
  proof (rule inv_commit_same [OF inv c k])
    show "await_ok s st' (st_await st')"
      using eff ok ctl_ok_same [OF ok] by (auto simp: ctl_ok_def same_but_await_def)
    show "no_lead st \<Longrightarrow> no_lead st'" using eff by (auto simp: no_lead_def same_but_await_def)
    show "op_ok s t (now s) lop \<and> \<not> is_release lop \<and> sent_ok (st_await st') (now s)"
      if "lease_call es = Some lop" for lop
      using eff that takeover_justified [OF ok] op_ok_acquireOp [OF ok] by (auto; blast)
  qed (use eff in auto)
  with out show ?thesis by (simp add: commit_wdDue)
qed


lemma inv_renew:
  assumes inv: "inv s" and c: "ctl s t = Some (cf, st)" and k: "net s k = None"
  shows "inv (commit t cf k (renewTick cf ms (now s) st) s)"
proof -
  obtain st' es where out: "renewTick cf ms (now s) st = (st', es)" by fastforce
  note eff = renewTick_effect [OF out]
  note ok = invD(3) [OF inv c]
  have sent: "st_role st = Leader \<Longrightarrow> st_lastOk st \<le> now s"
    using leader_holds [OF inv c] invD(2) [OF inv] by (fastforce simp: held_def LEASE_TTL_MS_def)
  have "inv ((commit t cf k (st', es) s)\<lparr>wdDue := wdDue s\<rparr>)"
  proof (rule inv_commit_same [OF inv c k])
    show "await_ok s st' (st_await st')"
      using eff sent ctl_ok_same [OF ok] by (auto simp: ctl_ok_def same_but_await_def)
    show "no_lead st \<Longrightarrow> no_lead st'" using eff by (auto simp: no_lead_def same_but_await_def)
    show "op_ok s t (now s) lop \<and> \<not> is_release lop \<and> sent_ok (st_await st') (now s)"
      if "lease_call es = Some lop" for lop
      using eff that op_ok_renewOp [OF ok] by auto
  qed (use eff in auto)
  with out show ?thesis by (simp add: commit_wdDue)
qed

lemma inv_watch:
  assumes inv: "inv s" and c: "ctl s t = Some (cf, st)" and k: "net s k = None" and mc: "mc \<noteq> Some 1"
    and P: "0 \<le> P" "P \<le> LEASE_FENCE_MARGIN_MS"
  shows "inv ((commit t cf k (watchdog mc (now s) st) s)\<lparr>wdDue := (wdDue s)(t := now s + P)\<rparr>)"
proof -
  obtain st' es where out: "watchdog mc (now s) st = (st', es)" by fastforce
  show ?thesis
  proof (cases "exits es")
    case True
    have "ctl (kill t s) t = None" "wdDue (kill t s) = wdDue s" by (simp_all add: kill_def)
    with inv_marks_of_dead(1) [OF inv_kill [OF inv]] True out show ?thesis
      by (metis commit_exit)
  next
    case False
    note eff = watchdog_effect [OF out False]
    note ok = invD(3) [OF inv c]
    show ?thesis unfolding out
    proof (rule inv_commit_same [OF inv c k False])
      show "await_ok s st' (st_await st')" using eff ctl_ok_same [OF ok] by (auto simp: ctl_ok_def)
      show "no_lead st \<Longrightarrow> no_lead st'" using eff by (auto simp: no_lead_def same_but_await_def)
      show "(wdDue s)(t := now s + P) = wdDue s
          \<or> st_role st \<noteq> Leader \<and> (wdDue s)(t := now s + P) = (wdDue s)(t := now s + P)
          \<or> (wdDue s)(t := now s + P) = (wdDue s)(t := now s + P) \<and> now s \<le> now s + P
             \<and> now s + P < st_lastOk st + LEASE_TTL_MS"
        using eff mc P by (auto simp: mustFence_def fenceDeadline_def)
    qed (use eff in auto)
  qed
qed

lemma inv_stop:
  assumes inv: "inv s" and c: "ctl s t = Some (cf, st)" and k: "net s k = None"
  shows "inv ((commit t cf k (shutdown code st) s)
     \<lparr>closing := (closing s)(t \<mapsto> (st_role st = Leader \<or> closing s t = Some True))\<rparr>)"
proof -
  obtain st' es where out: "shutdown code st = (st', es)" by fastforce
  show ?thesis
  proof (cases "exits es")
    case True
    have "ctl (kill t s) t = None" "closing (kill t s) = closing s" by (simp_all add: kill_def)
    with inv_marks_of_dead(2) [OF inv_kill [OF inv]] True out show ?thesis
      by (metis commit_exit)
  next
    case False
    note eff = shutdown_effect [OF out False]
    note ok = invD(3) [OF inv c]
    let ?s' = "(commit t cf k (st', es) s)
      \<lparr>closing := (closing s)(t \<mapsto> (st_role st = Leader \<or> closing s t = Some True))\<rparr>"
    have s': "?s' = s\<lparr>ctl := (ctl s)(t \<mapsto> (cf, st')),
        closing := (closing s)(t \<mapsto> (st_role st = Leader \<or> closing s t = Some True))\<rparr>"
      using False eff by (simp add: commit_quiet)
    have world: "same_world s ?s'" and ctl': "ctl ?s' = (ctl s)(t \<mapsto> (cf, st'))"
      unfolding s' by (simp_all add: same_world_def)
    have ext: "extends s ?s'" using same_world_extends [OF world ctl'] c by simp
    have aw: "await_ok s st' (st_await st')"
      using ok eff by (cases "st_await st") (auto simp: ctl_ok_def)
    have nl: "st_role st = Leader \<or> closing s t = Some True \<Longrightarrow> no_lead st'"
      using ok eff by (cases "st_await st") (auto simp: ctl_ok_def no_lead_def)
    have "inv ?s'"
    proof (rule inv_local [OF inv c world ctl'])
      show "ctl_ok ?s' t cf st'"
        using ok eff nl obs_ok_extends [OF ext] await_ok_later [OF aw, of ?s'] world
        unfolding s' by (auto simp: ctl_ok_def same_world_def)
    qed (use eff in \<open>auto simp: s' no_call_def no_lead_def\<close>)
    with out show ?thesis by simp
  qed
qed

lemma inv_fail:
  assumes inv: "inv s" and c: "ctl s t = Some (cf, st)" and k: "net s k = None"
  shows "inv (commit t cf k (resume cf None (now s) (fst (callFailed cf tmo e st)))
           (s\<lparr>pend := (pend s)(t := None)\<rparr>))"
proof -
  let ?st = "fst (callFailed cf tmo e st)" and ?s0 = "s\<lparr>pend := (pend s)(t := None)\<rparr>"
  obtain st' es where out: "resume cf None (now s) ?st = (st', es)" by fastforce
  note ok = invD(3) [OF inv c]
  from ok have "c_replica cf" by (simp add: ctl_ok_def)
  note cf = callFailed_effect [OF this, of st tmo e]
  show ?thesis
  proof (cases "exits es")
    case True
    with inv_kill [OF inv] out show ?thesis by (simp add: commit_exit kill_def)
  next
    case False
    note eff = resume_effect [OF out False]
    have sent: "st_role st = Leader \<Longrightarrow> st_lastOk st \<le> now s"
      using leader_holds [OF inv c] invD(2) [OF inv] by (fastforce simp: held_def LEASE_TTL_MS_def)
    have "inv ((commit t cf k (st', es) ?s0)\<lparr>wdDue := wdDue s\<rparr>)"
    proof (rule inv_commit_same [OF inv c k False])
      show same: "same_but_await st st'" using eff cf unfolding resume_defs
        by (auto simp: same_but_await_def)
      show "await_ok s st' (st_await st')"
        using eff cf ok sent unfolding resume_defs by (auto simp: same_but_await_def ctl_ok_def)
      show "no_lead st \<Longrightarrow> no_lead st'" using eff cf unfolding resume_defs
        by (auto simp: no_lead_def same_but_await_def)
      show "op_ok s t (now s) lop \<and> \<not> is_release lop \<and> sent_ok (st_await st') (now s)"
        if "lease_call es = Some lop" for lop
        using eff that op_ok_renewOp [OF ok] unfolding resume_defs by auto
    qed (use eff cf in \<open>auto simp: resume_defs\<close>)
    then have "inv ((commit t cf k (st', es) ?s0)\<lparr>wdDue := wdDue ?s0\<rparr>)" by simp
    with out show ?thesis by (simp only: commit_wdDue)
  qed
qed


text \<open>An answered call: what it may change of the controller that made it.\<close>

lemma obs_ok_observe:
  assumes inv: "inv s" and c: "ctl s t = Some (cf, st)" and g: "\<And>r. rec = Some r \<Longrightarrow> good s r"
  shows "obs_ok s cf (observe (st_obs st) rec (now s))"
proof -
  note ok = invD(3) [OF inv c]
  have other: "ctl s (l_holder r) = None"
    if "rec = Some r" "l_node r = c_nodeId cf" "l_holder r \<noteq> c_taskId cf" for r
  proof (rule ccontr)
    assume "ctl s (l_holder r) \<noteq> None"
    then obtain cf' st' where c': "ctl s (l_holder r) = Some (cf', st')" by fastforce
    with invD(3) [OF inv c'] g [OF that(1)] that(2) have "c_nodeId cf' = c_nodeId cf"
      by (simp add: ctl_ok_def good_def)
    with invD(6) [OF inv] c c' have "l_holder r = t" unfolding one_per_node_def by blast
    with that(3) ok show False by (simp add: ctl_ok_def)
  qed
  have "obs_ok s cf \<lparr>o_record = rec, o_firstSeenAt = now s\<rparr>"
    using g other invD(2) [OF inv] by (auto simp: obs_ok_def)
  with ok show ?thesis by (auto simp: observe_def ctl_ok_def split: option.splits)
qed

text \<open>A positive answer to the call a controller waits for: it holds the label since then.\<close>

lemma answer_holds:
  assumes inv: "inv s" and c: "ctl s t = Some (cf, st)" and "pend s t = Some k" and "net s k = Some m"
    and "g_phase m = Answered res" and "r_ok res" and "\<not> no_lead st"
    and "now s \<le> g_sent m + call_timeout" and "x \<le> g_sent m"
  shows "held s t x"
proof -
  have "answered s t (g_sent m)" using assms unfolding answered_def by blast
  moreover have "now s < g_sent m + LEASE_TTL_MS"
    using assms by (simp add: call_timeout_def LEASE_TTL_MS_def)
  ultimately have "held s t (g_sent m)" using invD(7) [OF inv] unfolding claims_held_def by blast
  with assms(9) show ?thesis by (fastforce simp: held_def)
qed

text \<open>An answer that changes the store and makes no call.\<close>

lemma inv_answer_quiet:
  assumes inv: "inv s" and c: "ctl s t = Some (cf, st)" and P: "0 \<le> P"
    and obs: "\<And>ob. st_obs st' = Some ob \<Longrightarrow> obs_ok s cf ob"
    and aw: "st_await st' = AwaitNone"
    and nl: "no_lead st \<Longrightarrow> no_lead st'"
    and old: "st_role st = Leader \<Longrightarrow> st_role st' = Leader \<Longrightarrow> st_lastOk st \<le> st_lastOk st'"
    and new: "st_role st \<noteq> Leader \<Longrightarrow> st_role st' = Leader \<Longrightarrow> now s + P < st_lastOk st' + LEASE_TTL_MS"
    and lead: "st_role st' = Leader \<Longrightarrow> now s < st_lastOk st' + LEASE_TTL_MS \<Longrightarrow> held s t (st_lastOk st')"
  shows "inv (s\<lparr>ctl := (ctl s)(t \<mapsto> (cf, st')), pend := (pend s)(t := None),
      wdDue := (if st_role st = Leader then wdDue s else (wdDue s)(t := now s + P))\<rparr>)"
    (is "inv ?s'")
proof -
  note ok = invD(3) [OF inv c]
  have world: "same_world s ?s'" and ctl': "ctl ?s' = (ctl s)(t \<mapsto> (cf, st'))"
    by (simp_all add: same_world_def)
  have ext: "extends s ?s'" using same_world_extends [OF world ctl'] c by simp
  show ?thesis
  proof (rule inv_local [OF inv c world ctl' _ _ _ nl lead])
    show "ctl_ok ?s' t cf st'"
      using ok obs [THEN obs_ok_extends [OF ext]] aw nl old new P by (auto simp: ctl_ok_def)
  qed (auto simp: no_call_def)
qed

lemma inv_answer:
  assumes inv: "inv s" and c: "ctl s t = Some (cf, st)" and p: "pend s t = Some k"
    and m: "net s k = Some m" "g_phase m = Answered res" and tm: "now s \<le> g_sent m + call_timeout"
    and k': "net s k' = None" and P: "0 \<le> P" "P \<le> LEASE_FENCE_MARGIN_MS"
  shows "inv ((commit t cf k' (resume cf (Some res) (now s) (callAnswered st)) (s\<lparr>pend := (pend s)(t := None)\<rparr>))
            \<lparr>wdDue := (if st_role st = Leader then wdDue s else (wdDue s)(t := now s + P))\<rparr>)"
proof -
  let ?w = "if st_role st = Leader then wdDue s else (wdDue s)(t := now s + P)"
  let ?s0 = "s\<lparr>pend := (pend s)(t := None)\<rparr>"
  obtain st' es where out: "resume cf (Some res) (now s) (callAnswered st) = (st', es)" by fastforce
  have ca: "st_role (callAnswered st) = st_role st" "st_lastOk (callAnswered st) = st_lastOk st"
    "st_obs (callAnswered st) = st_obs st" "st_await (callAnswered st) = st_await st"
    by (simp_all add: callAnswered_def)
  note ok = invD(3) [OF inv c]
  from invD(5) [OF inv p] c m have rel: "\<not> is_release (g_op m)" and sent: "sent_ok (st_await st) (g_sent m)"
    by (auto simp: pend_ok_def)
  from invD(4) [OF inv m(1)] m(2) have good: "\<And>r. r_lease res = Some r \<Longrightarrow> good s r"
    by (simp add: msg_ok_def)
  note obs = obs_ok_observe [OF inv c good]
  note holds = answer_holds [OF inv c p m _ _ tm]
  note old_lead = leader_holds [OF inv c]
  show ?thesis
  proof (cases "exits es")
    case True
    have "ctl (kill t s) t = None" "wdDue (kill t s) = wdDue s" "kill t ?s0 = kill t s"
      by (simp_all add: kill_def)
    with inv_marks_of_dead(1) [OF inv_kill [OF inv]] inv_kill [OF inv, of t] True out show ?thesis
      by (cases "st_role st = Leader") (simp_all add: commit_exit kill_def)
  next
    case False
    show ?thesis
    proof (cases "lease_call es")
      case None
      have s': "(commit t cf k' (st', es) ?s0)\<lparr>wdDue := ?w\<rparr>
          = s\<lparr>ctl := (ctl s)(t \<mapsto> (cf, st')), pend := (pend s)(t := None), wdDue := ?w\<rparr>"
        using False None by (simp add: commit_quiet)
      from resume_effect [OF out False] None consider
          (same) "st' = callAnswered st" "st_await st = AwaitNone"
        | (quiet) "quiet_resume (Some res) (now s) (callAnswered st) st' es"
        | (leads) "leads_resume cf (Some res) (callAnswered st) st' es"
        | (confirms) "confirms_resume cf (Some res) (callAnswered st) st' es"
        unfolding retries_resume_def reacquires_resume_def ca by auto
      then show ?thesis unfolding out s'
      proof cases
        case same
        show "inv (s\<lparr>ctl := (ctl s)(t \<mapsto> (cf, st')), pend := (pend s)(t := None), wdDue := ?w\<rparr>)"
          by (rule inv_answer_quiet [OF inv c P(1)])
            (use same ca ok old_lead in \<open>auto simp: ctl_ok_def no_lead_def\<close>)
      next
        case quiet
        show "inv (s\<lparr>ctl := (ctl s)(t \<mapsto> (cf, st')), pend := (pend s)(t := None), wdDue := ?w\<rparr>)"
          by (rule inv_answer_quiet [OF inv c P(1)])
            (use quiet ca ok old_lead obs in \<open>auto simp: ctl_ok_def no_lead_def quiet_resume_def\<close>)
      next
        case leads
        then obtain node x where aw: "st_await st = AwaitAcquire node x" and "r_ok res"
          and st': "st_role st' = Leader" "st_lastOk st' = x" "st_await st' = AwaitNone" "st_obs st' = st_obs st"
          unfolding leads_resume_def ca by auto
        moreover have nl: "\<not> no_lead st" using aw by (simp add: no_lead_def)
        ultimately have "held s t x" using holds sent by simp
        with aw sent tm P ok st' nl
        show "inv (s\<lparr>ctl := (ctl s)(t \<mapsto> (cf, st')), pend := (pend s)(t := None), wdDue := ?w\<rparr>)"
          by (intro inv_answer_quiet [OF inv c P(1)])
            (auto simp: ctl_ok_def call_timeout_def LEASE_TTL_MS_def LEASE_FENCE_MARGIN_MS_def)
      next
        case confirms
        then obtain x rest node
          where aw: "st_await st = AwaitRenew x rest node \<or> st_await st = AwaitReacquire x rest node"
          and "r_ok res" and st': "st_role st' = st_role st" "st_lastOk st' = x" "st_await st' = AwaitNone"
            "st_obs st' = st_obs st"
          unfolding confirms_resume_def ca by auto
        moreover have nl: "st_role st = Leader \<Longrightarrow> \<not> no_lead st" by (simp add: no_lead_def)
        ultimately have "st_role st = Leader \<Longrightarrow> held s t x" using holds sent by auto
        with aw sent ok st' nl
        show "inv (s\<lparr>ctl := (ctl s)(t \<mapsto> (cf, st')), pend := (pend s)(t := None), wdDue := ?w\<rparr>)"
          by (intro inv_answer_quiet [OF inv c P(1)]) (auto simp: ctl_ok_def no_lead_def)
      qed
    next
      case (Some lop)
      from resume_effect [OF out False] Some consider
          (retries) "retries_resume cf (now s) (callAnswered st) st' es"
        | (reacquires) "reacquires_resume cf (Some res) (callAnswered st) st' es"
        unfolding quiet_resume_def leads_resume_def confirms_resume_def ca by auto
      then have *: "same_but_await st st' \<and> await_ok s st' (st_await st')
          \<and> op_ok s t (now s) lop \<and> \<not> is_release lop \<and> sent_ok (st_await st') (now s)
          \<and> (no_lead st \<longrightarrow> no_lead st')"
      proof cases
        case retries
        with Some ok op_ok_renewOp [OF ok] show ?thesis unfolding retries_resume_def ca
          by (auto simp: same_but_await_def ca ctl_ok_def no_lead_def)
      next
        case reacquires
        then have "op_ok s t (now s) lop"
          using Some good unfolding reacquires_resume_def
          by (auto intro!: op_ok_acquireOp [OF ok] simp: justified_def)
        with reacquires Some ok show ?thesis unfolding reacquires_resume_def ca
          by (auto simp: same_but_await_def ca ctl_ok_def no_lead_def)
      qed
      show ?thesis unfolding out
        by (rule inv_commit_same [OF inv c k' False, where y = "now s + P"]) (use * Some in auto)
    qed
  qed
qed


subsection \<open>Steps of the network and of time\<close>

text \<open>A call moves to its next phase without a write.\<close>

lemma inv_phase:
  assumes inv: "inv s" and m: "net s k = Some m" and ph: "phase_ok s ph"
    and quiet: "\<And>res. ph = Answered res \<Longrightarrow> r_ok res \<Longrightarrow> is_release (g_op m)"
  shows "inv (set_phase k ph s)"
proof -
  let ?s' = "set_phase k ph s"
  have net': "net ?s' = (net s)(k \<mapsto> m\<lparr>g_phase := ph\<rparr>)" using m by (simp add: set_phase_def)
  have ext: "extends s ?s'" by (simp add: extends_def set_phase_def)
  have same: "ctl ?s' = ctl s" "pend ?s' = pend s" "live ?s' = live s" "wrote ?s' = wrote s"
    "now ?s' = now s" "wdDue ?s' = wdDue s" "closing ?s' = closing s"
    by (simp_all add: set_phase_def)
  have claims: "leads ?s' u x \<or> answered ?s' u x \<Longrightarrow> leads s u x \<or> answered s u x" for u x
    using quiet m invD(5) [OF inv, of u k] net' same
    by (fastforce simp: leads_def answered_def pend_ok_def split: if_splits)
  have msgs: "msg_ok ?s' m'" if "net ?s' k' = Some m'" for k' m'
  proof -
    from that net' m obtain m0 where m0: "net s k' = Some m0" and
      "m' = m0 \<or> m' = m0\<lparr>g_phase := ph\<rparr>" by (auto split: if_splits)
    moreover have "msg_ok s (m0\<lparr>g_phase := ph\<rparr>)" using invD(4) [OF inv m0] ph by (simp add: msg_ok_def)
    ultimately have "msg_ok s m'" using invD(4) [OF inv m0] by auto
    then show ?thesis
      by (rule msg_ok_extends [OF ext]) (use \<open>msg_ok s m'\<close> same in \<open>auto simp: msg_ok_def release_ok_iff\<close>)
  qed
  have pends: "pend_ok ?s' u k'" if "pend ?s' u = Some k'" for u k'
    using invD(5) [OF inv, of u k'] that net' same m by (auto simp: pend_ok_def)
  have ctls: "ctl_ok ?s' u cf st" if "ctl ?s' u = Some (cf, st)" for u cf st
    using ctl_ok_extends [OF ext invD(3) [OF inv, of u cf st]] that same by simp
  have lives: "good ?s' r" if "live ?s' = Some r" for r
    using good_extends [OF ext invD(1) [OF inv, of r]] that same by simp
  have "one_per_node ?s'" using invD(6) [OF inv] same by (simp add: one_per_node_def)
  moreover have "claims_held ?s'"
    using invD(7) [OF inv] claims same unfolding claims_held_def held_def by metis
  moreover have "wrote ?s' \<le> now ?s'" using invD(2) [OF inv] same by simp
  ultimately show ?thesis unfolding inv_def using msgs pends ctls lives by blast
qed

lemma inv_inspect:
  assumes inv: "inv s" and m: "net s k = Some m"
  shows "inv (set_phase k (Inspected (version s) (live s)) s)"
  by (rule inv_phase [OF inv m]) (use invD(1) [OF inv] in auto)

lemma inv_no_write:
  assumes inv: "inv s" and m: "net s k = Some m" "g_phase m = Inspected v seen"
    and d: "decideLeaseWrite seen (g_op m) wall = (None, res)"
  shows "inv (set_phase k (Answered res) s)"
  by (rule inv_phase [OF inv m(1)])
    (use invD(4) [OF inv m(1)] m(2) cell.unwritten_answer [OF d] in \<open>auto simp: msg_ok_def\<close>)

lemma inv_conflict:
  assumes inv: "inv s" and m: "net s k = Some m"
  shows "inv (set_phase k (Answered (lease_result False (live s) rs)) s)"
  by (rule inv_phase [OF inv m]) (use invD(1) [OF inv] in \<open>auto simp: lease_result_def\<close>)

text \<open>A write that takes the label from a controller is one that could not lead any more.\<close>

lemma landed_keeps_claim:
  assumes inv: "inv s" and m: "net s k = Some m"
    and d: "decideLeaseWrite (live s) (g_op m) wall = (Some nx, res)"
    and claim: "leads s u x \<or> answered s u x" and lt: "now s < x + LEASE_TTL_MS"
  shows "l_holder nx = u \<and> \<not> l_released nx \<and> x \<le> now s"
proof -
  from invD(7) [OF inv] claim lt obtain r where r: "live s = Some r" "l_holder r = u" "\<not> l_released r" "x \<le> wrote s"
    unfolding claims_held_def held_def by blast
  from invD(4) [OF inv m] have op: "op_ok s (g_from m) (g_sent m) (g_op m)" and t: "g_sent m \<le> now s"
    by (auto simp: msg_ok_def)
  from claim obtain cf st where c: "ctl s u = Some (cf, st)" "\<not> no_lead st"
    by (auto simp: leads_def answered_def no_lead_def)
  have u: "op_holder (g_op m) = u"
  proof (rule ccontr)
    assume ne: "op_holder (g_op m) \<noteq> u"
    from cell.foreign_write [of r "g_op m" wall nx res] d r ne obtain h n hn ttl E me
      where o: "g_op m = LeaseAcquire h n hn ttl (Some E) me" "sameLeaseWrite (Some r) (Some E)" by auto
    with op have "justified s (g_from m) (g_sent m) E" "h = g_from m" by auto
    with o(2) r ne c(1) o(1) t lt show False
      by (auto simp: justified_def sameLeaseWrite_stamp stamp_of_def)
  qed
  have "\<not> is_release (g_op m)"
  proof
    assume rel: "is_release (g_op m)"
    with op u c show False by (auto simp: release_ok_iff)
  qed
  with cell.writer_holds [OF d] cell.released_iff [OF d] u r(4) invD(2) [OF inv] show ?thesis by simp
qed

lemma landed_good:
  assumes inv: "inv s" and m: "net s k = Some m"
    and d: "decideLeaseWrite (live s) (g_op m) wall = (Some nx, res)"
  shows "l_ttlMs nx = LEASE_TTL_MS \<and> home s (l_holder nx) = Some (l_node nx) \<and> l_node nx \<noteq> []"
proof -
  from invD(4) [OF inv m] have op: "op_ok s (g_from m) (g_sent m) (g_op m)" by (simp add: msg_ok_def)
  show ?thesis
  proof (cases "g_op m")
    case (LeaseAcquire h n hn ttl ex me)
    with op cell.acquire_writes [OF d [unfolded LeaseAcquire]] show ?thesis by auto
  next
    case (LeaseRenew h n hn ttl e)
    with op cell.renew_writes [OF d [unfolded LeaseRenew]] show ?thesis by auto
  next
    case (LeaseRelease h e)
    with cell.release_writes [OF d [unfolded LeaseRelease]] invD(1) [OF inv] show ?thesis
      by (auto simp: good_def)
  qed
qed

lemma inv_landed:
  assumes inv: "inv s" and m: "net s k = Some m" "g_phase m = Inspected (version s) seen"
    and d: "decideLeaseWrite seen (g_op m) wall = (Some nx, res)" and fresh: "stamp_of nx \<notin> stamps s"
  shows "inv ((set_phase k (Answered res) s)
            \<lparr>live := Some nx, version := version s + 1, wrote := now s,
             stamps := insert (stamp_of nx) (stamps s)\<rparr>)" (is "inv ?s'")
proof -
  from invD(4) [OF inv m(1)] m(2) have "seen = live s" by (simp add: msg_ok_def)
  note d = d [unfolded this]
  have net': "net ?s' = (net s)(k \<mapsto> m\<lparr>g_phase := Answered res\<rparr>)" using m by (simp add: set_phase_def)
  have same: "ctl ?s' = ctl s" "pend ?s' = pend s" "live ?s' = Some nx" "wrote ?s' = now s"
    "now ?s' = now s" "wdDue ?s' = wdDue s" "closing ?s' = closing s"
    by (simp_all add: set_phase_def)
  have ext: "extends s ?s'" using fresh by (auto simp: extends_def set_phase_def)
  have nx: "good ?s' nx" using landed_good [OF inv m(1) d] by (simp add: good_def set_phase_def)
  have msgs: "msg_ok ?s' m'" if "net ?s' k' = Some m'" for k' m'
  proof -
    from that net' m obtain m0 where m0: "net s k' = Some m0" and
      m': "m' = m0 \<or> m' = m0\<lparr>g_phase := Answered res\<rparr>" by (auto split: if_splits)
    have "msg_ok ?s' m0"
      by (rule msg_ok_extends [OF ext invD(4) [OF inv m0]])
        (use invD(4) [OF inv m0] same in \<open>auto simp: msg_ok_def release_ok_iff\<close>)
    with m' nx cell.written_answer [OF d] show ?thesis by (auto simp: msg_ok_def)
  qed
  have pends: "pend_ok ?s' u k'" if "pend ?s' u = Some k'" for u k'
    using invD(5) [OF inv, of u k'] that net' same m by (auto simp: pend_ok_def)
  have ctls: "ctl_ok ?s' u cf st" if "ctl ?s' u = Some (cf, st)" for u cf st
    using ctl_ok_extends [OF ext invD(3) [OF inv, of u cf st]] that same by simp
  have claims: "held ?s' u x" if cl: "leads ?s' u x \<or> answered ?s' u x" and lt: "now ?s' < x + LEASE_TTL_MS" for u x
  proof (cases "leads s u x \<or> answered s u x")
    case True
    from landed_keeps_claim [OF inv m(1) d True] lt same show ?thesis by (simp add: held_def)
  next
    case False
    with cl net' same have "pend s u = Some k" "x = g_sent m"
      by (auto simp: leads_def answered_def split: if_splits)
    with invD(5) [OF inv, of u k] invD(4) [OF inv m(1)] m(1)
    have "g_from m = u" "\<not> is_release (g_op m)" "x \<le> now s" "op_holder (g_op m) = g_from m"
      by (cases "g_op m"; auto simp: pend_ok_def msg_ok_def)+
    with cell.writer_holds [OF d] cell.released_iff [OF d] same show ?thesis by (simp add: held_def)
  qed
  have "one_per_node ?s'" using invD(6) [OF inv] same by (simp add: one_per_node_def)
  then show ?thesis unfolding inv_def claims_held_def using msgs pends ctls nx claims same by auto
qed

lemma inv_tick:
  assumes inv: "inv s" and "now s < n" and lead: "\<forall>t. is_leader s t \<longrightarrow> n \<le> wdDue s t"
  shows "inv (s\<lparr>now := n\<rparr>)" (is "inv ?s'")
proof -
  have ext: "extends s ?s'" using assms(2) by (simp add: extends_def)
  have "msg_ok ?s' m" if "net s k = Some m" for k m
    by (rule msg_ok_extends [OF ext invD(4) [OF inv that]])
      (use invD(4) [OF inv that] in \<open>auto simp: msg_ok_def release_ok_iff\<close>)
  moreover have "ctl_ok ?s' t cf st" if "ctl s t = Some (cf, st)" for t cf st
    using invD(3) [OF inv that] that lead obs_ok_extends [OF ext] await_ok_later [of s st "st_await st" ?s'] assms(2)
    unfolding ctl_ok_def is_leader_def by auto
  moreover have "good ?s' r" if "live s = Some r" for r
    by (rule good_extends [OF ext invD(1) [OF inv that]])
  moreover have "pend_ok ?s' t k" if "pend s t = Some k" for t k
    using invD(5) [OF inv that] by (simp add: pend_ok_def)
  moreover have "claims_held ?s'"
    using invD(7) [OF inv] assms(2) unfolding claims_held_def leads_def answered_def held_def by fastforce
  ultimately show ?thesis using invD(2,6) [OF inv] assms(2) by (simp add: inv_def one_per_node_def)
qed


lemma inv_other_update:
  assumes inv: "inv s"
  shows "inv (s\<lparr>version := version s + 1\<rparr>)" (is "inv ?s'")
proof -
  have ext: "extends s ?s'" by (simp add: extends_def)
  have "msg_ok ?s' m" if "net s k = Some m" for k m
    by (rule msg_ok_extends [OF ext invD(4) [OF inv that]])
      (use invD(4) [OF inv that] in \<open>auto simp: msg_ok_def release_ok_iff\<close>)
  moreover have "ctl_ok ?s' t cf st" if "ctl s t = Some (cf, st)" for t cf st
    using ctl_ok_extends [OF ext invD(3) [OF inv that]] by simp
  moreover have "good ?s' r" if "live s = Some r" for r
    by (rule good_extends [OF ext invD(1) [OF inv that]])
  moreover have "pend_ok ?s' t k" if "pend s t = Some k" for t k
    using invD(5) [OF inv that] by (simp add: pend_ok_def)
  moreover have "claims_held ?s'"
    using invD(7) [OF inv] unfolding claims_held_def leads_def answered_def held_def by simp
  ultimately show ?thesis using invD(2,6) [OF inv] by (simp add: inv_def one_per_node_def)
qed

lemma inv_release:
  assumes inv: "inv s" and c: "ctl s t = Some (cf, st)" and cl: "closing s t = Some wasLeader"
    and lop: "lease_call (shutdownRelease cf wasLeader ms code st) = Some lop" and k: "net s k = None"
  shows "inv (send t k lop s)" (is "inv ?s'")
proof -
  note ok = invD(3) [OF inv c]
  from lop ok obtain e where op: "lop = LeaseRelease t e" and wl: "wasLeader"
    by (auto simp: shutdownRelease_def ctl_ok_def split: bool.splits option.splits list.splits)
  have ext: "extends s ?s'" by (simp add: extends_def send_def)
  have nl: "no_lead st" using ok wl cl by (simp add: ctl_ok_def)
  have "msg_ok ?s' m" if "net s i = Some m" for i m
    by (rule msg_ok_extends [OF ext invD(4) [OF inv that]])
      (use invD(4) [OF inv that] in \<open>auto simp: msg_ok_def release_ok_iff send_def\<close>)
  moreover have "msg_ok ?s' \<lparr>g_from = t, g_op = lop, g_sent = now s, g_phase = Sent\<rparr>"
    using ok nl c by (auto simp: msg_ok_def op send_def ctl_ok_def)
  ultimately have "msg_ok ?s' m" if "net ?s' i = Some m" for i m
    using that by (auto simp: send_def split: if_splits)
  moreover have "ctl_ok ?s' u cf' st'" if "ctl s u = Some (cf', st')" for u cf' st'
    using ctl_ok_extends [OF ext invD(3) [OF inv that]] by (simp add: send_def)
  moreover have "good ?s' r" if "live s = Some r" for r
    by (rule good_extends [OF ext invD(1) [OF inv that]])
  moreover have "pend_ok ?s' u i" if "pend s u = Some i" for u i
    using invD(5) [OF inv that] k by (auto simp: pend_ok_def send_def)
  moreover have "claims_held ?s'"
    using invD(7) [OF inv] k unfolding claims_held_def leads_def answered_def held_def send_def
    by (auto split: if_splits; blast)
  moreover have "now ?s' = now s" "wrote ?s' = wrote s" "live ?s' = live s" "ctl ?s' = ctl s" "pend ?s' = pend s"
    by (simp_all add: send_def)
  ultimately show ?thesis using invD(2,6) [OF inv] unfolding inv_def one_per_node_def by auto
qed

lemma start_no_managers:
  "c_leaseEnabled cf \<Longrightarrow> st_role (fst (start cf [] n (init_store mk))) = Acquiring
     \<and> st_await (fst (start cf [] n (init_store mk))) = AwaitNone
     \<and> st_obs (fst (start cf [] n (init_store mk))) = None"
  by (simp add: start_def acquireTick_def init_store_def)

lemma inv_begin:
  assumes inv: "inv s" and new: "home s t = None" and cf: "c_taskId cf = t" "c_nodeId cf \<noteq> []" "c_replica cf"
    "c_leaseEnabled cf" and free: "\<not> alive_on s (c_nodeId cf)"
  shows "inv (s\<lparr>ctl := (ctl s)(t \<mapsto> (cf, fst (start cf [] (now s) (init_store mk)))),
                home := (home s)(t \<mapsto> c_nodeId cf), closing := (closing s)(t := None)\<rparr>)" (is "inv ?s'")
proof -
  note st = start_no_managers [OF cf(4), of "now s" mk]
  have dead: "ctl s t = None" using invD(3) [OF inv, of t] new by (cases "ctl s t") (auto simp: ctl_ok_def)
  have unp: "pend s t = None" using invD(5) [OF inv, of t] dead by (cases "pend s t") (auto simp: pend_ok_def)
  have ext: "extends s ?s'" using new by (auto simp: extends_def)
  have "msg_ok ?s' m" if m: "net s k = Some m" for k m
  proof (rule msg_ok_extends [OF ext invD(4) [OF inv m]])
    assume "is_release (g_op m)"
    moreover have "g_from m \<noteq> t" using invD(4) [OF inv m] new by (auto simp: msg_ok_def)
    ultimately show "op_ok ?s' (g_from m) (g_sent m) (g_op m)"
      using invD(4) [OF inv m] by (auto simp: msg_ok_def release_ok_iff)
  qed
  moreover have "ctl_ok ?s' u cf' st'" if u: "ctl ?s' u = Some (cf', st')" for u cf' st'
  proof (cases "u = t")
    case True
    with u cf st show ?thesis by (auto simp: ctl_ok_def)
  next
    case False
    with u have "ctl s u = Some (cf', st')" by simp
    from ctl_ok_extends [OF ext invD(3) [OF inv this]] False show ?thesis by simp
  qed
  moreover have "good ?s' r" if "live s = Some r" for r
    by (rule good_extends [OF ext invD(1) [OF inv that]])
  moreover have "pend_ok ?s' u k" if "pend s u = Some k" for u k
    using invD(5) [OF inv that] unp that by (auto simp: pend_ok_def)
  moreover have "claims_held ?s'"
    using invD(7) [OF inv] unp st unfolding claims_held_def leads_def answered_def held_def by auto
  moreover have "one_per_node ?s'"
    using invD(6) [OF inv] free unfolding one_per_node_def alive_on_def by (auto split: if_splits; blast)
  ultimately show ?thesis using invD(2) [OF inv] by (simp add: inv_def)
qed

section \<open>One leader\<close>

lemma inv_init: "inv init_sys"
  by (simp add: inv_def init_sys_def one_per_node_def claims_held_def leads_def answered_def)

lemma inv_step:
  assumes "step P s s'" and "inv s" and "0 \<le> P" and "P \<le> LEASE_FENCE_MARGIN_MS"
  shows "inv s'"
  using assms
proof cases
  case (answer t cf st k m res k')
  with assms inv_answer show ?thesis by blast
next
  case (landed k m seen wall nx res)
  with assms inv_landed show ?thesis by blast
next
  case other_update
  with assms inv_other_update show ?thesis by blast
qed (use assms in \<open>auto intro: inv_begin inv_acquire inv_renew inv_watch inv_inspect
       inv_no_write inv_conflict inv_fail inv_stop inv_release inv_kill inv_tick\<close>)

lemma reach_inv: "reach P s \<Longrightarrow> 0 \<le> P \<Longrightarrow> P \<le> LEASE_FENCE_MARGIN_MS \<Longrightarrow> inv s"
  by (induction rule: reach.induct) (auto intro: inv_init inv_step)

lemma leader_owns_label:
  assumes "reach P s" and "0 \<le> P" and "P \<le> LEASE_FENCE_MARGIN_MS" and "is_leader s t"
  shows "\<exists>r. live s = Some r \<and> l_holder r = t \<and> \<not> l_released r"
proof -
  note inv = reach_inv [OF assms(1-3)]
  from assms(4) obtain cf st where c: "ctl s t = Some (cf, st)" "st_role st = Leader"
    by (auto simp: is_leader_def)
  from invD(3) [OF inv c(1)] c(2) have "now s < st_lastOk st + LEASE_TTL_MS" by (simp add: ctl_ok_def)
  from leader_holds [OF inv c this] show ?thesis by (auto simp: held_def)
qed


definition demo_started :: sys where
  "demo_started = init_sys\<lparr>ctl := (ctl init_sys)(''task1'' \<mapsto>
       (demo_conf, fst (start demo_conf [] (now init_sys) (init_store None)))),
     home := (home init_sys)(''task1'' \<mapsto> c_nodeId demo_conf), closing := (closing init_sys)(''task1'' := None)\<rparr>"

definition demo_asked :: sys where
  "demo_asked = commit ''task1'' demo_conf 0
     (acquireTick demo_conf [''mgr''] (now demo_started) (snd (the (ctl demo_started ''task1'')))) demo_started"

definition demo_seen :: sys where
  "demo_seen = set_phase 0 (Inspected (version demo_asked) (live demo_asked)) demo_asked"

definition demo_lease :: lease_record where
  "demo_lease = \<lparr>l_holder = ''task1'', l_node = ''node1'', l_hostname = Some ''host1'', l_epoch = 1,
     l_renewedAt = 7, l_ttlMs = LEASE_TTL_MS, l_released = False\<rparr>"

definition demo_written :: sys where
  "demo_written = (set_phase 0 (Answered (lease_result True (Some demo_lease) None)) demo_seen)
     \<lparr>live := Some demo_lease, version := version demo_seen + 1, wrote := now demo_seen,
      stamps := insert (stamp_of demo_lease) (stamps demo_seen)\<rparr>"

definition demo_leading :: sys where
  "demo_leading = (let st = snd (the (ctl demo_written ''task1'')) in
     (commit ''task1'' demo_conf 1
        (resume demo_conf (Some (lease_result True (Some demo_lease) None)) (now demo_written) (callAnswered st))
        (demo_written\<lparr>pend := (pend demo_written)(''task1'' := None)\<rparr>))
       \<lparr>wdDue := (if st_role st = Leader then wdDue demo_written
                  else (wdDue demo_written)(''task1'' := now demo_written + 1000))\<rparr>)"

lemma demo_started_eq: "ctl demo_started = [''task1'' \<mapsto> (demo_conf, (init_store None)
     \<lparr>st_waitingFor := Some WaitingManager, st_timers := [AcquireTimer]\<rparr>)]"
  by (simp add: demo_started_def start_def acquireTick_def init_store_def demo_conf_def init_sys_def)

lemma demo_started_rest: "net demo_started = Map.empty \<and> pend demo_started = Map.empty \<and> now demo_started = 0
    \<and> live demo_started = None \<and> version demo_started = 0 \<and> stamps demo_started = {} \<and> wdDue demo_started = (\<lambda>_. 0)"
  by (simp add: demo_started_def init_sys_def)

lemma demo_acquire: "acquireTick demo_conf [''mgr''] 0 ((init_store None)
      \<lparr>st_waitingFor := Some WaitingManager, st_timers := [AcquireTimer]\<rparr>)
    = ((init_store None)\<lparr>st_waitingFor := Some WaitingManager, st_timers := [AcquireTimer],
         st_acquiring := True, st_await := AwaitAcquire ''mgr'' 0\<rparr>,
       [Call ''mgr'' (LeaseOp (acquireOp demo_conf None 0)) call_timeout])"
  by (simp add: acquireTick_def init_store_def demo_conf_def minEpoch_def opt_or_def)

lemma demo_asked_eq: "demo_asked = demo_started\<lparr>ctl := [''task1'' \<mapsto> (demo_conf, (init_store None)
        \<lparr>st_waitingFor := Some WaitingManager, st_timers := [AcquireTimer],
         st_acquiring := True, st_await := AwaitAcquire ''mgr'' 0\<rparr>)], pend := [''task1'' \<mapsto> 0],
      net := [0 \<mapsto> \<lparr>g_from = ''task1'', g_op = acquireOp demo_conf None 0, g_sent = 0, g_phase = Sent\<rparr>]\<rparr>"
  by (simp add: demo_asked_def demo_started_eq demo_started_rest demo_acquire commit_call)

lemma demo_reach: "reach 1000 demo_leading"
proof -
  have 1: "step 1000 init_sys demo_started"
    unfolding demo_started_def
    by (rule step.begin_task) (simp_all add: init_sys_def demo_conf_def alive_on_def)
  have 2: "step 1000 demo_started demo_asked"
    unfolding demo_asked_def by (rule step.acquire) (simp_all add: demo_started_eq demo_started_rest)
  have 3: "step 1000 demo_asked demo_seen"
    unfolding demo_seen_def by (rule step.inspect [of _ _ "the (net demo_asked 0)"]) (simp_all add: demo_asked_eq)
  have 4: "step 1000 demo_seen demo_written"
    unfolding demo_written_def
    by (rule step.landed [where m = "the (net demo_seen 0)" and seen = None and wall = 7])
      (simp_all add: demo_seen_def demo_asked_eq demo_started_rest set_phase_def acquireOp_def demo_conf_def
        demo_lease_def host_field_def truthy_def Let_def)
  have 5: "step 1000 demo_written demo_leading"
    unfolding demo_leading_def Let_def
    by (rule step.answer [where m = "the (net demo_written 0)" and k = 0])
      (simp_all add: demo_written_def demo_seen_def demo_asked_eq demo_started_rest set_phase_def call_timeout_def)
  from 1 2 3 4 5 show ?thesis by (meson reach.intros)
qed

lemma demo_resume: "\<exists>st es. resume demo_conf (Some (lease_result True (Some demo_lease) None)) 0 (callAnswered
      ((init_store None)\<lparr>st_waitingFor := Some WaitingManager, st_timers := [AcquireTimer],
         st_acquiring := True, st_await := AwaitAcquire ''mgr'' 0\<rparr>)) = (st, es)
      \<and> st_role st = Leader \<and> \<not> exits es \<and> lease_call es = None"
  by (simp add: resume_def callAnswered_def acquireResume_def onAcquired_def becomeWriter_def startReplication_def
      lease_result_def demo_lease_def demo_conf_def init_store_def)

lemma demo_leader: "is_leader demo_leading ''task1''"
proof -
  have w: "ctl demo_written ''task1'' = Some (demo_conf, (init_store None)
        \<lparr>st_waitingFor := Some WaitingManager, st_timers := [AcquireTimer],
         st_acquiring := True, st_await := AwaitAcquire ''mgr'' 0\<rparr>)" "now demo_written = 0"
    by (simp_all add: demo_written_def demo_seen_def demo_asked_eq demo_started_rest set_phase_def)
  from demo_resume obtain st es where r: "resume demo_conf (Some (lease_result True (Some demo_lease) None))
      (now demo_written) (callAnswered (snd (the (ctl demo_written ''task1'')))) = (st, es)"
    and st: "st_role st = Leader" "\<not> exits es" "lease_call es = None" unfolding w by auto
  have "ctl demo_leading ''task1'' = Some (demo_conf, st)"
    unfolding demo_leading_def Let_def r commit_quiet [OF st(2,3)] by simp
  with st show ?thesis by (simp add: is_leader_def)
qed


end
