(* ===== verification/Failover.thy ===== *)
theory Failover
  imports Json "HOL-Library.Extended_Nat" "HOL-Library.Product_Lexorder"
begin

text \<open>
  Managed-Postgres failover: the decision of \<^verbatim>\<open>packages/core/src/manageddb-failover.ts\<close>
  ("no silent data loss on failover"), the positions and the grace window of
  \<^verbatim>\<open>apps/api/src/workers/manageddb-reconcile.core.ts\<close>, and the worker's tick
  \<^verbatim>\<open>maybePromote\<close> of \<^verbatim>\<open>manageddb-reconcile.ts\<close> as a state machine over one cluster.

  A WAL position is computed in double precision, as the code does: \<open>rnd53\<close> rounds an
  integer to the nearest double (ties to even). A position whose hexadecimal parts are so
  long that they exceed the largest double is outside the model (Postgres prints at most
  eight digits a side). \<^verbatim>\<open>localeCompare\<close> is the parameter \<open>lc\<close>; what is needed of it is that
  it is a consistent comparator. A label that holds JSON is the outcome of \<^verbatim>\<open>JSON.parse\<close>
  on its text. Alert, incident and audit calls appear as effects without their prose.
\<close>

section \<open>Definitions\<close>

subsection \<open>manageddb-failover.ts\<close>

definition FAILOVER_WATERMARK_MAX_GAP_MS :: int where "FAILOVER_WATERMARK_MAX_GAP_MS = 20000"

datatype topology = Single | PrimaryReplica | FailoverTopology | Geo | ActiveActive

datatype failover_policy = NeverPolicy | GatedPolicy

definition failoverPolicy :: "topology \<Rightarrow> failover_policy" where
  "failoverPolicy t = (if t = Single \<or> t = ActiveActive then NeverPolicy else GatedPolicy)"

datatype readiness = Survives | TooFewServers nat | NoReplica | PrimaryNotPinned

definition failoverReadiness :: "nat \<Rightarrow> nat \<Rightarrow> bool \<Rightarrow> readiness" where
  "failoverReadiness readyNodes replicas primaryPinned =
     (if readyNodes < 2 then TooFewServers readyNodes
      else if replicas < 1 then NoReplica
      else if \<not> primaryPinned then PrimaryNotPinned
      else Survives)"

record primary_watermark =
  w_lsn :: string
  w_sampledAt :: int

record failover_candidate =
  fc_service :: string
  fc_running :: nat
  fc_replayLsn :: "string option"
  fc_lagSeconds :: "rat option"

text \<open>\<^verbatim>\<open>acceptBehindBytes\<close> is \<open>None\<close> for \<^verbatim>\<open>'unknown'\<close>.\<close>

record failover_confirmation =
  cn_target :: string
  cn_acceptBehindBytes :: "rat option"
  cn_by :: "string option"
  cn_at :: "string option"

record pending_failover =
  pf_target :: string
  pf_behindBytes :: "rat option"
  pf_behindSeconds :: "rat option"
  pf_reason :: string
  pf_since :: string

datatype failover_decision =
    NeverPromote
  | WaitForReplica
  | PromoteTarget string "nat option" "rat option" bool
  | ConfirmTarget string "nat option" "rat option" string

fun bit_len :: "nat \<Rightarrow> nat" where
  "bit_len n = (if n = 0 then 0 else Suc (bit_len (n div 2)))"

text \<open>The double nearest to a natural number, ties to even.\<close>

definition rnd53 :: "nat \<Rightarrow> nat" where
  "rnd53 n =
     (let k = bit_len n - 53; q = n div 2 ^ k; r = n mod 2 ^ k
      in if k = 0 then n
         else (if 2 ^ (k - 1) < r \<or> r = 2 ^ (k - 1) \<and> odd q then q + 1 else q) * 2 ^ k)"

definition is_hex :: "string \<Rightarrow> bool" where
  "is_hex s = (s \<noteq> [] \<and> list_all (\<lambda>c. hex_digit c \<noteq> None) s)"

text \<open>The two hexadecimal numbers of an LSN, and the position they stand for.\<close>

definition lsn_parts :: "string \<Rightarrow> (nat \<times> nat) option" where
  "lsn_parts s =
     (case js_split (CHR ''/'') (js_trim s) of
        [hi, lo] \<Rightarrow> if is_hex hi \<and> is_hex lo then Some (hex_value hi, hex_value lo) else None
      | _ \<Rightarrow> None)"

definition lsnPos :: "string \<Rightarrow> nat option" where
  "lsnPos s = map_option (\<lambda>(hi, lo). rnd53 (rnd53 hi * 2 ^ 32 + rnd53 lo)) (lsn_parts s)"

definition behindWatermarkBytes :: "string \<Rightarrow> string \<Rightarrow> nat option" where
  "behindWatermarkBytes watermarkLsn replayLsn =
     (case (lsnPos watermarkLsn, lsnPos replayLsn) of
        (Some w, Some r) \<Rightarrow> Some (rnd53 (w - r))
      | _ \<Rightarrow> None)"

definition watermarkIsFresh :: "primary_watermark option \<Rightarrow> int option \<Rightarrow> bool" where
  "watermarkIsFresh watermark lastHealthyAt =
     (case (watermark, lastHealthyAt) of
        (Some w, Some h) \<Rightarrow> h - w_sampledAt w \<le> FAILOVER_WATERMARK_MAX_GAP_MS
      | _ \<Rightarrow> False)"

definition confirmationCovers :: "failover_confirmation \<Rightarrow> nat option \<Rightarrow> bool" where
  "confirmationCovers c behind =
     (case cn_acceptBehindBytes c of
        None \<Rightarrow> True
      | Some a \<Rightarrow> (case behind of None \<Rightarrow> False | Some b \<Rightarrow> of_nat b \<le> a))"

type_synonym scored = "failover_candidate \<times> nat option"

definition behind_key :: "scored \<Rightarrow> enat" where
  "behind_key s = (case snd s of None \<Rightarrow> \<infinity> | Some b \<Rightarrow> enat b)"

definition lag_key :: "scored \<Rightarrow> nat \<times> rat" where
  "lag_key s = (case fc_lagSeconds (fst s) of None \<Rightarrow> (1, 0) | Some l \<Rightarrow> (0, l))"

definition score_cmp :: "(string \<Rightarrow> string \<Rightarrow> int) \<Rightarrow> scored \<Rightarrow> scored \<Rightarrow> int" where
  "score_cmp lc = then_by (by_key behind_key)
     (then_by (by_key lag_key) (\<lambda>a b. lc (fc_service (fst a)) (fc_service (fst b))))"

record failover_input =
  in_topology :: topology
  in_candidates :: "failover_candidate list"
  in_watermark :: "primary_watermark option"
  in_lastHealthyAt :: "int option"
  in_confirmation :: "failover_confirmation option"

definition scored_list :: "(string \<Rightarrow> string \<Rightarrow> int) \<Rightarrow> failover_input \<Rightarrow> scored list" where
  "scored_list lc f =
     (let running = filter (\<lambda>c. 0 < fc_running c) (in_candidates f);
          fresh = watermarkIsFresh (in_watermark f) (in_lastHealthyAt f)
      in js_sort (score_cmp lc)
           (map (\<lambda>c. (c, if fresh \<and> truthy (fc_replayLsn c)
                         then behindWatermarkBytes (w_lsn (the (in_watermark f))) (the (fc_replayLsn c))
                         else None)) running))"

definition confirm_reason :: "failover_input \<Rightarrow> nat option \<Rightarrow> string" where
  "confirm_reason f best =
     (if in_watermark f = None \<or> in_lastHealthyAt f = None
      then ''the primary's last flushed position is unknown (no sample since the controller started), so no replica can be proven caught up''
      else if \<not> watermarkIsFresh (in_watermark f) (in_lastHealthyAt f)
      then ''the primary's last flushed-position sample is stale, so no replica can be proven caught up''
      else (case best of
              None \<Rightarrow> ''no replica reported its replay position, so none can be proven caught up''
            | Some b \<Rightarrow> ''the most caught-up replica is '' @ digits_of b
                         @ '' bytes behind the primary's last flushed position''))"

definition decideFailover :: "(string \<Rightarrow> string \<Rightarrow> int) \<Rightarrow> failover_input \<Rightarrow> failover_decision" where
  "decideFailover lc f =
     (if failoverPolicy (in_topology f) = NeverPolicy then NeverPromote
      else case scored_list lc f of
             [] \<Rightarrow> WaitForReplica
           | best # rest \<Rightarrow>
               if snd best = Some 0
               then PromoteTarget (fc_service (fst best)) (Some 0) (fc_lagSeconds (fst best)) False
               else
                 (let chosen = (case in_confirmation f of
                                  None \<Rightarrow> None
                                | Some cn \<Rightarrow>
                                    (case find (\<lambda>s. fc_service (fst s) = cn_target cn) (best # rest) of
                                       None \<Rightarrow> None
                                     | Some s \<Rightarrow> if confirmationCovers cn (snd s) then Some s else None))
                  in case chosen of
                       Some s \<Rightarrow> PromoteTarget (fc_service (fst s)) (snd s) (fc_lagSeconds (fst s)) True
                     | None \<Rightarrow> ConfirmTarget (fc_service (fst best)) (snd best) (fc_lagSeconds (fst best))
                                 (confirm_reason f (snd best))))"

definition jnull :: "rat option \<Rightarrow> json" where
  "jnull n = (case n of None \<Rightarrow> JNull | Some r \<Rightarrow> JNum r)"

definition encodePendingFailover :: "pending_failover \<Rightarrow> json" where
  "encodePendingFailover p = JObj
     [(''target'', JStr (pf_target p)), (''behindBytes'', jnull (pf_behindBytes p)),
      (''behindSeconds'', jnull (pf_behindSeconds p)), (''reason'', JStr (pf_reason p)),
      (''since'', JStr (pf_since p))]"

definition parsePendingFailover :: "json option \<Rightarrow> pending_failover option" where
  "parsePendingFailover raw =
     (case raw of None \<Rightarrow> None
      | Some v \<Rightarrow>
         (case as_str (jget v ''target'') of
            None \<Rightarrow> None
          | Some t \<Rightarrow>
              if t = [] then None
              else Some \<lparr>pf_target = t, pf_behindBytes = as_num (jget v ''behindBytes''),
                         pf_behindSeconds = as_num (jget v ''behindSeconds''),
                         pf_reason = opt_or (as_str (jget v ''reason'')) [],
                         pf_since = opt_or (as_str (jget v ''since'')) []\<rparr>))"

definition pendingFailoverChanged :: "pending_failover option \<Rightarrow> pending_failover \<Rightarrow> bool" where
  "pendingFailoverChanged prev next =
     (case prev of None \<Rightarrow> True
      | Some p \<Rightarrow> pf_target p \<noteq> pf_target next \<or> pf_behindBytes p \<noteq> pf_behindBytes next
                  \<or> pf_reason p \<noteq> pf_reason next)"

definition encodeFailoverConfirmation :: "failover_confirmation \<Rightarrow> json" where
  "encodeFailoverConfirmation c = JObj
     ([(''target'', JStr (cn_target c)),
       (''acceptBehindBytes'', (case cn_acceptBehindBytes c of None \<Rightarrow> JStr ''unknown'' | Some a \<Rightarrow> JNum a))]
      @ entry ''by'' (map_option JStr (cn_by c)) @ entry ''at'' (map_option JStr (cn_at c)))"

definition parseFailoverConfirmation :: "json option \<Rightarrow> failover_confirmation option" where
  "parseFailoverConfirmation raw =
     (case raw of None \<Rightarrow> None
      | Some v \<Rightarrow>
         (case as_str (jget v ''target'') of
            None \<Rightarrow> None
          | Some t \<Rightarrow>
              if t = [] then None
              else (let mk = (\<lambda>a. Some \<lparr>cn_target = t, cn_acceptBehindBytes = a,
                                       cn_by = as_str (jget v ''by''), cn_at = as_str (jget v ''at'')\<rparr>)
                    in case jget v ''acceptBehindBytes'' of
                         Some (JStr u) \<Rightarrow> if u = ''unknown'' then mk None else None
                       | Some (JNum a) \<Rightarrow> if 0 \<le> a then mk (Some a) else None
                       | _ \<Rightarrow> None)))"

subsection \<open>manageddb-reconcile.core.ts\<close>

definition PROMOTION_GRACE_TICKS :: nat where "PROMOTION_GRACE_TICKS = 2"

definition promotionDue :: "nat \<Rightarrow> bool" where
  "promotionDue unhealthyTicks = (PROMOTION_GRACE_TICKS < unhealthyTicks)"

definition minuteDue :: "int option \<Rightarrow> int \<Rightarrow> bool" where
  "minuteDue lastMs nowMs = (case lastMs of None \<Rightarrow> True | Some l \<Rightarrow> 60000 \<le> nowMs - l)"

definition DB_LAG_LABEL_PREFIX :: string where "DB_LAG_LABEL_PREFIX = ''swarmy.db.lag.''"

text \<open>
  \<open>measured\<close> holds the label values \<^verbatim>\<open>formatLagSeconds\<close> made of this tick's samples, in the
  order of the members; the result is \<open>None\<close> when there is nothing to change.
\<close>

definition lagLabelUpdates ::
  "labels \<Rightarrow> (string \<times> string) list \<Rightarrow> string list \<Rightarrow> (labels \<times> string list) option" where
  "lagLabelUpdates current measured liveMembers =
     (let add = [(DB_LAG_LABEL_PREFIX @ m, v). (m, v) \<leftarrow> measured, lbl current (DB_LAG_LABEL_PREFIX @ m) \<noteq> Some v];
          removeKeys = [k. (k, v) \<leftarrow> current, js_starts_with k DB_LAG_LABEL_PREFIX,
                           drop (length DB_LAG_LABEL_PREFIX) k \<notin> set liveMembers]
      in if add = [] \<and> removeKeys = [] then None else Some (add, removeKeys))"

subsection \<open>manageddb-reconcile.ts: maybePromote\<close>

text \<open>A label that should hold JSON: empty, or text with the outcome of parsing it.\<close>

datatype jlabel = EmptyText | JsonText "json option"

definition truthy_label :: "jlabel option \<Rightarrow> bool" where
  "truthy_label l = (case l of Some (JsonText j) \<Rightarrow> True | _ \<Rightarrow> False)"

definition label_json :: "jlabel option \<Rightarrow> json option" where
  "label_json l = (case l of Some (JsonText j) \<Rightarrow> j | _ \<Rightarrow> None)"

text \<open>\<open>mb_switchover\<close> is the date in the switchover label, if it parses as one.\<close>

record member =
  mb_name :: string
  mb_running :: nat
  mb_dcs :: bool
  mb_pending :: "jlabel option"
  mb_confirm :: "jlabel option"
  mb_switchover :: "int option"

text \<open>The worker's maps at this cluster's key; no entry in \<^verbatim>\<open>unhealthyTicks\<close> is 0.\<close>

record failover_state =
  fs_ticks :: nat
  fs_watermark :: "primary_watermark option"
  fs_lastHealthy :: "int option"
  fs_alerted :: bool

definition init_failover :: failover_state where
  "init_failover = \<lparr>fs_ticks = 0, fs_watermark = None, fs_lastHealthy = None, fs_alerted = False\<rparr>"

text \<open>
  What one tick reads: the cluster's members, the lag samples (seconds and replay LSN), the
  primary's flushed LSN, the clock, and whether the promotion it may run succeeds.
\<close>

record tick_input =
  ti_topology :: topology
  ti_primary :: "member option"
  ti_replicas :: "member list"
  ti_measured :: "(string \<times> rat \<times> string option) list"
  ti_primaryLsn :: "string option"
  ti_now :: int
  ti_promoteOk :: bool

datatype db_signal = DbDegraded | DbFailoverConfirm | DbFailover

datatype failover_effect =
    ClearHandshake string
  | StampPending string pending_failover
  | PgPromote string bool
  | SetRole string string
  | SetLeader string string
  | DeployRepoint string string
  | FireEvent db_signal bool
  | RecordIncident string
  | WriteAudit string

definition DB_SWITCHOVER_MAX_AGE_MS :: int where "DB_SWITCHOVER_MAX_AGE_MS = 600000"

definition switchoverRequested :: "member option \<Rightarrow> int \<Rightarrow> bool" where
  "switchoverRequested m now =
     (case Option.bind m mb_switchover of
        None \<Rightarrow> False
      | Some t \<Rightarrow> 0 \<le> now - t \<and> now - t \<le> DB_SWITCHOVER_MAX_AGE_MS)"

definition tick_healthy :: "tick_input \<Rightarrow> bool" where
  "tick_healthy i = (case ti_primary i of None \<Rightarrow> False | Some p \<Rightarrow> 0 < mb_running p)"

definition tick_members :: "tick_input \<Rightarrow> member list" where
  "tick_members i = (case ti_primary i of None \<Rightarrow> [] | Some p \<Rightarrow> [p]) @ ti_replicas i"

definition handshakeHolders :: "tick_input \<Rightarrow> member list" where
  "handshakeHolders i = filter (\<lambda>s. mb_pending s \<noteq> None \<or> mb_confirm s \<noteq> None) (tick_members i)"

definition clearHandshake :: "tick_input \<Rightarrow> failover_effect list" where
  "clearHandshake i = map (\<lambda>s. ClearHandshake (mb_name s)) (handshakeHolders i)"

definition first_label :: "(member \<Rightarrow> jlabel option) \<Rightarrow> member list \<Rightarrow> json option" where
  "first_label f ms = Option.bind (find (\<lambda>m. truthy_label (f m)) ms) (\<lambda>m. label_json (f m))"

definition tick_candidates :: "tick_input \<Rightarrow> failover_candidate list" where
  "tick_candidates i = map (\<lambda>s. \<lparr>fc_service = mb_name s, fc_running = mb_running s,
      fc_replayLsn = Option.bind (map_of (ti_measured i) (mb_name s)) snd,
      fc_lagSeconds = map_option fst (map_of (ti_measured i) (mb_name s))\<rparr>) (ti_replicas i)"

definition decision_input :: "tick_input \<Rightarrow> failover_state \<Rightarrow> failover_input" where
  "decision_input i st =
     \<lparr>in_topology = ti_topology i, in_candidates = tick_candidates i,
      in_watermark = fs_watermark st, in_lastHealthyAt = fs_lastHealthy st,
      in_confirmation = parseFailoverConfirmation (first_label mb_confirm (handshakeHolders i))\<rparr>"

text \<open>The branch that promotes: labels, repointed members, and the state cleared.\<close>

definition promote_branch ::
  "tick_input \<Rightarrow> failover_state \<Rightarrow> string \<Rightarrow> bool \<Rightarrow> failover_state \<times> failover_effect list" where
  "promote_branch i st target confirmed =
     (case find (\<lambda>s. mb_name s = target) (ti_replicas i) of
        None \<Rightarrow> (st, [])
      | Some t \<Rightarrow>
          if \<not> ti_promoteOk i then (st, [PgPromote target confirmed])
          else
            (let others = filter (\<lambda>s. mb_name s \<noteq> mb_name t) (tick_members i);
                 repointed = filter (\<lambda>s. \<not> mb_dcs s) others
             in (init_failover,
                 [PgPromote target confirmed, SetRole target ''primary'', SetLeader target target]
                 @ concat (map (\<lambda>s. SetLeader (mb_name s) target
                       # (if Some s = ti_primary i then [SetRole (mb_name s) ''replica''] else [])) others)
                 @ map (\<lambda>s. DeployRepoint (mb_name s) target) repointed
                 @ clearHandshake i
                 @ [RecordIncident ''db.failover'']
                 @ (if repointed \<noteq> [] then [RecordIncident ''db.repoint''] else [])
                 @ [FireEvent DbFailover False, WriteAudit ''db.failover.promote''])))"

definition confirm_branch ::
  "(int \<Rightarrow> string) \<Rightarrow> tick_input \<Rightarrow> failover_state \<Rightarrow> string \<Rightarrow> nat option \<Rightarrow> rat option \<Rightarrow> string
     \<Rightarrow> failover_state \<times> failover_effect list" where
  "confirm_branch isoTime i st target bytes secs reason =
     (let anchor = (case ti_primary i of Some p \<Rightarrow> Some p
                    | None \<Rightarrow> find (\<lambda>s. mb_name s = target) (ti_replicas i));
          prev = parsePendingFailover (first_label mb_pending (handshakeHolders i));
          next = \<lparr>pf_target = target, pf_behindBytes = map_option of_nat bytes, pf_behindSeconds = secs,
                  pf_reason = reason,
                  pf_since = (case prev of Some p \<Rightarrow> if pf_since p \<noteq> [] then pf_since p else isoTime (ti_now i)
                              | None \<Rightarrow> isoTime (ti_now i))\<rparr>
      in (st\<lparr>fs_alerted := True\<rparr>,
          (case anchor of
             Some a \<Rightarrow> if pendingFailoverChanged prev next then [StampPending (mb_name a) next] else []
           | None \<Rightarrow> [])
          @ (if fs_alerted st then []
             else [FireEvent DbFailoverConfirm False, RecordIncident ''db.failover.pending'',
                   WriteAudit ''db.failover.held''])))"

definition maybePromote ::
  "(string \<Rightarrow> string \<Rightarrow> int) \<Rightarrow> (int \<Rightarrow> string) \<Rightarrow> tick_input \<Rightarrow> failover_state
     \<Rightarrow> failover_state \<times> failover_effect list" where
  "maybePromote lc isoTime i st =
     (if ti_topology i = Single \<or> ti_topology i = ActiveActive
      then (st\<lparr>fs_ticks := 0\<rparr>, clearHandshake i)
      else if tick_healthy i
      then (\<lparr>fs_ticks = 0,
             fs_watermark = (if truthy (ti_primaryLsn i)
                             then Some \<lparr>w_lsn = the (ti_primaryLsn i), w_sampledAt = ti_now i\<rparr>
                             else fs_watermark st),
             fs_lastHealthy = Some (ti_now i), fs_alerted = False\<rparr>,
            clearHandshake i
            @ (if fs_alerted st then [FireEvent DbFailoverConfirm True] else [])
            @ (if 0 < fs_ticks st then [FireEvent DbDegraded True, RecordIncident ''db.resolved''] else []))
      else
        (let st1 = st\<lparr>fs_ticks := fs_ticks st + 1\<rparr>;
             planned = switchoverRequested (ti_primary i) (ti_now i);
             alarm = (if fs_ticks st1 = 1 \<and> \<not> planned
                      then [FireEvent DbDegraded False, RecordIncident ''db.degraded''] else [])
         in if \<not> planned \<and> \<not> promotionDue (fs_ticks st1) then (st1, alarm)
            else (case decideFailover lc (decision_input i st1) of
                    NeverPromote \<Rightarrow> (st1, alarm)
                  | WaitForReplica \<Rightarrow> (st1, alarm)
                  | ConfirmTarget t b s r \<Rightarrow> (case confirm_branch isoTime i st1 t b s r of (st', es) \<Rightarrow> (st', alarm @ es))
                  | PromoteTarget t b s cn \<Rightarrow> (case promote_branch i st1 t cn of (st', es) \<Rightarrow> (st', alarm @ es)))))"

fun run_ticks ::
  "(string \<Rightarrow> string \<Rightarrow> int) \<Rightarrow> (int \<Rightarrow> string) \<Rightarrow> failover_state \<Rightarrow> tick_input list \<Rightarrow> failover_state" where
  "run_ticks lc isoTime st [] = st"
| "run_ticks lc isoTime st (i # is) = run_ticks lc isoTime (fst (maybePromote lc isoTime i st)) is"

section \<open>Positions\<close>

declare bit_len.simps [simp del] digits_of.simps [simp del]

lemma bit_len_bounds: "0 < n \<Longrightarrow> 0 < bit_len n \<and> 2 ^ (bit_len n - 1) \<le> n \<and> n < 2 ^ bit_len n"
proof (induction n rule: bit_len.induct)
  case (1 n)
  show ?case
  proof (cases "n div 2 = 0")
    case True
    with 1(2) have "n = 1" by linarith
    moreover have "bit_len 1 = 1" by (simp add: bit_len.simps)
    ultimately show ?thesis by simp
  next
    case False
    with 1 have ih: "0 < bit_len (n div 2)" "2 ^ (bit_len (n div 2) - 1) \<le> n div 2" "n div 2 < 2 ^ bit_len (n div 2)"
      by auto
    then obtain j where j: "bit_len (n div 2) = Suc j" by (cases "bit_len (n div 2)") auto
    with 1(2) have "bit_len n = Suc (Suc j)" by (simp add: bit_len.simps [of n])
    moreover have "2 * (n div 2) \<le> n" "n < 2 * (n div 2) + 2" by linarith+
    ultimately show ?thesis using ih j by simp
  qed
qed

lemma rnd53_exact: "n < 2 ^ 53 \<Longrightarrow> rnd53 n = n"
proof (cases "n = 0")
  case False
  assume n: "n < 2 ^ 53"
  have "bit_len n - 1 < 53"
  proof (rule ccontr)
    assume "\<not> bit_len n - 1 < 53"
    then have "(2::nat) ^ 53 \<le> 2 ^ (bit_len n - 1)" by (intro power_increasing) auto
    with bit_len_bounds [of n] False n show False by simp
  qed
  then show ?thesis by (simp add: rnd53_def)
qed (simp add: rnd53_def bit_len.simps [of 0])

lemma rnd53_pos: "0 < n \<Longrightarrow> 0 < rnd53 n"
proof -
  assume n: "0 < n"
  let ?k = "bit_len n - 53"
  have "(2::nat) ^ ?k \<le> 2 ^ (bit_len n - 1)" by (rule power_increasing) auto
  with bit_len_bounds [OF n] have "2 ^ ?k \<le> n" by (meson order_trans)
  then have "0 < n div 2 ^ ?k" by (simp add: div_greater_zero_iff)
  with n show ?thesis by (auto simp: rnd53_def Let_def)
qed

lemma rnd53_0_iff [simp]: "rnd53 n = 0 \<longleftrightarrow> n = 0"
  using rnd53_pos [of n] rnd53_exact [of 0] by (cases n) auto

lemmas lsn_eval = lsn_parts_def js_trim_def js_space_def is_hex_def hex_digit_def hex_value_def opt_or_def

lemma behind_0_iff: "behindWatermarkBytes w r = Some 0 \<longleftrightarrow>
    (\<exists>pw pr. lsnPos w = Some pw \<and> lsnPos r = Some pr \<and> pw \<le> pr)"
  by (auto simp: behindWatermarkBytes_def split: option.splits)

text \<open>
  Below 8 PiB of WAL a parsed position is exact: it is the 64-bit position the two
  hexadecimal halves spell, so differences between positions are true byte counts.
\<close>

theorem lsn_position_exact:
  assumes "lsn_parts s = Some (hi, lo)" and "hi * 2 ^ 32 + lo < 2 ^ 53"
  shows "lsnPos s = Some (hi * 2 ^ 32 + lo)"
proof -
  have "hi \<le> hi * 2 ^ 32 + lo" "lo \<le> hi * 2 ^ 32 + lo" by simp_all
  with assms(2) have "hi < 2 ^ 53" "lo < 2 ^ 53" by (metis le_less_trans)+
  with assms show ?thesis by (simp add: lsnPos_def rnd53_exact)
qed

theorem lsn_position_exact_witness: "lsnPos ''16/B374D848'' = Some (22 * 2 ^ 32 + 3010779208)"
proof -
  have "lsn_parts ''16/B374D848'' = Some (22, 3010779208)" by (simp add: lsn_eval)
  then show ?thesis by (rule lsn_position_exact) simp
qed

text \<open>
  Past that point the comparison is not exact: with a watermark one byte ahead of the
  replica at the boundary of 53 bits the replica counts as zero bytes behind, so it would be
  promoted unattended although a byte of WAL is missing.
\<close>

theorem lsn_precision_loss:
  "lsn_parts ''200000/1'' = Some (2 ^ 21, 1) \<and> lsn_parts ''200000/0'' = Some (2 ^ 21, 0)
   \<and> behindWatermarkBytes ''200000/1'' ''200000/0'' = Some 0"
proof -
  have p: "lsn_parts ''200000/1'' = Some (2 ^ 21, 1)" "lsn_parts ''200000/0'' = Some (2 ^ 21, 0)"
    by (simp_all add: lsn_eval)
  have "bit_len (2 ^ 53 + 1) = 54" by (simp add: bit_len.simps)
  then have "rnd53 (2 ^ 53 + 1) = 2 ^ 53" by (simp add: rnd53_def)
  moreover have "rnd53 (2 ^ 53) = 2 ^ 53" by (simp add: rnd53_def bit_len.simps)
  ultimately have "lsnPos ''200000/1'' = Some (2 ^ 53)" "lsnPos ''200000/0'' = Some (2 ^ 53)"
    by (simp_all add: lsnPos_def p rnd53_exact)
  with p show ?thesis by (auto simp: behind_0_iff)
qed

section \<open>The decision\<close>

lemma score_cmp_consistent:
  assumes "js_comparator lc"
  shows "js_comparator (score_cmp lc)"
proof -
  have "js_comparator (\<lambda>a b :: scored. lc (fc_service (fst a)) (fc_service (fst b)))"
    by unfold_locales (auto intro: js_comparator.cmp_trans [OF assms] simp: js_comparator.cmp_anti [OF assms])
  then show ?thesis unfolding score_cmp_def by (intro js_cmp)
qed

lemma score_cmp_behind: "score_cmp lc a b \<le> 0 \<Longrightarrow> behind_key a \<le> behind_key b"
  by (auto simp: score_cmp_def then_by_def cmp_or_le_0 by_key_def split: if_splits)

lemma scored_mem:
  "(c, b) \<in> set (scored_list lc f) \<longleftrightarrow> c \<in> set (in_candidates f) \<and> 0 < fc_running c
     \<and> b = (if watermarkIsFresh (in_watermark f) (in_lastHealthyAt f) \<and> truthy (fc_replayLsn c)
            then behindWatermarkBytes (w_lsn (the (in_watermark f))) (the (fc_replayLsn c)) else None)"
  by (auto simp: scored_list_def Let_def)

lemma best_is_least:
  assumes "js_comparator lc" and "scored_list lc f = best # rest" and "s \<in> set (best # rest)"
  shows "behind_key best \<le> behind_key s"
  by (rule score_cmp_behind [OF js_comparator.js_sort_head_le [OF score_cmp_consistent [OF assms(1)]
        assms(2) [unfolded scored_list_def Let_def] assms(3)]])

text \<open>The replica's replay position is at or past the watermark, as the code can tell it.\<close>

definition proven_caught_up :: "failover_input \<Rightarrow> failover_candidate \<Rightarrow> bool" where
  "proven_caught_up f c \<longleftrightarrow> (\<exists>w r pw pr. in_watermark f = Some w \<and> fc_replayLsn c = Some r
     \<and> watermarkIsFresh (in_watermark f) (in_lastHealthyAt f)
     \<and> lsnPos (w_lsn w) = Some pw \<and> lsnPos r = Some pr \<and> pw \<le> pr)"

lemma scored_zero:
  assumes "(c, Some 0) \<in> set (scored_list lc f)"
  shows "proven_caught_up f c"
proof -
  from assms have fr: "watermarkIsFresh (in_watermark f) (in_lastHealthyAt f)" "truthy (fc_replayLsn c)"
    and b: "behindWatermarkBytes (w_lsn (the (in_watermark f))) (the (fc_replayLsn c)) = Some 0"
    by (auto simp: scored_mem split: if_splits)
  then obtain w r where "in_watermark f = Some w" "fc_replayLsn c = Some r"
    by (auto simp: watermarkIsFresh_def truthy_def split: option.splits)
  with fr b show ?thesis by (auto simp: proven_caught_up_def behind_0_iff)
qed

lemma auto_promotion:
  assumes "decideFailover lc f = PromoteTarget t b s False"
  shows "failoverPolicy (in_topology f) = GatedPolicy \<and> b = Some 0
    \<and> (\<exists>c \<in> set (in_candidates f). fc_service c = t \<and> 0 < fc_running c \<and> proven_caught_up f c)"
proof (cases "scored_list lc f")
  case Nil
  with assms show ?thesis by (simp add: decideFailover_def split: if_splits)
next
  case (Cons best rest)
  with assms have "failoverPolicy (in_topology f) = GatedPolicy" "snd best = Some 0" "t = fc_service (fst best)" "b = Some 0"
    by (auto simp: decideFailover_def Let_def split: if_splits option.splits intro: failover_policy.exhaust)
  moreover from Cons this(2) have "(fst best, Some 0) \<in> set (scored_list lc f)" by (metis list.set_intros(1) prod.collapse)
  ultimately show ?thesis using scored_zero scored_mem by blast
qed

text \<open>
  No silent data loss. A replica is promoted without an admin's confirmation only in a
  topology that fails over, only if it runs, and only if its replay position is at or past the
  primary's last flushed position, sampled within the allowed gap of the last healthy tick.
\<close>

theorem auto_promotion_is_caught_up:
  assumes "decideFailover lc f = PromoteTarget t b s False"
  shows "failoverPolicy (in_topology f) = GatedPolicy \<and> b = Some 0
    \<and> (\<exists>c \<in> set (in_candidates f). fc_service c = t \<and> 0 < fc_running c \<and> proven_caught_up f c)"
  using assms by (rule auto_promotion)

definition demo_lc :: "string \<Rightarrow> string \<Rightarrow> int" where
  "demo_lc = by_key (\<lambda>x. x)"

definition demo_failover :: "string \<Rightarrow> failover_input" where
  "demo_failover replay = \<lparr>in_topology = FailoverTopology,
     in_candidates = [\<lparr>fc_service = ''db-replica'', fc_running = 1, fc_replayLsn = Some replay, fc_lagSeconds = None\<rparr>],
     in_watermark = Some \<lparr>w_lsn = ''0/10'', w_sampledAt = 1000\<rparr>, in_lastHealthyAt = Some 1000,
     in_confirmation = Some \<lparr>cn_target = ''db-replica'', cn_acceptBehindBytes = Some 8, cn_by = None, cn_at = None\<rparr>\<rparr>"

lemma demo_positions:
  "lsnPos ''0/10'' = Some 16" "lsnPos ''0/20'' = Some 32" "lsnPos ''0/8'' = Some 8" "lsnPos ''0/1'' = Some 1"
  by (simp_all add: lsnPos_def lsn_eval rnd53_exact)

lemma demo_scored: "scored_list lc (demo_failover replay) = [(hd (in_candidates (demo_failover replay)),
    if replay = [] then None else behindWatermarkBytes ''0/10'' replay)]"
  by (simp add: scored_list_def demo_failover_def watermarkIsFresh_def FAILOVER_WATERMARK_MAX_GAP_MS_def truthy_def)

lemma demo_decisions:
  "decideFailover lc (demo_failover ''0/20'') = PromoteTarget ''db-replica'' (Some 0) None False"
  "decideFailover lc (demo_failover ''0/8'') = PromoteTarget ''db-replica'' (Some 8) None True"
  by (simp_all add: decideFailover_def demo_scored behindWatermarkBytes_def demo_positions rnd53_exact failoverPolicy_def
      confirmationCovers_def) (simp_all add: demo_failover_def confirmationCovers_def)

lemma demo_decision_waits: "\<exists>r. decideFailover lc (demo_failover ''0/1'') = ConfirmTarget ''db-replica'' (Some 15) None r"
  by (simp add: decideFailover_def demo_scored behindWatermarkBytes_def demo_positions rnd53_exact failoverPolicy_def
      confirmationCovers_def) (simp add: demo_failover_def confirmationCovers_def)

theorem auto_promotion_is_caught_up_witness:
  "\<exists>c \<in> set (in_candidates (demo_failover ''0/20'')). fc_service c = ''db-replica'' \<and> proven_caught_up (demo_failover ''0/20'') c"
  using auto_promotion_is_caught_up [OF demo_decisions(1)] by blast

text \<open>
  A confirmed promotion stays within what the admin accepted: the target is the replica
  the confirmation names, it runs, and its window is known and at most the accepted one,
  unless the admin accepted an unknown window.
\<close>

theorem confirmed_promotion_is_covered:
  assumes "decideFailover lc f = PromoteTarget t b s True"
  shows "\<exists>cn. in_confirmation f = Some cn \<and> cn_target cn = t
    \<and> (\<exists>c \<in> set (in_candidates f). fc_service c = t \<and> 0 < fc_running c)
    \<and> (case cn_acceptBehindBytes cn of None \<Rightarrow> True | Some a \<Rightarrow> \<exists>n. b = Some n \<and> of_nat n \<le> a)"
proof (cases "scored_list lc f")
  case Nil
  with assms show ?thesis by (simp add: decideFailover_def split: if_splits)
next
  case (Cons best rest)
  with assms obtain cn x where cn: "in_confirmation f = Some cn"
    "find (\<lambda>s. fc_service (fst s) = cn_target cn) (best # rest) = Some x" "confirmationCovers cn (snd x)"
    "t = fc_service (fst x)" "b = snd x"
    by (auto simp: decideFailover_def Let_def split: if_splits option.splits)
  from find_SomeD [OF cn(2)] Cons have "x \<in> set (scored_list lc f)" "fc_service (fst x) = cn_target cn"
    by simp_all
  moreover from this(1) have "fst x \<in> set (in_candidates f)" "0 < fc_running (fst x)"
    using scored_mem [of "fst x" "snd x" lc f] by simp_all
  moreover have "case cn_acceptBehindBytes cn of None \<Rightarrow> True | Some a \<Rightarrow> \<exists>n. b = Some n \<and> of_nat n \<le> a"
    using cn(3) unfolding cn(5) by (auto simp: confirmationCovers_def split: option.splits)
  ultimately show ?thesis using cn(1,4) by (intro exI [of _ cn] conjI bexI [of _ "fst x"]) simp_all
qed

theorem confirmed_promotion_is_covered_witness:
  "\<exists>cn. in_confirmation (demo_failover ''0/8'') = Some cn \<and> cn_target cn = ''db-replica''"
  using confirmed_promotion_is_covered [OF demo_decisions(2)] by blast

text \<open>
  The decision is not needlessly cautious: if a running replica is provably caught up, a
  replica is promoted at once, with nothing to lose.
\<close>

theorem caught_up_replica_is_promoted:
  assumes "js_comparator lc" and "failoverPolicy (in_topology f) = GatedPolicy"
    and "c \<in> set (in_candidates f)" and "0 < fc_running c" and "fc_replayLsn c \<noteq> Some []" and "proven_caught_up f c"
  shows "\<exists>t s. decideFailover lc f = PromoteTarget t (Some 0) s False"
proof -
  from assms(6) obtain w r where c: "in_watermark f = Some w" "fc_replayLsn c = Some r"
    "watermarkIsFresh (in_watermark f) (in_lastHealthyAt f)" "behindWatermarkBytes (w_lsn w) r = Some 0"
    by (auto simp: proven_caught_up_def behind_0_iff)
  then have z: "(c, Some 0) \<in> set (scored_list lc f)" using assms(3-5) by (auto simp: scored_mem truthy_def)
  then obtain best rest where l: "scored_list lc f = best # rest" by (cases "scored_list lc f") auto
  from best_is_least [OF assms(1) l] z l have "behind_key best \<le> behind_key (c, Some 0)" by simp
  then have "snd best = Some 0" by (auto simp: behind_key_def split: option.splits)
  with l assms(2) show ?thesis by (simp add: decideFailover_def)
qed

theorem caught_up_replica_is_promoted_witness:
  "\<exists>t s. decideFailover demo_lc (demo_failover ''0/20'') = PromoteTarget t (Some 0) s False"
proof (rule caught_up_replica_is_promoted)
  let ?c = "hd (in_candidates (demo_failover ''0/20''))"
  show "js_comparator demo_lc" by (simp add: demo_lc_def js_cmp)
  show "failoverPolicy (in_topology (demo_failover ''0/20'')) = GatedPolicy"
    by (simp add: demo_failover_def failoverPolicy_def)
  show "?c \<in> set (in_candidates (demo_failover ''0/20''))" "0 < fc_running ?c" "fc_replayLsn ?c \<noteq> Some []"
    by (simp_all add: demo_failover_def)
  show "proven_caught_up (demo_failover ''0/20'') ?c"
    by (simp add: proven_caught_up_def demo_failover_def watermarkIsFresh_def FAILOVER_WATERMARK_MAX_GAP_MS_def demo_positions)
qed

text \<open>
  When the decision waits for an admin, the replica it names is the best there is: no
  running replica is caught up, and every one whose window is known trails at least as far as
  the named one, whose own window is then known.
\<close>

theorem confirm_names_best:
  assumes "js_comparator lc" and "decideFailover lc f = ConfirmTarget t b s r" and "(c, d) \<in> set (scored_list lc f)"
  shows "d \<noteq> Some 0 \<and> (\<forall>n. d = Some n \<longrightarrow> (\<exists>m. b = Some m \<and> m \<le> n))"
proof -
  from assms(3) obtain best rest where l: "scored_list lc f = best # rest" by (cases "scored_list lc f") auto
  from assms(2) l have b: "snd best \<noteq> Some 0" "b = snd best"
    by (auto simp: decideFailover_def Let_def split: if_splits option.splits)
  from best_is_least [OF assms(1) l] assms(3) l have "behind_key best \<le> behind_key (c, d)" by simp
  with b show ?thesis by (auto simp: behind_key_def split: option.splits)
qed

theorem confirm_names_best_witness:
  "list_all (\<lambda>s. snd s \<noteq> Some 0) (scored_list demo_lc (demo_failover ''0/1''))"
proof -
  have lc: "js_comparator demo_lc" by (simp add: demo_lc_def js_cmp)
  from demo_decision_waits [of demo_lc] obtain r where d: "decideFailover demo_lc (demo_failover ''0/1'')
    = ConfirmTarget ''db-replica'' (Some 15) None r" by blast
  show ?thesis unfolding list_all_iff using confirm_names_best [OF lc d] by (metis prod.collapse)
qed

text \<open>
  The wait/confirm labels survive the round trip: what the worker stamps and what the admin's
  confirmation writes are read back as they were, as long as they name a target.
\<close>

theorem failover_labels_roundtrip:
  assumes "pf_target p \<noteq> []" and "cn_target c \<noteq> []" and "\<And>a. cn_acceptBehindBytes c = Some a \<Longrightarrow> 0 \<le> a"
  shows "parsePendingFailover (Some (encodePendingFailover p)) = Some p
    \<and> parseFailoverConfirmation (Some (encodeFailoverConfirmation c)) = Some c"
proof
  show "parsePendingFailover (Some (encodePendingFailover p)) = Some p"
    using assms(1) by (cases p; cases "pf_behindBytes p"; cases "pf_behindSeconds p")
      (auto simp: parsePendingFailover_def encodePendingFailover_def jnull_def opt_or_def)
  show "parseFailoverConfirmation (Some (encodeFailoverConfirmation c)) = Some c"
    using assms(2,3)
    by (cases c; cases "cn_acceptBehindBytes c"; cases "cn_by c"; cases "cn_at c")
      (auto simp: parseFailoverConfirmation_def encodeFailoverConfirmation_def map_of_entry entry_def Let_def)
qed

theorem failover_labels_roundtrip_witness:
  "parsePendingFailover (Some (encodePendingFailover \<lparr>pf_target = ''db-replica'', pf_behindBytes = Some 15,
      pf_behindSeconds = None, pf_reason = ''behind'', pf_since = ''now''\<rparr>))
    = Some \<lparr>pf_target = ''db-replica'', pf_behindBytes = Some 15, pf_behindSeconds = None, pf_reason = ''behind'', pf_since = ''now''\<rparr>"
  using failover_labels_roundtrip [of "\<lparr>pf_target = ''db-replica'', pf_behindBytes = Some 15,
      pf_behindSeconds = None, pf_reason = ''behind'', pf_since = ''now''\<rparr>"
      "\<lparr>cn_target = ''t'', cn_acceptBehindBytes = None, cn_by = None, cn_at = None\<rparr>"]
  by simp

section \<open>The worker's ticks\<close>

definition observed_healthy :: "tick_input \<Rightarrow> bool" where
  "observed_healthy i \<longleftrightarrow> tick_healthy i \<and> failoverPolicy (ti_topology i) = GatedPolicy"

text \<open>
  What the worker's memory stands for: the last healthy tick, the ticks since, and the tick
  the watermark was sampled on.
\<close>

definition remembers :: "tick_input list \<Rightarrow> failover_state \<Rightarrow> bool" where
  "remembers ins st \<longleftrightarrow>
     (\<forall>w. fs_watermark st = Some w \<longrightarrow> (\<exists>i \<in> set ins. observed_healthy i
        \<and> ti_primaryLsn i = Some (w_lsn w) \<and> ti_now i = w_sampledAt w))
     \<and> (\<forall>th. fs_lastHealthy st = Some th \<longrightarrow>
        (\<exists>pre h mid. ins = pre @ h # mid \<and> observed_healthy h \<and> ti_now h = th
           \<and> (\<forall>i \<in> set mid. \<not> observed_healthy i) \<and> fs_ticks st \<le> length mid))"

lemma gated_iff: "failoverPolicy t = GatedPolicy \<longleftrightarrow> t \<noteq> Single \<and> t \<noteq> ActiveActive"
  by (auto simp: failoverPolicy_def)

lemma promote_branch_state: "fst (promote_branch i st t cn) \<in> {st, init_failover}"
  by (auto simp: promote_branch_def Let_def split: option.splits)

lemma confirm_branch_state: "fst (confirm_branch isoTime i st t b s r) = st\<lparr>fs_alerted := True\<rparr>"
  by (simp add: confirm_branch_def Let_def)

lemma maybePromote_down:
  assumes "\<not> observed_healthy i"
  shows "fst (maybePromote lc isoTime i st) \<in> {st\<lparr>fs_ticks := 0\<rparr>, st\<lparr>fs_ticks := fs_ticks st + 1\<rparr>,
    st\<lparr>fs_ticks := fs_ticks st + 1, fs_alerted := True\<rparr>, init_failover}"
proof (cases "ti_topology i = Single \<or> ti_topology i = ActiveActive")
  case True
  then show ?thesis by (simp add: maybePromote_def)
next
  case False
  let ?st = "st\<lparr>fs_ticks := fs_ticks st + 1\<rparr>"
  from False assms have h: "\<not> tick_healthy i" by (simp add: observed_healthy_def gated_iff)
  show ?thesis
  proof (cases "\<not> switchoverRequested (ti_primary i) (ti_now i) \<and> \<not> promotionDue (fs_ticks ?st)")
    case True
    with False h show ?thesis unfolding maybePromote_def Let_def by (simp only: if_False if_True) simp
  next
    case due: False
    have "fst (maybePromote lc isoTime i st) = (case decideFailover lc (decision_input i ?st) of
        NeverPromote \<Rightarrow> ?st | WaitForReplica \<Rightarrow> ?st
      | ConfirmTarget t b s r \<Rightarrow> fst (confirm_branch isoTime i ?st t b s r)
      | PromoteTarget t b s cn \<Rightarrow> fst (promote_branch i ?st t cn))"
      unfolding maybePromote_def Let_def using False h due
      by (simp only: if_False) (simp add: case_prod_beta split: failover_decision.split)
    then show ?thesis
      using promote_branch_state [of i ?st] confirm_branch_state [of isoTime i ?st]
      by (cases "decideFailover lc (decision_input i ?st)") auto
  qed
qed

lemma tick_state:
  assumes "maybePromote lc isoTime i st = (st', es)" and "\<not> observed_healthy i"
  shows "fs_lastHealthy st' = None \<and> fs_watermark st' = None
    \<or> fs_lastHealthy st' = fs_lastHealthy st \<and> fs_watermark st' = fs_watermark st
      \<and> fs_ticks st' \<le> Suc (fs_ticks st)"
  using maybePromote_down [OF assms(2), of lc isoTime st] unfolding assms(1) by (auto simp: init_failover_def)

lemma remembers_unhealthy:
  assumes "remembers ins st" and "\<not> observed_healthy i" and "fs_lastHealthy st' = fs_lastHealthy st"
    and "fs_watermark st' = fs_watermark st" and "fs_ticks st' \<le> Suc (fs_ticks st)"
  shows "remembers (ins @ [i]) st'"
  unfolding remembers_def
proof (intro conjI allI impI)
  fix w assume "fs_watermark st' = Some w"
  with assms show "\<exists>i \<in> set (ins @ [i]). observed_healthy i \<and> ti_primaryLsn i = Some (w_lsn w) \<and> ti_now i = w_sampledAt w"
    by (auto simp: remembers_def)
next
  fix th assume "fs_lastHealthy st' = Some th"
  then obtain pre h mid where p: "ins = pre @ h # mid" "observed_healthy h" "ti_now h = th"
    "\<forall>i \<in> set mid. \<not> observed_healthy i" "fs_ticks st \<le> length mid"
    using assms(1,3) unfolding remembers_def by auto
  show "\<exists>pre h mid. ins @ [i] = pre @ h # mid \<and> observed_healthy h \<and> ti_now h = th
      \<and> (\<forall>i \<in> set mid. \<not> observed_healthy i) \<and> fs_ticks st' \<le> length mid"
    by (rule exI [of _ pre], rule exI [of _ h], rule exI [of _ "mid @ [i]"]) (use p assms(2,5) in auto)
qed

lemma remembers_healthy:
  assumes "remembers ins st" and "maybePromote lc isoTime i st = (st', es)" and h: "observed_healthy i"
  shows "remembers (ins @ [i]) st'"
proof -
  from assms have st': "fs_ticks st' = 0" "fs_lastHealthy st' = Some (ti_now i)"
    "fs_watermark st' = (if truthy (ti_primaryLsn i) then Some \<lparr>w_lsn = the (ti_primaryLsn i), w_sampledAt = ti_now i\<rparr>
       else fs_watermark st)"
    by (auto simp: maybePromote_def observed_healthy_def gated_iff)
  have "\<exists>j \<in> set (ins @ [i]). observed_healthy j \<and> ti_primaryLsn j = Some (w_lsn w) \<and> ti_now j = w_sampledAt w"
    if "fs_watermark st' = Some w" for w
    using that st'(3) h assms(1) by (auto simp: remembers_def truthy_def split: if_splits option.splits)
  moreover have "\<exists>pre j mid. ins @ [i] = pre @ j # mid \<and> observed_healthy j \<and> ti_now j = ti_now i
      \<and> (\<forall>k \<in> set mid. \<not> observed_healthy k) \<and> fs_ticks st' \<le> length mid"
    by (rule exI [of _ ins], rule exI [of _ i], rule exI [of _ "[]"]) (simp add: h st')
  ultimately show ?thesis using st'(2) by (simp add: remembers_def)
qed

lemma remembers_tick:
  assumes "remembers ins st" and "maybePromote lc isoTime i st = (st', es)"
  shows "remembers (ins @ [i]) st'"
proof (cases "observed_healthy i")
  case True
  with assms remembers_healthy show ?thesis by blast
next
  case False
  from tick_state [OF assms(2) False] show ?thesis
  proof
    assume "fs_lastHealthy st' = None \<and> fs_watermark st' = None"
    then show ?thesis by (simp add: remembers_def)
  qed (use remembers_unhealthy [OF assms(1) False] in blast)
qed

lemma remembers_run: "remembers (pre @ ins) (run_ticks lc isoTime st ins)" if "remembers pre st"
  using that
proof (induction ins arbitrary: pre st)
  case (Cons i ins)
  obtain st' es where "maybePromote lc isoTime i st = (st', es)" by fastforce
  with Cons.IH [OF remembers_tick [OF Cons.prems this]] show ?case by simp
qed simp

lemma tick_promotes:
  assumes "maybePromote lc isoTime i st = (st', es)" and "PgPromote t False \<in> set es"
  shows "\<not> observed_healthy i \<and> failoverPolicy (ti_topology i) = GatedPolicy
    \<and> (switchoverRequested (ti_primary i) (ti_now i) \<or> promotionDue (Suc (fs_ticks st)))
    \<and> (\<exists>b s. decideFailover lc (decision_input i (st\<lparr>fs_ticks := fs_ticks st + 1\<rparr>)) = PromoteTarget t b s False)"
  using assms
  by (auto simp: maybePromote_def observed_healthy_def gated_iff promote_branch_def confirm_branch_def clearHandshake_def
      Let_def split: if_splits failover_decision.splits option.splits prod.splits)


definition demo_tick :: "nat \<Rightarrow> int \<Rightarrow> tick_input" where
  "demo_tick running t = \<lparr>ti_topology = FailoverTopology,
     ti_primary = Some \<lparr>mb_name = ''db-primary'', mb_running = running, mb_dcs = False, mb_pending = None, mb_confirm = None, mb_switchover = None\<rparr>,
     ti_replicas = [\<lparr>mb_name = ''db-replica'', mb_running = 1, mb_dcs = False, mb_pending = None, mb_confirm = None, mb_switchover = None\<rparr>],
     ti_measured = [(''db-replica'', 0, Some ''0/20'')], ti_primaryLsn = (if 0 < running then Some ''0/10'' else None),
     ti_now = t, ti_promoteOk = True\<rparr>"

lemma demo_tick_up: "fst (maybePromote lc isoTime (demo_tick 1 t) st) =
    \<lparr>fs_ticks = 0, fs_watermark = Some \<lparr>w_lsn = ''0/10'', w_sampledAt = t\<rparr>, fs_lastHealthy = Some t, fs_alerted = False\<rparr>"
  by (simp add: maybePromote_def demo_tick_def tick_healthy_def truthy_def)

lemma demo_tick_down: "fs_ticks st < 2 \<Longrightarrow> fst (maybePromote lc isoTime (demo_tick 0 t) st) = st\<lparr>fs_ticks := fs_ticks st + 1\<rparr>"
  by (simp add: maybePromote_def demo_tick_def tick_healthy_def switchoverRequested_def promotionDue_def
      PROMOTION_GRACE_TICKS_def)

lemma demo_run: "run_ticks lc isoTime init_failover [demo_tick 1 0, demo_tick 0 15, demo_tick 0 30] =
    \<lparr>fs_ticks = 2, fs_watermark = Some \<lparr>w_lsn = ''0/10'', w_sampledAt = 0\<rparr>, fs_lastHealthy = Some 0, fs_alerted = False\<rparr>"
  by (simp add: demo_tick_up [unfolded One_nat_def] demo_tick_down)

lemma demo_tick_decides: "\<exists>s. decideFailover lc (decision_input (demo_tick 0 t)
    \<lparr>fs_ticks = n, fs_watermark = Some \<lparr>w_lsn = ''0/10'', w_sampledAt = 0\<rparr>, fs_lastHealthy = Some 0, fs_alerted = a\<rparr>)
    = PromoteTarget ''db-replica'' (Some 0) s False"
proof -
  let ?f = "decision_input (demo_tick 0 t)
    \<lparr>fs_ticks = n, fs_watermark = Some \<lparr>w_lsn = ''0/10'', w_sampledAt = 0\<rparr>, fs_lastHealthy = Some 0, fs_alerted = a\<rparr>"
  have "scored_list lc ?f = [(\<lparr>fc_service = ''db-replica'', fc_running = 1, fc_replayLsn = Some ''0/20'', fc_lagSeconds = Some 0\<rparr>,
      Some 0)]"
    by (simp add: scored_list_def decision_input_def demo_tick_def tick_candidates_def watermarkIsFresh_def
        FAILOVER_WATERMARK_MAX_GAP_MS_def truthy_def behindWatermarkBytes_def demo_positions)
  moreover have "failoverPolicy (in_topology ?f) = GatedPolicy"
    by (simp add: decision_input_def demo_tick_def failoverPolicy_def)
  ultimately show ?thesis by (simp add: decideFailover_def)
qed


end
