(* ===== verification/Disks.thy ===== *)
theory Disks
  imports Json
begin

text \<open>
  Disks: the pure half of "add a disk", \<^verbatim>\<open>packages/core/src/disk-inventory.ts\<close>. What \<^verbatim>\<open>lsblk\<close>
  reported is classified, and the agent's last check before \<^verbatim>\<open>mkfs\<close> (\<open>formatGate\<close>) decides
  whether a disk may be formatted; the labels and bind devices of formatted disks follow.

  Reasons given to the operator are values of \<open>gate\<close>. A classification that throws (a serial
  with no usable character) is \<open>None\<close>. An absent or null field of a device is \<open>None\<close>; the size
  is what \<^verbatim>\<open>Number(d.size)\<close> gives, \<open>None\<close> where it is not a number.
\<close>

section \<open>Definitions\<close>

datatype lsblk_device = Lsblk
  (d_name: string) (d_path: "string option") (d_size: "nat option") (d_type: "string option")
  (d_fstype: "string option") (d_mountpoint: "string option") (d_mountpoints: "string option list")
  (d_serial: "string option") (d_model: "string option") (d_ro: "json option") (d_rm: "json option")
  (d_pttype: "string option") (d_label: "string option") (d_children: "lsblk_device list")

datatype disk_state = Blank | HasData | SwarmyDisk | SwarmyUnmounted | MountedElsewhere | SystemDisk | Ineligible

record disk_view =
  dv_name :: string
  dv_path :: string
  dv_sizeBytes :: nat
  dv_serial :: "string option"
  dv_model :: "string option"
  dv_state :: disk_state
  dv_mountpoints :: "string list"
  dv_fstype :: "string option"
  dv_label :: "string option"

definition SWARMY_DISK_ROOT :: string where "SWARMY_DISK_ROOT = ''/var/lib/swarmy/disks/''"
definition MIN_DISK_BYTES :: nat where "MIN_DISK_BYTES = 1024 ^ 3"
definition SYSTEM_MOUNTS :: "string list" where
  "SYSTEM_MOUNTS = [''/'', ''/boot'', ''/boot/efi'', ''/usr'', ''/var'', ''/var/lib/docker'', ''/home'', ''[SWAP]'']"

definition lsblk_true :: "json option \<Rightarrow> bool" where
  "lsblk_true v = (v = Some (JBool True) \<or> v = Some (JNum 1) \<or> v = Some (JStr ''1'') \<or> v = Some (JStr ''true''))"

lemma child_size [termination_simp]: "x \<in> set (d_children d) \<Longrightarrow> size x < size d"
  by (cases d) (auto dest: size_list_estimation' [of x _ "size x" size])

fun mountsOf :: "lsblk_device \<Rightarrow> string list" where
  "mountsOf d = map the (filter truthy (d_mountpoints d @ [d_mountpoint d])) @ concat (map mountsOf (d_children d))"

fun anyFs :: "lsblk_device \<Rightarrow> bool" where
  "anyFs d = (truthy (d_fstype d) \<or> list_ex anyFs (d_children d))"

subsection \<open>Identifiers\<close>

definition is_alnum :: "char \<Rightarrow> bool" where
  "is_alnum c = (CHR ''0'' \<le> c \<and> c \<le> CHR ''9'' \<or> CHR ''A'' \<le> c \<and> c \<le> CHR ''Z'' \<or> CHR ''a'' \<le> c \<and> c \<le> CHR ''z'')"

definition id_char :: "char \<Rightarrow> bool" where
  "id_char c = (is_alnum c \<or> c = CHR ''_'' \<or> c = CHR ''.'' \<or> c = CHR ''-'')"

text \<open>\<^verbatim>\<open>SAFE_ID\<close> and \<^verbatim>\<open>SAFE_VOLUME\<close>.\<close>

definition SAFE_ID :: "string \<Rightarrow> bool" where
  "SAFE_ID s = (case s of [] \<Rightarrow> False
     | c # cs \<Rightarrow> (is_alnum c \<or> c = CHR ''_'') \<and> list_all id_char cs \<and> length cs \<le> 63)"

definition SAFE_VOLUME :: "string \<Rightarrow> bool" where
  "SAFE_VOLUME s = (case s of [] \<Rightarrow> False
     | c # cs \<Rightarrow> is_alnum c \<and> list_all id_char cs \<and> length cs \<le> 254)"

definition diskId :: "string \<Rightarrow> string option" where
  "diskId serial =
     (let id0 = take 64 (dropWhile (\<lambda>c. c = CHR ''.'' \<or> c = CHR ''-'')
                  (map (\<lambda>c. if id_char c then c else CHR ''_'') (js_trim serial)));
          id1 = (if id0 = ''default'' then ''disk-default'' else id0)
      in if SAFE_ID id1 then Some id1 else None)"

definition swarmyFsLabel :: "string \<Rightarrow> string option" where
  "swarmyFsLabel serial = map_option (\<lambda>i. ''swarmy-'' @ drop (length i - 9) i) (diskId serial)"

definition diskMountpoint :: "string \<Rightarrow> string option" where
  "diskMountpoint serial = map_option (\<lambda>i. SWARMY_DISK_ROOT @ i) (diskId serial)"

subsection \<open>Classification\<close>

definition trimmed :: "string option \<Rightarrow> string option" where
  "trimmed s = (case s of None \<Rightarrow> None | Some t \<Rightarrow> if js_trim t = [] then None else Some (js_trim t))"

text \<open>The state of one whole disk; \<open>None\<close> where computing the expected label throws.\<close>

definition disk_state_of :: "lsblk_device \<Rightarrow> disk_state option" where
  "disk_state_of d =
     (let mountpoints = mountsOf d;
          serial = trimmed (d_serial d);
          swap = (d_fstype d = Some ''swap'' \<or> list_ex (\<lambda>c. d_fstype c = Some ''swap'') (d_children d));
          rest = (if anyFs d \<or> truthy (d_pttype d) \<or> d_children d \<noteq> [] then HasData
                  else if lsblk_true (d_ro d) \<or> lsblk_true (d_rm d) then Ineligible
                  else if opt_or (d_size d) 0 < MIN_DISK_BYTES then Ineligible
                  else Blank)
      in if swap \<or> list_ex (\<lambda>m. m \<in> set SYSTEM_MOUNTS) mountpoints then Some SystemDisk
         else if mountpoints \<noteq> [] \<and> list_all (\<lambda>m. js_starts_with m SWARMY_DISK_ROOT) mountpoints then Some SwarmyDisk
         else if mountpoints \<noteq> [] then Some MountedElsewhere
         else if d_fstype d = Some ''ext4'' \<and> serial \<noteq> None \<and> truthy (d_label d)
         then (case swarmyFsLabel (the serial) of
                 None \<Rightarrow> None
               | Some l \<Rightarrow> if d_label d = Some l then Some SwarmyUnmounted else Some rest)
         else Some rest)"

definition disk_view_of :: "lsblk_device \<Rightarrow> disk_view option" where
  "disk_view_of d = map_option (\<lambda>st.
     \<lparr>dv_name = d_name d, dv_path = opt_or (d_path d) (''/dev/'' @ d_name d),
      dv_sizeBytes = opt_or (d_size d) 0, dv_serial = trimmed (d_serial d), dv_model = trimmed (d_model d),
      dv_state = st, dv_mountpoints = mountsOf d, dv_fstype = d_fstype d, dv_label = trimmed (d_label d)\<rparr>)
     (disk_state_of d)"

fun all_some :: "'a option list \<Rightarrow> 'a list option" where
  "all_some [] = Some []"
| "all_some (None # xs) = None"
| "all_some (Some x # xs) = map_option (\<lambda>ys. x # ys) (all_some xs)"

definition classifyDisks :: "lsblk_device list \<Rightarrow> disk_view list option" where
  "classifyDisks devices = all_some (map disk_view_of (filter (\<lambda>d. d_type d = Some ''disk'') devices))"

subsection \<open>The last check before mkfs\<close>

datatype gate = GateOk | NoSerial | NotPresent | SerialChanged | SizeChanged | NotBlank disk_state
  | HasSignature | WrongConfirmation | GateThrows

record expected_disk =
  ex_path :: string
  ex_serial :: string
  ex_sizeBytes :: nat

definition last4 :: "string \<Rightarrow> string" where
  "last4 s = drop (length s - 4) s"

definition formatGate :: "lsblk_device list \<Rightarrow> expected_disk \<Rightarrow> string \<Rightarrow> string \<Rightarrow> gate" where
  "formatGate devices ex wipefsOutput typedConfirmation =
     (if length (ex_serial ex) < 4 then NoSerial
      else case classifyDisks devices of
             None \<Rightarrow> GateThrows
           | Some views \<Rightarrow>
               (case find (\<lambda>d. dv_path d = ex_path ex) views of
                  None \<Rightarrow> NotPresent
                | Some disk \<Rightarrow>
                    if dv_serial disk \<noteq> Some (ex_serial ex) then SerialChanged
                    else if dv_sizeBytes disk \<noteq> ex_sizeBytes ex then SizeChanged
                    else if dv_state disk \<noteq> Blank then NotBlank (dv_state disk)
                    else if js_trim wipefsOutput \<noteq> [] then HasSignature
                    else if js_upper (js_trim typedConfirmation) \<noteq> js_upper (last4 (ex_serial ex)) then WrongConfirmation
                    else GateOk))"

text \<open>\<open>fsTotalBytes\<close> absent is 0; the 2 percent threshold is compared exactly.\<close>

definition growableBytes :: "disk_view \<Rightarrow> nat \<Rightarrow> nat" where
  "growableBytes disk fsTotalBytes =
     (if dv_state disk \<noteq> SwarmyDisk \<or> fsTotalBytes = 0 then 0
      else (let extra = int (dv_sizeBytes disk) - int fsTotalBytes
            in if int MIN_DISK_BYTES < extra \<and> int (dv_sizeBytes disk) * 2 < extra * 100 then nat extra else 0))"

subsection \<open>Labels\<close>

definition DISK_LABEL_PREFIX :: string where "DISK_LABEL_PREFIX = ''swarmy.disk.''"
definition DISK_DEFAULT_LABEL :: string where "DISK_DEFAULT_LABEL = ''swarmy.disk.default''"
definition NODE_DISK_FORMAT_LABEL :: string where "NODE_DISK_FORMAT_LABEL = ''swarmy.node.diskFormat''"
definition NODE_DISK_REPAIR_LABEL :: string where "NODE_DISK_REPAIR_LABEL = ''swarmy.node.diskRepair''"

datatype override = Allow | Deny

definition isDiskRepairCapable :: "labels \<Rightarrow> bool" where
  "isDiskRepairCapable l = (lbl l NODE_DISK_REPAIR_LABEL \<noteq> Some ''false'')"

definition isDiskFormatCapable :: "labels \<Rightarrow> override option \<Rightarrow> bool" where
  "isDiskFormatCapable l ov =
     (case ov of Some Deny \<Rightarrow> False | Some Allow \<Rightarrow> True
      | None \<Rightarrow> lbl l NODE_DISK_FORMAT_LABEL \<noteq> Some ''false'')"

definition diskFormatGateAllows :: "override option \<Rightarrow> bool option \<Rightarrow> bool" where
  "diskFormatGateAllows ov nodeCapable =
     (case ov of Some Deny \<Rightarrow> False | Some Allow \<Rightarrow> True | None \<Rightarrow> nodeCapable = Some True)"

record node_disk =
  nd_id :: string
  nd_mountpoint :: string
  nd_isDefault :: bool

definition is_disk_label :: "string \<Rightarrow> bool" where
  "is_disk_label k = (js_starts_with k DISK_LABEL_PREFIX \<and> k \<noteq> DISK_DEFAULT_LABEL)"

definition label_disk_id :: "string \<Rightarrow> string" where
  "label_disk_id k = drop (length DISK_LABEL_PREFIX) k"

definition nodeDisks :: "labels \<Rightarrow> node_disk list" where
  "nodeDisks l =
     map (\<lambda>(k, v). \<lparr>nd_id = label_disk_id k, nd_mountpoint = v,
                     nd_isDefault = (Some (label_disk_id k) = lbl l DISK_DEFAULT_LABEL)\<rparr>)
       (filter (\<lambda>(k, v). is_disk_label k \<and> SAFE_ID (label_disk_id k) \<and> v = SWARMY_DISK_ROOT @ label_disk_id k) l)"

definition defaultDiskMount :: "labels \<Rightarrow> string option" where
  "defaultDiskMount l = map_option nd_mountpoint (find nd_isDefault (nodeDisks l))"

definition diskLabelsAfterFormat :: "string \<Rightarrow> labels \<Rightarrow> labels option" where
  "diskLabelsAfterFormat serial current =
     (case diskId serial of
        None \<Rightarrow> None
      | Some i \<Rightarrow> Some ((DISK_LABEL_PREFIX @ i, SWARMY_DISK_ROOT @ i)
          # (if \<not> truthy (defaultDiskMount current) then [(DISK_DEFAULT_LABEL, i)] else [])))"

text \<open>\<^verbatim>\<open>{ ...current, ...patch }\<close>.\<close>

definition merge_labels :: "labels \<Rightarrow> labels \<Rightarrow> labels" where
  "merge_labels current patch = fold (\<lambda>(k, v) acc. AList.update k v acc) patch current"

datatype label_problem = BadDiskLabel string | BadDefault

definition diskLabelProblems :: "labels \<Rightarrow> labels \<Rightarrow> label_problem list" where
  "diskLabelProblems patch current =
     [BadDiskLabel k. (k, v) \<leftarrow> patch, is_disk_label k, v \<noteq> [],
        \<not> SAFE_ID (label_disk_id k) \<or> v \<noteq> SWARMY_DISK_ROOT @ label_disk_id k]
     @ (case lbl patch DISK_DEFAULT_LABEL of
          None \<Rightarrow> []
        | Some def \<Rightarrow>
            if def = [] then []
            else if list_ex (\<lambda>d. nd_id d = def) (nodeDisks (merge_labels current patch)) then [] else [BadDefault])"

subsection \<open>Volumes on a disk\<close>

definition diskVolumeOptions :: "labels \<Rightarrow> string \<Rightarrow> string option" where
  "diskVolumeOptions l volumeName =
     (case defaultDiskMount l of
        None \<Rightarrow> None
      | Some mount \<Rightarrow> if mount = [] \<or> \<not> SAFE_VOLUME volumeName then None
                       else Some (mount @ ''/volumes/'' @ volumeName))"

text \<open>\<^verbatim>\<open>DISK_DEVICE\<close>: neither part can hold a slash, so the segments decide.\<close>

definition parseDiskVolumeDevice :: "string \<Rightarrow> (string \<times> string \<times> string) option" where
  "parseDiskVolumeDevice device =
     (if \<not> js_starts_with device SWARMY_DISK_ROOT then None
      else case js_split (CHR ''/'') (drop (length SWARMY_DISK_ROOT) device) of
             [i, vols, v] \<Rightarrow>
               if SAFE_ID i \<and> vols = ''volumes'' \<and> SAFE_VOLUME v \<and> v \<noteq> ''.'' \<and> v \<noteq> ''..''
               then Some (i, SWARMY_DISK_ROOT @ i, v) else None
           | _ \<Rightarrow> None)"

definition QUOTE :: char where "QUOTE = CHR 0x27"
definition BACKSLASH :: char where "BACKSLASH = CHR 0x5C"

definition shQuote :: "string \<Rightarrow> string" where
  "shQuote s = QUOTE # concat (map (\<lambda>c. if c = QUOTE then [QUOTE, BACKSLASH, QUOTE, QUOTE] else [c]) s) @ [QUOTE]"

section \<open>Properties\<close>

declare mountsOf.simps [simp del] anyFs.simps [simp del]

lemma all_some_mem: "all_some xs = Some ys \<Longrightarrow> y \<in> set ys \<Longrightarrow> Some y \<in> set xs"
  by (induction xs arbitrary: ys rule: all_some.induct) auto

text \<open>What a device must be for its whole content to be empty space.\<close>

definition provably_empty :: "lsblk_device \<Rightarrow> bool" where
  "provably_empty d \<longleftrightarrow> d_type d = Some ''disk'' \<and> mountsOf d = [] \<and> \<not> anyFs d \<and> d_children d = []
     \<and> \<not> truthy (d_pttype d) \<and> \<not> lsblk_true (d_ro d) \<and> \<not> lsblk_true (d_rm d) \<and> MIN_DISK_BYTES \<le> opt_or (d_size d) 0"

lemma blank_state: "disk_state_of d = Some Blank \<Longrightarrow> d_type d = Some ''disk'' \<Longrightarrow> provably_empty d"
  by (auto simp: disk_state_of_def provably_empty_def Let_def split: if_splits option.splits)

lemma classified_device:
  assumes "classifyDisks devices = Some views" and "v \<in> set views"
  shows "\<exists>d \<in> set devices. d_type d = Some ''disk'' \<and> disk_view_of d = Some v"
  using all_some_mem [OF assms(1) [unfolded classifyDisks_def] assms(2)] by force

text \<open>
  C17. Formatting is refused unless everything is proven. When the last check passes, the fresh
  listing has a whole disk at the confirmed path with the confirmed serial (of at least four
  characters) and size that is mounted nowhere, carries no filesystem in its whole tree, no
  partition and no partition table, is writable, fixed and at least 1 GiB; the signature probe
  printed nothing, and the operator typed the last four characters of that serial.
\<close>

theorem format_gate_sound:
  assumes "formatGate devices ex wipefs typed = GateOk"
  shows "(\<exists>d \<in> set devices. provably_empty d \<and> opt_or (d_path d) (''/dev/'' @ d_name d) = ex_path ex
       \<and> trimmed (d_serial d) = Some (ex_serial ex) \<and> opt_or (d_size d) 0 = ex_sizeBytes ex)
    \<and> 4 \<le> length (ex_serial ex) \<and> js_trim wipefs = []
    \<and> js_upper (js_trim typed) = js_upper (last4 (ex_serial ex))"
proof -
  from assms obtain views disk where v: "classifyDisks devices = Some views"
    "find (\<lambda>d. dv_path d = ex_path ex) views = Some disk" and ok: "dv_serial disk = Some (ex_serial ex)"
    "dv_sizeBytes disk = ex_sizeBytes ex" "dv_state disk = Blank" "js_trim wipefs = []"
    "js_upper (js_trim typed) = js_upper (last4 (ex_serial ex))" "4 \<le> length (ex_serial ex)"
    by (auto simp: formatGate_def split: if_splits option.splits)
  from find_SomeD [OF v(2)] have "disk \<in> set views" "dv_path disk = ex_path ex" by auto
  from classified_device [OF v(1) this(1)] obtain d where d: "d \<in> set devices" "d_type d = Some ''disk''"
    "disk_view_of d = Some disk" by blast
  then have "disk_state_of d = Some Blank" using ok(3) by (auto simp: disk_view_of_def)
  from blank_state [OF this d(2)] have "provably_empty d" .
  with d \<open>dv_path disk = ex_path ex\<close> ok show ?thesis by (auto simp: disk_view_of_def)
qed

definition demo_disk :: lsblk_device where
  "demo_disk = Lsblk ''sdb'' None (Some 2000000000) (Some ''disk'') None None [] (Some ''ABC1234'') None None None None None []"

theorem format_gate_sound_witness:
  "formatGate [demo_disk] \<lparr>ex_path = ''/dev/sdb'', ex_serial = ''ABC1234'', ex_sizeBytes = 2000000000\<rparr> [] ''1234'' = GateOk
   \<and> (\<exists>d \<in> set [demo_disk]. provably_empty d)"
proof -
  have "disk_state_of demo_disk = Some Blank"
    by (simp add: disk_state_of_def demo_disk_def mountsOf.simps anyFs.simps truthy_def lsblk_true_def opt_or_def
        MIN_DISK_BYTES_def)
  moreover have "trimmed (d_serial demo_disk) = Some ''ABC1234''"
    by (simp add: demo_disk_def trimmed_def js_trim_def js_space_def)
  ultimately have g: "formatGate [demo_disk] \<lparr>ex_path = ''/dev/sdb'', ex_serial = ''ABC1234'', ex_sizeBytes = 2000000000\<rparr> [] ''1234'' = GateOk"
    by (simp add: formatGate_def classifyDisks_def disk_view_of_def)
      (simp add: demo_disk_def js_trim_def js_space_def last4_def opt_or_def)
  from format_gate_sound [OF g] g show ?thesis by blast
qed

subsection \<open>Labels and volumes\<close>

lemma label_disk_id_prefix [simp]: "label_disk_id (DISK_LABEL_PREFIX @ i) = i"
  by (simp add: label_disk_id_def)

lemma is_disk_label_iff: "is_disk_label k \<longleftrightarrow> (\<exists>i. k = DISK_LABEL_PREFIX @ i \<and> i \<noteq> ''default'')"
  by (auto simp: is_disk_label_def js_starts_with_iff DISK_LABEL_PREFIX_def DISK_DEFAULT_LABEL_def)

definition declares :: "labels \<Rightarrow> string \<Rightarrow> bool" where
  "declares l i \<longleftrightarrow> i \<noteq> ''default'' \<and> SAFE_ID i \<and> lbl l (DISK_LABEL_PREFIX @ i) = Some (SWARMY_DISK_ROOT @ i)"

lemma nodeDisks_mem:
  assumes "distinct (map fst l)"
  shows "d \<in> set (nodeDisks l) \<longleftrightarrow> declares l (nd_id d) \<and> nd_mountpoint d = SWARMY_DISK_ROOT @ nd_id d
    \<and> nd_isDefault d = (lbl l DISK_DEFAULT_LABEL = Some (nd_id d))"
proof -
  have m: "(k, v) \<in> set l \<longleftrightarrow> lbl l k = Some v" for k v
    using map_of_eq_Some_iff [OF assms] by (simp add: lbl_def)
  have "d \<in> set (nodeDisks l) \<longleftrightarrow> (\<exists>i. i \<noteq> ''default'' \<and> SAFE_ID i \<and> (DISK_LABEL_PREFIX @ i, SWARMY_DISK_ROOT @ i) \<in> set l
      \<and> d = \<lparr>nd_id = i, nd_mountpoint = SWARMY_DISK_ROOT @ i, nd_isDefault = (Some i = lbl l DISK_DEFAULT_LABEL)\<rparr>)"
    (is "_ \<longleftrightarrow> ?R")
  proof
    assume ?R
    then obtain i where "i \<noteq> ''default''" "SAFE_ID i" "(DISK_LABEL_PREFIX @ i, SWARMY_DISK_ROOT @ i) \<in> set l"
      "d = \<lparr>nd_id = i, nd_mountpoint = SWARMY_DISK_ROOT @ i, nd_isDefault = (Some i = lbl l DISK_DEFAULT_LABEL)\<rparr>" by blast
    moreover from this(1) have "is_disk_label (DISK_LABEL_PREFIX @ i)" unfolding is_disk_label_iff by blast
    ultimately show "d \<in> set (nodeDisks l)"
      unfolding nodeDisks_def by (intro image_eqI [of _ _ "(DISK_LABEL_PREFIX @ i, SWARMY_DISK_ROOT @ i)"] set_map [THEN equalityD2, THEN subsetD]) auto
  qed (auto simp: nodeDisks_def is_disk_label_iff)
  then show ?thesis unfolding m declares_def by (cases d) auto
qed

lemma defaultDiskMount_iff:
  assumes "distinct (map fst l)"
  shows "defaultDiskMount l = Some v \<longleftrightarrow>
    (\<exists>i. lbl l DISK_DEFAULT_LABEL = Some i \<and> declares l i \<and> v = SWARMY_DISK_ROOT @ i)"
proof
  assume "defaultDiskMount l = Some v"
  then obtain d where "find nd_isDefault (nodeDisks l) = Some d" "v = nd_mountpoint d"
    by (auto simp: defaultDiskMount_def)
  with find_SomeD [OF this(1)] nodeDisks_mem [OF assms]
  show "\<exists>i. lbl l DISK_DEFAULT_LABEL = Some i \<and> declares l i \<and> v = SWARMY_DISK_ROOT @ i" by auto
next
  assume "\<exists>i. lbl l DISK_DEFAULT_LABEL = Some i \<and> declares l i \<and> v = SWARMY_DISK_ROOT @ i"
  then obtain i where i: "lbl l DISK_DEFAULT_LABEL = Some i" "declares l i" "v = SWARMY_DISK_ROOT @ i" by blast
  let ?d = "\<lparr>nd_id = i, nd_mountpoint = SWARMY_DISK_ROOT @ i, nd_isDefault = True\<rparr>"
  have "?d \<in> set (nodeDisks l)" using i nodeDisks_mem [OF assms, of ?d] by simp
  then obtain d where d: "find nd_isDefault (nodeDisks l) = Some d"
    using find_NoneD [of nd_isDefault "nodeDisks l" ?d] by (cases "find nd_isDefault (nodeDisks l)") auto
  with find_SomeD [OF d] nodeDisks_mem [OF assms, of d] i show "defaultDiskMount l = Some v"
    by (auto simp: defaultDiskMount_def)
qed

lemma diskId_safe: "diskId s = Some i \<Longrightarrow> SAFE_ID i \<and> i \<noteq> ''default''"
  by (auto simp: diskId_def Let_def split: if_splits)

lemma merge_labels_lbl: "lbl (merge_labels cur patch) k = (case map_of (rev patch) k of Some v \<Rightarrow> Some v | None \<Rightarrow> lbl cur k)"
  by (induction patch arbitrary: cur)
    (auto simp: merge_labels_def lbl_def update_conv' map_add_def split: option.splits)

lemma merge_labels_distinct: "distinct (map fst cur) \<Longrightarrow> distinct (map fst (merge_labels cur patch))"
  by (induction patch arbitrary: cur) (auto simp: merge_labels_def distinct_update)

text \<open>
  The labels stamped after formatting do their job: merged into the node's labels they
  declare the new disk at its own mountpoint; if the node had a default disk it stays the
  default, otherwise the new disk becomes it.
\<close>

theorem format_labels_declare_disk:
  assumes "distinct (map fst cur)" and "diskLabelsAfterFormat serial cur = Some patch"
  shows "\<exists>i. diskId serial = Some i \<and> declares (merge_labels cur patch) i
    \<and> defaultDiskMount (merge_labels cur patch)
        = (if defaultDiskMount cur = None then diskMountpoint serial else defaultDiskMount cur)"
proof -
  from assms(2) obtain i where i: "diskId serial = Some i"
    and p: "patch = (DISK_LABEL_PREFIX @ i, SWARMY_DISK_ROOT @ i)
          # (if \<not> truthy (defaultDiskMount cur) then [(DISK_DEFAULT_LABEL, i)] else [])"
    by (auto simp: diskLabelsAfterFormat_def split: option.splits)
  note d = merge_labels_distinct [OF assms(1), of patch]
  note safe = diskId_safe [OF i]
  have ne: "DISK_LABEL_PREFIX @ j = DISK_DEFAULT_LABEL \<longleftrightarrow> j = ''default''" for j
    by (auto simp: DISK_LABEL_PREFIX_def DISK_DEFAULT_LABEL_def)
  have dec: "declares (merge_labels cur patch) i"
    using safe ne [of i] by (auto simp: declares_def merge_labels_lbl p)
  show ?thesis
  proof (cases "defaultDiskMount cur")
    case None
    then have "lbl (merge_labels cur patch) DISK_DEFAULT_LABEL = Some i"
      using ne [of i] safe by (auto simp: merge_labels_lbl p truthy_def)
    with dec have "defaultDiskMount (merge_labels cur patch) = Some (SWARMY_DISK_ROOT @ i)"
      using defaultDiskMount_iff [OF d] by blast
    with None i dec show ?thesis by (simp add: diskMountpoint_def)
  next
    case (Some m)
    then obtain j where j: "lbl cur DISK_DEFAULT_LABEL = Some j" "declares cur j" "m = SWARMY_DISK_ROOT @ j"
      using defaultDiskMount_iff [OF assms(1)] by blast
    then have t: "truthy (defaultDiskMount cur)" by (simp add: Some truthy_def SWARMY_DISK_ROOT_def)
    have "lbl (merge_labels cur patch) DISK_DEFAULT_LABEL = Some j" "declares (merge_labels cur patch) j"
      using j ne [of i] safe t by (auto simp: merge_labels_lbl p declares_def)
    with j(3) have "defaultDiskMount (merge_labels cur patch) = Some m" using defaultDiskMount_iff [OF d] by blast
    with Some i dec show ?thesis by simp
  qed
qed

theorem format_labels_declare_disk_witness:
  "defaultDiskMount (merge_labels [] [(''swarmy.disk.ABC1234'', ''/var/lib/swarmy/disks/ABC1234''), (''swarmy.disk.default'', ''ABC1234'')])
    = Some ''/var/lib/swarmy/disks/ABC1234''"
proof -
  have i: "diskId ''ABC1234'' = Some ''ABC1234''" by code_simp
  then have "diskLabelsAfterFormat ''ABC1234'' [] = Some [(''swarmy.disk.ABC1234'', ''/var/lib/swarmy/disks/ABC1234''), (''swarmy.disk.default'', ''ABC1234'')]"
    by (simp add: diskLabelsAfterFormat_def defaultDiskMount_def nodeDisks_def truthy_def DISK_LABEL_PREFIX_def
        DISK_DEFAULT_LABEL_def SWARMY_DISK_ROOT_def)
  from format_labels_declare_disk [OF _ this] i show ?thesis
    by (simp add: diskMountpoint_def SWARMY_DISK_ROOT_def defaultDiskMount_def nodeDisks_def)
qed

lemma safe_id_no_slash: "SAFE_ID s \<Longrightarrow> CHR ''/'' \<notin> set s"
  by (cases s) (auto simp: SAFE_ID_def is_alnum_def id_char_def list_all_iff less_eq_char_def)

lemma safe_volume_no_slash: "SAFE_VOLUME s \<Longrightarrow> CHR ''/'' \<notin> set s"
  by (cases s) (auto simp: SAFE_VOLUME_def is_alnum_def id_char_def list_all_iff less_eq_char_def)

text \<open>
  A volume placed on a disk is recognised again: the bind device made from the node's
  labels parses back to the default disk's id, its mountpoint and the volume's name.
\<close>

theorem disk_volume_roundtrip:
  assumes "distinct (map fst l)" and "diskVolumeOptions l vol = Some device"
  shows "\<exists>i. lbl l DISK_DEFAULT_LABEL = Some i \<and> defaultDiskMount l = Some (SWARMY_DISK_ROOT @ i)
    \<and> parseDiskVolumeDevice device = Some (i, SWARMY_DISK_ROOT @ i, vol)"
proof -
  from assms(2) obtain m where m: "defaultDiskMount l = Some m" "SAFE_VOLUME vol" "device = m @ ''/volumes/'' @ vol"
    by (auto simp: diskVolumeOptions_def split: option.splits if_splits)
  with defaultDiskMount_iff [OF assms(1)] obtain i where i: "lbl l DISK_DEFAULT_LABEL = Some i" "declares l i"
    "m = SWARMY_DISK_ROOT @ i" by blast
  then have s: "SAFE_ID i" by (simp add: declares_def)
  have dev: "device = SWARMY_DISK_ROOT @ i @ CHR ''/'' # ''volumes'' @ CHR ''/'' # vol" using m(3) i(3) by simp
  have "js_split (CHR ''/'') (i @ CHR ''/'' # ''volumes'' @ CHR ''/'' # vol) = [i, ''volumes'', vol]"
    using js_split_append [OF safe_id_no_slash [OF s]] js_split_append [of "CHR ''/''" "''volumes''"]
      js_split_no_sep [OF safe_volume_no_slash [OF m(2)]] by simp
  moreover have "vol \<noteq> ''.''" "vol \<noteq> ''..''"
    using m(2) by (auto simp: SAFE_VOLUME_def is_alnum_def less_eq_char_def)
  ultimately show ?thesis using i m(1,2) s unfolding dev by (simp add: parseDiskVolumeDevice_def)
qed

theorem disk_volume_roundtrip_witness:
  "parseDiskVolumeDevice ''/var/lib/swarmy/disks/d1/volumes/pgdata'' = Some (''d1'', ''/var/lib/swarmy/disks/d1'', ''pgdata'')"
proof -
  let ?l = "[(''swarmy.disk.d1'', ''/var/lib/swarmy/disks/d1''), (''swarmy.disk.default'', ''d1'')]"
  have d: "distinct (map fst ?l)" by simp
  have "diskVolumeOptions ?l ''pgdata'' = Some ''/var/lib/swarmy/disks/d1/volumes/pgdata''" by code_simp
  from disk_volume_roundtrip [OF d this] show ?thesis
    by (auto simp: lbl_def DISK_DEFAULT_LABEL_def SWARMY_DISK_ROOT_def)
qed

text \<open>
  How a POSIX shell reads one word made of single-quoted parts and backslash escapes; the flag
  says whether the reader is inside quotes, and \<open>None\<close> is any other syntax.
\<close>

fun sh_word :: "bool \<Rightarrow> string \<Rightarrow> string option" where
  "sh_word True [] = None"
| "sh_word True (c # cs) = (if c = QUOTE then sh_word False cs else map_option (\<lambda>w. c # w) (sh_word True cs))"
| "sh_word False [] = Some []"
| "sh_word False [c] = (if c = QUOTE then sh_word True [] else None)"
| "sh_word False (c # d # cs) =
     (if c = QUOTE then sh_word True (d # cs)
      else if c = BACKSLASH then map_option (\<lambda>w. d # w) (sh_word False cs)
      else None)"

lemma sh_word_open: "sh_word False (QUOTE # cs) = sh_word True cs"
  by (cases cs) auto

text \<open>
  Quoting for a host script is safe for every string: the shell reads the quoted text as
  one word that is exactly the original, whatever quotes or metacharacters it holds.
\<close>

theorem shQuote_roundtrip: "sh_word False (shQuote s) = Some s"
proof -
  have ne: "BACKSLASH \<noteq> QUOTE" "QUOTE \<noteq> BACKSLASH" by (simp_all add: QUOTE_def BACKSLASH_def)
  have "sh_word True (concat (map (\<lambda>c. if c = QUOTE then [QUOTE, BACKSLASH, QUOTE, QUOTE] else [c]) s) @ [QUOTE]) = Some s"
    by (induction s) (auto simp: ne sh_word_open)
  then show ?thesis by (simp add: shQuote_def sh_word_open)
qed

end
