(* ===== verification/DbStorage.thy ===== *)
theory DbStorage
  imports Disks
begin

text \<open>
  Where a managed Postgres keeps its data: \<^verbatim>\<open>packages/core/src/manageddb-storage.ts\<close> (the labels
  that declare a member's layout, the spec derived from them, the classification of live
  mounts, the choice of the node a primary is pinned to) and the storage half of
  \<^verbatim>\<open>apps/api/src/workers/manageddb-reconcile.core.ts\<close> (the worker's plan for one cluster).

  Label records are association lists with distinct keys. The fields of a service spec this
  module never touches are \<open>db_rest\<close>. Messages for the operator are left out;
  \<^verbatim>\<open>localeCompare\<close> is the parameter \<open>lc\<close>.
\<close>

section \<open>Definitions\<close>

subsection \<open>manageddb-storage.ts\<close>

definition DB_DATA_VOLUME_LABEL :: string where "DB_DATA_VOLUME_LABEL = ''swarmy.db.dataVolume''"
definition DB_PIN_NODE_LABEL :: string where "DB_PIN_NODE_LABEL = ''swarmy.db.node''"
definition DB_AVOID_NODE_LABEL :: string where "DB_AVOID_NODE_LABEL = ''swarmy.db.avoidNode''"
definition MANAGED_PG_ROOT :: string where "MANAGED_PG_ROOT = ''/var/lib/postgresql/data''"
definition MANAGED_PG_PGDATA :: string where "MANAGED_PG_PGDATA = ''/var/lib/postgresql/data/pgdata''"

definition primaryDataVolumeName :: "string \<Rightarrow> string \<Rightarrow> string" where
  "primaryDataVolumeName stack cluster = stack @ ''_'' @ cluster @ ''-primary-data''"
definition replicaDataVolumeName :: "string \<Rightarrow> string \<Rightarrow> string" where
  "replicaDataVolumeName stack cluster = stack @ ''_'' @ cluster @ ''-replica-data''"

datatype mount_type = VolumeMount | BindMount | TmpfsMount | OtherMount string

record mount =
  mt_type :: mount_type
  mt_source :: "string option"
  mt_target :: string
  mt_readOnly :: "bool option"

record placement_spec =
  pl_constraints :: "string list option"
  pl_preferences :: "string list option"
  pl_maxReplicasPerNode :: "nat option"

record db_spec =
  db_mounts :: "mount list option"
  db_placement :: "placement_spec option"
  db_rest :: json

definition empty_placement :: placement_spec where
  "empty_placement = \<lparr>pl_constraints = None, pl_preferences = None, pl_maxReplicasPerNode = None\<rparr>"

definition dbStorageLabels :: "string \<Rightarrow> string option \<Rightarrow> string option \<Rightarrow> labels" where
  "dbStorageLabels dataVolume pinNode avoidNode =
     (DB_DATA_VOLUME_LABEL, dataVolume)
     # (if truthy pinNode then [(DB_PIN_NODE_LABEL, the pinNode)] else [])
     @ (if truthy avoidNode then [(DB_AVOID_NODE_LABEL, the avoidNode)] else [])"

text \<open>\<^verbatim>\<open>/^node\.id\s*[!=]=/\<close>.\<close>

definition is_node_id_constraint :: "string \<Rightarrow> bool" where
  "is_node_id_constraint c =
     (js_starts_with c ''node.id'' \<and>
      (case dropWhile js_space (drop 7 c) of
         x # y # _ \<Rightarrow> (x = CHR ''!'' \<or> x = CHR ''='') \<and> y = CHR ''=''
       | _ \<Rightarrow> False))"

definition data_mount :: "string option \<Rightarrow> mount" where
  "data_mount dataVolume = \<lparr>mt_type = VolumeMount, mt_source = dataVolume, mt_target = MANAGED_PG_ROOT, mt_readOnly = None\<rparr>"

definition storage_mounts :: "string option \<Rightarrow> mount list \<Rightarrow> mount list" where
  "storage_mounts dataVolume mounts =
     (if truthy dataVolume then data_mount dataVolume # filter (\<lambda>m. mt_target m \<noteq> MANAGED_PG_ROOT) mounts
      else mounts)"

definition storage_constraints :: "string option \<Rightarrow> string option \<Rightarrow> string list \<Rightarrow> string list" where
  "storage_constraints pin avoid cons =
     filter (\<lambda>c. \<not> is_node_id_constraint c) cons
     @ (if truthy pin then [''node.id=='' @ the pin] else [])
     @ (if truthy avoid \<and> \<not> truthy pin then [''node.id!='' @ the avoid] else [])"

definition applyDbStorage :: "db_spec \<Rightarrow> labels \<Rightarrow> db_spec" where
  "applyDbStorage spec l =
     (let dataVolume = lbl l DB_DATA_VOLUME_LABEL; pin = lbl l DB_PIN_NODE_LABEL; avoid = lbl l DB_AVOID_NODE_LABEL
      in if \<not> truthy dataVolume \<and> \<not> truthy pin \<and> \<not> truthy avoid then spec
         else
           (let p = opt_or (db_placement spec) empty_placement;
                cons = storage_constraints pin avoid (opt_or (pl_constraints p) [])
            in spec\<lparr>db_mounts := Some (storage_mounts dataVolume (opt_or (db_mounts spec) [])),
                    db_placement := Some (p\<lparr>pl_constraints := (if cons = [] then None else Some cons),
                       pl_maxReplicasPerNode := (if truthy dataVolume then Some 1 else pl_maxReplicasPerNode p)\<rparr>)\<rparr>))"

text \<open>A mount as the agent reports it; an absent type is \<open>None\<close>.\<close>

record observed_mount =
  om_type :: "mount_type option"
  om_source :: "string option"
  om_target :: string

datatype storage_kind = Persistent | Unmounted | UnknownStorage

record storage_state =
  ss_state :: storage_kind
  ss_dataVolume :: "string option"
  ss_pinnedNode :: "string option"
  ss_undeclared :: bool

definition is_data_mount :: "observed_mount \<Rightarrow> bool" where
  "is_data_mount m =
     ((om_target m = MANAGED_PG_ROOT \<or> om_target m = MANAGED_PG_PGDATA)
      \<and> (om_type m = None \<or> om_type m = Some VolumeMount \<or> om_type m = Some BindMount) \<and> truthy (om_source m))"

definition dbStorageState :: "labels \<Rightarrow> observed_mount list option \<Rightarrow> storage_state" where
  "dbStorageState l mounts =
     (let declared = lbl l DB_DATA_VOLUME_LABEL;
          pin = (if truthy (lbl l DB_PIN_NODE_LABEL) then lbl l DB_PIN_NODE_LABEL else None)
      in case mounts of
           None \<Rightarrow>
             if truthy declared
             then \<lparr>ss_state = Persistent, ss_dataVolume = declared, ss_pinnedNode = pin, ss_undeclared = False\<rparr>
             else \<lparr>ss_state = UnknownStorage, ss_dataVolume = None, ss_pinnedNode = pin, ss_undeclared = False\<rparr>
         | Some ms \<Rightarrow>
             (case find is_data_mount ms of
                None \<Rightarrow> \<lparr>ss_state = Unmounted, ss_dataVolume = None, ss_pinnedNode = pin, ss_undeclared = False\<rparr>
              | Some m \<Rightarrow> \<lparr>ss_state = Persistent, ss_dataVolume = om_source m, ss_pinnedNode = pin,
                           ss_undeclared = (declared \<noteq> om_source m)\<rparr>))"

record pin_node =
  pn_id :: string
  pn_manager :: bool
  pn_active :: bool
  pn_ready :: bool
  pn_labels :: labels

record pin_input =
  pi_nodes :: "pin_node list"
  pi_pinnedCounts :: "(string \<times> nat) list"
  pi_fallback :: "string option"
  pi_unmountedDefaultDisk :: "string list"

datatype pin_choice = PinFallback "string option" | PinRefused "string list" | PinNode string "string list"

definition pin_broken :: "pin_input \<Rightarrow> pin_node \<Rightarrow> bool" where
  "pin_broken i n = (pn_id n \<in> set (pi_unmountedDefaultDisk i) \<and> defaultDiskMount (pn_labels n) \<noteq> None)"

definition pin_disk :: "pin_node \<Rightarrow> nat" where
  "pin_disk n = (if defaultDiskMount (pn_labels n) \<noteq> None then 1 else 0)"

definition pin_load :: "pin_input \<Rightarrow> pin_node \<Rightarrow> nat" where
  "pin_load i n = opt_or (map_of (pi_pinnedCounts i) (pn_id n)) 0"

definition pin_cmp :: "(string \<Rightarrow> string \<Rightarrow> int) \<Rightarrow> pin_input \<Rightarrow> pin_node \<Rightarrow> pin_node \<Rightarrow> int" where
  "pin_cmp lc i = then_by (by_key_desc pin_disk) (then_by (by_key (pin_load i))
     (then_by (by_key_desc (\<lambda>n. if Some (pn_id n) = pi_fallback i then 1 else 0 :: nat))
     (then_by (by_key_desc (\<lambda>n. if pn_manager n then 1 else 0 :: nat)) (\<lambda>a b. lc (pn_id a) (pn_id b)))))"

definition pin_usable :: "pin_input \<Rightarrow> pin_node list" where
  "pin_usable i = filter (\<lambda>n. pn_ready n \<and> pn_active n) (pi_nodes i)"

definition explainPinNode :: "(string \<Rightarrow> string \<Rightarrow> int) \<Rightarrow> pin_input \<Rightarrow> pin_choice" where
  "explainPinNode lc i =
     (if pin_usable i = [] then PinFallback (pi_fallback i)
      else (let skipped = map pn_id (filter (pin_broken i) (pin_usable i));
                eligible = filter (\<lambda>n. \<not> pin_broken i n) (pin_usable i)
            in case js_sort (pin_cmp lc i) eligible of
                 [] \<Rightarrow> PinRefused skipped
               | n # _ \<Rightarrow> PinNode (pn_id n) skipped))"

definition choosePinNode :: "(string \<Rightarrow> string \<Rightarrow> int) \<Rightarrow> pin_input \<Rightarrow> string option" where
  "choosePinNode lc i =
     (case explainPinNode lc i of PinFallback f \<Rightarrow> f | PinRefused s \<Rightarrow> None | PinNode n s \<Rightarrow> Some n)"

definition pinnedPrimaryCounts :: "labels list \<Rightarrow> (string \<times> nat) list" where
  "pinnedPrimaryCounts services =
     fold (\<lambda>l out. if lbl l ''swarmy.db.role'' \<noteq> Some ''primary'' then out
                   else (case lbl l DB_PIN_NODE_LABEL of
                           None \<Rightarrow> out
                         | Some p \<Rightarrow> if p = [] then out
                                     else AList.update p (opt_or (map_of out p) 0 + 1) out)) services []"

subsection \<open>manageddb-reconcile.core.ts: the storage plan\<close>

definition PITR_APPLIED_LABEL :: string where "PITR_APPLIED_LABEL = ''swarmy.db.pitr.applied''"
definition BACKUP_PITR_LABEL :: string where "BACKUP_PITR_LABEL = ''swarmy.db.backup.pitr''"

record storage_member =
  sm_name :: string
  sm_labels :: labels
  sm_mounts :: "observed_mount list option"

datatype storage_action =
    WarnLegacy
  | Adopt labels "string list" bool
  | ConvergeReplica labels

record storage_input =
  si_base :: string
  si_primary :: "storage_member option"
  si_replica :: "storage_member option"
  si_primaryTaskSwarmNode :: "string option"
  si_multiNode :: bool

definition member_state :: "storage_member \<Rightarrow> storage_state" where
  "member_state m = dbStorageState (sm_labels m) (sm_mounts m)"

definition replica_actions :: "string \<Rightarrow> string option \<Rightarrow> storage_member option \<Rightarrow> storage_action list" where
  "replica_actions base avoid replica =
     (case replica of
        None \<Rightarrow> []
      | Some r \<Rightarrow>
          if sm_name r \<noteq> base @ ''-replica'' then []
          else (let dataVolume = opt_or (lbl (sm_labels r) DB_DATA_VOLUME_LABEL) (base @ ''-replica-data'');
                    drift = (lbl (sm_labels r) DB_DATA_VOLUME_LABEL \<noteq> Some dataVolume
                             \<or> lbl (sm_labels r) DB_AVOID_NODE_LABEL \<noteq> avoid
                             \<or> ss_state (member_state r) = Unmounted);
                    merged = merge_labels (sm_labels r) (dbStorageLabels dataVolume None avoid)
                in if drift then [ConvergeReplica (if truthy avoid then merged else AList.delete DB_AVOID_NODE_LABEL merged)]
                   else []))"

definition planClusterStorage :: "storage_input \<Rightarrow> storage_action list" where
  "planClusterStorage i =
     (case si_primary i of
        None \<Rightarrow> []
      | Some p \<Rightarrow>
          (let storage = member_state p
           in if sm_name p \<noteq> si_base i @ ''-primary'' then []
              else if ss_state storage = Unmounted then [WarnLegacy]
              else if ss_state storage \<noteq> Persistent then []
              else
                (let adopting = (ss_undeclared storage \<or> ss_pinnedNode storage = None);
                     pin = (case ss_pinnedNode storage of Some n \<Rightarrow> Some n | None \<Rightarrow> si_primaryTaskSwarmNode i)
                 in if adopting \<and> \<not> truthy pin then []
                    else
                      (let pitr = (lbl (sm_labels p) BACKUP_PITR_LABEL = Some ''true'');
                           adopt = (if adopting
                                    then [Adopt (dbStorageLabels (the (ss_dataVolume storage)) pin None)
                                            (if pitr \<and> truthy (lbl (sm_labels p) PITR_APPLIED_LABEL) then [PITR_APPLIED_LABEL] else [])
                                            (\<not> pitr)]
                                    else [])
                       in adopt @ replica_actions (si_base i) (if si_multiNode i then pin else None) (si_replica i)))))"

datatype region_fit = FitOk | FitMismatch | FitUnknown | FitUnpinned

definition pinnedRegionFit :: "string option \<Rightarrow> string \<Rightarrow> (string \<times> labels) list \<Rightarrow> region_fit" where
  "pinnedRegionFit pin region nodes =
     (if \<not> truthy pin then FitUnpinned
      else case find (\<lambda>n. Some (fst n) = pin) nodes of
             None \<Rightarrow> FitUnknown
           | Some n \<Rightarrow> if lbl (snd n) ''swarmy.region'' = Some region then FitOk else FitMismatch)"

section \<open>Properties\<close>

lemma node_id_constraint: "is_node_id_constraint (''node.id=='' @ x)" "is_node_id_constraint (''node.id!='' @ x)"
  by (simp_all add: is_node_id_constraint_def js_starts_with_def js_space_def)

lemmas node_id_constraint_cons [simp] = node_id_constraint [unfolded append.simps]

definition foreign_mounts :: "db_spec \<Rightarrow> mount list" where
  "foreign_mounts s = filter (\<lambda>m. mt_target m \<noteq> MANAGED_PG_ROOT) (opt_or (db_mounts s) [])"

definition foreign_constraints :: "db_spec \<Rightarrow> string list" where
  "foreign_constraints s = filter (\<lambda>c. \<not> is_node_id_constraint c)
     (opt_or (pl_constraints (opt_or (db_placement s) empty_placement)) [])"

lemma opt_or_simps [simp]: "opt_or None d = d" "opt_or (Some v) d = v"
  by (simp_all add: opt_or_def)

lemma storage_mounts_idem: "storage_mounts v (storage_mounts v ms) = storage_mounts v ms"
  by (simp add: storage_mounts_def data_mount_def)

lemma storage_mounts_filter:
  "filter (\<lambda>m. mt_target m \<noteq> MANAGED_PG_ROOT) (storage_mounts v ms) = filter (\<lambda>m. mt_target m \<noteq> MANAGED_PG_ROOT) ms"
  by (simp add: storage_mounts_def data_mount_def)

lemma storage_constraints_filter:
  "filter (\<lambda>c. \<not> is_node_id_constraint c) (storage_constraints p a cs) = filter (\<lambda>c. \<not> is_node_id_constraint c) cs"
  by (simp add: storage_constraints_def)

lemma storage_constraints_idem: "storage_constraints p a (storage_constraints p a cs) = storage_constraints p a cs"
  by (simp add: storage_constraints_def)

lemma storage_constraints_Nil:
  assumes "storage_constraints p a cs = []"
  shows "filter (\<lambda>c. \<not> is_node_id_constraint c) cs = []" and "storage_constraints p a [] = []"
  using assms by (simp_all add: storage_constraints_def split: if_splits)

text \<open>
  Rebuilding a member's spec from its labels is idempotent and leaves the rest alone: a
  second application changes nothing, and mounts at other targets, constraints that do not
  speak of a node id, and every other field are kept.
\<close>

theorem apply_storage_idempotent:
  "applyDbStorage (applyDbStorage s l) l = applyDbStorage s l
   \<and> foreign_mounts (applyDbStorage s l) = foreign_mounts s
   \<and> foreign_constraints (applyDbStorage s l) = foreign_constraints s
   \<and> db_rest (applyDbStorage s l) = db_rest s"
proof (intro conjI)
  show "foreign_mounts (applyDbStorage s l) = foreign_mounts s"
    by (simp add: applyDbStorage_def foreign_mounts_def storage_mounts_filter Let_def)
  show "foreign_constraints (applyDbStorage s l) = foreign_constraints s"
    by (simp add: applyDbStorage_def foreign_constraints_def storage_constraints_Nil storage_constraints_filter Let_def)
  show "db_rest (applyDbStorage s l) = db_rest s" by (simp add: applyDbStorage_def Let_def)
  show "applyDbStorage (applyDbStorage s l) l = applyDbStorage s l"
    by (simp add: applyDbStorage_def storage_mounts_idem storage_constraints_idem storage_constraints_Nil Let_def)
qed

text \<open>What the agent reports of a spec's mounts once it runs.\<close>

definition observed :: "db_spec \<Rightarrow> observed_mount list" where
  "observed s = map (\<lambda>m. \<lparr>om_type = Some (mt_type m), om_source = mt_source m, om_target = mt_target m\<rparr>) (opt_or (db_mounts s) [])"

text \<open>
  No rebuild can lose the data: a spec derived from labels that declare a volume mounts
  exactly that volume at the data root, with at most one task per node, and once it runs its
  storage is classified as persistent and declared.
\<close>

theorem rebuilt_spec_is_persistent:
  assumes "truthy (lbl l DB_DATA_VOLUME_LABEL)"
  shows "let st = dbStorageState l (Some (observed (applyDbStorage s l))) in
     ss_state st = Persistent \<and> ss_dataVolume st = lbl l DB_DATA_VOLUME_LABEL \<and> \<not> ss_undeclared st
     \<and> (\<exists>p. db_placement (applyDbStorage s l) = Some p \<and> pl_maxReplicasPerNode p = Some 1)
     \<and> filter (\<lambda>m. mt_target m = MANAGED_PG_ROOT) (opt_or (db_mounts (applyDbStorage s l)) [])
        = [data_mount (lbl l DB_DATA_VOLUME_LABEL)]"
proof -
  let ?v = "lbl l DB_DATA_VOLUME_LABEL"
  have m: "opt_or (db_mounts (applyDbStorage s l)) [] = data_mount ?v # foreign_mounts s"
    using assms by (simp add: applyDbStorage_def storage_mounts_def foreign_mounts_def Let_def)
  have "is_data_mount \<lparr>om_type = Some VolumeMount, om_source = ?v, om_target = MANAGED_PG_ROOT\<rparr>"
    using assms by (simp add: is_data_mount_def)
  then have "find is_data_mount (observed (applyDbStorage s l))
      = Some \<lparr>om_type = Some VolumeMount, om_source = ?v, om_target = MANAGED_PG_ROOT\<rparr>"
    unfolding observed_def m by (simp add: data_mount_def)
  moreover have "filter (\<lambda>m. mt_target m = MANAGED_PG_ROOT) (data_mount ?v # foreign_mounts s) = [data_mount ?v]"
    by (simp add: foreign_mounts_def data_mount_def filter_empty_conv)
  moreover have "\<exists>p. db_placement (applyDbStorage s l) = Some p \<and> pl_maxReplicasPerNode p = Some 1"
    using assms by (simp add: applyDbStorage_def Let_def)
  ultimately show ?thesis unfolding m by (simp add: dbStorageState_def Let_def)
qed

theorem rebuilt_spec_is_persistent_witness:
  "ss_state (dbStorageState [(DB_DATA_VOLUME_LABEL, ''app_db-primary-data'')]
     (Some (observed (applyDbStorage \<lparr>db_mounts = None, db_placement = None, db_rest = JNull\<rparr>
        [(DB_DATA_VOLUME_LABEL, ''app_db-primary-data'')])))) = Persistent"
proof -
  have "truthy (lbl [(DB_DATA_VOLUME_LABEL, ''app_db-primary-data'')] DB_DATA_VOLUME_LABEL)"
    by (simp add: lbl_def truthy_def)
  from rebuilt_spec_is_persistent [OF this] show ?thesis by (simp add: Let_def)
qed

lemma pin_cmp_consistent:
  assumes "js_comparator lc"
  shows "js_comparator (pin_cmp lc i)"
proof -
  have "js_comparator (\<lambda>a b. lc (pn_id a) (pn_id b))"
    by unfold_locales (auto intro: js_comparator.cmp_trans [OF assms] simp: js_comparator.cmp_anti [OF assms])
  then show ?thesis unfolding pin_cmp_def by (intro js_cmp)
qed

lemma pin_cmp_le:
  "pin_cmp lc i a b \<le> 0 \<Longrightarrow> pin_disk b \<le> pin_disk a \<and> (pin_disk b = pin_disk a \<longrightarrow> pin_load i a \<le> pin_load i b)"
  unfolding pin_cmp_def by (subst (asm) then_by_le_0, subst (asm) then_by_le_0) auto

text \<open>
  The node chosen for a new primary can take it: it is ready, active and its data disk (if
  it declares one) is attached; among such nodes none has a data disk when the chosen one has
  not, and none with the same standing carries fewer pinned primaries.
\<close>

theorem pinned_node_is_best:
  assumes "js_comparator lc" and "explainPinNode lc i = PinNode n skipped"
  shows "\<exists>c \<in> set (pi_nodes i). pn_id c = n \<and> pn_ready c \<and> pn_active c \<and> \<not> pin_broken i c
    \<and> (\<forall>m \<in> set (pi_nodes i). pn_ready m \<and> pn_active m \<and> \<not> pin_broken i m \<longrightarrow>
          pin_disk m \<le> pin_disk c \<and> (pin_disk m = pin_disk c \<longrightarrow> pin_load i c \<le> pin_load i m))"
proof -
  let ?el = "filter (\<lambda>n. \<not> pin_broken i n) (pin_usable i)"
  from assms(2) obtain c cs where c: "js_sort (pin_cmp lc i) ?el = c # cs" "n = pn_id c"
    by (auto simp: explainPinNode_def Let_def split: if_splits list.splits)
  then have mem: "set (c # cs) = set ?el" by (metis set_js_sort)
  have "pin_disk m \<le> pin_disk c \<and> (pin_disk m = pin_disk c \<longrightarrow> pin_load i c \<le> pin_load i m)" if "m \<in> set ?el" for m
    using js_comparator.js_sort_head_le [OF pin_cmp_consistent [OF assms(1)] c(1)] that mem pin_cmp_le by blast
  moreover from mem have "c \<in> set ?el" by auto
  ultimately show ?thesis using c(2) by (intro bexI [of _ c]) (auto simp: pin_usable_def)
qed

definition demo_pin :: pin_input where
  "demo_pin = \<lparr>pi_nodes = [\<lparr>pn_id = ''n1'', pn_manager = True, pn_active = True, pn_ready = True, pn_labels = []\<rparr>],
     pi_pinnedCounts = [], pi_fallback = None, pi_unmountedDefaultDisk = []\<rparr>"

theorem pinned_node_is_best_witness:
  "\<exists>c \<in> set (pi_nodes demo_pin). pn_id c = ''n1'' \<and> pn_ready c \<and> \<not> pin_broken demo_pin c"
proof -
  have lc: "js_comparator (by_key (\<lambda>x :: string. x))" by (rule js_comparator_by_key)
  have "explainPinNode (by_key (\<lambda>x. x)) demo_pin = PinNode ''n1'' []"
    by (simp add: explainPinNode_def demo_pin_def pin_usable_def pin_broken_def)
  from pinned_node_is_best [OF lc this] show ?thesis by blast
qed

subsection \<open>The plan converges\<close>

definition settle_primary :: "storage_action list \<Rightarrow> storage_member \<Rightarrow> storage_member" where
  "settle_primary acts m = fold (\<lambda>a m. case a of
      Adopt add rem redeploy \<Rightarrow> m\<lparr>sm_labels := fold AList.delete rem (merge_labels (sm_labels m) add)\<rparr>
    | _ \<Rightarrow> m) acts m"

text \<open>A converged replica is redeployed: it runs with the volume its labels declare.\<close>

definition settle_replica :: "storage_action list \<Rightarrow> storage_member \<Rightarrow> storage_member" where
  "settle_replica acts m = fold (\<lambda>a m. case a of
      ConvergeReplica l \<Rightarrow> m\<lparr>sm_labels := l, sm_mounts := Some [\<lparr>om_type = Some VolumeMount,
         om_source = lbl l DB_DATA_VOLUME_LABEL, om_target = MANAGED_PG_ROOT\<rparr>]\<rparr>
    | _ \<Rightarrow> m) acts m"

definition settled :: "storage_input \<Rightarrow> storage_input" where
  "settled i = i\<lparr>si_primary := map_option (settle_primary (planClusterStorage i)) (si_primary i),
     si_replica := map_option (settle_replica (planClusterStorage i)) (si_replica i)\<rparr>"

lemma db_labels_distinct [simp]:
  "DB_DATA_VOLUME_LABEL \<noteq> DB_PIN_NODE_LABEL" "DB_PIN_NODE_LABEL \<noteq> DB_DATA_VOLUME_LABEL"
  "DB_DATA_VOLUME_LABEL \<noteq> DB_AVOID_NODE_LABEL" "DB_AVOID_NODE_LABEL \<noteq> DB_DATA_VOLUME_LABEL"
  "DB_PIN_NODE_LABEL \<noteq> DB_AVOID_NODE_LABEL" "DB_AVOID_NODE_LABEL \<noteq> DB_PIN_NODE_LABEL"
  "DB_DATA_VOLUME_LABEL \<noteq> PITR_APPLIED_LABEL" "DB_PIN_NODE_LABEL \<noteq> PITR_APPLIED_LABEL"
  "PITR_APPLIED_LABEL \<noteq> DB_DATA_VOLUME_LABEL" "PITR_APPLIED_LABEL \<noteq> DB_PIN_NODE_LABEL"
  by (simp_all add: DB_DATA_VOLUME_LABEL_def DB_PIN_NODE_LABEL_def DB_AVOID_NODE_LABEL_def PITR_APPLIED_LABEL_def)

lemma lbl_delete: "lbl (AList.delete k l) k' = (if k' = k then None else lbl l k')"
  by (simp add: lbl_def delete_conv')

lemma replica_settles:
  assumes "lbl (sm_labels r) DB_DATA_VOLUME_LABEL \<noteq> Some []" and "avoid \<noteq> Some []"
  shows "replica_actions base avoid (Some (settle_replica (replica_actions base avoid (Some r)) r)) = []"
proof (cases "replica_actions base avoid (Some r)")
  case Nil
  then show ?thesis by (simp add: settle_replica_def)
next
  case (Cons a as)
  let ?vol = "opt_or (lbl (sm_labels r) DB_DATA_VOLUME_LABEL) (base @ ''-replica-data'')"
  let ?m = "merge_labels (sm_labels r) (dbStorageLabels ?vol None avoid)"
  define l where "l = (if truthy avoid then ?m else AList.delete DB_AVOID_NODE_LABEL ?m)"
  from Cons have name: "sm_name r = base @ ''-replica''" and a: "replica_actions base avoid (Some r) = [ConvergeReplica l]"
    by (auto simp: replica_actions_def l_def Let_def split: if_splits)
  have v: "?vol \<noteq> []" using assms(1) by (cases "lbl (sm_labels r) DB_DATA_VOLUME_LABEL") (auto simp: opt_or_def)
  have l: "lbl l DB_DATA_VOLUME_LABEL = Some ?vol" "lbl l DB_AVOID_NODE_LABEL = avoid"
    using assms(2) by (auto simp: l_def lbl_delete merge_labels_lbl dbStorageLabels_def truthy_def split: option.splits)
  have "ss_state (dbStorageState l (Some [\<lparr>om_type = Some VolumeMount, om_source = Some ?vol,
      om_target = MANAGED_PG_ROOT\<rparr>])) = Persistent"
    using v by (simp add: dbStorageState_def is_data_mount_def truthy_def Let_def)
  then show ?thesis unfolding a using name l
    by (simp add: settle_replica_def replica_actions_def member_state_def opt_or_def Let_def)
qed

lemma data_volume_truthy:
  assumes "ss_state (member_state p) = Persistent"
  shows "\<exists>v. ss_dataVolume (member_state p) = Some v \<and> v \<noteq> []"
proof (cases "sm_mounts p")
  case None
  with assms show ?thesis
    by (auto simp: member_state_def dbStorageState_def truthy_def Let_def split: option.splits if_splits)
next
  case (Some ms)
  with assms obtain m where "find is_data_mount ms = Some m"
    by (cases "find is_data_mount ms") (auto simp: member_state_def dbStorageState_def Let_def)
  with Some find_SomeD [OF this] show ?thesis
    by (auto simp: member_state_def dbStorageState_def is_data_mount_def truthy_def Let_def split: option.splits)
qed

lemma adopted_state:
  assumes "ss_state (member_state p) = Persistent" and "truthy pin"
    and "lbl l DB_DATA_VOLUME_LABEL = ss_dataVolume (member_state p)" and "lbl l DB_PIN_NODE_LABEL = pin"
  shows "member_state (p\<lparr>sm_labels := l\<rparr>) = \<lparr>ss_state = Persistent, ss_dataVolume = ss_dataVolume (member_state p),
     ss_pinnedNode = pin, ss_undeclared = False\<rparr>"
proof (cases "sm_mounts p")
  case None
  with data_volume_truthy [OF assms(1)] assms have "truthy (lbl l DB_DATA_VOLUME_LABEL)" by (auto simp: truthy_def)
  with None assms show ?thesis by (simp add: member_state_def dbStorageState_def Let_def)
next
  case (Some ms)
  with assms obtain m where m: "find is_data_mount ms = Some m"
    by (cases "find is_data_mount ms") (auto simp: member_state_def dbStorageState_def Let_def)
  with Some assms show ?thesis by (simp add: member_state_def dbStorageState_def Let_def)
qed

lemma pinned_truthy: "ss_pinnedNode (member_state p) = Some n \<Longrightarrow> n \<noteq> []"
  by (auto simp: member_state_def dbStorageState_def truthy_def Let_def split: option.splits if_splits)

lemma settle_other: "settle_primary (replica_actions b a r) m = m" "settle_replica [Adopt x y z] m = m"
  by (auto simp: settle_primary_def settle_replica_def replica_actions_def Let_def split: option.splits)

definition adoption :: "storage_input \<Rightarrow> storage_member \<Rightarrow> string option \<Rightarrow> storage_action list" where
  "adoption i p pin =
     (let storage = member_state p; pitr = (lbl (sm_labels p) BACKUP_PITR_LABEL = Some ''true'')
      in if ss_undeclared storage \<or> ss_pinnedNode storage = None
         then [Adopt (dbStorageLabels (the (ss_dataVolume storage)) pin None)
                 (if pitr \<and> truthy (lbl (sm_labels p) PITR_APPLIED_LABEL) then [PITR_APPLIED_LABEL] else []) (\<not> pitr)]
         else [])"

lemma plan_persistent:
  assumes "si_primary i = Some p" and "sm_name p = si_base i @ ''-primary''" and "ss_state (member_state p) = Persistent"
    and "pin = (case ss_pinnedNode (member_state p) of Some n \<Rightarrow> Some n | None \<Rightarrow> si_primaryTaskSwarmNode i)" and "truthy pin"
  shows "planClusterStorage i = adoption i p pin
    @ replica_actions (si_base i) (if si_multiNode i then pin else None) (si_replica i)"
  using assms by (simp add: planClusterStorage_def adoption_def Let_def)

lemma adoption_settles:
  assumes "ss_state (member_state p) = Persistent" and "truthy pin"
    and "pin = (case ss_pinnedNode (member_state p) of Some n \<Rightarrow> Some n | None \<Rightarrow> t)"
  shows "member_state (settle_primary (adoption i p pin) p) = \<lparr>ss_state = Persistent,
      ss_dataVolume = ss_dataVolume (member_state p), ss_pinnedNode = pin, ss_undeclared = False\<rparr>
    \<and> sm_name (settle_primary (adoption i p pin) p) = sm_name p"
proof (cases "ss_undeclared (member_state p) \<or> ss_pinnedNode (member_state p) = None")
  case True
  define rem where "rem = (if lbl (sm_labels p) BACKUP_PITR_LABEL = Some ''true'' \<and> truthy (lbl (sm_labels p) PITR_APPLIED_LABEL)
    then [PITR_APPLIED_LABEL] else [])"
  define l where "l = fold AList.delete rem
    (merge_labels (sm_labels p) (dbStorageLabels (the (ss_dataVolume (member_state p))) pin None))"
  from True have a: "settle_primary (adoption i p pin) p = p\<lparr>sm_labels := l\<rparr>"
    by (simp add: adoption_def settle_primary_def l_def rem_def Let_def)
  from data_volume_truthy [OF assms(1)] have "lbl l DB_DATA_VOLUME_LABEL = ss_dataVolume (member_state p)"
    "lbl l DB_PIN_NODE_LABEL = pin"
    using assms(2) by (auto simp: l_def rem_def lbl_delete merge_labels_lbl dbStorageLabels_def truthy_def split: option.splits)
  from adopted_state [OF assms(1,2) this] show ?thesis unfolding a by simp
next
  case False
  with assms show ?thesis by (auto simp: adoption_def settle_primary_def Let_def split: option.splits)
qed


definition demo_storage :: storage_input where
  "demo_storage = \<lparr>si_base = ''s_db'', si_primary = Some \<lparr>sm_name = ''s_db-primary'', sm_labels = [],
     sm_mounts = Some [\<lparr>om_type = None, om_source = Some ''vol'', om_target = MANAGED_PG_ROOT\<rparr>]\<rparr>,
     si_replica = Some \<lparr>sm_name = ''s_db-replica'', sm_labels = [], sm_mounts = None\<rparr>,
     si_primaryTaskSwarmNode = Some ''n1'', si_multiNode = True\<rparr>"


text \<open>
  A primary whose data is on no persistent volume is never touched: the only action planned
  is the warning, so no redeploy can start it on an empty volume.
\<close>

theorem legacy_primary_never_redeployed:
  assumes "si_primary i = Some p" and "ss_state (member_state p) = Unmounted"
  shows "set (planClusterStorage i) \<subseteq> {WarnLegacy}"
  using assms by (simp add: planClusterStorage_def Let_def)

theorem legacy_primary_never_redeployed_witness:
  "set (planClusterStorage (demo_storage\<lparr>si_primary := Some \<lparr>sm_name = ''s_db-primary'', sm_labels = [], sm_mounts = Some []\<rparr>\<rparr>))
    \<subseteq> {WarnLegacy}"
  by (rule legacy_primary_never_redeployed [where p = "\<lparr>sm_name = ''s_db-primary'', sm_labels = [], sm_mounts = Some []\<rparr>"])
    (simp_all add: member_state_def dbStorageState_def Let_def)

end
