(* ===== verification/DnsSteer.thy ===== *)
theory DnsSteer
  imports Prelude Complex_Main "HOL-Library.Product_Lexorder"
begin

text \<open>
  Geo steering: \<^verbatim>\<open>packages/dns/src/steer.ts\<close> and the client location of
  \<^verbatim>\<open>packages/dns/src/geoip.ts\<close>. Given where a client seems to be and the health of the
  regional endpoints, \<open>steer\<close> picks the addresses to answer with.

  Coordinates and distances are reals: the doubles of \<^verbatim>\<open>Math.sin\<close>, \<^verbatim>\<open>Math.asin\<close> and so on
  are taken as the numbers they approximate. An infinite distance (a region that cannot be
  placed) is \<open>None\<close>, which sorts last.
\<close>

section \<open>Definitions\<close>

record lat_lon =
  lat :: real
  lon :: real

definition coord :: "real \<Rightarrow> real \<Rightarrow> lat_lon" where
  "coord a b = \<lparr>lat = a, lon = b\<rparr>"

definition REGION_COORDS :: "(string \<times> lat_lon) list" where
  "REGION_COORDS =
     [(''us-east'', coord 39 (-77.5)), (''us-east-1'', coord 39 (-77.5)), (''us-west'', coord 45.6 (-121.2)),
      (''us-west-1'', coord 37.4 (-122.1)), (''us-central'', coord 41.3 (-95.9)), (''ca-central'', coord 45.5 (-73.6)),
      (''sa-east'', coord (-23.5) (-46.6)), (''eu-west'', coord 53.3 (-6.3)), (''eu-west-1'', coord 53.3 (-6.3)),
      (''eu-central'', coord 50.1 8.7), (''eu-north'', coord 59.3 18.1), (''eu-south'', coord 45.5 9.2),
      (''me-south'', coord 26.1 50.6), (''af-south'', coord (-33.9) 18.4), (''ap-south'', coord 19.1 72.9),
      (''ap-southeast'', coord 1.3 103.8), (''ap-northeast'', coord 35.7 139.7), (''ap-east'', coord 22.3 114.2)]"

definition CONTINENT_COORDS :: "(string \<times> lat_lon) list" where
  "CONTINENT_COORDS =
     [(''us'', coord 39.8 (-98.6)), (''ca'', coord 56.1 (-106.3)), (''sa'', coord (-14.2) (-51.9)),
      (''eu'', coord 50 10), (''me'', coord 26 50), (''af'', coord (-8.8) 34.5), (''ap'', coord 22 100)]"

definition parseRegionCoord :: "string \<Rightarrow> lat_lon option" where
  "parseRegionCoord region = map_of CONTINENT_COORDS (hd (js_split (CHR ''-'') region))"

definition regionCoord :: "string \<Rightarrow> lat_lon option" where
  "regionCoord region =
     (let key = js_lower (js_trim region)
      in case map_of REGION_COORDS key of Some c \<Rightarrow> Some c | None \<Rightarrow> parseRegionCoord key)"

definition EARTH_RADIUS_KM :: real where "EARTH_RADIUS_KM = 6371"

definition toRad :: "real \<Rightarrow> real" where
  "toRad deg = deg * pi / 180"

definition haversineKm :: "lat_lon \<Rightarrow> lat_lon \<Rightarrow> real" where
  "haversineKm a b =
     (let dLat = toRad (lat b - lat a); dLon = toRad (lon b - lon a);
          lat1 = toRad (lat a); lat2 = toRad (lat b);
          h = sin (dLat / 2) ^ 2 + cos lat1 * cos lat2 * sin (dLon / 2) ^ 2
      in 2 * EARTH_RADIUS_KM * arcsin (min 1 (sqrt h)))"

definition regionDistanceKm :: "string \<Rightarrow> string \<Rightarrow> real option" where
  "regionDistanceKm from to =
     (case (regionCoord from, regionCoord to) of
        (Some a, Some b) \<Rightarrow> Some (haversineKm a b)
      | _ \<Rightarrow> None)"

record steer_target =
  t_target :: string
  t_region :: string
  t_healthy :: bool
  t_weight :: "rat option"

record client_location =
  cl_coord :: "lat_lon option"
  cl_region :: "string option"

record steer_result =
  sr_answers :: "steer_target list"
  sr_degraded :: bool
  sr_unlocated :: bool

definition clientCoord :: "client_location \<Rightarrow> lat_lon option" where
  "clientCoord c =
     (case cl_coord c of
        Some x \<Rightarrow> Some x
      | None \<Rightarrow> if truthy (cl_region c) then regionCoord (the (cl_region c)) else None)"

definition steer_dist :: "lat_lon option \<Rightarrow> steer_target \<Rightarrow> real option" where
  "steer_dist anchor t =
     (case anchor of
        None \<Rightarrow> Some 0
      | Some a \<Rightarrow> map_option (haversineKm a) (regionCoord (t_region t)))"

text \<open>Infinity sorts after every distance.\<close>

definition dist_key :: "lat_lon option \<Rightarrow> steer_target \<Rightarrow> nat \<times> real" where
  "dist_key anchor t = (case steer_dist anchor t of None \<Rightarrow> (1, 0) | Some d \<Rightarrow> (0, d))"

definition health_key :: "steer_target \<Rightarrow> nat" where
  "health_key t = (if t_healthy t then 0 else 1)"

definition steer_cmp :: "lat_lon option \<Rightarrow> steer_target \<Rightarrow> steer_target \<Rightarrow> int" where
  "steer_cmp anchor = then_by (by_key health_key) (then_by (by_key (dist_key anchor))
     (then_by (by_key_desc (\<lambda>t. opt_or (t_weight t) 1)) (then_by (by_key t_region) (by_key t_target))))"

definition steer :: "client_location \<Rightarrow> steer_target list \<Rightarrow> int option \<Rightarrow> steer_result" where
  "steer client targets maxAnswers =
     (let mx = max 1 (opt_or maxAnswers 2);
          anchor = clientCoord client;
          ranked = js_sort (steer_cmp anchor) targets;
          healthy = filter t_healthy ranked;
          degraded = (healthy = [] \<and> ranked \<noteq> []);
          pool = (if degraded then ranked else healthy)
      in \<lparr>sr_answers = take (nat mx) pool, sr_degraded = degraded, sr_unlocated = (anchor = None)\<rparr>)"

subsection \<open>geoip.ts\<close>

record ecs_info =
  ecs_ip :: string
  ecs_family :: nat
  ecs_sourcePrefixLength :: nat
  ecs_scopePrefixLength :: nat

text \<open>\<open>reader\<close> is the GeoIP database, absent when none is loaded.\<close>

definition ipToClientLocation ::
  "ecs_info option \<Rightarrow> string option \<Rightarrow> (string \<Rightarrow> lat_lon option) option \<Rightarrow> client_location" where
  "ipToClientLocation ecs resolverIp reader =
     (let loc = (\<lambda>c. \<lparr>cl_coord = c, cl_region = None\<rparr>)
      in case reader of
           None \<Rightarrow> loc None
         | Some look \<Rightarrow>
             (case (case ecs of
                      Some e \<Rightarrow> if ecs_ip e \<noteq> [] \<and> 0 < ecs_sourcePrefixLength e then look (ecs_ip e) else None
                    | None \<Rightarrow> None) of
                Some c \<Rightarrow> loc (Some c)
              | None \<Rightarrow> loc (if truthy resolverIp then look (the resolverIp) else None)))"

section \<open>Properties\<close>

interpretation steering: js_comparator "steer_cmp anchor" for anchor
  unfolding steer_cmp_def by (intro js_cmp)

lemma steer_cmp_le_health: "steer_cmp anchor a b \<le> 0 \<Longrightarrow> health_key a \<le> health_key b"
  unfolding steer_cmp_def by (subst (asm) then_by_le_0) auto

lemma steer_cmp_le_dist: "steer_cmp anchor a b \<le> 0 \<Longrightarrow> health_key a = health_key b \<Longrightarrow> dist_key anchor a \<le> dist_key anchor b"
  unfolding steer_cmp_def by (subst (asm) then_by_le_0, subst (asm) then_by_le_0) auto

lemma sorted_wrt_take_drop:
  "sorted_wrt P xs \<Longrightarrow> x \<in> set (take n xs) \<Longrightarrow> y \<in> set (drop n xs) \<Longrightarrow> P x y"
  by (metis append_take_drop_id sorted_wrt_append)

lemma steer_health:
  assumes "targets \<noteq> []"
  shows "let r = steer client targets mx in
     sr_answers r \<noteq> [] \<and> set (sr_answers r) \<subseteq> set targets
     \<and> int (length (sr_answers r)) \<le> max 1 (opt_or mx 2)
     \<and> (sr_degraded r \<longleftrightarrow> (\<forall>t \<in> set targets. \<not> t_healthy t))
     \<and> (\<not> sr_degraded r \<longrightarrow> (\<forall>t \<in> set (sr_answers r). t_healthy t))"
proof -
  let ?m = "nat (max 1 (opt_or mx 2))" and ?r = "js_sort (steer_cmp (clientCoord client)) targets"
  have m: "0 < ?m" "int ?m = max 1 (opt_or mx 2)" by auto
  have r: "?r \<noteq> []" "set ?r = set targets" using assms by simp_all
  have take_mem: "set (take ?m xs) \<subseteq> set xs" "take ?m xs = [] \<longleftrightarrow> xs = []" "int (length (take ?m xs)) \<le> int ?m" for xs :: "steer_target list"
    using m(1) by (auto dest: in_set_takeD)
  have f: "filter t_healthy ?r = [] \<longleftrightarrow> (\<forall>t \<in> set targets. \<not> t_healthy t)" using r by (simp add: filter_empty_conv)
  show ?thesis
  proof (cases "filter t_healthy ?r = []")
    case True
    then have s: "steer client targets mx = \<lparr>sr_answers = take ?m ?r, sr_degraded = True, sr_unlocated = (clientCoord client = None)\<rparr>"
      using r(1) by (simp add: steer_def Let_def)
    show ?thesis unfolding s Let_def using take_mem [of ?r] r f True m(2) by simp
  next
    case False
    then have s: "steer client targets mx = \<lparr>sr_answers = take ?m (filter t_healthy ?r), sr_degraded = False,
        sr_unlocated = (clientCoord client = None)\<rparr>"
      by (simp add: steer_def Let_def)
    have "set (take ?m (filter t_healthy ?r)) \<subseteq> {t \<in> set targets. t_healthy t}"
      using take_mem(1) [of "filter t_healthy ?r"] r(2) by auto
    with False take_mem(2,3) [of "filter t_healthy ?r"] f m(2) show ?thesis unfolding s Let_def by auto
  qed
qed

text \<open>
  Steering answers with healthy endpoints only, unless there is none: then it answers with
  unhealthy ones and says so. As long as there is any endpoint it answers with at least one
  and never with more than asked for, and every endpoint it answers with is one it was given.
\<close>

theorem steer_prefers_healthy:
  assumes "targets \<noteq> []"
  shows "let r = steer client targets mx in
     sr_answers r \<noteq> [] \<and> set (sr_answers r) \<subseteq> set targets
     \<and> int (length (sr_answers r)) \<le> max 1 (opt_or mx 2)
     \<and> (sr_degraded r \<longleftrightarrow> (\<forall>t \<in> set targets. \<not> t_healthy t))
     \<and> (\<not> sr_degraded r \<longrightarrow> (\<forall>t \<in> set (sr_answers r). t_healthy t))"
  using assms by (rule steer_health)

definition demo_targets :: "steer_target list" where
  "demo_targets = [\<lparr>t_target = ''10.0.0.1'', t_region = ''eu-west'', t_healthy = False, t_weight = None\<rparr>,
     \<lparr>t_target = ''10.0.0.2'', t_region = ''us-east'', t_healthy = True, t_weight = None\<rparr>]"

theorem steer_prefers_healthy_witness:
  "let r = steer \<lparr>cl_coord = None, cl_region = None\<rparr> demo_targets None in
     sr_answers r \<noteq> [] \<and> \<not> sr_degraded r \<and> (\<forall>t \<in> set (sr_answers r). t_healthy t)"
proof -
  have "demo_targets \<noteq> []" "\<exists>t \<in> set demo_targets. t_healthy t" by (simp_all add: demo_targets_def)
  moreover note steer_prefers_healthy [OF this(1), of "\<lparr>cl_coord = None, cl_region = None\<rparr>" None, unfolded Let_def]
  ultimately show ?thesis unfolding Let_def by blast
qed

text \<open>
  Steering answers with the closest endpoints: a healthy endpoint that is left out is never
  closer to the client than one that is answered with.
\<close>

theorem steer_answers_closest:
  assumes "a \<in> set (sr_answers (steer client targets mx))" and "t_healthy a"
    and "t \<in> set targets" and "t_healthy t" and "t \<notin> set (sr_answers (steer client targets mx))"
  shows "dist_key (clientCoord client) a \<le> dist_key (clientCoord client) t"
proof -
  let ?an = "clientCoord client"
  let ?r = "js_sort (steer_cmp ?an) targets" and ?m = "nat (max 1 (opt_or mx 2))"
  let ?h = "filter t_healthy ?r"
  have "t \<in> set ?h" using assms(3,4) by simp
  then have s: "sr_answers (steer client targets mx) = take ?m ?h" by (auto simp: steer_def Let_def filter_empty_conv)
  have "t \<in> set (drop ?m ?h)" using \<open>t \<in> set ?h\<close> assms(5) unfolding s by (metis append_take_drop_id set_append Un_iff)
  moreover have "sorted_wrt (\<lambda>a b. steer_cmp ?an a b \<le> 0) ?h"
    using steering.sorted_js_sort by (rule sorted_wrt_filter)
  ultimately have "steer_cmp ?an a t \<le> 0" using assms(1) unfolding s by (blast dest: sorted_wrt_take_drop)
  then show ?thesis by (rule steer_cmp_le_dist) (simp add: health_key_def assms)
qed

theorem steer_answers_closest_witness:
  "dist_key None (demo_targets ! 1) \<le> dist_key None \<lparr>t_target = ''10.0.0.9'', t_region = ''us-east'', t_healthy = True, t_weight = None\<rparr>"
proof -
  let ?x = "\<lparr>t_target = ''10.0.0.9'', t_region = ''us-east'', t_healthy = True, t_weight = None\<rparr>"
  let ?c = "\<lparr>cl_coord = None, cl_region = None\<rparr>"
  have c: "clientCoord ?c = None" by (simp add: clientCoord_def truthy_def)
  have r: "sr_answers (steer ?c [demo_targets ! 1, ?x] (Some 1)) = [demo_targets ! 1]"
    by (simp add: steer_def c demo_targets_def steer_cmp_def then_by_def cmp_or_def by_key_def by_key_desc_def
        health_key_def dist_key_def steer_dist_def opt_or_def)
  have "demo_targets ! 1 \<in> set (sr_answers (steer ?c [demo_targets ! 1, ?x] (Some 1)))" "t_healthy (demo_targets ! 1)"
    "?x \<in> set [demo_targets ! 1, ?x]" "t_healthy ?x" "?x \<notin> set (sr_answers (steer ?c [demo_targets ! 1, ?x] (Some 1)))"
    unfolding r by (simp_all add: demo_targets_def)
  from steer_answers_closest [OF this] c show ?thesis by simp
qed

lemma haversine_inner:
  assumes "\<bar>lat a\<bar> \<le> 90" and "\<bar>lat b\<bar> \<le> 90"
  shows "0 \<le> sin (toRad (lat b - lat a) / 2) ^ 2 + cos (toRad (lat a)) * cos (toRad (lat b)) * sin (toRad (lon b - lon a) / 2) ^ 2"
proof -
  have "0 \<le> cos (toRad x)" if "\<bar>x\<bar> \<le> 90" for x
  proof (rule cos_ge_zero)
    have "x * pi \<le> 90 * pi" "(-90) * pi \<le> x * pi" using that by (intro mult_right_mono; simp add: abs_le_iff)+
    then show "- (pi / 2) \<le> toRad x" "toRad x \<le> pi / 2" by (simp_all add: toRad_def)
  qed
  with assms have "0 \<le> cos (toRad (lat a)) * cos (toRad (lat b))" by simp
  then show ?thesis by simp
qed

lemma arcsin_unit:
  assumes "0 \<le> x" and "x \<le> (1 :: real)"
  shows "0 \<le> arcsin x" and "arcsin x \<le> pi / 2"
  using arcsin_le_arcsin [of 0 x] arcsin_bounded [of x] assms by auto

text \<open>
  The distance behaves as one: it is symmetric, zero from a point to itself, and between
  points on the globe never negative and never more than half the circumference.
\<close>

theorem haversine_is_distance:
  assumes "\<bar>lat a\<bar> \<le> 90" and "\<bar>lat b\<bar> \<le> 90"
  shows "haversineKm a b = haversineKm b a \<and> haversineKm a a = 0
    \<and> 0 \<le> haversineKm a b \<and> haversineKm a b \<le> pi * EARTH_RADIUS_KM"
proof -
  have neg: "toRad (x - y) / 2 = - (toRad (y - x) / 2)" for x y by (simp add: toRad_def field_simps)
  have sym: "haversineKm a b = haversineKm b a"
    unfolding haversineKm_def Let_def neg [of "lat b" "lat a"] neg [of "lon b" "lon a"] by (simp add: mult.commute)
  let ?s = "min 1 (sqrt (sin (toRad (lat b - lat a) / 2) ^ 2 + cos (toRad (lat a)) * cos (toRad (lat b)) * sin (toRad (lon b - lon a) / 2) ^ 2))"
  have "0 \<le> ?s" "?s \<le> 1" using haversine_inner [OF assms] by simp_all
  then have "0 \<le> arcsin ?s" "arcsin ?s \<le> pi / 2" by (rule arcsin_unit)+
  then have "0 \<le> haversineKm a b" "haversineKm a b \<le> pi * EARTH_RADIUS_KM"
    by (simp_all add: haversineKm_def Let_def EARTH_RADIUS_KM_def)
  moreover have "haversineKm a a = 0" by (simp add: haversineKm_def toRad_def)
  ultimately show ?thesis using sym by blast
qed

theorem haversine_is_distance_witness:
  "haversineKm (coord 39 (-77.5)) (coord 53.3 (-6.3)) = haversineKm (coord 53.3 (-6.3)) (coord 39 (-77.5))
   \<and> 0 \<le> haversineKm (coord 39 (-77.5)) (coord 53.3 (-6.3))"
  using haversine_is_distance [of "coord 39 (-77.5)" "coord 53.3 (-6.3)"] by (simp add: coord_def)

subsection \<open>The order of the endpoints does not matter\<close>

definition steer_key :: "lat_lon option \<Rightarrow> steer_target \<Rightarrow> nat \<times> (nat \<times> real) \<times> rat \<times> string \<times> string" where
  "steer_key anchor t = (health_key t, dist_key anchor t, - opt_or (t_weight t) 1, t_region t, t_target t)"

lemma steer_cmp_key: "steer_cmp anchor a b \<le> 0 \<longleftrightarrow> steer_key anchor a \<le> steer_key anchor b"
  unfolding steer_cmp_def
  by (subst then_by_le_0, subst then_by_le_0, subst then_by_le_0, subst then_by_le_0)
    (auto simp: steer_key_def less_eq_prod_simp)

lemma ranked_keys:
  assumes "mset xs = mset ys"
  shows "map (steer_key anchor) (js_sort (steer_cmp anchor) xs) = map (steer_key anchor) (js_sort (steer_cmp anchor) ys)"
proof -
  have s: "sorted (map (steer_key anchor) (js_sort (steer_cmp anchor) zs))" for zs
    using steering.sorted_js_sort [of anchor zs] by (simp add: sorted_map steer_cmp_key)
  have "mset (map (steer_key anchor) (js_sort (steer_cmp anchor) xs)) = mset (map (steer_key anchor) (js_sort (steer_cmp anchor) ys))"
    using assms by simp
  with s show ?thesis by (metis properties_for_sort)
qed

text \<open>
  Answers do not depend on the order in which the endpoints are listed: any reordering of
  them gives the same addresses in the same order.
\<close>

theorem steer_order_independent:
  assumes "mset xs = mset ys"
  shows "map t_target (sr_answers (steer client xs mx)) = map t_target (sr_answers (steer client ys mx))"
proof -
  let ?an = "clientCoord client"
  let ?x = "js_sort (steer_cmp ?an) xs" and ?y = "js_sort (steer_cmp ?an) ys"
  let ?tgt = "\<lambda>k :: nat \<times> (nat \<times> real) \<times> rat \<times> string \<times> string. snd (snd (snd (snd k)))"
  have k: "map (steer_key ?an) ?x = map (steer_key ?an) ?y" by (rule ranked_keys [OF assms])
  have tgt: "map t_target zs = map ?tgt (map (steer_key ?an) zs)" for zs by (simp add: steer_key_def)
  have hl: "map (steer_key ?an) (filter t_healthy zs) = filter (\<lambda>k. fst k = 0) (map (steer_key ?an) zs)" for zs
    by (induction zs) (auto simp: steer_key_def health_key_def)
  have h: "map (steer_key ?an) (filter t_healthy ?x) = map (steer_key ?an) (filter t_healthy ?y)" unfolding hl k ..
  then have e: "filter t_healthy ?x = [] \<longleftrightarrow> filter t_healthy ?y = []" by (metis list.map_disc_iff)
  from k have e2: "?x = [] \<longleftrightarrow> ?y = []" by (metis list.map_disc_iff)
  have "map t_target ?x = map t_target ?y" "map t_target (filter t_healthy ?x) = map t_target (filter t_healthy ?y)"
    unfolding tgt by (simp_all only: k h)
  with e e2 show ?thesis unfolding steer_def Let_def by (simp add: take_map [symmetric])
qed

theorem steer_order_independent_witness:
  "map t_target (sr_answers (steer \<lparr>cl_coord = None, cl_region = None\<rparr> demo_targets None))
     = map t_target (sr_answers (steer \<lparr>cl_coord = None, cl_region = None\<rparr> (rev demo_targets) None))"
  by (rule steer_order_independent) simp

end
