(* ===== verification/DnsAnswer.thy ===== *)
theory DnsAnswer
  imports DnsSteer
begin

text \<open>
  Authoritative resolution: \<^verbatim>\<open>packages/dns/src/answer.ts\<close> over the zone snapshots of
  \<^verbatim>\<open>packages/core/src/protocol/dns.ts\<close>, with \<^verbatim>\<open>relativeToFqdn\<close> of \<^verbatim>\<open>compose.ts\<close>.

  Names and values are strings of the bytes of their UTF-8 text. A record's data keeps its fields; where the code applies \<^verbatim>\<open>Number\<close> to a part of a record's
  text, the model keeps the text. The resolution recurses when it follows a CNAME inside the
  zone and has no bound of its own, so \<open>answerQuery\<close> takes fuel and \<open>None\<close> means that the
  recursion has not come back within it.
\<close>

section \<open>Definitions\<close>

datatype dns_rtype = TypeA | TypeAAAA | TypeCNAME | TypeTXT | TypeMX | TypeSRV | TypeCAA | TypeNS

record static_record =
  s_rname :: string
  s_rtype :: dns_rtype
  s_value :: string
  s_ttl :: "nat option"
  s_priority :: "nat option"

record geo_endpoint =
  ge_nodeId :: string
  ge_region :: string
  ge_ip :: string
  ge_healthy :: bool
  ge_weight :: "rat option"

record geo_record =
  g_host :: string
  g_maxAnswers :: int
  g_endpoints :: "geo_endpoint list"

record zone_nameserver =
  ns_label :: string
  ns_fqdn :: string
  ns_ip :: string
  ns_nodeId :: string

record dns_soa =
  soa_mname :: string
  soa_rname :: string
  soa_refresh :: nat
  soa_retry :: nat
  soa_expire :: nat
  soa_minimum :: nat

record zone_snapshot =
  z_zone :: string
  z_serial :: nat
  z_ttl :: nat
  z_soa :: dns_soa
  z_nameservers :: "zone_nameserver list"
  z_geoRecords :: "geo_record list"
  z_staticRecords :: "static_record list"

datatype answer_data =
    DataA string
  | DataAAAA string
  | DataCNAME string
  | DataNS string
  | DataMX nat string
  | DataTXT "string list"
  | DataSRV nat string string string
  | DataCAA string string string
  | DataSOA string string nat nat nat nat nat
  | DataHINFO string string

record answer =
  a_name :: string
  a_ttl :: nat
  a_data :: answer_data

datatype rcode = NOERROR | NXDOMAIN | REFUSED | NOTIMP | FORMERR | SERVFAIL

record dns_answer =
  da_rcode :: rcode
  da_aa :: bool
  da_answers :: "answer list"
  da_authorities :: "answer list"
  da_additionals :: "answer list"
  da_steered :: bool
  da_degraded :: bool

definition dns_lower :: "string \<Rightarrow> string" where
  "dns_lower name = strip_dots (js_lower name)"

definition relativeToFqdn :: "string \<Rightarrow> string \<Rightarrow> string" where
  "relativeToFqdn name zone =
     (let n = dns_lower name in if n = ''@'' \<or> n = [] \<or> n = zone then zone else n @ ''.'' @ zone)"

text \<open>\<^verbatim>\<open>name === zone || name.endsWith(`.${zone}`)\<close>.\<close>

definition in_zone :: "string \<Rightarrow> string \<Rightarrow> bool" where
  "in_zone name zone = (name = zone \<or> js_ends_with name (CHR ''.'' # zone))"

definition findZone :: "zone_snapshot list \<Rightarrow> string \<Rightarrow> zone_snapshot option" where
  "findZone zones qname =
     (let name = dns_lower qname
      in fold (\<lambda>z best. if in_zone name (z_zone z)
                        then (case best of
                                None \<Rightarrow> Some z
                              | Some b \<Rightarrow> if length (z_zone b) < length (z_zone z) then Some z else best)
                        else best) zones None)"

definition soaAnswer :: "zone_snapshot \<Rightarrow> answer" where
  "soaAnswer z = \<lparr>a_name = z_zone z, a_ttl = soa_minimum (z_soa z),
     a_data = DataSOA (soa_mname (z_soa z)) (soa_rname (z_soa z)) (z_serial z) (soa_refresh (z_soa z))
                (soa_retry (z_soa z)) (soa_expire (z_soa z)) (soa_minimum (z_soa z))\<rparr>"

subsection \<open>Record values\<close>

text \<open>
  \<^verbatim>\<open>txtStrings\<close> cuts the UTF-8 bytes of a value into pieces of at most 255 bytes, moving a cut
  back while it would land on a continuation byte.
\<close>

definition is_continuation :: "nat \<Rightarrow> bool" where
  "is_continuation b = (b div 64 = 2)"

fun txt_cut :: "nat list \<Rightarrow> nat \<Rightarrow> nat" where
  "txt_cut buf 0 = 0"
| "txt_cut buf (Suc n) = (if Suc n < length buf \<and> is_continuation (buf ! Suc n) then txt_cut buf n else Suc n)"

text \<open>One turn of the outer loop takes the bytes up to the cut; the fuel is the number of turns.\<close>

fun txt_pieces :: "nat \<Rightarrow> nat list \<Rightarrow> nat list list option" where
  "txt_pieces fuel [] = Some []"
| "txt_pieces 0 (b # bs) = None"
| "txt_pieces (Suc fuel) (b # bs) =
     (let cut = txt_cut (b # bs) (min 255 (length (b # bs)))
      in map_option (\<lambda>ps. take cut (b # bs) # ps) (txt_pieces fuel (drop cut (b # bs))))"

definition txtStrings :: "nat list \<Rightarrow> nat list list option" where
  "txtStrings buf = (if length buf \<le> 255 then Some [buf] else txt_pieces (length buf) buf)"

lemma length_dropWhile_less_Suc [termination_simp]: "length (dropWhile P xs) < Suc (length xs)"
  by (simp add: length_dropWhile_le less_Suc_eq_le)

fun js_words_acc :: "string \<Rightarrow> string \<Rightarrow> string list" where
  "js_words_acc acc [] = [rev acc]"
| "js_words_acc acc (c # cs) =
     (if js_space c then rev acc # js_words_acc [] (dropWhile js_space cs) else js_words_acc (c # acc) cs)"

text \<open>\<^verbatim>\<open>value.split(/\s+/)\<close>.\<close>

definition split_spaces :: "string \<Rightarrow> string list" where
  "split_spaces s = js_words_acc [] s"

definition nth_or :: "string list \<Rightarrow> nat \<Rightarrow> string \<Rightarrow> string" where
  "nth_or xs i d = (if i < length xs then xs ! i else d)"

definition is_digit :: "char \<Rightarrow> bool" where
  "is_digit c = (CHR ''0'' \<le> c \<and> c \<le> CHR ''9'')"

definition DQUOTE :: char where "DQUOTE = CHR 0x22"

text \<open>\<^verbatim>\<open>/^(\d+)\s+(\S+)\s+"?([^"]*)"?$/\<close>: flags, tag and value.\<close>

definition caa_match :: "string \<Rightarrow> (string \<times> string \<times> string) option" where
  "caa_match v =
     (let flags = takeWhile is_digit v; r1 = dropWhile is_digit v;
          r2 = dropWhile js_space r1;
          tag = takeWhile (\<lambda>c. \<not> js_space c) r2; r3 = dropWhile (\<lambda>c. \<not> js_space c) r2;
          r4 = dropWhile js_space r3;
          body = (case r4 of c # cs \<Rightarrow> if c = DQUOTE then cs else r4 | [] \<Rightarrow> r4);
          val = takeWhile (\<lambda>c. c \<noteq> DQUOTE) body; rest = dropWhile (\<lambda>c. c \<noteq> DQUOTE) body
      in if flags \<noteq> [] \<and> r1 \<noteq> r2 \<and> tag \<noteq> [] \<and> r3 \<noteq> r4 \<and> (rest = [] \<or> rest = [DQUOTE])
         then Some (flags, tag, val) else None)"

definition caa_data :: "string \<Rightarrow> answer_data" where
  "caa_data v =
     (case caa_match v of
        None \<Rightarrow> DataCAA ''0'' ''issue'' v
      | Some (flags, tag, val) \<Rightarrow>
          DataCAA flags (if tag = ''issuewild'' \<or> tag = ''iodef'' then tag else ''issue'') val)"

definition bytes_of :: "string \<Rightarrow> nat list" where
  "bytes_of s = map of_char s"

definition chars_of :: "nat list \<Rightarrow> string" where
  "chars_of bs = map char_of bs"

definition static_data :: "static_record \<Rightarrow> answer_data" where
  "static_data r =
     (case s_rtype r of
        TypeMX \<Rightarrow> DataMX (opt_or (s_priority r) 10) (s_value r)
      | TypeTXT \<Rightarrow> DataTXT (map chars_of (opt_or (txtStrings (bytes_of (s_value r))) []))
      | TypeSRV \<Rightarrow> (let w = split_spaces (s_value r)
                     in DataSRV (opt_or (s_priority r) 0) (nth_or w 0 ''0'') (nth_or w 1 ''0'') (nth_or w 2 []))
      | TypeCAA \<Rightarrow> caa_data (s_value r)
      | TypeNS \<Rightarrow> DataNS (s_value r)
      | TypeCNAME \<Rightarrow> DataCNAME (s_value r)
      | TypeAAAA \<Rightarrow> DataAAAA (s_value r)
      | TypeA \<Rightarrow> DataA (s_value r))"

definition staticToAnswer :: "static_record \<Rightarrow> zone_snapshot \<Rightarrow> answer" where
  "staticToAnswer r z = \<lparr>a_name = relativeToFqdn (s_rname r) (z_zone z), a_ttl = opt_or (s_ttl r) (z_ttl z),
     a_data = static_data r\<rparr>"

subsection \<open>Names\<close>

record name_view =
  v_geo :: "geo_record option"
  v_statics :: "static_record list"
  v_isApex :: bool
  v_nsGlueIps :: "string list"
  v_exists :: bool

definition viewName :: "zone_snapshot \<Rightarrow> string \<Rightarrow> name_view" where
  "viewName z fqdn =
     (let geo = find (\<lambda>g. g_host g = fqdn) (z_geoRecords z);
          statics = filter (\<lambda>r. relativeToFqdn (s_rname r) (z_zone z) = fqdn) (z_staticRecords z);
          glue = map ns_ip (filter (\<lambda>n. ns_fqdn n = fqdn) (z_nameservers z));
          isApex = (fqdn = z_zone z);
          suffix = CHR ''.'' # fqdn;
          own = (isApex \<or> geo \<noteq> None \<or> statics \<noteq> [] \<or> glue \<noteq> []);
          below = (list_ex (\<lambda>g. js_ends_with (g_host g) suffix) (z_geoRecords z)
                   \<or> list_ex (\<lambda>n. js_ends_with (ns_fqdn n) suffix) (z_nameservers z)
                   \<or> list_ex (\<lambda>r. js_ends_with (relativeToFqdn (s_rname r) (z_zone z)) suffix) (z_staticRecords z))
      in \<lparr>v_geo = geo, v_statics = statics, v_isApex = isApex, v_nsGlueIps = glue, v_exists = (own \<or> below)\<rparr>)"

definition steerGeo :: "geo_record \<Rightarrow> client_location \<Rightarrow> string list \<times> bool \<times> bool" where
  "steerGeo geo client =
     (let targets = map (\<lambda>e. \<lparr>t_target = ge_ip e, t_region = ge_region e, t_healthy = ge_healthy e, t_weight = ge_weight e\<rparr>)
                      (g_endpoints geo)
      in if targets = [] then ([], False, False)
         else (let r = steer client targets (Some (g_maxAnswers geo))
               in (map t_target (sr_answers r), \<not> sr_unlocated r, sr_degraded r)))"

text \<open>The part of a name after its first dot.\<close>

definition parent_name :: "string \<Rightarrow> string" where
  "parent_name name = tl (dropWhile (\<lambda>c. c \<noteq> CHR ''.'') name)"

lemma parent_name_shorter: "CHR ''.'' \<in> set name \<Longrightarrow> length (parent_name name) < length name"
proof -
  assume "CHR ''.'' \<in> set name"
  then have "dropWhile (\<lambda>c. c \<noteq> CHR ''.'') name \<noteq> []" by (auto simp: dropWhile_eq_Nil_conv)
  then show ?thesis
    using length_dropWhile_le [of "\<lambda>c. c \<noteq> CHR ''.''" name]
    by (cases "dropWhile (\<lambda>c. c \<noteq> CHR ''.'') name") (auto simp: parent_name_def)
qed

function wildcardFor :: "zone_snapshot \<Rightarrow> string \<Rightarrow> (string \<times> name_view) option" where
  "wildcardFor z name =
     (if name = z_zone z \<or> CHR ''.'' \<notin> set name then None
      else (let up = parent_name name
            in if \<not> in_zone up (z_zone z) then None
               else if \<not> v_exists (viewName z up) then wildcardFor z up
               else (let owner = ''*.'' @ up; view = viewName z owner
                     in if v_geo view \<noteq> None \<or> v_statics view \<noteq> [] then Some (owner, view) else None)))"
  by pat_completeness auto
termination
  by (relation "measure (\<lambda>(z, name). length name)") (auto simp: parent_name_shorter)

declare wildcardFor.simps [simp del]

subsection \<open>Answering\<close>

definition respond :: "zone_snapshot \<Rightarrow> answer list \<Rightarrow> dns_answer" where
  "respond z answers =
     \<lparr>da_rcode = NOERROR, da_aa = True, da_answers = answers,
      da_authorities = (if answers = [] then [soaAnswer z] else []), da_additionals = [],
      da_steered = False, da_degraded = False\<rparr>"

definition refused :: dns_answer where
  "refused = \<lparr>da_rcode = REFUSED, da_aa = False, da_answers = [], da_authorities = [], da_additionals = [],
     da_steered = False, da_degraded = False\<rparr>"

definition of_type :: "dns_rtype \<Rightarrow> name_view \<Rightarrow> zone_snapshot \<Rightarrow> answer list" where
  "of_type ty view z = map (\<lambda>r. staticToAnswer r z) (filter (\<lambda>r. s_rtype r = ty) (v_statics view))"

definition addr_answer :: "zone_snapshot \<Rightarrow> string \<Rightarrow> string \<Rightarrow> answer" where
  "addr_answer z name ip = \<lparr>a_name = name, a_ttl = z_ttl z, a_data = DataA ip\<rparr>"

text \<open>The \<^verbatim>\<open>switch\<close> on the query type; \<open>qtype\<close> is the type in upper case.\<close>

definition answerType :: "zone_snapshot \<Rightarrow> string \<Rightarrow> string \<Rightarrow> client_location \<Rightarrow> name_view \<Rightarrow> dns_answer" where
  "answerType z qname qtype client view =
     (if qtype = ''A'' then
        (let (ips, steered, degraded) = (case v_geo view of None \<Rightarrow> ([], False, False) | Some g \<Rightarrow> steerGeo g client)
         in (respond z (map (addr_answer z qname) (ips @ v_nsGlueIps view) @ of_type TypeA view z))
              \<lparr>da_steered := steered, da_degraded := degraded\<rparr>)
      else if qtype = ''AAAA'' then respond z (of_type TypeAAAA view z)
      else if qtype = ''NS'' then
        (if \<not> v_isApex view then respond z (of_type TypeNS view z)
         else (respond z (map (\<lambda>n. \<lparr>a_name = z_zone z, a_ttl = z_ttl z, a_data = DataNS (ns_fqdn n)\<rparr>) (z_nameservers z)))
                \<lparr>da_additionals := map (\<lambda>n. addr_answer z (ns_fqdn n) (ns_ip n)) (z_nameservers z)\<rparr>)
      else if qtype = ''SOA'' then
        (if v_isApex view then (respond z [soaAnswer z])\<lparr>da_authorities := []\<rparr> else respond z [])
      else if qtype = ''MX'' then respond z (of_type TypeMX view z)
      else if qtype = ''TXT'' then respond z (of_type TypeTXT view z)
      else if qtype = ''SRV'' then respond z (of_type TypeSRV view z)
      else if qtype = ''CAA'' then respond z (of_type TypeCAA view z)
      else if qtype = ''CNAME'' then respond z (of_type TypeCNAME view z)
      else respond z [])"

definition view_cname :: "name_view \<Rightarrow> static_record option" where
  "view_cname view = find (\<lambda>r. s_rtype r = TypeCNAME) (v_statics view)"

text \<open>
  \<^verbatim>\<open>answerExisting\<close>, with the recursive call to \<^verbatim>\<open>answerQuery([zone], target)\<close> as the
  argument \<open>chase\<close>.
\<close>

definition answerExisting ::
  "(string \<Rightarrow> dns_answer option) \<Rightarrow> zone_snapshot \<Rightarrow> string \<Rightarrow> string option \<Rightarrow> client_location \<Rightarrow> name_view
     \<Rightarrow> dns_answer option" where
  "answerExisting chase z qname qty client view =
     (let qtype = js_upper (opt_or qty ''A'')
      in if qtype = ''ANY''
         then Some (respond z [\<lparr>a_name = qname, a_ttl = z_ttl z, a_data = DataHINFO ''RFC8482'' []\<rparr>])
         else case (view_cname view, qtype = ''CNAME'') of
                (Some r, False) \<Rightarrow>
                  (let first = staticToAnswer r z; target = dns_lower (s_value r)
                   in if in_zone target (z_zone z)
                      then map_option (\<lambda>c. (respond z (first # da_answers c))
                             \<lparr>da_steered := da_steered c, da_degraded := da_degraded c, da_authorities := []\<rparr>) (chase target)
                      else Some ((respond z [first])\<lparr>da_authorities := []\<rparr>))
              | _ \<Rightarrow> Some (answerType z qname qtype client view))"

fun answerQuery ::
  "nat \<Rightarrow> zone_snapshot list \<Rightarrow> string \<Rightarrow> string option \<Rightarrow> client_location \<Rightarrow> dns_answer option" where
  "answerQuery 0 zones name qty client = None"
| "answerQuery (Suc fuel) zones name qty client =
     (let qname = dns_lower name
      in case findZone zones qname of
           None \<Rightarrow> Some refused
         | Some z \<Rightarrow>
             (let view = viewName z qname; chase = (\<lambda>t. answerQuery fuel [z] t qty client)
              in if \<not> v_exists view
                 then (case wildcardFor z qname of
                         None \<Rightarrow> Some ((respond z [])\<lparr>da_rcode := NXDOMAIN\<rparr>)
                       | Some (owner, wview) \<Rightarrow>
                           map_option (\<lambda>s. s\<lparr>da_answers := map (\<lambda>a. if dns_lower (a_name a) = owner then a\<lparr>a_name := qname\<rparr> else a)
                                                (da_answers s)\<rparr>)
                             (answerExisting chase z qname qty client wview))
                 else answerExisting chase z qname qty client view))"

section \<open>Zones and response codes\<close>

lemma findZone_fold:
  assumes "fold (\<lambda>z best. if in_zone name (z_zone z)
      then (case best of None \<Rightarrow> Some z | Some b \<Rightarrow> if length (z_zone b) < length (z_zone z) then Some z else best)
      else best) zones b = r"
  shows "case r of
      None \<Rightarrow> b = None \<and> (\<forall>z \<in> set zones. \<not> in_zone name (z_zone z))
    | Some x \<Rightarrow> (b = Some x \<or> x \<in> set zones \<and> in_zone name (z_zone x))
        \<and> (\<forall>z \<in> set zones. in_zone name (z_zone z) \<longrightarrow> length (z_zone z) \<le> length (z_zone x))
        \<and> (\<forall>y. b = Some y \<longrightarrow> length (z_zone y) \<le> length (z_zone x))"
  using assms
proof (induction zones arbitrary: b)
  case Nil
  then show ?case by (auto split: option.splits)
next
  case (Cons z zones)
  let ?b = "if in_zone name (z_zone z)
      then (case b of None \<Rightarrow> Some z | Some y \<Rightarrow> if length (z_zone y) < length (z_zone z) then Some z else b) else b"
  from Cons.prems have "fold (\<lambda>z best. if in_zone name (z_zone z)
      then (case best of None \<Rightarrow> Some z | Some b \<Rightarrow> if length (z_zone b) < length (z_zone z) then Some z else best)
      else best) zones ?b = r" by simp
  from Cons.IH [OF this] show ?case by (auto split: option.splits if_splits)
qed

lemma findZone_Some:
  assumes "findZone zones q = Some z"
  shows "z \<in> set zones \<and> in_zone (dns_lower q) (z_zone z)
    \<and> (\<forall>y \<in> set zones. in_zone (dns_lower q) (z_zone y) \<longrightarrow> length (z_zone y) \<le> length (z_zone z))"
  using findZone_fold [OF assms [unfolded findZone_def Let_def]] by simp

lemma findZone_None:
  assumes "findZone zones q = None"
  shows "\<forall>z \<in> set zones. \<not> in_zone (dns_lower q) (z_zone z)"
  using findZone_fold [OF assms [unfolded findZone_def Let_def]] by simp

text \<open>
  Zone selection is longest-suffix matching: a query is served from a hosted zone it lies
  in, the longest such one, and is turned away exactly when it lies in no hosted zone.
\<close>

theorem zone_longest_match:
  "case findZone zones q of
     None \<Rightarrow> \<forall>z \<in> set zones. \<not> in_zone (dns_lower q) (z_zone z)
   | Some z \<Rightarrow> z \<in> set zones \<and> in_zone (dns_lower q) (z_zone z)
       \<and> (\<forall>y \<in> set zones. in_zone (dns_lower q) (z_zone y) \<longrightarrow> length (z_zone y) \<le> length (z_zone z))"
  using findZone_Some findZone_None by (auto split: option.split)

lemma respond_simps [simp]:
  "da_rcode (respond z as) = NOERROR" "da_aa (respond z as)" "da_answers (respond z as) = as"
  "da_authorities (respond z as) = (if as = [] then [soaAnswer z] else [])"
  by (simp_all add: respond_def)

definition positive :: "zone_snapshot \<Rightarrow> dns_answer \<Rightarrow> bool" where
  "positive z a \<longleftrightarrow> da_rcode a = NOERROR \<and> da_aa a \<and> (da_answers a = [] \<longrightarrow> da_authorities a = [soaAnswer z])"

lemma answerType_positive: "positive z (answerType z qname qtype client view)"
  by (simp add: positive_def answerType_def case_prod_beta split: option.split)

lemma answerExisting_positive:
  "answerExisting chase z qname qty client view = Some a \<Longrightarrow> positive z a"
  using answerType_positive
  by (auto simp: answerExisting_def Let_def positive_def split: option.splits bool.splits if_splits)

lemma answerQuery_cases:
  assumes "answerQuery (Suc n) zones name qty client = Some a"
  shows "findZone zones (dns_lower name) = None \<and> a = refused
    \<or> (\<exists>z. findZone zones (dns_lower name) = Some z \<and> positive z a \<and>
         (v_exists (viewName z (dns_lower name)) \<or> wildcardFor z (dns_lower name) \<noteq> None))
    \<or> (\<exists>z. findZone zones (dns_lower name) = Some z \<and> a = (respond z [])\<lparr>da_rcode := NXDOMAIN\<rparr>
         \<and> \<not> v_exists (viewName z (dns_lower name)) \<and> wildcardFor z (dns_lower name) = None)"
proof (cases "findZone zones (dns_lower name)")
  case None
  with assms show ?thesis by simp
next
  case (Some z)
  show ?thesis
  proof (cases "v_exists (viewName z (dns_lower name))")
    case True
    with assms Some have "answerExisting (\<lambda>t. answerQuery n [z] t qty client) z (dns_lower name) qty client
      (viewName z (dns_lower name)) = Some a" by (simp add: Let_def)
    from answerExisting_positive [OF this] Some True show ?thesis by blast
  next
    case False
    show ?thesis
    proof (cases "wildcardFor z (dns_lower name)")
      case None
      with assms Some False show ?thesis by simp
    next
      case (Some w)
      obtain owner view where w: "w = (owner, view)" by (cases w)
      with assms Some False \<open>findZone zones (dns_lower name) = Some z\<close> obtain s where
        s: "answerExisting (\<lambda>t. answerQuery n [z] t qty client) z (dns_lower name) qty client view = Some s"
        and a: "a = s\<lparr>da_answers := map (\<lambda>a. if dns_lower (a_name a) = owner then a\<lparr>a_name := dns_lower name\<rparr> else a) (da_answers s)\<rparr>"
        by (auto simp: Let_def)
      from answerExisting_positive [OF s] a have "positive z a" by (simp add: positive_def)
      with Some \<open>findZone zones (dns_lower name) = Some z\<close> show ?thesis by blast
    qed
  qed
qed


section \<open>CNAME chains\<close>

text \<open>The in-zone name the resolution goes on with after \<open>name\<close>, if it follows a CNAME.\<close>

definition cname_view :: "zone_snapshot \<Rightarrow> string \<Rightarrow> name_view option" where
  "cname_view z name =
     (if v_exists (viewName z name) then Some (viewName z name) else map_option snd (wildcardFor z name))"

definition cname_next :: "zone_snapshot \<Rightarrow> string \<Rightarrow> string option" where
  "cname_next z name =
     (case Option.bind (cname_view z name) view_cname of
        None \<Rightarrow> None
      | Some r \<Rightarrow> if in_zone (dns_lower (s_value r)) (z_zone z) then Some (dns_lower (s_value r)) else None)"

lemma lower_char_idem [simp]: "lower_char (lower_char c) = lower_char c"
proof (cases "CHR ''A'' \<le> c \<and> c \<le> CHR ''Z''")
  case True
  then have "65 \<le> (of_char c :: nat)" "of_char c \<le> (90 :: nat)" by (simp_all add: less_eq_char_def)
  then have "\<not> (CHR ''A'' \<le> lower_char c \<and> lower_char c \<le> CHR ''Z'')"
    using True by (simp add: lower_char_def less_eq_char_def)
  then show ?thesis unfolding lower_char_def [of "lower_char c"] by (rule if_not_P)
next
  case False
  then have "lower_char c = c" unfolding lower_char_def by (rule if_not_P)
  then show ?thesis by simp
qed

lemma dns_lower_idem [simp]: "dns_lower (dns_lower s) = dns_lower s"
proof -
  have "map lower_char (dropWhile (\<lambda>c. c = CHR ''.'') xs) = dropWhile (\<lambda>c. c = CHR ''.'') xs"
    if "map lower_char xs = xs" for xs using that by (induction xs) auto
  moreover have "map lower_char (rev (map lower_char s)) = rev (map lower_char s)" by (simp add: rev_map)
  ultimately have "map lower_char (dropWhile (\<lambda>c. c = CHR ''.'') (rev (map lower_char s)))
      = dropWhile (\<lambda>c. c = CHR ''.'') (rev (map lower_char s))" by blast
  then show ?thesis
    by (simp add: dns_lower_def strip_dots_def js_lower_def rev_map [symmetric] dropWhile_idem)
qed

lemma findZone_single: "in_zone (dns_lower t) (z_zone z) \<Longrightarrow> findZone [z] t = Some z"
  by (simp add: findZone_def)

lemma answerExisting_total:
  assumes "\<And>r. view_cname view = Some r \<Longrightarrow> in_zone (dns_lower (s_value r)) (z_zone z) \<Longrightarrow>
      chase (dns_lower (s_value r)) \<noteq> None"
  shows "answerExisting chase z qname qty client view \<noteq> None"
  using assms by (auto simp: answerExisting_def Let_def split: option.splits bool.splits)

lemma answerQuery_step:
  assumes "findZone zones (dns_lower name) = Some z"
    and "\<And>t. cname_next z (dns_lower name) = Some t \<Longrightarrow> answerQuery n [z] t qty client \<noteq> None"
  shows "answerQuery (Suc n) zones name qty client \<noteq> None"
proof -
  have e: "answerExisting (\<lambda>t. answerQuery n [z] t qty client) z (dns_lower name) qty client view \<noteq> None"
    if "cname_view z (dns_lower name) = Some view" for view
    using assms(2) that by (intro answerExisting_total) (simp add: cname_next_def)
  show ?thesis
  proof (cases "v_exists (viewName z (dns_lower name))")
    case True
    with e [of "viewName z (dns_lower name)"] assms(1) show ?thesis by (simp add: cname_view_def Let_def)
  next
    case False
    with e assms(1) show ?thesis by (cases "wildcardFor z (dns_lower name)") (auto simp: cname_view_def Let_def)
  qed
qed

lemma answered_in_zone:
  assumes "\<And>m t. cname_next z m = Some t \<Longrightarrow> rank t < rank m"
  shows "findZone zones (dns_lower name) = Some z \<Longrightarrow> rank (dns_lower name) < fuel \<Longrightarrow>
    answerQuery fuel zones name qty client \<noteq> None"
proof (induction fuel arbitrary: zones name)
  case (Suc n)
  show ?case
  proof (rule answerQuery_step [OF Suc.prems(1)])
    fix t assume t: "cname_next z (dns_lower name) = Some t"
    then obtain v where v: "t = dns_lower v" "in_zone t (z_zone z)"
      by (auto simp: cname_next_def split: option.splits if_splits)
    then have "findZone [z] (dns_lower t) = Some z" by (simp add: findZone_single)
    with Suc.IH [of "[z]" t] assms [OF t] Suc.prems(2) v(1) show "answerQuery n [z] t qty client \<noteq> None" by simp
  qed
qed simp

text \<open>
  C21. Every query is answered when the zone's CNAMEs do not loop: if some ranking of the names
  decreases along every in-zone CNAME, then fuel past the rank of the queried name is enough,
  whatever the type of the query and wherever it comes from.
\<close>

theorem acyclic_zone_answers:
  assumes "\<forall>z \<in> set zones. \<forall>m t. cname_next z m = Some t \<longrightarrow> rank t < rank m"
    and "rank (dns_lower name) < fuel"
  shows "\<exists>a. answerQuery fuel zones name qty client = Some a"
proof (cases "findZone zones (dns_lower name)")
  case None
  with assms(2) show ?thesis by (cases fuel) auto
next
  case (Some z)
  then have "z \<in> set zones" using findZone_Some by blast
  with assms have "answerQuery fuel zones name qty client \<noteq> None"
    by (intro answered_in_zone [OF _ Some, of rank]) blast+
  then show ?thesis by blast
qed

lemma answerQuery_follows:
  assumes "findZone zones (dns_lower name) = Some z" "cname_next z (dns_lower name) = Some t"
    and "js_upper (opt_or qty ''A'') \<notin> {''ANY'', ''CNAME''}"
    and "answerQuery n [z] t qty client = None"
  shows "answerQuery (Suc n) zones name qty client = None"
proof -
  from assms(2) obtain view r where v: "cname_view z (dns_lower name) = Some view" "view_cname view = Some r"
    "t = dns_lower (s_value r)" "in_zone t (z_zone z)"
    by (cases "cname_view z (dns_lower name)") (auto simp: cname_next_def split: option.splits if_splits)
  with assms(3,4) have "answerExisting (\<lambda>t. answerQuery n [z] t qty client) z (dns_lower name) qty client view = None"
    by (simp add: answerExisting_def Let_def)
  with v(1) assms(1) show ?thesis
    by (cases "wildcardFor z (dns_lower name)") (auto simp: cname_view_def Let_def split: if_splits)
qed

text \<open>
  C37. A CNAME loop inside a zone is followed forever: when every name of a set leads by an
  in-zone CNAME to a name of the set, a query for one of them (of a type other than CNAME and
  ANY) is never answered, however long the resolution runs.
\<close>

theorem cname_loop_never_answers:
  assumes "\<forall>m \<in> S. \<exists>t \<in> S. cname_next z m = Some t"
    and "findZone zones (dns_lower name) = Some z" "dns_lower name \<in> S"
    and "js_upper (opt_or qty ''A'') \<notin> {''ANY'', ''CNAME''}"
  shows "answerQuery fuel zones name qty client = None"
  using assms(2,3)
proof (induction fuel arbitrary: zones name)
  case (Suc n)
  from assms(1) Suc.prems(2) obtain t where t: "t \<in> S" "cname_next z (dns_lower name) = Some t" by blast
  then obtain v where v: "t = dns_lower v" "in_zone t (z_zone z)"
    by (auto simp: cname_next_def split: option.splits if_splits)
  then have "findZone [z] (dns_lower t) = Some z" by (simp add: findZone_single)
  with Suc.IH [of "[z]" t] t(1) v(1) have "answerQuery n [z] t qty client = None" by simp
  with Suc.prems(1) t(2) assms(4) show ?case by (rule answerQuery_follows)
qed simp

section \<open>TXT strings\<close>

text \<open>
  What well-formed UTF-8 gives: the first byte starts a character, and no character has more
  than three continuation bytes.
\<close>

definition utf8_runs :: "nat list \<Rightarrow> bool" where
  "utf8_runs buf \<longleftrightarrow> (buf \<noteq> [] \<longrightarrow> \<not> is_continuation (hd buf))
     \<and> (\<forall>i < length buf - 3. \<exists>j < 4. \<not> is_continuation (buf ! (i + j)))"

lemma txt_cut_le: "txt_cut buf n \<le> n"
  by (induction n) auto

lemma txt_cut_at: "txt_cut buf n = 0 \<or> length buf \<le> txt_cut buf n \<or> \<not> is_continuation (buf ! txt_cut buf n)"
  by (induction n) auto

lemma txt_cut_ge:
  assumes "0 < j" "j \<le> n" "length buf \<le> j \<or> \<not> is_continuation (buf ! j)"
  shows "j \<le> txt_cut buf n"
  using assms(2)
proof (induction n)
  case (Suc n)
  with assms(1,3) show ?case by (cases "j = Suc n") auto
qed (use assms(1) in simp)

lemma txt_cut_pos:
  assumes "utf8_runs buf" "buf \<noteq> []"
  shows "0 < txt_cut buf (min 255 (length buf))"
proof (cases "255 < length buf")
  case True
  then have "252 < length buf - 3" by simp
  with assms(1) obtain j where "j < 4" "\<not> is_continuation (buf ! (252 + j))" unfolding utf8_runs_def by blast
  with txt_cut_ge [of "252 + j" 255 buf] True show ?thesis by simp
next
  case False
  then have m: "min 255 (length buf) = length buf" by simp
  from assms(2) have "0 < length buf" by blast
  also have "\<dots> \<le> txt_cut buf (length buf)" using calculation by (intro txt_cut_ge) simp_all
  finally show ?thesis unfolding m .
qed

lemma utf8_runs_drop:
  assumes "utf8_runs buf" "length buf \<le> k \<or> \<not> is_continuation (buf ! k)"
  shows "utf8_runs (drop k buf)"
proof -
  have "\<exists>j < 4. \<not> is_continuation (drop k buf ! (i + j))" if i: "i < length (drop k buf) - 3" for i
  proof -
    from i have "k + i < length buf - 3" by simp
    with assms(1) obtain j where "j < 4" "\<not> is_continuation (buf ! (k + i + j))" unfolding utf8_runs_def by blast
    with i show ?thesis by (intro exI [of _ j]) (simp add: add.assoc)
  qed
  moreover have "\<not> is_continuation (hd (drop k buf))" if "drop k buf \<noteq> []"
    using that assms(2) by (simp add: hd_drop_conv_nth)
  ultimately show ?thesis by (simp add: utf8_runs_def)
qed

definition txt_good :: "nat list \<Rightarrow> nat list list \<Rightarrow> bool" where
  "txt_good buf ps \<longleftrightarrow> concat ps = buf \<and> (\<forall>p \<in> set ps. length p \<le> 255 \<and> (p \<noteq> [] \<longrightarrow> \<not> is_continuation (hd p)))"

lemma txt_pieces_good:
  "utf8_runs buf \<Longrightarrow> length buf \<le> fuel \<Longrightarrow> \<exists>ps. txt_pieces fuel buf = Some ps \<and> txt_good buf ps"
proof (induction fuel buf rule: txt_pieces.induct)
  case (3 fuel b bs)
  let ?buf = "b # bs"
  define cut where "cut = txt_cut ?buf (min 255 (length ?buf))"
  have cut: "0 < cut" unfolding cut_def by (rule txt_cut_pos [OF 3(2)]) simp
  have cut_le: "cut \<le> 255"
    using txt_cut_le [of ?buf "min 255 (length ?buf)", folded cut_def] by (simp only: min.bounded_iff)
  from cut have "length ?buf \<le> cut \<or> \<not> is_continuation (?buf ! cut)"
    using txt_cut_at [of ?buf "min 255 (length ?buf)", folded cut_def] by blast
  then have "utf8_runs (drop cut ?buf)" by (rule utf8_runs_drop [OF 3(2)])
  moreover have "length (drop cut ?buf) \<le> fuel" using 3(3) cut by simp
  ultimately obtain ps where ps: "txt_pieces fuel (drop cut ?buf) = Some ps" "txt_good (drop cut ?buf) ps"
    using 3(1) [OF cut_def] by blast
  have "txt_pieces (Suc fuel) ?buf = Some (take cut ?buf # ps)"
    using ps(1) by (simp only: txt_pieces.simps Let_def cut_def [symmetric]) simp
  moreover have "txt_good ?buf (take cut ?buf # ps)"
    using ps(2) cut cut_le 3(2) by (auto simp: txt_good_def utf8_runs_def)
  ultimately show ?case by blast
qed (auto simp: txt_good_def)

text \<open>
  A TXT value of any length becomes character strings that carry it whole: the pieces
  concatenate to the value, each has at most 255 bytes (the limit of the wire format), and none
  begins in the middle of a character.
\<close>

theorem txt_strings_carry_value:
  assumes "utf8_runs buf"
  shows "\<exists>ps. txtStrings buf = Some ps \<and> concat ps = buf
    \<and> (\<forall>p \<in> set ps. length p \<le> 255 \<and> (p \<noteq> [] \<longrightarrow> \<not> is_continuation (hd p)))"
proof (cases "length buf \<le> 255")
  case True
  with assms show ?thesis by (simp add: txtStrings_def utf8_runs_def)
next
  case False
  with txt_pieces_good [OF assms order_refl] show ?thesis by (simp add: txtStrings_def txt_good_def)
qed

theorem txt_strings_carry_value_witness:
  "utf8_runs (replicate 300 65) \<and> (\<exists>ps. txtStrings (replicate 300 65) = Some ps \<and> concat ps = replicate 300 65
    \<and> (\<forall>p \<in> set ps. length p \<le> 255))"
proof -
  have "\<exists>j < 4. \<not> is_continuation (replicate 300 65 ! (i + j))" if "i < 297" for i
    using that by (intro exI [of _ 0]) (simp add: is_continuation_def)
  then have "utf8_runs (replicate 300 65)" by (simp add: utf8_runs_def is_continuation_def)
  with txt_strings_carry_value [OF this] show ?thesis by blast
qed

section \<open>A small zone\<close>

text \<open>
  A zone \<^verbatim>\<open>a.io\<close> with an alias \<^verbatim>\<open>w.a.io\<close> for \<^verbatim>\<open>h.a.io\<close>, and, when \<open>loop\<close> is set, an alias back.
\<close>

definition demo_static :: "string \<Rightarrow> dns_rtype \<Rightarrow> string \<Rightarrow> static_record" where
  "demo_static n ty v = \<lparr>s_rname = n, s_rtype = ty, s_value = v, s_ttl = None, s_priority = None\<rparr>"

definition demo_zone :: "bool \<Rightarrow> zone_snapshot" where
  "demo_zone loop = \<lparr>z_zone = ''a.io'', z_serial = 1, z_ttl = 60,
     z_soa = \<lparr>soa_mname = ''ns1.a.io'', soa_rname = ''h.a.io'', soa_refresh = 1, soa_retry = 1, soa_expire = 1, soa_minimum = 1\<rparr>,
     z_nameservers = [], z_geoRecords = [],
     z_staticRecords = [demo_static ''w'' TypeCNAME ''h.a.io'',
       if loop then demo_static ''h'' TypeCNAME ''w.a.io'' else demo_static ''h'' TypeA ''10.0.0.1'']\<rparr>"

definition demo_client :: client_location where
  "demo_client = \<lparr>cl_coord = None, cl_region = None\<rparr>"

lemmas demo_names = dns_lower_def strip_dots_def js_lower_def lower_char_def less_eq_char_def relativeToFqdn_def
  in_zone_def js_ends_with_def Let_def

lemmas demo_view = cname_next_def cname_view_def viewName_def view_cname_def demo_static_def demo_zone_def demo_names

theorem zone_longest_match_witness:
  "findZone [demo_zone False] ''w.a.io.'' = Some (demo_zone False) \<and> in_zone (dns_lower ''w.a.io.'') (z_zone (demo_zone False))"
proof -
  have f: "findZone [demo_zone False] ''w.a.io.'' = Some (demo_zone False)"
    by (simp add: findZone_def demo_zone_def demo_names)
  with zone_longest_match [of "[demo_zone False]" "''w.a.io.''"] show ?thesis by simp
qed


lemma wildcardFor_owner: "wildcardFor z m = Some (ow, v) \<Longrightarrow> \<exists>up. v = viewName z (''*.'' @ up)"
  by (induction z m rule: wildcardFor.induct)
    (subst (asm) (2) wildcardFor.simps, auto simp: Let_def split: if_splits)

lemma demo_cname:
  assumes "view_cname (viewName (demo_zone False) m) = Some r"
  shows "m = ''w.a.io'' \<and> s_value r = ''h.a.io''"
  using assms by (auto simp: demo_view split: if_splits)

lemma demo_wild: "view_cname (viewName (demo_zone False) (''*.'' @ up)) = None"
  using demo_cname [of "''*.'' @ up"] by (cases "view_cname (viewName (demo_zone False) (''*.'' @ up))") auto

lemma demo_next:
  assumes "cname_next (demo_zone False) m = Some t"
  shows "m = ''w.a.io'' \<and> t = ''h.a.io''"
proof -
  from assms obtain view r where "cname_view (demo_zone False) m = Some view" "view_cname view = Some r" "t = dns_lower (s_value r)"
    by (cases "cname_view (demo_zone False) m") (auto simp: cname_next_def split: option.splits if_splits)
  moreover from this have "view = viewName (demo_zone False) m"
    using demo_wild wildcardFor_owner [of "demo_zone False" m] by (fastforce simp: cname_view_def split: if_splits)
  ultimately show ?thesis using demo_cname [of m r] by (simp add: demo_names)
qed

theorem acyclic_zone_answers_witness:
  "\<exists>a. answerQuery 2 [demo_zone False] ''w.a.io'' (Some ''a'') demo_client = Some a"
proof (rule acyclic_zone_answers [where rank = "\<lambda>m. if m = ''w.a.io'' then 1 else 0"])
  show "\<forall>z \<in> set [demo_zone False]. \<forall>m t. cname_next z m = Some t \<longrightarrow>
      (if t = ''w.a.io'' then 1 else 0) < (if m = ''w.a.io'' then 1 else (0::nat))"
    using demo_next by auto
  show "(if dns_lower ''w.a.io'' = ''w.a.io'' then 1 else 0) < (2::nat)" by simp
qed

theorem cname_loop_never_answers_witness:
  "answerQuery 100 [demo_zone True] ''w.a.io'' None demo_client = None"
proof (rule cname_loop_never_answers [where S = "{''w.a.io'', ''h.a.io''}" and z = "demo_zone True"])
  show "\<forall>m \<in> {''w.a.io'', ''h.a.io''}. \<exists>t \<in> {''w.a.io'', ''h.a.io''}. cname_next (demo_zone True) m = Some t"
    by (simp add: demo_view)
  show "findZone [demo_zone True] (dns_lower ''w.a.io'') = Some (demo_zone True)"
    by (simp add: findZone_def demo_zone_def demo_names)
  show "dns_lower ''w.a.io'' \<in> {''w.a.io'', ''h.a.io''}" by (simp add: demo_names)
  show "js_upper (opt_or None ''A'') \<notin> {''ANY'', ''CNAME''}" by (simp add: js_upper_def upper_char_def opt_or_def)
qed

end
