(* ===== verification/Picker.thy ===== *)
theory Picker
  imports DbStorage
begin

text \<open>
  Where data and roles go when a server is retired: the node helpers and the class
  \<^verbatim>\<open>DestinationPicker\<close> of \<^verbatim>\<open>packages/trpc/src/services/node-decommission.plan.ts\<close>.

  The picker's two maps are its state: the bytes this plan has already promised to a server and
  the number of data services pinned to it. \<open>pick\<close> returns the picker it leaves behind. Byte
  counts are integers and the headroom \<^verbatim>\<open>total * 85 / 100 - used - reserved\<close> is a rational
  number (the code computes it in doubles). \<^verbatim>\<open>localeCompare\<close> is the argument \<open>lc\<close>. The
  sentences that explain a choice are not modelled.
\<close>

section \<open>Definitions\<close>

datatype node_role = Manager | Worker
datatype availability = AvActive | AvPause | AvDrain
datatype node_status = StUnknown | StDown | StReady | StDisconnected

record swarm_info =
  sw_nodeId :: string
  sw_role :: node_role
  sw_availability :: availability
  sw_status :: node_status
  sw_leader :: bool
  sw_addr :: "string option"
  sw_labels :: labels

record disk_sample =
  ds_used :: int
  ds_total :: int

record decom_node =
  dn_nodeId :: string
  dn_hostname :: string
  dn_online :: bool
  dn_swarm :: "swarm_info option"
  dn_hostsController :: bool
  dn_disk :: "disk_sample option"
  dn_meshPeer :: bool

definition NODE_REGION :: string where "NODE_REGION = ''swarmy.region''"
definition NODE_PUBLIC_IP :: string where "NODE_PUBLIC_IP = ''swarmy.node.public-ip''"
definition NODE_PUBLIC_IP_OVERRIDE :: string where "NODE_PUBLIC_IP_OVERRIDE = ''swarmy.node.public-ip.override''"
definition NODE_REACHABILITY :: string where "NODE_REACHABILITY = ''swarmy.node.reachability''"
definition NODE_REACHABILITY_OVERRIDE :: string where
  "NODE_REACHABILITY_OVERRIDE = ''swarmy.node.reachability.override''"
definition CACHE_PIN :: string where "CACHE_PIN = ''swarmy.cache.node''"
definition SEARCH_PIN :: string where "SEARCH_PIN = ''swarmy.search.node''"
definition VECTOR_PIN :: string where "VECTOR_PIN = ''swarmy.vector.node''"

definition PINNED_DATA_LABELS :: "string list" where
  "PINNED_DATA_LABELS = [DB_PIN_NODE_LABEL, CACHE_PIN, SEARCH_PIN, VECTOR_PIN]"

definition DESTINATION_MAX_USED_PCT :: int where "DESTINATION_MAX_USED_PCT = 85"

text \<open>\<^verbatim>\<open>n.swarm?.labels[k]\<close>.\<close>

definition node_label :: "decom_node \<Rightarrow> string \<Rightarrow> string option" where
  "node_label n k = Option.bind (dn_swarm n) (\<lambda>s. lbl (sw_labels s) k)"

definition isSchedulable :: "decom_node \<Rightarrow> bool" where
  "isSchedulable n = (dn_online n \<and> (case dn_swarm n of None \<Rightarrow> False
      | Some s \<Rightarrow> sw_status s = StReady \<and> sw_availability s = AvActive))"

definition node_ip :: "decom_node \<Rightarrow> string option" where
  "node_ip n = str_or (node_label n NODE_PUBLIC_IP_OVERRIDE) (node_label n NODE_PUBLIC_IP)"

definition hasPublicIp :: "decom_node \<Rightarrow> bool" where
  "hasPublicIp n = truthy (node_ip n)"

datatype reach_level = RPublic | RProbablyPublic | RUnknown | RNat

definition REACH_RANK :: "reach_level \<Rightarrow> nat" where
  "REACH_RANK r = (case r of RPublic \<Rightarrow> 0 | RProbablyPublic \<Rightarrow> 1 | RUnknown \<Rightarrow> 2 | RNat \<Rightarrow> 3)"

definition nodeReachability :: "decom_node \<Rightarrow> reach_level" where
  "nodeReachability n =
     (let override = node_label n NODE_REACHABILITY_OVERRIDE; ip = node_ip n;
          reported = node_label n NODE_REACHABILITY
      in if override = Some ''public'' then RPublic
         else if override = Some ''nat'' then RNat
         else if reported = Some ''nat'' then RNat
         else if reported = Some ''public'' then RPublic
         else if truthy ip \<and> Option.bind (dn_swarm n) sw_addr = ip then RPublic
         else if truthy ip then RProbablyPublic
         else RUnknown)"

subsection \<open>DestinationPicker\<close>

record picker =
  pk_nodes :: "decom_node list"
  pk_targetNodeId :: string
  pk_region :: "string option"
  pk_reserved :: "int jsmap"
  pk_pinned :: "nat jsmap"

definition count_up :: "string \<Rightarrow> nat jsmap \<Rightarrow> nat jsmap" where
  "count_up k m = AList.update k (opt_or (map_of m k) 0 + 1) m"

text \<open>The constructor; \<open>services\<close> are the label sets of the live services.\<close>

definition new_picker :: "decom_node list \<Rightarrow> string \<Rightarrow> string option \<Rightarrow> labels list \<Rightarrow> picker" where
  "new_picker nodes target region services =
     \<lparr>pk_nodes = nodes, pk_targetNodeId = target, pk_region = region, pk_reserved = [],
      pk_pinned = fold (\<lambda>l. fold (\<lambda>k m. case lbl l k of
                                       None \<Rightarrow> m
                                     | Some v \<Rightarrow> if v = [] then m else count_up v m) PINNED_DATA_LABELS) services []\<rparr>"

definition reserved_on :: "picker \<Rightarrow> string \<Rightarrow> int" where
  "reserved_on p n = opt_or (map_of (pk_reserved p) n) 0"

definition room :: "picker \<Rightarrow> decom_node \<Rightarrow> rat option" where
  "room p n = (case dn_disk n of
      None \<Rightarrow> None
    | Some d \<Rightarrow>
        if 0 < ds_total d
        then Some (of_int (ds_total d * DESTINATION_MAX_USED_PCT) / 100 - of_int (ds_used d)
                   - of_int (reserved_on p (dn_nodeId n)))
        else None)"

definition in_region :: "picker \<Rightarrow> decom_node \<Rightarrow> bool" where
  "in_region p n = (pk_region p \<noteq> None \<and> node_label n NODE_REGION = pk_region p)"

definition pinnedOn :: "picker \<Rightarrow> decom_node \<Rightarrow> nat" where
  "pinnedOn p n = opt_or (map_of (pk_pinned p) (case dn_swarm n of None \<Rightarrow> [] | Some s \<Rightarrow> sw_nodeId s)) 0"

definition role_cmp :: "(string \<Rightarrow> string \<Rightarrow> int) \<Rightarrow> picker \<Rightarrow> decom_node \<Rightarrow> decom_node \<Rightarrow> int" where
  "role_cmp lc p = then_by (by_key (\<lambda>n. REACH_RANK (nodeReachability n)))
     (then_by (by_key_desc (\<lambda>n. if in_region p n then 1 else 0 :: nat))
     (then_by (by_key_desc (\<lambda>n. opt_or (room p n) (- 1)))
     (then_by (by_key (pinnedOn p)) (\<lambda>a b. lc (dn_nodeId a) (dn_nodeId b)))))"

record role_pick =
  rp_chosen :: "decom_node option"
  rp_natSkipped :: "decom_node list"

definition role_pool :: "picker \<Rightarrow> string list \<Rightarrow> (decom_node \<Rightarrow> bool) \<Rightarrow> decom_node list" where
  "role_pool p exclude ok =
     filter (\<lambda>n. dn_nodeId n \<notin> set (pk_targetNodeId p # exclude) \<and> isSchedulable n \<and> ok n) (pk_nodes p)"

definition pickRoleHost ::
  "(string \<Rightarrow> string \<Rightarrow> int) \<Rightarrow> picker \<Rightarrow> string list \<Rightarrow> (decom_node \<Rightarrow> bool) \<Rightarrow> role_pick" where
  "pickRoleHost lc p exclude ok =
     (let pool = role_pool p exclude ok;
          eligible = filter (\<lambda>n. nodeReachability n \<noteq> RNat) pool
      in \<lparr>rp_chosen = (case js_sort (role_cmp lc p) eligible of [] \<Rightarrow> None | n # _ \<Rightarrow> Some n),
          rp_natSkipped = filter (\<lambda>n. nodeReachability n = RNat) pool\<rparr>)"

definition data_cmp :: "(string \<Rightarrow> string \<Rightarrow> int) \<Rightarrow> picker \<Rightarrow> decom_node \<Rightarrow> decom_node \<Rightarrow> int" where
  "data_cmp lc p = then_by (by_key_desc (\<lambda>n. if in_region p n then 1 else 0 :: nat))
     (then_by (by_key (pinnedOn p))
     (then_by (by_key_desc (\<lambda>n. opt_or (room p n) (- 1))) (\<lambda>a b. lc (dn_nodeId a) (dn_nodeId b))))"

definition can_take :: "picker \<Rightarrow> int option \<Rightarrow> decom_node \<Rightarrow> bool" where
  "can_take p bytes n = (case (room p n, bytes) of (Some r, Some b) \<Rightarrow> of_int b \<le> r | _ \<Rightarrow> True)"

definition reserve :: "decom_node \<Rightarrow> int option \<Rightarrow> picker \<Rightarrow> picker" where
  "reserve n bytes p =
     (let p1 = (case bytes of None \<Rightarrow> p
                | Some b \<Rightarrow> if b = 0 then p
                            else p\<lparr>pk_reserved := AList.update (dn_nodeId n) (reserved_on p (dn_nodeId n) + b) (pk_reserved p)\<rparr>)
      in case dn_swarm n of
           None \<Rightarrow> p1
         | Some s \<Rightarrow> if sw_nodeId s = [] then p1 else p1\<lparr>pk_pinned := count_up (sw_nodeId s) (pk_pinned p1)\<rparr>)"

definition pick ::
  "(string \<Rightarrow> string \<Rightarrow> int) \<Rightarrow> picker \<Rightarrow> int option \<Rightarrow> string list \<Rightarrow> decom_node option \<times> picker" where
  "pick lc p bytes exclude =
     (let candidates = filter (\<lambda>n. dn_nodeId n \<notin> set (pk_targetNodeId p # exclude) \<and> isSchedulable n \<and> can_take p bytes n)
                         (pk_nodes p)
      in case js_sort (data_cmp lc p) candidates of
           [] \<Rightarrow> (None, p)
         | n # _ \<Rightarrow> (Some n, reserve n bytes p))"

section \<open>Choosing a host for a role\<close>

lemma role_cmp_consistent [js_cmp]: "js_comparator lc \<Longrightarrow> js_comparator (role_cmp lc p)"
  unfolding role_cmp_def
  by (intro js_comparator_then_by js_comparator_by_key js_comparator_by_key_desc)
    (unfold_locales, auto intro: js_comparator.cmp_trans simp: js_comparator.cmp_anti)

lemma sorted_head_mem: "js_sort cmp xs = n # ns \<Longrightarrow> n \<in> set xs"
  by (metis list.set_intros(1) set_js_sort)

lemma pickRoleHost_mem:
  assumes "rp_chosen (pickRoleHost lc p exclude ok) = Some n"
  shows "n \<in> set (pk_nodes p) \<and> isSchedulable n \<and> ok n \<and> nodeReachability n \<noteq> RNat
    \<and> dn_nodeId n \<noteq> pk_targetNodeId p \<and> dn_nodeId n \<notin> set exclude"
  using assms by (auto simp: pickRoleHost_def role_pool_def Let_def split: list.splits dest!: sorted_head_mem)

lemma pickRoleHost_None:
  "rp_chosen (pickRoleHost lc p exclude ok) = None \<longleftrightarrow>
     (\<forall>n \<in> set (role_pool p exclude ok). nodeReachability n = RNat)"
proof -
  have "rp_chosen (pickRoleHost lc p exclude ok) = None \<longleftrightarrow>
      js_sort (role_cmp lc p) (filter (\<lambda>n. nodeReachability n \<noteq> RNat) (role_pool p exclude ok)) = []"
    unfolding pickRoleHost_def Let_def
    by (cases "js_sort (role_cmp lc p) (filter (\<lambda>n. nodeReachability n \<noteq> RNat) (role_pool p exclude ok))")
      (simp_all del: js_sort_Nil_iff)
  then show ?thesis by (simp add: filter_empty_conv)
qed

lemma role_cmp_le:
  "role_cmp lc p a b \<le> 0 \<Longrightarrow> REACH_RANK (nodeReachability a) \<le> REACH_RANK (nodeReachability b)
    \<and> (nodeReachability a = nodeReachability b \<longrightarrow> in_region p b \<longrightarrow> in_region p a)"
  unfolding role_cmp_def
  by (subst (asm) then_by_le_0, subst (asm) then_by_le_0) (auto split: if_splits)

text \<open>
  A platform role (manager, object storage member, edge) goes to a server the others can
  reach: the choice is schedulable, not the retiring server, not excluded, passes the caller's
  filter and is not behind NAT; no candidate is more reachable, and none as reachable lies in
  the retiring server's region when the choice does not. There is no choice only if every
  candidate is behind NAT.
\<close>

theorem role_host_is_reachable:
  assumes "js_comparator lc"
  shows "case rp_chosen (pickRoleHost lc p exclude ok) of
      None \<Rightarrow> \<forall>m \<in> set (role_pool p exclude ok). nodeReachability m = RNat
    | Some n \<Rightarrow> n \<in> set (pk_nodes p) \<and> isSchedulable n \<and> ok n \<and> nodeReachability n \<noteq> RNat
        \<and> dn_nodeId n \<noteq> pk_targetNodeId p \<and> dn_nodeId n \<notin> set exclude
        \<and> (\<forall>m \<in> set (role_pool p exclude ok). REACH_RANK (nodeReachability n) \<le> REACH_RANK (nodeReachability m)
             \<and> (nodeReachability m = nodeReachability n \<longrightarrow> in_region p m \<longrightarrow> in_region p n))"
proof (cases "rp_chosen (pickRoleHost lc p exclude ok)")
  case None
  with pickRoleHost_None [of lc p exclude ok] show ?thesis by simp
next
  case (Some n)
  let ?el = "filter (\<lambda>n. nodeReachability n \<noteq> RNat) (role_pool p exclude ok)"
  from Some obtain ns where s: "js_sort (role_cmp lc p) ?el = n # ns"
    by (auto simp: pickRoleHost_def Let_def split: list.splits)
  have "REACH_RANK (nodeReachability n) \<le> REACH_RANK (nodeReachability m)
      \<and> (nodeReachability m = nodeReachability n \<longrightarrow> in_region p m \<longrightarrow> in_region p n)"
    if m: "m \<in> set (role_pool p exclude ok)" for m
  proof (cases "nodeReachability m = RNat")
    case True
    then show ?thesis using pickRoleHost_mem [OF Some] by (auto simp: REACH_RANK_def split: reach_level.split)
  next
    case False
    with m have "m \<in> set (n # ns)" using set_js_sort [of "role_cmp lc p" ?el] s by simp
    from js_comparator.js_sort_head_le [OF role_cmp_consistent [OF assms] s this] role_cmp_le show ?thesis by metis
  qed
  with pickRoleHost_mem [OF Some] Some show ?thesis by simp
qed

definition demo_node :: "string \<Rightarrow> node_role \<Rightarrow> decom_node" where
  "demo_node n r = \<lparr>dn_nodeId = n, dn_hostname = n, dn_online = True,
     dn_swarm = Some \<lparr>sw_nodeId = CHR ''s'' # n, sw_role = r, sw_availability = AvActive, sw_status = StReady, sw_leader = False,
       sw_addr = None, sw_labels = [(NODE_PUBLIC_IP, ''198.51.100.7'')]\<rparr>,
     dn_hostsController = False, dn_disk = Some \<lparr>ds_used = 10, ds_total = 100\<rparr>, dn_meshPeer = False\<rparr>"

definition demo_picker :: picker where
  "demo_picker = new_picker [demo_node ''a'' Manager, demo_node ''b'' Worker] ''a'' None []"

theorem role_host_is_reachable_witness:
  "rp_chosen (pickRoleHost (by_key (\<lambda>s. s)) demo_picker [] (\<lambda>_. True)) = Some (demo_node ''b'' Worker)
     \<and> nodeReachability (demo_node ''b'' Worker) \<noteq> RNat"
proof -
  have c: "rp_chosen (pickRoleHost (by_key (\<lambda>s. s)) demo_picker [] (\<lambda>_. True)) = Some (demo_node ''b'' Worker)"
    by (simp add: pickRoleHost_def role_pool_def demo_picker_def new_picker_def demo_node_def isSchedulable_def
        nodeReachability_def node_label_def node_ip_def str_or_def truthy_def lbl_def NODE_PUBLIC_IP_def
        NODE_PUBLIC_IP_OVERRIDE_def NODE_REACHABILITY_def NODE_REACHABILITY_OVERRIDE_def Let_def)
  with role_host_is_reachable [OF js_comparator_by_key [of "\<lambda>s. s"], of demo_picker "[]" "\<lambda>_. True"]
  show ?thesis by simp
qed

section \<open>Choosing a host for data\<close>

text \<open>
  The contract of the chooser, as the planner uses it: \<open>held\<close> is what it has promised to a
  server, \<open>fit\<close> says that no promise overfills one.
\<close>

locale data_chooser =
  fixes place :: "'p \<Rightarrow> int option \<Rightarrow> 'n option \<times> 'p"
    and held :: "'p \<Rightarrow> 'n \<Rightarrow> int"
    and fit :: "'p \<Rightarrow> bool"
    and allowed :: "'p \<Rightarrow> 'n \<Rightarrow> bool"
  assumes place_fit: "fit p \<Longrightarrow> 0 \<le> opt_or b 0 \<Longrightarrow> fit (snd (place p b))"
    and place_held: "fst (place p b) = Some n \<Longrightarrow> held (snd (place p b)) n = held p n + opt_or b 0"
    and place_keeps: "fst (place p b) \<noteq> Some n \<Longrightarrow> held (snd (place p b)) n = held p n"
    and place_allowed: "fst (place p b) = Some n \<Longrightarrow> allowed p n"
    and allowed_stable: "allowed (snd (place p b)) n = allowed p n"
begin

lemma place_grows: "0 \<le> opt_or b 0 \<Longrightarrow> held p n \<le> held (snd (place p b)) n"
  using place_held [of p b n] place_keeps [of p b n] by (cases "fst (place p b) = Some n") auto

text \<open>A ledger of what was placed stays covered by what is held.\<close>

lemma ledger:
  assumes "\<And>n. placed n \<le> held p n" and "fst (place p b) = Some c" and "placed' = placed(c := placed c + x)"
    and "x \<le> opt_or b 0"
  shows "placed' n \<le> held (snd (place p b)) n"
proof (cases "n = c")
  case True
  with assms(1) [of c] assms(2-4) place_held [OF assms(2)] show ?thesis by simp
next
  case False
  with assms(1) [of n] assms(2,3) place_keeps [of p b n] show ?thesis by simp
qed

end

definition place_data ::
  "(string \<Rightarrow> string \<Rightarrow> int) \<Rightarrow> string list \<Rightarrow> picker \<Rightarrow> int option \<Rightarrow> string option \<times> picker" where
  "place_data lc exclude p bytes = (case pick lc p bytes exclude of (n, p') \<Rightarrow> (map_option dn_nodeId n, p'))"

text \<open>No server that was promised data is filled beyond the pressure line.\<close>

definition room_ok :: "picker \<Rightarrow> bool" where
  "room_ok p \<longleftrightarrow> distinct (map dn_nodeId (pk_nodes p))
     \<and> (\<forall>n \<in> set (pk_nodes p). reserved_on p (dn_nodeId n) = 0
          \<or> (case room p n of None \<Rightarrow> True | Some r \<Rightarrow> 0 \<le> r))"

definition may_host :: "picker \<Rightarrow> string \<Rightarrow> bool" where
  "may_host p k \<longleftrightarrow> k \<noteq> pk_targetNodeId p \<and> (\<exists>n \<in> set (pk_nodes p). dn_nodeId n = k \<and> isSchedulable n)"

lemma reserve_simps [simp]:
  "pk_nodes (reserve n b p) = pk_nodes p" "pk_targetNodeId (reserve n b p) = pk_targetNodeId p"
  "pk_region (reserve n b p) = pk_region p"
  by (auto simp: reserve_def Let_def split: option.split)

lemma reserved_on_reserve:
  "reserved_on (reserve n b p) k = reserved_on p k + (if k = dn_nodeId n then opt_or b 0 else 0)"
  by (auto simp: reserve_def reserved_on_def Let_def update_conv' opt_or_def split: option.splits)

lemma room_reserve:
  "room (reserve n b p) m = map_option (\<lambda>r. r - (if dn_nodeId m = dn_nodeId n then of_int (opt_or b 0) else 0)) (room p m)"
  by (auto simp: room_def reserved_on_reserve split: option.split)

lemma pick_cases:
  assumes "pick lc p b exclude = (c, p')"
  obtains (none) "c = None" "p' = p"
  | (some) n where "c = Some n" "p' = reserve n b p" "n \<in> set (pk_nodes p)" "isSchedulable n"
      "dn_nodeId n \<noteq> pk_targetNodeId p" "dn_nodeId n \<notin> set exclude" "can_take p b n"
proof (cases "js_sort (data_cmp lc p) (filter (\<lambda>n. dn_nodeId n \<notin> set (pk_targetNodeId p # exclude)
    \<and> isSchedulable n \<and> can_take p b n) (pk_nodes p))")
  case Nil
  with assms none show ?thesis by (simp add: pick_def)
next
  case (Cons n ns)
  with assms have e: "c = Some n" "p' = reserve n b p" unfolding pick_def Let_def by simp_all
  from sorted_head_mem [OF Cons] some [OF e] show ?thesis by simp
qed

lemma room_ok_reserve:
  assumes "room_ok p" "n \<in> set (pk_nodes p)" "can_take p b n" "0 \<le> opt_or b 0"
  shows "room_ok (reserve n b p)"
proof -
  have "reserved_on (reserve n b p) (dn_nodeId m) = 0 \<or> (case room (reserve n b p) m of None \<Rightarrow> True | Some r \<Rightarrow> 0 \<le> r)"
    if m: "m \<in> set (pk_nodes p)" for m
  proof (cases "dn_nodeId m = dn_nodeId n")
    case True
    with m assms(1,2) have "m = n" by (auto simp: room_ok_def distinct_map inj_on_def)
    with assms show ?thesis
      by (cases b) (auto simp: room_ok_def reserved_on_reserve room_reserve can_take_def opt_or_def split: option.splits)
  next
    case False
    with m assms(1) show ?thesis by (auto simp: room_ok_def reserved_on_reserve room_reserve split: option.splits)
  qed
  with assms(1) show ?thesis by (simp add: room_ok_def)
qed

interpretation chooser: data_chooser "place_data lc exclude" reserved_on room_ok may_host for lc exclude
proof
  fix p b n
  obtain c p' where e: "pick lc p b exclude = (c, p')" by fastforce
  show "room_ok p \<Longrightarrow> 0 \<le> opt_or b 0 \<Longrightarrow> room_ok (snd (place_data lc exclude p b))"
    by (rule pick_cases [OF e]) (auto simp: place_data_def e room_ok_reserve)
  show "fst (place_data lc exclude p b) = Some n \<Longrightarrow>
      reserved_on (snd (place_data lc exclude p b)) n = reserved_on p n + opt_or b 0"
    by (rule pick_cases [OF e]) (auto simp: place_data_def e reserved_on_reserve)
  show "fst (place_data lc exclude p b) \<noteq> Some n \<Longrightarrow> reserved_on (snd (place_data lc exclude p b)) n = reserved_on p n"
    by (rule pick_cases [OF e]) (auto simp: place_data_def e reserved_on_reserve)
  show "fst (place_data lc exclude p b) = Some n \<Longrightarrow> may_host p n"
    by (rule pick_cases [OF e]) (auto simp: place_data_def e may_host_def)
  show "may_host (snd (place_data lc exclude p b)) n = may_host p n"
    by (rule pick_cases [OF e]) (auto simp: place_data_def e may_host_def)
qed

end
