(* ===== verification/Decommission.thy ===== *)
theory Decommission
  imports Picker
begin

text \<open>
  Retiring a server: the planner \<^verbatim>\<open>planDecommission\<close> of
  \<^verbatim>\<open>packages/trpc/src/services/node-decommission.plan.ts\<close>.

  The planner's local variables are the fields of the record \<open>draft\<close>, and each of its sections
  is a function from draft to draft; \<open>lc\<close> is \<^verbatim>\<open>localeCompare\<close>. A step keeps its id, kind,
  subject, volumes, destination, downtime and bytes, a blocker its code and subject, a warning
  is a constructor with the values its sentence quotes. The prose of titles, details and the
  summary is not modelled, nor is what only the prose reads (the image pattern, the formatting
  of byte counts). \<^verbatim>\<open>Number\<close> of the replica-count label is modelled for decimal numerals.
\<close>

section \<open>Definitions\<close>

definition DB_CLUSTER :: string where "DB_CLUSTER = ''swarmy.db.cluster''"
definition DB_ROLE :: string where "DB_ROLE = ''swarmy.db.role''"
definition DB_TOPOLOGY :: string where "DB_TOPOLOGY = ''swarmy.db.topology''"
definition DB_REPLICAS :: string where "DB_REPLICAS = ''swarmy.db.replicas''"
definition DB_MEMBER :: string where "DB_MEMBER = ''swarmy.db.member''"
definition CACHE_CLUSTER :: string where "CACHE_CLUSTER = ''swarmy.cache.cluster''"
definition CACHE_ROLE :: string where "CACHE_ROLE = ''swarmy.cache.role''"
definition CACHE_REPLICAS :: string where "CACHE_REPLICAS = ''swarmy.cache.replicas''"
definition NODE_INGRESS :: string where "NODE_INGRESS = ''swarmy.node.ingress''"
definition NODE_OUTLET :: string where "NODE_OUTLET = ''swarmy.node.outlet''"
definition SERVICE_NAME_LABEL :: string where "SERVICE_NAME_LABEL = ''com.docker.swarm.service.name''"
definition STACK_LABEL :: string where "STACK_LABEL = ''com.docker.stack.namespace''"
definition GARAGE_MEMBER_NODE_LABEL :: string where "GARAGE_MEMBER_NODE_LABEL = ''swarmy.garage.member''"
definition SAFETY_BACKUP_MAX_AGE_MS :: int where "SAFETY_BACKUP_MAX_AGE_MS = 86400000"

datatype service_mode = Replicated | GlobalMode

record decom_service =
  sv_name :: string
  sv_mode :: service_mode
  sv_desired :: "nat option"
  sv_labels :: labels

record decom_mount =
  dm_type :: "string option"
  dm_source :: "string option"

record decom_container =
  dc_serviceName :: "string option"
  dc_labels :: labels
  dc_mounts :: "decom_mount list"

record decom_volume =
  dv_name :: string
  dv_driver :: "string option"
  dv_size :: "int option"

record decom_input =
  di_target :: string
  di_nodes :: "decom_node list"
  di_services :: "decom_service list"
  di_containers :: "decom_container list"
  di_volumes :: "decom_volume list"
  di_lastBackupAt :: "int jsmap"
  di_backupsConfigured :: bool
  di_garageReplicationFactor :: "nat option"
  di_now :: int

datatype step_kind =
    SafetyBackup | Cordon | ManagerPromote | EdgeHandover | GarageAddMember | GarageLeave
  | DbSwitchover | DbStandbySwitchover | DbFailoverStep | VolumeCopy | VolumeFollow | VolumeRestore
  | DrainNode | GarageAwaitResync | ManagerDemote | SwarmLeave | MeshRemove | Forget

datatype downtime = DtNone | DtSeconds | DtShort | DtUnknown

record drain_step =
  st_id :: string
  st_kind :: step_kind
  st_subject :: "string option"
  st_volumes :: "string list"
  st_destination :: "string option"
  st_downtime :: downtime
  st_bytes :: "int option"

datatype blocker_code =
    UnknownNode | NotInSwarm | ControllerHost | LastNode | NoManagerCandidate | NoDestination
  | DataUnreachable | UnsupportedTopology | GarageNoReplacement | EdgeNoReplacement

record blocker =
  bk_code :: blocker_code
  bk_subject :: "string option"

datatype warning =
    CacheOffline string bool
  | BindFolder string string
  | ScratchVolume string
  | CopyDropped string nat
  | PointDomains string
  | EvenManagers nat
  | NoSafetyCopy
  | ReplicaSlots string nat int

record draft =
  dr_picker :: picker
  dr_blockers :: "blocker list"
  dr_warnings :: "warning list"
  dr_dataSteps :: "drain_step list"
  dr_volumeSteps :: "drain_step list"
  dr_needsBackup :: "string list"
  dr_stateless :: "string list"
  dr_databases :: nat
  dr_volumeCount :: nat
  dr_bytesToMove :: int
  dr_unknownSizes :: nat
  dr_handled :: "string list"
  dr_csiFollow :: "string list"

record decom_plan =
  pl_steps :: "drain_step list"
  pl_blockers :: "blocker list"
  pl_warnings :: "warning list"
  pl_databases :: nat
  pl_volumes :: nat
  pl_stateless :: nat
  pl_bytesToMove :: int
  pl_unknownSizes :: nat
  pl_runnable :: bool

subsection \<open>Helpers\<close>

text \<open>\<^verbatim>\<open>Number(s) > 0\<close> for a decimal numeral; other text is not a number.\<close>

definition number_positive :: "string \<Rightarrow> bool" where
  "number_positive s =
     (let t = js_trim s; u = (case t of c # cs \<Rightarrow> if c = CHR ''+'' then cs else t | [] \<Rightarrow> t);
          digit = (\<lambda>c. CHR ''0'' \<le> c \<and> c \<le> CHR ''9'')
      in list_all (\<lambda>c. digit c \<or> c = CHR ''.'') u \<and> length (filter (\<lambda>c. c = CHR ''.'') u) \<le> 1
         \<and> list_ex (\<lambda>c. digit c \<and> c \<noteq> CHR ''0'') u)"

definition js_includes :: "string \<Rightarrow> string \<Rightarrow> bool" where
  "js_includes s p = list_ex (\<lambda>i. js_starts_with (drop i s) p) [0..<Suc (length s)]"

text \<open>\<^verbatim>\<open>/^[0-9a-f]{64}$/\<close>.\<close>

definition anonymous_volume :: "string \<Rightarrow> bool" where
  "anonymous_volume v = (length v = 64 \<and> list_all (\<lambda>c. (CHR ''0'' \<le> c \<and> c \<le> CHR ''9'') \<or> (CHR ''a'' \<le> c \<and> c \<le> CHR ''f'')) v)"

definition svl :: "decom_service \<Rightarrow> string \<Rightarrow> string option" where
  "svl s k = lbl (sv_labels s) k"

definition desired_or :: "decom_service option \<Rightarrow> nat \<Rightarrow> nat" where
  "desired_or s d = opt_or (Option.bind s sv_desired) d"

definition sort_strings :: "string list \<Rightarrow> string list" where
  "sort_strings = js_sort (by_key (\<lambda>s. s))"

definition mk_step ::
  "step_kind \<Rightarrow> string \<Rightarrow> string option \<Rightarrow> string list \<Rightarrow> string option \<Rightarrow> downtime \<Rightarrow> int option \<Rightarrow> drain_step" where
  "mk_step k i subject vols dst dt b =
     \<lparr>st_id = i, st_kind = k, st_subject = subject, st_volumes = vols, st_destination = dst, st_downtime = dt, st_bytes = b\<rparr>"

definition serviceByName :: "decom_input \<Rightarrow> string \<Rightarrow> decom_service option" where
  "serviceByName i = map_of (rev (map (\<lambda>s. (sv_name s, s)) (di_services i)))"

definition volumeInfo :: "decom_input \<Rightarrow> string \<Rightarrow> decom_volume option" where
  "volumeInfo i = map_of (rev (map (\<lambda>v. (dv_name v, v)) (di_volumes i)))"

definition sizeOf :: "decom_input \<Rightarrow> string \<Rightarrow> int option" where
  "sizeOf i v = Option.bind (volumeInfo i v) dv_size"

definition last_backup :: "decom_input \<Rightarrow> string \<Rightarrow> int option" where
  "last_backup i v = map_of (di_lastBackupAt i) v"

definition hasFreshBackup :: "decom_input \<Rightarrow> string \<Rightarrow> bool" where
  "hasFreshBackup i v = (case last_backup i v of None \<Rightarrow> False | Some t \<Rightarrow> di_now i - t \<le> SAFETY_BACKUP_MAX_AGE_MS)"

definition swarm_id :: "decom_node \<Rightarrow> string option" where
  "swarm_id t = map_option sw_nodeId (dn_swarm t)"

definition pinned_to :: "string option \<Rightarrow> decom_service \<Rightarrow> bool" where
  "pinned_to swid s = (truthy swid \<and> list_ex (\<lambda>k. svl s k = swid) PINNED_DATA_LABELS)"

text \<open>\<^verbatim>\<open>onTarget\<close>: what runs on the server, with its mounts, in the order of the \<^verbatim>\<open>Map\<close>.\<close>

definition onTarget :: "decom_input \<Rightarrow> decom_node \<Rightarrow> (decom_mount list) jsmap" where
  "onTarget i t =
     (let running = fold (\<lambda>c m.
            let svc = (case dc_serviceName c of Some s \<Rightarrow> Some s | None \<Rightarrow> lbl (dc_labels c) SERVICE_NAME_LABEL)
            in if truthy svc then AList.update (the svc) (opt_or (map_of m (the svc)) [] @ dc_mounts c) m else m)
          (di_containers i) []
      in fold (\<lambda>s m. if pinned_to (swarm_id t) s \<and> map_of m (sv_name s) = None
                     then AList.update (sv_name s) (let vol = svl s DB_DATA_VOLUME_LABEL in
                            if truthy vol then [\<lparr>dm_type = Some ''volume'', dm_source = vol\<rparr>] else []) m
                     else m) (di_services i) running)"

definition block :: "blocker_code \<Rightarrow> string option \<Rightarrow> draft \<Rightarrow> draft" where
  "block c subject d = d\<lparr>dr_blockers := dr_blockers d @ [\<lparr>bk_code = c, bk_subject = subject\<rparr>]\<rparr>"

definition warn :: "warning \<Rightarrow> draft \<Rightarrow> draft" where
  "warn w d = d\<lparr>dr_warnings := dr_warnings d @ [w]\<rparr>"

definition is_stateless :: "string \<Rightarrow> draft \<Rightarrow> draft" where
  "is_stateless s d = d\<lparr>dr_stateless := dr_stateless d @ [s]\<rparr>"

definition mark_handled :: "string \<Rightarrow> draft \<Rightarrow> draft" where
  "mark_handled s d = d\<lparr>dr_handled := js_set_add s (dr_handled d)\<rparr>"

definition data_step :: "drain_step \<Rightarrow> draft \<Rightarrow> draft" where
  "data_step s d = d\<lparr>dr_dataSteps := dr_dataSteps d @ [s]\<rparr>"

definition volume_step :: "drain_step \<Rightarrow> draft \<Rightarrow> draft" where
  "volume_step s d = d\<lparr>dr_volumeSteps := dr_volumeSteps d @ [s]\<rparr>"

definition needs_backup :: "decom_input \<Rightarrow> string list \<Rightarrow> draft \<Rightarrow> draft" where
  "needs_backup i vs d = d\<lparr>dr_needsBackup := fold js_set_add (filter (\<lambda>v. \<not> hasFreshBackup i v) vs) (dr_needsBackup d)\<rparr>"

text \<open>Choose a destination, or block; \<open>k\<close> records the step for the server chosen.\<close>

definition with_destination ::
  "(string \<Rightarrow> string \<Rightarrow> int) \<Rightarrow> string \<Rightarrow> int option \<Rightarrow> (decom_node \<Rightarrow> draft \<Rightarrow> draft) \<Rightarrow> draft \<Rightarrow> draft" where
  "with_destination lc subject bytes k d =
     (case pick lc (dr_picker d) bytes [] of
        (None, p) \<Rightarrow> block NoDestination (Some subject) (d\<lparr>dr_picker := p\<rparr>)
      | (Some n, p) \<Rightarrow> k n (d\<lparr>dr_picker := p\<rparr>))"

definition count_bytes :: "int option \<Rightarrow> nat \<Rightarrow> draft \<Rightarrow> draft" where
  "count_bytes bytes unknown d = (case bytes of
      Some b \<Rightarrow> d\<lparr>dr_bytesToMove := dr_bytesToMove d + b\<rparr>
    | None \<Rightarrow> d\<lparr>dr_unknownSizes := dr_unknownSizes d + unknown\<rparr>)"

subsection \<open>Managed Postgres\<close>

definition is_db_member :: "decom_service \<Rightarrow> bool" where
  "is_db_member s = (truthy (svl s DB_CLUSTER) \<and> svl s DB_ROLE \<noteq> None)"

definition cluster_key :: "decom_service \<Rightarrow> string" where
  "cluster_key s = opt_or (svl s STACK_LABEL) [] @ ''/'' @ opt_or (svl s DB_CLUSTER) []"

definition add_to_cluster :: "decom_service \<Rightarrow> (decom_service list) jsmap \<Rightarrow> (decom_service list) jsmap" where
  "add_to_cluster s m =
     (if is_db_member s then AList.update (cluster_key s) (opt_or (map_of m (cluster_key s)) [] @ [s]) m else m)"

definition db_clusters :: "decom_input \<Rightarrow> (decom_service list) jsmap" where
  "db_clusters i = fold add_to_cluster (di_services i) []"

definition has_replica :: "decom_service list \<Rightarrow> decom_service \<Rightarrow> bool" where
  "has_replica members m =
     (let replicaSvc = find (\<lambda>x. svl x DB_ROLE = Some ''replica'') members
      in (case svl m DB_REPLICAS of
            Some s \<Rightarrow> number_positive s
          | None \<Rightarrow> 0 < desired_or replicaSvc 0)
         \<and> 0 < desired_or replicaSvc 0)"

definition vol_list :: "string option \<Rightarrow> string list" where
  "vol_list v = (if truthy v then [the v] else [])"

definition db_primary ::
  "(string \<Rightarrow> string \<Rightarrow> int) \<Rightarrow> decom_input \<Rightarrow> decom_node \<Rightarrow> string \<Rightarrow> decom_service list \<Rightarrow> decom_service \<Rightarrow> draft \<Rightarrow> draft" where
  "db_primary lc i t cluster members m d0 =
     (let d = d0\<lparr>dr_databases := dr_databases d0 + 1\<rparr>;
          vol = svl m DB_DATA_VOLUME_LABEL;
          bytes = (if truthy vol then sizeOf i (the vol) else None);
          name = sv_name m
      in if opt_or (svl m DB_TOPOLOGY) ''primary-replica'' = ''active-active'' \<or> truthy (svl m DB_MEMBER)
         then block UnsupportedTopology (Some name) d
         else if \<not> dn_online t then
           (if has_replica members m
            then data_step (mk_step DbFailoverStep (''db-failover:'' @ name) (Some name) [] None DtSeconds None) d
            else if truthy vol \<and> last_backup i (the vol) \<noteq> None
            then with_destination lc cluster bytes (\<lambda>n. data_step
                   (mk_step VolumeRestore (''volume-restore:'' @ name) (Some name) (vol_list vol) (Some (dn_nodeId n)) DtUnknown None)) d
            else block DataUnreachable (Some name) d)
         else
           (let d1 = needs_backup i (vol_list vol) d
            in if has_replica members m
               then data_step (mk_step DbSwitchover (''db-switchover:'' @ name) (Some name) [] None DtSeconds None) d1
               else with_destination lc cluster bytes (\<lambda>n e. data_step
                      (mk_step DbStandbySwitchover (''db-standby-switchover:'' @ name) (Some name) (vol_list vol)
                         (Some (dn_nodeId n)) DtSeconds bytes) (count_bytes bytes 1 e)) d1))"

definition db_member ::
  "(string \<Rightarrow> string \<Rightarrow> int) \<Rightarrow> decom_input \<Rightarrow> decom_node \<Rightarrow> string \<Rightarrow> decom_service list \<Rightarrow> decom_service \<Rightarrow> draft \<Rightarrow> draft" where
  "db_member lc i t cluster members m d =
     (if map_of (onTarget i t) (sv_name m) = None then d
      else if svl m DB_ROLE = Some ''replica'' \<or> svl m DB_ROLE = Some ''dcs''
      then is_stateless (sv_name m) (mark_handled (sv_name m) d)
      else if svl m DB_ROLE \<noteq> Some ''primary'' then mark_handled (sv_name m) d
      else db_primary lc i t cluster members m (mark_handled (sv_name m) d))"

definition plan_databases ::
  "(string \<Rightarrow> string \<Rightarrow> int) \<Rightarrow> decom_input \<Rightarrow> decom_node \<Rightarrow> draft \<Rightarrow> draft" where
  "plan_databases lc i t d =
     fold (\<lambda>(key, members). fold (db_member lc i t (last (js_split (CHR ''/'') key)) members) members) (db_clusters i) d"

subsection \<open>Managed caches\<close>

definition cache_service :: "decom_input \<Rightarrow> decom_node \<Rightarrow> decom_service \<Rightarrow> draft \<Rightarrow> draft" where
  "cache_service i t s d =
     (let name = sv_name s
      in if \<not> truthy (svl s CACHE_CLUSTER) \<or> map_of (onTarget i t) name = None \<or> name \<in> set (dr_handled d) then d
         else (let d1 = mark_handled name d
               in if svl s CACHE_ROLE \<noteq> Some ''primary'' then is_stateless name d1
                  else if \<not> dn_online t
                  then is_stateless name (warn (CacheOffline (the (svl s CACHE_CLUSTER))
                         (case svl s CACHE_REPLICAS of None \<Rightarrow> False | Some n \<Rightarrow> number_positive n)) d1)
                  else d1\<lparr>dr_handled := removeAll name (dr_handled d1)\<rparr>))"

definition plan_caches :: "decom_input \<Rightarrow> decom_node \<Rightarrow> draft \<Rightarrow> draft" where
  "plan_caches i t d = fold (cache_service i t) (di_services i) d"

subsection \<open>Garage\<close>

definition garage_members :: "decom_input \<Rightarrow> decom_node list" where
  "garage_members i = filter (\<lambda>n. node_label n GARAGE_MEMBER_NODE_LABEL = Some ''true'') (di_nodes i)"

definition is_garage :: "decom_node \<Rightarrow> bool" where
  "is_garage t = (node_label t GARAGE_MEMBER_NODE_LABEL = Some ''true'')"

definition plan_garage ::
  "(string \<Rightarrow> string \<Rightarrow> int) \<Rightarrow> decom_input \<Rightarrow> decom_node \<Rightarrow> draft \<Rightarrow> draft \<times> drain_step list" where
  "plan_garage lc i t d =
     (if \<not> is_garage t then (d, [])
      else
        (let rf = max 1 (opt_or (di_garageReplicationFactor i) 1);
             remaining = length (garage_members i) - 1;
             short = (remaining < rf \<or> remaining = 0);
             chosen = rp_chosen (pickRoleHost lc (dr_picker d) (map dn_nodeId (garage_members i)) (\<lambda>_. True));
             d1 = (if short \<and> chosen = None then block GarageNoReplacement None d else d);
             add = (if short then (case chosen of None \<Rightarrow> []
                      | Some n \<Rightarrow> [mk_step GarageAddMember (''garage-add-member:'' @ dn_nodeId n) None [] (Some (dn_nodeId n)) DtNone None])
                    else []);
             d2 = (if \<not> dn_online t \<and> rf \<le> 1 then block DataUnreachable (Some ''object storage'') d1 else d1)
         in (d2, add @ [mk_step GarageLeave (''garage-leave:'' @ dn_nodeId t) None [] None DtNone None])))"

subsection \<open>Volumes\<close>

definition named_volumes :: "decom_mount list \<Rightarrow> string list" where
  "named_volumes mounts = js_dedup (map (the \<circ> dm_source) (filter (\<lambda>m. dm_type m = Some ''volume'' \<and> truthy (dm_source m)) mounts))"

definition bind_sources :: "decom_mount list \<Rightarrow> string list" where
  "bind_sources mounts = map (the \<circ> dm_source) (filter (\<lambda>m. dm_type m = Some ''bind'' \<and> truthy (dm_source m)) mounts)"

definition is_local_volume :: "decom_input \<Rightarrow> string \<Rightarrow> bool" where
  "is_local_volume i v = (case Option.bind (volumeInfo i v) dv_driver of None \<Rightarrow> True | Some d \<Rightarrow> d = ''local'')"

definition total_size :: "decom_input \<Rightarrow> string list \<Rightarrow> int option" where
  "total_size i vs = (if list_all (\<lambda>v. sizeOf i v \<noteq> None) vs then Some (sum_list (map (\<lambda>v. opt_or (sizeOf i v) 0) vs)) else None)"

definition move_volumes ::
  "(string \<Rightarrow> string \<Rightarrow> int) \<Rightarrow> decom_input \<Rightarrow> decom_node \<Rightarrow> string \<Rightarrow> string list \<Rightarrow> draft \<Rightarrow> draft" where
  "move_volumes lc i t name localVols d0 =
     (let d = d0\<lparr>dr_volumeCount := dr_volumeCount d0 + length localVols\<rparr>;
          bytes = total_size i localVols;
          unknown = length (filter (\<lambda>v. sizeOf i v = None) localVols)
      in if \<not> dn_online t then
           (if length (filter (\<lambda>v. last_backup i v \<noteq> None) localVols) < length localVols
            then block DataUnreachable (Some name) d
            else with_destination lc name bytes (\<lambda>n. volume_step
                   (mk_step VolumeRestore (''volume-restore:'' @ name) (Some name) localVols (Some (dn_nodeId n)) DtUnknown bytes)) d)
         else with_destination lc name bytes (\<lambda>n e. volume_step
                (mk_step VolumeCopy (''volume-copy:'' @ name) (Some name) localVols (Some (dn_nodeId n)) DtShort bytes)
                (count_bytes bytes unknown e)) (needs_backup i localVols d))"

definition is_garage_service :: "decom_node \<Rightarrow> string \<Rightarrow> decom_service option \<Rightarrow> bool" where
  "is_garage_service t name svc =
     (is_garage t \<and> Option.bind svc (\<lambda>s. svl s STACK_LABEL) = Some ''swarmy-system'' \<and> js_includes name ''garage'')"

definition volume_service ::
  "(string \<Rightarrow> string \<Rightarrow> int) \<Rightarrow> decom_input \<Rightarrow> decom_node \<Rightarrow> string \<times> decom_mount list \<Rightarrow> draft \<Rightarrow> draft" where
  "volume_service lc i t e d =
     (let (name, mounts) = e; svc = serviceByName i name; d1 = mark_handled name d
      in if name \<in> set (dr_handled d) then d
         else if map_option sv_mode svc = Some GlobalMode \<or> is_garage_service t name svc then d1
         else
           (let vols = named_volumes mounts; named = filter (\<lambda>v. \<not> anonymous_volume v) vols;
                d2 = fold (\<lambda>b. warn (BindFolder name b)) (filter (\<lambda>b. b \<noteq> ''/var/run/docker.sock'') (bind_sources mounts)) d1;
                d3 = (if length named < length vols then warn (ScratchVolume name) d2 else d2);
                localVols = filter (is_local_volume i) named;
                clusterVols = filter (\<lambda>v. v \<notin> set localVols) named;
                d4 = d3\<lparr>dr_csiFollow := dr_csiFollow d3 @ clusterVols\<rparr>
            in if named = [] then is_stateless name d3
               else if localVols = [] then is_stateless name d4
               else if \<not> (case svc of None \<Rightarrow> False | Some s \<Rightarrow> pinned_to (swarm_id t) s) \<and> 1 < desired_or svc 1
               then is_stateless name (warn (CopyDropped name (desired_or svc 1)) d4)
               else move_volumes lc i t name localVols d4))"

definition plan_volumes ::
  "(string \<Rightarrow> string \<Rightarrow> int) \<Rightarrow> decom_input \<Rightarrow> decom_node \<Rightarrow> draft \<Rightarrow> draft" where
  "plan_volumes lc i t d =
     (let d1 = fold (volume_service lc i t) (onTarget i t) d
      in if dr_csiFollow d1 = [] then d1
         else volume_step (mk_step VolumeFollow ''volume-follow:csi'' None (sort_strings (js_dedup (dr_csiFollow d1))) None DtSeconds None) d1)"

subsection \<open>Edges and managers\<close>

definition others :: "decom_input \<Rightarrow> decom_node \<Rightarrow> decom_node list" where
  "others i t = filter (\<lambda>n. dn_nodeId n \<noteq> dn_nodeId t) (di_nodes i)"

definition edge_role ::
  "(string \<Rightarrow> string \<Rightarrow> int) \<Rightarrow> decom_input \<Rightarrow> decom_node \<Rightarrow> string \<Rightarrow> draft \<times> drain_step list \<Rightarrow> draft \<times> drain_step list" where
  "edge_role lc i t label ds =
     (let (d, steps) = ds; sid = ''edge-handover:'' @ label
      in if node_label t label \<noteq> Some ''true'' then (d, steps)
         else if list_ex (\<lambda>n. node_label n label = Some ''true'' \<and> isSchedulable n) (others i t)
         then (d, steps @ [mk_step EdgeHandover sid None [] None DtNone None])
         else case rp_chosen (pickRoleHost lc (dr_picker d) [] hasPublicIp) of
                None \<Rightarrow> (block EdgeNoReplacement None d, steps)
              | Some n \<Rightarrow> (if label = NODE_INGRESS then warn (PointDomains (dn_hostname n)) d else d,
                          steps @ [mk_step EdgeHandover sid None [] (Some (dn_nodeId n)) DtSeconds None]))"

definition plan_edges ::
  "(string \<Rightarrow> string \<Rightarrow> int) \<Rightarrow> decom_input \<Rightarrow> decom_node \<Rightarrow> draft \<Rightarrow> draft \<times> drain_step list" where
  "plan_edges lc i t d = fold (edge_role lc i t) [NODE_INGRESS, NODE_OUTLET] (d, [])"

definition node_is_manager :: "decom_node \<Rightarrow> bool" where
  "node_is_manager n = (map_option sw_role (dn_swarm n) = Some Manager)"

definition node_is_worker :: "decom_node \<Rightarrow> bool" where
  "node_is_worker n = (map_option sw_role (dn_swarm n) = Some Worker)"

definition plan_managers ::
  "(string \<Rightarrow> string \<Rightarrow> int) \<Rightarrow> decom_input \<Rightarrow> decom_node \<Rightarrow> draft \<Rightarrow> draft \<times> drain_step list" where
  "plan_managers lc i t d =
     (if \<not> node_is_manager t then (d, [])
      else
        (let remaining = length (filter node_is_manager (di_nodes i)) - 1;
             worker = rp_chosen (pickRoleHost lc (dr_picker d) [] node_is_worker)
         in if remaining = 0 \<or> (even remaining \<and> worker \<noteq> None)
            then (case worker of
                    None \<Rightarrow> (block NoManagerCandidate None d, [])
                  | Some w \<Rightarrow> (d, [mk_step ManagerPromote (''manager-promote:'' @ dn_nodeId w) None [] (Some (dn_nodeId w)) DtNone None]))
            else if even remaining then (warn (EvenManagers remaining) d, [])
            else (d, [])))"

subsection \<open>The plan\<close>

definition slot_warning :: "decom_input \<Rightarrow> decom_node \<Rightarrow> decom_service \<Rightarrow> draft \<Rightarrow> draft" where
  "slot_warning i t s d =
     (let schedulable = length (filter isSchedulable (others i t));
          primaryNodes = length (filter (\<lambda>p. svl p DB_CLUSTER = svl s DB_CLUSTER \<and> svl p DB_ROLE = Some ''primary''
                                             \<and> truthy (svl p DB_PIN_NODE_LABEL)) (di_services i));
          slots = int schedulable - int (min 1 primaryNodes); want = desired_or (Some s) 0
      in if svl s DB_ROLE = Some ''replica'' \<and> map_of (onTarget i t) (sv_name s) \<noteq> None \<and> 0 < want \<and> slots < int want
         then warn (ReplicaSlots (sv_name s) want (max 0 slots)) d else d)"

definition start_draft :: "decom_input \<Rightarrow> decom_node \<Rightarrow> draft" where
  "start_draft i t =
     (let d0 = \<lparr>dr_picker = new_picker (di_nodes i) (dn_nodeId t) (node_label t NODE_REGION) (map sv_labels (di_services i)),
                dr_blockers = [], dr_warnings = [], dr_dataSteps = [], dr_volumeSteps = [], dr_needsBackup = [],
                dr_stateless = [], dr_databases = 0, dr_volumeCount = 0, dr_bytesToMove = 0, dr_unknownSizes = 0,
                dr_handled = [], dr_csiFollow = []\<rparr>;
          d1 = (if dn_hostsController t then block ControllerHost None d0 else d0)
      in if list_ex isSchedulable (others i t) then d1 else block LastNode None d1)"

definition target_step :: "step_kind \<Rightarrow> string \<Rightarrow> decom_node \<Rightarrow> drain_step" where
  "target_step k p t = mk_step k (p @ dn_nodeId t) None [] None DtNone None"

definition assemble ::
  "decom_input \<Rightarrow> decom_node \<Rightarrow> draft \<Rightarrow> drain_step list \<Rightarrow> drain_step list \<Rightarrow> drain_step list \<Rightarrow> drain_step list" where
  "assemble i t d managerSteps edgeSteps garageSteps =
     (if dn_online t \<and> di_backupsConfigured i \<and> dr_needsBackup d \<noteq> []
      then [mk_step SafetyBackup ''safety-backup'' None (sort_strings (dr_needsBackup d)) None DtNone None] else [])
     @ (if dn_online t then [target_step Cordon ''cordon:'' t] else [])
     @ managerSteps @ edgeSteps @ garageSteps @ dr_dataSteps d @ dr_volumeSteps d
     @ [target_step DrainNode ''drain:'' t]
     @ (if is_garage t then [target_step GarageAwaitResync ''garage-await-resync:'' t] else [])
     @ (if node_is_manager t then [target_step ManagerDemote ''manager-demote:'' t] else [])
     @ [target_step SwarmLeave ''swarm-leave:'' t]
     @ (if dn_meshPeer t then [target_step MeshRemove ''mesh-remove:'' t] else [])
     @ [target_step Forget ''forget:'' t]"

definition emptyPlan :: "blocker_code \<Rightarrow> decom_plan" where
  "emptyPlan c = \<lparr>pl_steps = [], pl_blockers = [\<lparr>bk_code = c, bk_subject = None\<rparr>], pl_warnings = [], pl_databases = 0,
     pl_volumes = 0, pl_stateless = 0, pl_bytesToMove = 0, pl_unknownSizes = 0, pl_runnable = False\<rparr>"

definition planDecommission :: "(string \<Rightarrow> string \<Rightarrow> int) \<Rightarrow> decom_input \<Rightarrow> decom_plan" where
  "planDecommission lc i =
     (case find (\<lambda>n. dn_nodeId n = di_target i) (di_nodes i) of
        None \<Rightarrow> emptyPlan UnknownNode
      | Some t \<Rightarrow>
          if dn_swarm t = None \<and> dn_online t then emptyPlan NotInSwarm
          else
            (let d1 = plan_caches i t (plan_databases lc i t (start_draft i t));
                 (d2, garageSteps) = plan_garage lc i t d1;
                 (d3, edgeSteps) = plan_edges lc i t (plan_volumes lc i t d2);
                 (d4, managerSteps) = plan_managers lc i t d3;
                 d5 = (if dn_online t \<and> \<not> di_backupsConfigured i \<and> (dr_dataSteps d4 \<noteq> [] \<or> dr_volumeSteps d4 \<noteq> [])
                       then warn NoSafetyCopy d4 else d4);
                 d6 = fold (slot_warning i t) (di_services i) d5
             in \<lparr>pl_steps = assemble i t d6 managerSteps edgeSteps garageSteps, pl_blockers = dr_blockers d6,
                 pl_warnings = js_dedup (dr_warnings d6), pl_databases = dr_databases d6, pl_volumes = dr_volumeCount d6,
                 pl_stateless = length (js_dedup (dr_stateless d6)), pl_bytesToMove = dr_bytesToMove d6,
                 pl_unknownSizes = dr_unknownSizes d6, pl_runnable = (dr_blockers d6 = [])\<rparr>))"

end
