(* ===== verification/DecommissionPlan.thy ===== *)
theory DecommissionPlan
  imports Decommission
begin

text \<open>
  What a retirement plan guarantees. A draft only grows through the planner's sections, so a plan
  without blockers never had one; an invariant of drafts (locale \<open>draft_invariant\<close>) is carried
  through every section once its behaviour at the few places that record a step is known. On
  these rest the properties: no data left behind, destinations with room, the order of the
  steps, the safety backup and the manager count.
\<close>

section \<open>Drafts only grow\<close>

lemmas draft_ops = block_def warn_def is_stateless_def mark_handled_def data_step_def volume_step_def needs_backup_def
  count_bytes_def

definition grows :: "draft \<Rightarrow> draft \<Rightarrow> bool" where
  "grows d e \<longleftrightarrow> set (dr_blockers d) \<subseteq> set (dr_blockers e) \<and> set (dr_dataSteps d) \<subseteq> set (dr_dataSteps e)
     \<and> set (dr_volumeSteps d) \<subseteq> set (dr_volumeSteps e)"

lemma grows_refl [simp]: "grows d d"
  by (simp add: grows_def)

lemma grows_trans: "grows d e \<Longrightarrow> grows e f \<Longrightarrow> grows d f"
  by (auto simp: grows_def)

lemma grows_fold: "(\<And>x d. grows d (f x d)) \<Longrightarrow> grows d (fold f xs d)"
  by (induction xs arbitrary: d) (auto intro: grows_trans)

lemma grows_fold_at:
  assumes "\<And>x d. grows d (f x d)" "x \<in> set xs"
  obtains ys zs where "xs = ys @ x # zs" "grows (f x (fold f ys d)) (fold f xs d)"
proof -
  from assms(2) obtain ys zs where "xs = ys @ x # zs" by (auto dest: split_list)
  moreover from this have "grows (f x (fold f ys d)) (fold f xs d)" by (simp add: grows_fold assms(1))
  ultimately show ?thesis using that by blast
qed

lemma grows_picker [simp]: "grows (d\<lparr>dr_picker := p\<rparr>) e = grows d e"
  by (simp add: grows_def)

lemma grows_ops [intro!]:
  assumes "grows d e"
  shows "grows d (block c s e)" "grows d (warn w e)" "grows d (is_stateless n e)" "grows d (mark_handled n e)"
    "grows d (data_step st e)" "grows d (volume_step st e)" "grows d (needs_backup i vs e)" "grows d (count_bytes b u e)"
    "grows d (e\<lparr>dr_databases := nd\<rparr>)" "grows d (e\<lparr>dr_volumeCount := nv\<rparr>)" "grows d (e\<lparr>dr_handled := h\<rparr>)"
    "grows d (e\<lparr>dr_csiFollow := cs\<rparr>)"
  using assms by (auto simp: grows_def draft_ops split: option.split)

lemma with_destination_cases:
  obtains (none) "pick lc (dr_picker d) b [] = (None, dr_picker d)" "with_destination lc s b k d = block NoDestination (Some s) d"
  | (some) n p where "pick lc (dr_picker d) b [] = (Some n, p)" "with_destination lc s b k d = k n (d\<lparr>dr_picker := p\<rparr>)"
proof -
  obtain c p where e: "pick lc (dr_picker d) b [] = (c, p)" by fastforce
  show ?thesis
  proof (cases c)
    case None
    with e have "p = dr_picker d" by (auto elim: pick_cases)
    with e None none show ?thesis by (simp add: with_destination_def)
  next
    case (Some n)
    with e some show ?thesis by (simp add: with_destination_def)
  qed
qed

lemma grows_with_destination [intro!]:
  assumes "grows c d" "\<And>n e. grows e (k n e)"
  shows "grows c (with_destination lc s b k d)"
proof (cases rule: with_destination_cases [of lc d b s k])
  case none
  with assms(1) show ?thesis by auto
next
  case (some n p)
  with assms(1) assms(2) [of "d\<lparr>dr_picker := p\<rparr>" n] show ?thesis by (auto intro: grows_trans)
qed

lemmas grows_rules = grows_ops grows_with_destination grows_refl

lemma grows_db_primary [intro!]: "grows c d \<Longrightarrow> grows c (db_primary lc i t cl ms m d)"
  unfolding db_primary_def Let_def by (simp split: if_split) (intro conjI impI; intro grows_rules; assumption?)

lemma grows_db_member [intro!]: "grows c d \<Longrightarrow> grows c (db_member lc i t cl ms m d)"
  unfolding db_member_def by auto

lemma grows_cache_service [intro!]: "grows c d \<Longrightarrow> grows c (cache_service i t s d)"
  unfolding cache_service_def Let_def by auto

lemma grows_move_volumes [intro!]: "grows c d \<Longrightarrow> grows c (move_volumes lc i t n vs d)"
  unfolding move_volumes_def Let_def by (simp split: if_split) (intro conjI impI; intro grows_rules; assumption?)

lemma grows_fold_warn [intro!]: "grows c d \<Longrightarrow> grows c (fold (\<lambda>b. warn (w b)) bs d)"
  by (induction bs arbitrary: d) auto

lemma grows_volume_service [intro!]: "grows c d \<Longrightarrow> grows c (volume_service lc i t e d)"
  unfolding volume_service_def Let_def by (auto simp: case_prod_beta)

lemma grows_slot_warning [intro!]: "grows c d \<Longrightarrow> grows c (slot_warning i t s d)"
  unfolding slot_warning_def Let_def by auto

lemma grows_phases:
  "grows d (plan_databases lc i t d)" "grows d (plan_caches i t d)" "grows d (fst (plan_garage lc i t d))"
  "grows d (plan_volumes lc i t d)" "grows d (fst (plan_managers lc i t d))" "grows d (fold (slot_warning i t) ss d)"
proof -
  show "grows d (plan_databases lc i t d)"
    unfolding plan_databases_def by (rule grows_fold) (auto simp: case_prod_beta intro!: grows_fold)
  show "grows d (plan_caches i t d)"
    unfolding plan_caches_def by (rule grows_fold) auto
  show "grows d (fst (plan_garage lc i t d))"
    by (auto simp: plan_garage_def Let_def)
  have "grows d (fold (volume_service lc i t) (onTarget i t) d)" by (rule grows_fold) auto
  then show "grows d (plan_volumes lc i t d)" by (auto simp: plan_volumes_def Let_def)
  show "grows d (fst (plan_managers lc i t d))"
    by (auto simp: plan_managers_def Let_def split: option.split)
  show "grows d (fold (slot_warning i t) ss d)"
    by (rule grows_fold) auto
qed

lemma grows_edge_role: "grows (fst ds) (fst (edge_role lc i t l ds))"
  by (cases ds) (auto simp: edge_role_def Let_def split: option.split)

lemma grows_plan_edges: "grows d (fst (plan_edges lc i t d))"
  using grows_edge_role [of "(d, [])" lc i t NODE_INGRESS]
    grows_edge_role [of "edge_role lc i t NODE_INGRESS (d, [])" lc i t NODE_OUTLET]
  by (auto simp: plan_edges_def intro: grows_trans)

section \<open>The sections in sequence\<close>

definition data_draft :: "(string \<Rightarrow> string \<Rightarrow> int) \<Rightarrow> decom_input \<Rightarrow> decom_node \<Rightarrow> draft" where
  "data_draft lc i t = plan_caches i t (plan_databases lc i t (start_draft i t))"

definition garage_draft :: "(string \<Rightarrow> string \<Rightarrow> int) \<Rightarrow> decom_input \<Rightarrow> decom_node \<Rightarrow> draft" where
  "garage_draft lc i t = fst (plan_garage lc i t (data_draft lc i t))"

definition volume_draft :: "(string \<Rightarrow> string \<Rightarrow> int) \<Rightarrow> decom_input \<Rightarrow> decom_node \<Rightarrow> draft" where
  "volume_draft lc i t = plan_volumes lc i t (garage_draft lc i t)"

definition edge_draft :: "(string \<Rightarrow> string \<Rightarrow> int) \<Rightarrow> decom_input \<Rightarrow> decom_node \<Rightarrow> draft" where
  "edge_draft lc i t = fst (plan_edges lc i t (volume_draft lc i t))"

definition manager_draft :: "(string \<Rightarrow> string \<Rightarrow> int) \<Rightarrow> decom_input \<Rightarrow> decom_node \<Rightarrow> draft" where
  "manager_draft lc i t = fst (plan_managers lc i t (edge_draft lc i t))"

definition final_draft :: "(string \<Rightarrow> string \<Rightarrow> int) \<Rightarrow> decom_input \<Rightarrow> decom_node \<Rightarrow> draft" where
  "final_draft lc i t =
     (let d = manager_draft lc i t
      in fold (slot_warning i t) (di_services i)
           (if dn_online t \<and> \<not> di_backupsConfigured i \<and> (dr_dataSteps d \<noteq> [] \<or> dr_volumeSteps d \<noteq> [])
            then warn NoSafetyCopy d else d))"

definition retiring :: "decom_input \<Rightarrow> decom_node \<Rightarrow> bool" where
  "retiring i t \<longleftrightarrow> find (\<lambda>n. dn_nodeId n = di_target i) (di_nodes i) = Some t \<and> (dn_swarm t \<noteq> None \<or> \<not> dn_online t)"

lemma plan_of_target:
  assumes "retiring i t"
  shows "pl_steps (planDecommission lc i) = assemble i t (final_draft lc i t) (snd (plan_managers lc i t (edge_draft lc i t)))
      (snd (plan_edges lc i t (volume_draft lc i t))) (snd (plan_garage lc i t (data_draft lc i t)))"
    and "pl_blockers (planDecommission lc i) = dr_blockers (final_draft lc i t)"
    and "pl_runnable (planDecommission lc i) \<longleftrightarrow> dr_blockers (final_draft lc i t) = []"
    and "set (pl_warnings (planDecommission lc i)) = set (dr_warnings (final_draft lc i t))"
proof -
  let ?g = "plan_garage lc i t (data_draft lc i t)" and ?e = "plan_edges lc i t (volume_draft lc i t)"
    and ?m = "plan_managers lc i t (edge_draft lc i t)"
  note u = planDecommission_def final_draft_def manager_draft_def edge_draft_def volume_draft_def garage_draft_def data_draft_def
  from assms have t: "find (\<lambda>n. dn_nodeId n = di_target i) (di_nodes i) = Some t" "\<not> (dn_swarm t = None \<and> dn_online t)"
    by (auto simp: retiring_def)
  show "pl_steps (planDecommission lc i) = assemble i t (final_draft lc i t) (snd ?m) (snd ?e) (snd ?g)"
    and "pl_blockers (planDecommission lc i) = dr_blockers (final_draft lc i t)"
    and "pl_runnable (planDecommission lc i) \<longleftrightarrow> dr_blockers (final_draft lc i t) = []"
    and "set (pl_warnings (planDecommission lc i)) = set (dr_warnings (final_draft lc i t))"
    unfolding u t(1) option.case if_not_P [OF t(2)] Let_def case_prod_beta by simp_all
qed

lemma plan_without_target:
  assumes "\<nexists>t. retiring i t"
  shows "pl_steps (planDecommission lc i) = []" "\<not> pl_runnable (planDecommission lc i)"
  using assms by (auto simp: planDecommission_def emptyPlan_def retiring_def split: option.splits)

lemma grows_final:
  "grows (manager_draft lc i t) (final_draft lc i t)" "grows (edge_draft lc i t) (final_draft lc i t)" "grows (volume_draft lc i t) (final_draft lc i t)"
  "grows (garage_draft lc i t) (final_draft lc i t)" "grows (data_draft lc i t) (final_draft lc i t)"
proof -
  show "grows (manager_draft lc i t) (final_draft lc i t)"
    unfolding final_draft_def Let_def by (auto intro: grows_trans [OF _ grows_phases(6)])
  then show "grows (edge_draft lc i t) (final_draft lc i t)"
    unfolding manager_draft_def by (blast intro: grows_trans grows_phases)
  then show "grows (volume_draft lc i t) (final_draft lc i t)"
    unfolding edge_draft_def by (blast intro: grows_trans grows_plan_edges)
  then show "grows (garage_draft lc i t) (final_draft lc i t)"
    unfolding volume_draft_def by (blast intro: grows_trans grows_phases)
  then show "grows (data_draft lc i t) (final_draft lc i t)"
    unfolding garage_draft_def by (blast intro: grows_trans grows_phases)
qed

section \<open>Invariants of drafts\<close>

definition same_core :: "draft \<Rightarrow> draft \<Rightarrow> bool" where
  "same_core d e \<longleftrightarrow> dr_picker e = dr_picker d \<and> dr_dataSteps e = dr_dataSteps d \<and> dr_volumeSteps e = dr_volumeSteps d
     \<and> dr_needsBackup e = dr_needsBackup d"

lemma same_core_ops [simp]:
  "same_core d d" "same_core d (block c s d)" "same_core d (warn w d)" "same_core d (is_stateless n d)" "same_core d (mark_handled n d)"
  "same_core d (count_bytes b u d)" "same_core d (d\<lparr>dr_databases := nd\<rparr>)" "same_core d (d\<lparr>dr_volumeCount := nv\<rparr>)"
  "same_core d (d\<lparr>dr_handled := h\<rparr>)" "same_core d (d\<lparr>dr_csiFollow := cs\<rparr>)"
  "same_core (data_step st d) (data_step st (count_bytes b u d))" "same_core (volume_step st d) (volume_step st (count_bytes b u d))"
  by (auto simp: same_core_def draft_ops split: option.split)

text \<open>
  The steps that place data: kind, volumes and bytes agree with the state of the server, and the
  volumes without a fresh backup are on the list of the safety backup.
\<close>

definition well_placed :: "decom_input \<Rightarrow> decom_node \<Rightarrow> draft \<Rightarrow> drain_step \<Rightarrow> int option \<Rightarrow> bool" where
  "well_placed i t d st b \<longleftrightarrow> st_kind st \<in> {DbStandbySwitchover, VolumeCopy, VolumeRestore}
     \<and> (st_kind st = VolumeRestore \<longleftrightarrow> \<not> dn_online t)
     \<and> st_bytes st \<in> {None, b}
     \<and> (dn_online t \<longrightarrow> (\<forall>v \<in> set (st_volumes st). hasFreshBackup i v \<or> v \<in> set (dr_needsBackup d)))
     \<and> (\<not> dn_online t \<longrightarrow> (\<forall>v \<in> set (st_volumes st). last_backup i v \<noteq> None))"

definition sizes_ok :: "decom_input \<Rightarrow> bool" where
  "sizes_ok i \<longleftrightarrow> (\<forall>v \<in> set (di_volumes i). case dv_size v of None \<Rightarrow> True | Some b \<Rightarrow> 0 \<le> b)"

lemma sizeOf_nonneg:
  assumes "sizes_ok i"
  shows "0 \<le> opt_or (sizeOf i v) 0"
proof -
  have "0 \<le> b" if "sizeOf i v = Some b" for b
  proof -
    from that obtain w where "volumeInfo i v = Some w" "dv_size w = Some b" by (auto simp: sizeOf_def bind_eq_Some_conv)
    moreover from this have "w \<in> set (di_volumes i)" by (auto simp: volumeInfo_def dest!: map_of_SomeD)
    ultimately show "0 \<le> b" using assms by (auto simp: sizes_ok_def)
  qed
  then show ?thesis by (cases "sizeOf i v") (auto simp: opt_or_def)
qed

lemma total_size_nonneg: "sizes_ok i \<Longrightarrow> 0 \<le> opt_or (total_size i vs) 0"
  using sizeOf_nonneg by (auto simp: total_size_def opt_or_def intro!: sum_list_nonneg split: option.splits)

locale draft_invariant =
  fixes I :: "draft \<Rightarrow> bool" and lc :: "string \<Rightarrow> string \<Rightarrow> int" and i :: decom_input and t :: decom_node
  assumes start: "I (start_draft i t)"
    and quiet: "I d \<Longrightarrow> same_core d e \<Longrightarrow> I e"
    and backup: "I d \<Longrightarrow> I (needs_backup i vs d)"
    and unplaced: "I d \<Longrightarrow> st_kind st \<in> {DbFailoverStep, DbSwitchover} \<Longrightarrow> st_destination st = None \<Longrightarrow> st_volumes st = []
      \<Longrightarrow> I (data_step st d)"
    and follow: "I d \<Longrightarrow> st_kind st = VolumeFollow \<Longrightarrow> st_destination st = None \<Longrightarrow> I (volume_step st d)"
    and placed: "I d \<Longrightarrow> pick lc (dr_picker d) b [] = (Some n, p) \<Longrightarrow> sizes_ok i \<longrightarrow> 0 \<le> opt_or b 0 \<Longrightarrow> st_destination st = Some (dn_nodeId n)
      \<Longrightarrow> well_placed i t d st b \<Longrightarrow> op \<in> {data_step, volume_step} \<Longrightarrow> I (op st (d\<lparr>dr_picker := p\<rparr>))"
begin

lemma quiet_ops:
  assumes "I d"
  shows "I (block c s d)" "I (warn w d)" "I (is_stateless n d)" "I (mark_handled n d)" "I (count_bytes b u d)"
    "I (d\<lparr>dr_databases := nd\<rparr>)" "I (d\<lparr>dr_volumeCount := nv\<rparr>)" "I (d\<lparr>dr_handled := h\<rparr>)" "I (d\<lparr>dr_csiFollow := cs\<rparr>)"
  by (rule quiet [OF assms], simp)+

lemma placed_step:
  assumes "I d" "sizes_ok i \<longrightarrow> 0 \<le> opt_or b 0" "op \<in> {data_step, volume_step}"
    and "\<And>n. st_destination (st n) = Some (dn_nodeId n) \<and> well_placed i t d (st n) b"
  shows "I (with_destination lc s b (\<lambda>n. op (st n)) d)"
    and "I (with_destination lc s b (\<lambda>n e. op (st n) (count_bytes b u e)) d)"
proof -
  show "I (with_destination lc s b (\<lambda>n. op (st n)) d)"
    using assms by (cases rule: with_destination_cases [of lc d b s "\<lambda>n. op (st n)"]) (auto intro: quiet_ops placed)
  show "I (with_destination lc s b (\<lambda>n e. op (st n) (count_bytes b u e)) d)"
  proof (cases rule: with_destination_cases [of lc d b s "\<lambda>n e. op (st n) (count_bytes b u e)"])
    case none
    with assms(1) show ?thesis by (simp add: quiet_ops)
  next
    case (some n p)
    from placed [OF assms(1) some(1) assms(2) conjunct1 [OF assms(4)] conjunct2 [OF assms(4)] assms(3)]
    have "I (op (st n) (d\<lparr>dr_picker := p\<rparr>))" .
    then have "I (op (st n) (count_bytes b u (d\<lparr>dr_picker := p\<rparr>)))"
      by (rule quiet) (use assms(3) in auto)
    with some(2) show ?thesis by simp
  qed
qed

lemma needs_backup_covers: "v \<in> set vs \<Longrightarrow> hasFreshBackup i v \<or> v \<in> set (dr_needsBackup (needs_backup i vs d))"
  by (auto simp: needs_backup_def set_fold_js_set_add)

lemma inv_db_primary:
  assumes "I d"
  shows "I (db_primary lc i t c ms m d)"
proof -
  define vol where "vol = svl m DB_DATA_VOLUME_LABEL"
  define b where "b = (if truthy vol then sizeOf i (the vol) else None)"
  define e where "e = d\<lparr>dr_databases := dr_databases d + 1\<rparr>"
  define f where "f = needs_backup i (vol_list vol) e"
  have I: "I e" "I f" unfolding f_def e_def using assms by (auto intro: quiet_ops backup)
  have b: "sizes_ok i \<longrightarrow> 0 \<le> opt_or b 0" using sizeOf_nonneg [of i "the vol"] by (simp add: b_def opt_or_def)
  have "I (with_destination lc c b (\<lambda>n. data_step (mk_step VolumeRestore (''volume-restore:'' @ sv_name m) (Some (sv_name m))
      (vol_list vol) (Some (dn_nodeId n)) DtUnknown None)) e)" if "\<not> dn_online t" "truthy vol" "last_backup i (the vol) \<noteq> None"
    using that by (intro placed_step(1) I b) (auto simp: mk_step_def well_placed_def vol_list_def)
  moreover have "I (with_destination lc c b (\<lambda>n e. data_step (mk_step DbStandbySwitchover (''db-standby-switchover:'' @ sv_name m)
      (Some (sv_name m)) (vol_list vol) (Some (dn_nodeId n)) DtSeconds b) (count_bytes b 1 e)) f)" if "dn_online t"
    using that needs_backup_covers [of _ "vol_list vol" e]
    by (intro placed_step(2) I b) (auto simp: mk_step_def well_placed_def f_def)
  moreover have "I (data_step (mk_step k x y [] None DtSeconds None) e)" "I (data_step (mk_step k x y [] None DtSeconds None) f)"
    if "k \<in> {DbFailoverStep, DbSwitchover}" for k x y
    using that by (auto intro!: unplaced I simp: mk_step_def)
  ultimately show ?thesis
    unfolding db_primary_def Let_def vol_def [symmetric] b_def [symmetric] e_def [symmetric] f_def [symmetric]
    by (auto intro: quiet_ops I)
qed

lemma inv_db_member: "I d \<Longrightarrow> I (db_member lc i t c ms m d)"
  by (auto simp: db_member_def intro: quiet_ops inv_db_primary)

lemma inv_cache_service: "I d \<Longrightarrow> I (cache_service i t s d)"
  by (auto simp: cache_service_def Let_def intro!: quiet_ops)

lemma inv_fold: "(\<And>x d. I d \<Longrightarrow> I (f x d)) \<Longrightarrow> I d \<Longrightarrow> I (fold f xs d)"
  by (induction xs arbitrary: d) auto

lemma inv_move_volumes:
  assumes "I d"
  shows "I (move_volumes lc i t name vs d)"
proof -
  define e where "e = d\<lparr>dr_volumeCount := dr_volumeCount d + length vs\<rparr>"
  define f where "f = needs_backup i vs e"
  have I: "I e" "I f" unfolding f_def e_def using assms by (auto intro: quiet_ops backup)
  have "I (with_destination lc name (total_size i vs) (\<lambda>n. volume_step (mk_step VolumeRestore (''volume-restore:'' @ name) (Some name)
      vs (Some (dn_nodeId n)) DtUnknown (total_size i vs))) e)"
    if "\<not> dn_online t" "\<not> length (filter (\<lambda>v. last_backup i v \<noteq> None) vs) < length vs"
  proof -
    have "\<forall>v \<in> set vs. last_backup i v \<noteq> None"
      using that(2) by (metis (mono_tags, lifting) length_filter_less)
    with that(1) show ?thesis
      by (intro placed_step(1) I) (auto simp: total_size_nonneg mk_step_def well_placed_def)
  qed
  moreover have "I (with_destination lc name (total_size i vs) (\<lambda>n e. volume_step (mk_step VolumeCopy (''volume-copy:'' @ name) (Some name)
      vs (Some (dn_nodeId n)) DtShort (total_size i vs)) (count_bytes (total_size i vs) u e)) f)" if "dn_online t" for u
    using that needs_backup_covers [of _ vs e]
    by (intro placed_step(2) I) (auto simp: total_size_nonneg mk_step_def well_placed_def f_def)
  ultimately show ?thesis
    unfolding move_volumes_def Let_def e_def [symmetric] f_def [symmetric] by (auto intro: quiet_ops I)
qed

lemma inv_volume_service: "I d \<Longrightarrow> I (volume_service lc i t e d)"
  unfolding volume_service_def Let_def
  by (auto simp: case_prod_beta intro!: quiet_ops inv_move_volumes inv_fold)

lemma inv_edge_role: "I (fst ds) \<Longrightarrow> I (fst (edge_role lc i t l ds))"
  by (cases ds) (auto simp: edge_role_def Let_def intro!: quiet_ops split: option.split)

lemma inv_phases:
  assumes "I d"
  shows "I (plan_databases lc i t d)" "I (plan_caches i t d)" "I (fst (plan_garage lc i t d))"
    "I (plan_volumes lc i t d)" "I (fst (plan_edges lc i t d))" "I (fst (plan_managers lc i t d))"
    "I (fold (slot_warning i t) ss d)"
proof -
  show "I (plan_databases lc i t d)"
    unfolding plan_databases_def by (rule inv_fold [OF _ assms]) (auto simp: case_prod_beta intro: inv_fold inv_db_member)
  show "I (plan_caches i t d)"
    unfolding plan_caches_def by (rule inv_fold [OF inv_cache_service assms])
  show "I (fst (plan_garage lc i t d))"
    using assms by (auto simp: plan_garage_def Let_def intro!: quiet_ops)
  have "I (fold (volume_service lc i t) (onTarget i t) d)" by (rule inv_fold [OF inv_volume_service assms])
  then show "I (plan_volumes lc i t d)" by (auto simp: plan_volumes_def Let_def mk_step_def intro!: follow)
  show "I (fst (plan_edges lc i t d))"
    using assms by (simp add: plan_edges_def inv_edge_role)
  show "I (fst (plan_managers lc i t d))"
    using assms by (auto simp: plan_managers_def Let_def intro: quiet_ops split: option.split)
  show "I (fold (slot_warning i t) ss d)"
    by (rule inv_fold [OF _ assms]) (auto simp: slot_warning_def Let_def intro: quiet_ops)
qed

lemma inv_edge: "I (edge_draft lc i t)"
  unfolding edge_draft_def volume_draft_def garage_draft_def data_draft_def by (intro inv_phases start)

lemma inv_final: "I (final_draft lc i t)"
proof -
  have "I (manager_draft lc i t)" unfolding manager_draft_def by (intro inv_phases inv_edge)
  then show ?thesis unfolding final_draft_def Let_def by (auto intro!: inv_phases quiet_ops)
qed

end

section \<open>The order of the steps\<close>

definition phase_rank :: "step_kind \<Rightarrow> nat" where
  "phase_rank k = (case k of
      SafetyBackup \<Rightarrow> 0 | Cordon \<Rightarrow> 1 | ManagerPromote \<Rightarrow> 2 | EdgeHandover \<Rightarrow> 3 | GarageAddMember \<Rightarrow> 4 | GarageLeave \<Rightarrow> 5
    | DbSwitchover \<Rightarrow> 6 | DbStandbySwitchover \<Rightarrow> 6 | DbFailoverStep \<Rightarrow> 6 | VolumeCopy \<Rightarrow> 6 | VolumeFollow \<Rightarrow> 6 | VolumeRestore \<Rightarrow> 6
    | DrainNode \<Rightarrow> 7 | GarageAwaitResync \<Rightarrow> 8 | ManagerDemote \<Rightarrow> 9 | SwarmLeave \<Rightarrow> 10 | MeshRemove \<Rightarrow> 11 | Forget \<Rightarrow> 12)"

definition kinds_ok :: "draft \<Rightarrow> bool" where
  "kinds_ok d \<longleftrightarrow> (\<forall>s \<in> set (dr_dataSteps d @ dr_volumeSteps d). phase_rank (st_kind s) = 6)"

lemma start_core:
  "dr_dataSteps (start_draft i t) = []" "dr_volumeSteps (start_draft i t) = []" "dr_needsBackup (start_draft i t) = []"
  "dr_picker (start_draft i t) = new_picker (di_nodes i) (dn_nodeId t) (node_label t NODE_REGION) (map sv_labels (di_services i))"
  by (simp_all add: start_draft_def block_def Let_def)

interpretation kinds: draft_invariant kinds_ok lc i t for lc i t
proof
  show "kinds_ok (start_draft i t)" by (simp add: kinds_ok_def start_core)
  fix d e vs st b n p and op :: "drain_step \<Rightarrow> draft \<Rightarrow> draft"
  show "kinds_ok d \<Longrightarrow> same_core d e \<Longrightarrow> kinds_ok e" by (simp add: kinds_ok_def same_core_def)
  show "kinds_ok d \<Longrightarrow> kinds_ok (needs_backup i vs d)" by (simp add: kinds_ok_def needs_backup_def)
  show "kinds_ok d \<Longrightarrow> st_kind st \<in> {DbFailoverStep, DbSwitchover} \<Longrightarrow> kinds_ok (data_step st d)"
    by (auto simp: kinds_ok_def data_step_def phase_rank_def)
  show "kinds_ok d \<Longrightarrow> st_kind st = VolumeFollow \<Longrightarrow> kinds_ok (volume_step st d)"
    by (auto simp: kinds_ok_def volume_step_def phase_rank_def)
  show "kinds_ok d \<Longrightarrow> well_placed i t d st b \<Longrightarrow> op \<in> {data_step, volume_step} \<Longrightarrow> kinds_ok (op st (d\<lparr>dr_picker := p\<rparr>))"
    by (auto simp: kinds_ok_def well_placed_def data_step_def volume_step_def phase_rank_def)
qed

lemma garage_steps: "map st_kind (snd (plan_garage lc i t d)) \<in> {[], [GarageLeave], [GarageAddMember, GarageLeave]}"
  by (auto simp: plan_garage_def Let_def mk_step_def split: option.split)

lemma edge_steps: "set (map st_kind (snd (plan_edges lc i t d))) \<subseteq> {EdgeHandover}"
proof -
  have "st_kind ` set (snd (edge_role lc i t l ds)) \<subseteq> insert EdgeHandover (st_kind ` set (snd ds))" for l ds
    by (cases ds) (auto simp: edge_role_def Let_def mk_step_def split: option.split)
  note step = this
  have a: "st_kind ` set (snd (edge_role lc i t NODE_INGRESS (d, []))) \<subseteq> {EdgeHandover}"
    using step [of NODE_INGRESS "(d, [])"] by simp
  have "st_kind ` set (snd (edge_role lc i t NODE_OUTLET (edge_role lc i t NODE_INGRESS (d, [])))) \<subseteq> {EdgeHandover}"
    by (rule subset_trans [OF step]) (simp add: a)
  then show ?thesis by (simp add: plan_edges_def)
qed

lemma manager_steps: "map st_kind (snd (plan_managers lc i t d)) \<in> {[], [ManagerPromote]}"
  by (auto simp: plan_managers_def Let_def mk_step_def split: option.split)

text \<open>A list of steps whose ranks are sorted and lie in a range.\<close>

definition in_band :: "nat \<Rightarrow> nat \<Rightarrow> drain_step list \<Rightarrow> bool" where
  "in_band a b xs \<longleftrightarrow> sorted (map (phase_rank \<circ> st_kind) xs) \<and> (\<forall>x \<in> set xs. a \<le> phase_rank (st_kind x) \<and> phase_rank (st_kind x) \<le> b)"

lemma in_band_append: "in_band a b xs \<Longrightarrow> in_band c d ys \<Longrightarrow> b \<le> c \<Longrightarrow> a \<le> c \<Longrightarrow> b \<le> d \<Longrightarrow> in_band a d (xs @ ys)"
  by (fastforce simp: in_band_def sorted_append)

lemma in_band_const: "\<forall>x \<in> set xs. phase_rank (st_kind x) = c \<Longrightarrow> in_band c c xs"
  unfolding in_band_def by (induction xs) auto

text \<open>
  C35. A plan never takes the server away before what it holds has moved: the steps come in the
  order safety backup, cordon, replacement manager, edge handover, object storage, data, drain,
  resync, demotion, leaving the swarm, leaving the mesh, forgetting the server.
\<close>

theorem plan_order: "sorted (map (phase_rank \<circ> st_kind) (pl_steps (planDecommission lc i)))"
proof (cases "\<exists>t. retiring i t")
  case False
  then show ?thesis by (simp add: plan_without_target)
next
  case True
  then obtain t where t: "retiring i t" ..
  define d where "d = final_draft lc i t"
  define ms es gs where "ms = snd (plan_managers lc i t (edge_draft lc i t))"
    and "es = snd (plan_edges lc i t (volume_draft lc i t))" and "gs = snd (plan_garage lc i t (data_draft lc i t))"
  have k: "in_band 6 6 (dr_dataSteps d)" "in_band 6 6 (dr_volumeSteps d)"
    using kinds.inv_final [of lc i t] unfolding kinds_ok_def d_def by (auto intro: in_band_const)
  have m: "in_band 2 2 ms"
    using manager_steps [of lc i t "edge_draft lc i t"] unfolding ms_def by (auto intro!: in_band_const simp: phase_rank_def)
  have e: "in_band 3 3 es"
    using edge_steps [of lc i t "volume_draft lc i t"] unfolding es_def by (auto intro!: in_band_const simp: phase_rank_def)
  have g: "in_band 4 5 gs"
    using garage_steps [of lc i t "data_draft lc i t"] unfolding gs_def by (auto simp: in_band_def phase_rank_def)
  have tail: "in_band (phase_rank k) (phase_rank k) (if P then [mk_step k a b c d' dt y] else [])"
    "in_band (phase_rank k) (phase_rank k) (if P then [target_step k a t] else [])"
    "in_band (phase_rank k) (phase_rank k) [target_step k a t]" for k P a b c d' dt y
    by (simp_all add: in_band_def target_step_def mk_step_def)
  note app = in_band_append
  have "in_band (phase_rank SafetyBackup) (phase_rank Forget) (assemble i t d ms es gs)"
    unfolding assemble_def
    by (rule app [OF tail(1) app [OF tail(2) app [OF m app [OF e app [OF g app [OF k(1) app [OF k(2) app [OF tail(3) app [OF tail(2)
          app [OF tail(2) app [OF tail(3) app [OF tail(2) tail(3)]]]]]]]]]]]]) (simp_all add: phase_rank_def)
  then show ?thesis unfolding plan_of_target(1) [OF t] d_def ms_def es_def gs_def in_band_def by blast
qed

section \<open>Destinations\<close>

definition placed_bytes :: "drain_step list \<Rightarrow> string \<Rightarrow> int" where
  "placed_bytes sts n = sum_list (map (\<lambda>s. if st_destination s = Some n then opt_or (st_bytes s) 0 else 0) sts)"

lemma placed_bytes_append: "placed_bytes (xs @ ys) n = placed_bytes xs n + placed_bytes ys n"
  by (simp add: placed_bytes_def)

definition ledger_ok :: "decom_input \<Rightarrow> decom_node \<Rightarrow> draft \<Rightarrow> bool" where
  "ledger_ok i t d \<longleftrightarrow> pk_nodes (dr_picker d) = di_nodes i \<and> pk_targetNodeId (dr_picker d) = dn_nodeId t
     \<and> (\<forall>s \<in> set (dr_dataSteps d @ dr_volumeSteps d). \<forall>n. st_destination s = Some n \<longrightarrow> may_host (dr_picker d) n)
     \<and> (sizes_ok i \<and> distinct (map dn_nodeId (di_nodes i)) \<longrightarrow> room_ok (dr_picker d)
          \<and> (\<forall>n. placed_bytes (dr_dataSteps d @ dr_volumeSteps d) n \<le> reserved_on (dr_picker d) n))"

lemma ledger_placed:
  assumes l: "ledger_ok i t d" and p: "pick lc (dr_picker d) b [] = (Some n, p)" and b: "sizes_ok i \<longrightarrow> 0 \<le> opt_or b 0"
    and st: "st_destination st = Some (dn_nodeId n)" "st_bytes st \<in> {None, b}"
    and op: "op \<in> {data_step, volume_step}"
  shows "ledger_ok i t (op st (d\<lparr>dr_picker := p\<rparr>))"
proof -
  let ?q = "dr_picker d"
  have pl: "place_data lc [] ?q b = (Some (dn_nodeId n), p)" using p by (simp add: place_data_def)
  have r: "pk_nodes p = pk_nodes ?q" "pk_targetNodeId p = pk_targetNodeId ?q"
    using p by (auto elim: pick_cases)
  have host: "may_host p m = may_host ?q m" for m
    using chooser.allowed_stable [of lc "[]" ?q b m] pl by simp
  have new: "may_host p (dn_nodeId n)"
    using chooser.place_allowed [of lc "[]" ?q b "dn_nodeId n"] pl host by simp
  have "room_ok p \<and> placed_bytes (dr_dataSteps d @ dr_volumeSteps d) m + (if m = dn_nodeId n then opt_or (st_bytes st) 0 else 0) \<le> reserved_on p m"
    if h: "sizes_ok i" "distinct (map dn_nodeId (di_nodes i))" for m
  proof
    from l h have f: "room_ok ?q" "\<And>n. placed_bytes (dr_dataSteps d @ dr_volumeSteps d) n \<le> reserved_on ?q n"
      by (auto simp: ledger_ok_def)
    show "room_ok p" using chooser.place_fit [OF f(1), of b lc "[]"] b h pl by simp
    have "opt_or (st_bytes st) 0 \<le> opt_or b 0" using st(2) b h by (auto simp: opt_or_def)
    from chooser.ledger [of "placed_bytes (dr_dataSteps d @ dr_volumeSteps d)" ?q lc "[]" b "dn_nodeId n", OF f(2) _ refl this, of m] pl
    show "placed_bytes (dr_dataSteps d @ dr_volumeSteps d) m + (if m = dn_nodeId n then opt_or (st_bytes st) 0 else 0) \<le> reserved_on p m"
      by (simp split: if_splits)
  qed
  moreover have "placed_bytes [st] m = (if m = dn_nodeId n then opt_or (st_bytes st) 0 else 0)" for m
    using st(1) by (simp add: placed_bytes_def)
  ultimately have bytes: "sizes_ok i \<and> distinct (map dn_nodeId (di_nodes i)) \<longrightarrow> room_ok p
      \<and> (\<forall>m. placed_bytes (dr_dataSteps d @ dr_volumeSteps d) m + placed_bytes [st] m \<le> reserved_on p m)" by simp
  define e where "e = op st (d\<lparr>dr_picker := p\<rparr>)"
  have e: "dr_picker e = p" "set (dr_dataSteps e @ dr_volumeSteps e) = insert st (set (dr_dataSteps d @ dr_volumeSteps d))"
    "\<And>m. placed_bytes (dr_dataSteps e @ dr_volumeSteps e) m = placed_bytes (dr_dataSteps d @ dr_volumeSteps d) m + placed_bytes [st] m"
    using op by (auto simp: e_def data_step_def volume_step_def placed_bytes_append)
  have dest: "\<forall>s \<in> set (dr_dataSteps e @ dr_volumeSteps e). \<forall>k. st_destination s = Some k \<longrightarrow> may_host p k"
    unfolding e(2) using l new st(1) by (simp add: ledger_ok_def host)
  from l r have "pk_nodes p = di_nodes i" "pk_targetNodeId p = dn_nodeId t" by (simp_all add: ledger_ok_def)
  with dest bytes show ?thesis unfolding e_def [symmetric] ledger_ok_def e(1,3) by blast
qed

interpretation ledger: draft_invariant "ledger_ok i t" lc i t for lc i t
proof
  show "ledger_ok i t (start_draft i t)"
    by (simp add: ledger_ok_def start_core placed_bytes_def new_picker_def room_ok_def reserved_on_def opt_or_def)
  fix d e vs st b n p and op :: "drain_step \<Rightarrow> draft \<Rightarrow> draft"
  show "ledger_ok i t d \<Longrightarrow> same_core d e \<Longrightarrow> ledger_ok i t e" by (simp add: ledger_ok_def same_core_def)
  show "ledger_ok i t d \<Longrightarrow> ledger_ok i t (needs_backup i vs d)" by (simp add: ledger_ok_def needs_backup_def)
  show "ledger_ok i t d \<Longrightarrow> st_destination st = None \<Longrightarrow> ledger_ok i t (data_step st d)"
    by (auto simp: ledger_ok_def data_step_def placed_bytes_def)
  show "ledger_ok i t d \<Longrightarrow> st_destination st = None \<Longrightarrow> ledger_ok i t (volume_step st d)"
    by (auto simp: ledger_ok_def volume_step_def placed_bytes_def)
  show "ledger_ok i t d \<Longrightarrow> pick lc (dr_picker d) b [] = (Some n, p) \<Longrightarrow> sizes_ok i \<longrightarrow> 0 \<le> opt_or b 0 \<Longrightarrow>
      st_destination st = Some (dn_nodeId n) \<Longrightarrow> well_placed i t d st b \<Longrightarrow> op \<in> {data_step, volume_step} \<Longrightarrow>
      ledger_ok i t (op st (d\<lparr>dr_picker := p\<rparr>))"
    by (rule ledger_placed) (auto simp: well_placed_def)
qed

lemma no_bytes:
  assumes "\<forall>s \<in> set xs. st_bytes s = None"
  shows "placed_bytes xs n = 0"
proof -
  have "map (\<lambda>s. if st_destination s = Some n then opt_or (st_bytes s) 0 else 0) xs = map (\<lambda>s. 0 :: int) xs"
    using assms by (intro map_cong) (auto simp: opt_or_def)
  then show ?thesis unfolding placed_bytes_def by (simp only: sum_list_0)
qed

lemma role_steps_no_bytes:
  "\<forall>s \<in> set (snd (plan_garage lc i t d)). st_bytes s = None" "\<forall>s \<in> set (snd (plan_managers lc i t d)). st_bytes s = None"
  "\<forall>s \<in> set (snd (plan_edges lc i t d)). st_bytes s = None"
proof -
  have "list_all (\<lambda>s. st_bytes s = None) (snd (plan_garage lc i t d))" "list_all (\<lambda>s. st_bytes s = None) (snd (plan_managers lc i t d))"
    by (auto simp: plan_garage_def plan_managers_def Let_def mk_step_def split: option.split)
  then show "\<forall>s \<in> set (snd (plan_garage lc i t d)). st_bytes s = None" "\<forall>s \<in> set (snd (plan_managers lc i t d)). st_bytes s = None"
    by (simp_all only: list_all_iff)
  have "list_all (\<lambda>s. st_bytes s = None) (snd (edge_role lc i t l ds))" if "list_all (\<lambda>s. st_bytes s = None) (snd ds)" for l ds
    using that by (cases ds) (auto simp: edge_role_def Let_def mk_step_def split: option.split)
  note step = this
  have "list_all (\<lambda>s. st_bytes s = None) (snd (edge_role lc i t NODE_INGRESS (d, [])))" by (rule step) simp
  from step [OF this] show "\<forall>s \<in> set (snd (plan_edges lc i t d)). st_bytes s = None" by (simp add: plan_edges_def list_all_iff)
qed

lemma plan_bytes:
  assumes "retiring i t"
  shows "placed_bytes (pl_steps (planDecommission lc i)) n
    = placed_bytes (dr_dataSteps (final_draft lc i t) @ dr_volumeSteps (final_draft lc i t)) n"
proof -
  have z: "placed_bytes (if P then [mk_step k a b c d' dt None] else []) n = 0" "placed_bytes [target_step k a t] n = 0"
    "placed_bytes (if P then [target_step k a t] else []) n = 0" for P k a b c d' dt
    by (simp_all add: placed_bytes_def target_step_def mk_step_def opt_or_def)
  show ?thesis
    unfolding plan_of_target(1) [OF assms] assemble_def placed_bytes_append z
      no_bytes [OF role_steps_no_bytes(1)] no_bytes [OF role_steps_no_bytes(2)] no_bytes [OF role_steps_no_bytes(3)] by simp
qed

lemma placed_bytes_dest: "0 < placed_bytes xs n \<Longrightarrow> \<exists>s \<in> set xs. st_destination s = Some n"
  by (induction xs) (auto simp: placed_bytes_def split: if_splits)


section \<open>Safety backups\<close>

definition vol_safe :: "decom_input \<Rightarrow> decom_node \<Rightarrow> string list \<Rightarrow> string \<Rightarrow> bool" where
  "vol_safe i t bs v \<longleftrightarrow> (if dn_online t then hasFreshBackup i v \<or> v \<in> set bs else last_backup i v \<noteq> None)"

definition volumes_safe :: "decom_input \<Rightarrow> decom_node \<Rightarrow> draft \<Rightarrow> bool" where
  "volumes_safe i t d \<longleftrightarrow> (\<forall>s \<in> set (dr_dataSteps d @ dr_volumeSteps d).
     st_kind s \<noteq> VolumeFollow \<longrightarrow> (\<forall>v \<in> set (st_volumes s). vol_safe i t (dr_needsBackup d) v))"

lemma vol_safe_mono: "vol_safe i t bs v \<Longrightarrow> set bs \<subseteq> set cs \<Longrightarrow> vol_safe i t cs v"
  by (auto simp: vol_safe_def)

lemma volumes_safe_needs:
  assumes "volumes_safe i t d"
  shows "volumes_safe i t (needs_backup i vs d)"
proof -
  have n: "set (dr_needsBackup d) \<subseteq> set (dr_needsBackup (needs_backup i vs d))"
    by (simp add: needs_backup_def set_fold_js_set_add)
  have e: "dr_dataSteps (needs_backup i vs d) = dr_dataSteps d" "dr_volumeSteps (needs_backup i vs d) = dr_volumeSteps d"
    by (simp_all add: needs_backup_def)
  show ?thesis
    unfolding volumes_safe_def e using assms [unfolded volumes_safe_def] vol_safe_mono [OF _ n] by blast
qed

interpretation safe: draft_invariant "volumes_safe i t" lc i t for lc i t
proof
  show "volumes_safe i t (start_draft i t)" by (simp add: volumes_safe_def start_core)
  fix d e vs st b n p and op :: "drain_step \<Rightarrow> draft \<Rightarrow> draft"
  show "volumes_safe i t d \<Longrightarrow> same_core d e \<Longrightarrow> volumes_safe i t e" by (simp add: volumes_safe_def same_core_def)
  show "volumes_safe i t d \<Longrightarrow> volumes_safe i t (needs_backup i vs d)"
    by (rule volumes_safe_needs)
  have add: "volumes_safe i t d \<Longrightarrow> st_kind st = VolumeFollow \<or> (\<forall>v \<in> set (st_volumes st). vol_safe i t (dr_needsBackup d) v) \<Longrightarrow>
      op \<in> {data_step, volume_step} \<Longrightarrow> volumes_safe i t (op st (d\<lparr>dr_picker := q\<rparr>))" for q op
    by (auto simp: volumes_safe_def data_step_def volume_step_def ball_Un)
  from add [of data_step "dr_picker d"] add [of volume_step "dr_picker d"]
  show "volumes_safe i t d \<Longrightarrow> st_volumes st = [] \<Longrightarrow> volumes_safe i t (data_step st d)"
    and "volumes_safe i t d \<Longrightarrow> st_kind st = VolumeFollow \<Longrightarrow> volumes_safe i t (volume_step st d)" by simp_all
  show "volumes_safe i t d \<Longrightarrow> well_placed i t d st b \<Longrightarrow> op \<in> {data_step, volume_step} \<Longrightarrow> volumes_safe i t (op st (d\<lparr>dr_picker := p\<rparr>))"
    by (rule add) (auto simp: well_placed_def vol_safe_def)
qed

lemma plan_data_step:
  assumes "retiring i t" "s \<in> set (pl_steps (planDecommission lc i))" "phase_rank (st_kind s) = 6"
  shows "s \<in> set (dr_dataSteps (final_draft lc i t) @ dr_volumeSteps (final_draft lc i t))"
proof -
  have "phase_rank (st_kind s) \<noteq> 6" if "s \<in> set (snd (plan_managers lc i t d))" for d
    using manager_steps [of lc i t d] that by (auto simp: phase_rank_def)
  moreover have "phase_rank (st_kind s) \<noteq> 6" if "s \<in> set (snd (plan_edges lc i t d))" for d
    using edge_steps [of lc i t d] that by (auto simp: phase_rank_def)
  moreover have "st_kind s \<in> set (map st_kind (snd (plan_garage lc i t d)))" if "s \<in> set (snd (plan_garage lc i t d))" for d
    using that by simp
  then have "phase_rank (st_kind s) \<noteq> 6" if "s \<in> set (snd (plan_garage lc i t d))" for d
    using garage_steps [of lc i t d] that by (auto simp: phase_rank_def)
  ultimately show ?thesis
    using assms(2,3) unfolding plan_of_target(1) [OF assms(1)] assemble_def
    by (auto simp: target_step_def mk_step_def phase_rank_def split: if_splits)
qed

lemma plan_has_steps:
  assumes "retiring i t"
  shows "set (dr_dataSteps (final_draft lc i t)) \<union> set (dr_volumeSteps (final_draft lc i t)) \<subseteq> set (pl_steps (planDecommission lc i))"
  unfolding plan_of_target(1) [OF assms] assemble_def by auto

lemma set_sort_strings [simp]: "set (sort_strings xs) = set xs"
  by (simp add: sort_strings_def)

text \<open>
  No volume moves without a copy of it: with backups configured, every volume that an online
  server's plan copies has a fresh backup or is in the safety backup that is the plan's first
  step, and every volume that an offline server's plan restores has a backup to restore.
\<close>

theorem moved_volumes_have_backup:
  assumes "retiring i t" and "di_backupsConfigured i"
    and "s \<in> set (pl_steps (planDecommission lc i))" and "st_kind s \<in> {DbStandbySwitchover, VolumeCopy, VolumeRestore}"
    and "v \<in> set (st_volumes s)"
  shows "if dn_online t
    then hasFreshBackup i v \<or> (\<exists>b bs. pl_steps (planDecommission lc i) = b # bs \<and> st_kind b = SafetyBackup \<and> v \<in> set (st_volumes b))
    else last_backup i v \<noteq> None"
proof -
  from assms(4) have "phase_rank (st_kind s) = 6" by (auto simp: phase_rank_def)
  moreover from assms(4) have "st_kind s \<noteq> VolumeFollow" by auto
  ultimately have "s \<in> set (dr_dataSteps (final_draft lc i t) @ dr_volumeSteps (final_draft lc i t))" "st_kind s \<noteq> VolumeFollow"
    using plan_data_step [OF assms(1,3)] by blast+
  with safe.inv_final [of i t lc] assms(5)
  have "vol_safe i t (dr_needsBackup (final_draft lc i t)) v" unfolding volumes_safe_def by blast
  then have v: "if dn_online t then hasFreshBackup i v \<or> v \<in> set (dr_needsBackup (final_draft lc i t)) else last_backup i v \<noteq> None"
    by (simp add: vol_safe_def)
  have "\<exists>b bs. pl_steps (planDecommission lc i) = b # bs \<and> st_kind b = SafetyBackup \<and> v \<in> set (st_volumes b)"
    if "dn_online t" "v \<in> set (dr_needsBackup (final_draft lc i t))"
    unfolding plan_of_target(1) [OF assms(1)] assemble_def using that assms(2) by (auto simp: mk_step_def)
  with v show ?thesis by auto
qed

section \<open>The managers that remain\<close>

lemma promoted_steps:
  assumes "retiring i t"
  shows "filter (\<lambda>s. st_kind s = ManagerPromote) (pl_steps (planDecommission lc i)) = snd (plan_managers lc i t (edge_draft lc i t))"
proof -
  have "filter (\<lambda>s. st_kind s = ManagerPromote) xs = []" if "\<forall>s \<in> set xs. phase_rank (st_kind s) \<noteq> 2" for xs
    using that by (auto simp: filter_empty_conv phase_rank_def)
  note none = this
  have d: "\<forall>s \<in> set (dr_dataSteps (final_draft lc i t)). phase_rank (st_kind s) \<noteq> 2"
    "\<forall>s \<in> set (dr_volumeSteps (final_draft lc i t)). phase_rank (st_kind s) \<noteq> 2"
    using kinds.inv_final [of lc i t] by (auto simp: kinds_ok_def)
  have e: "\<forall>s \<in> set (snd (plan_edges lc i t (volume_draft lc i t))). phase_rank (st_kind s) \<noteq> 2"
    using edge_steps [of lc i t "volume_draft lc i t"] by (auto simp: phase_rank_def)
  have "\<forall>k \<in> set (map st_kind (snd (plan_garage lc i t (data_draft lc i t)))). phase_rank k \<noteq> 2"
    using garage_steps [of lc i t "data_draft lc i t"] by (auto simp: phase_rank_def)
  then have g: "\<forall>s \<in> set (snd (plan_garage lc i t (data_draft lc i t))). phase_rank (st_kind s) \<noteq> 2" by simp
  have "\<forall>k \<in> set (map st_kind (snd (plan_managers lc i t (edge_draft lc i t)))). k = ManagerPromote"
    using manager_steps [of lc i t "edge_draft lc i t"] by auto
  then have m: "\<forall>s \<in> set (snd (plan_managers lc i t (edge_draft lc i t))). st_kind s = ManagerPromote" by simp
  have z: "filter (\<lambda>s. st_kind s = ManagerPromote) (if P then [mk_step SafetyBackup a b c d' dt y] else []) = []"
    "filter (\<lambda>s. st_kind s = ManagerPromote) (if P then [target_step k x t] else []) = []"
    "filter (\<lambda>s. st_kind s = ManagerPromote) [target_step k x t] = []"
    if "k \<noteq> ManagerPromote" for P a b c d' dt y k x
    using that by (simp_all add: target_step_def mk_step_def)
  show ?thesis
    unfolding plan_of_target(1) [OF assms] assemble_def filter_append
    using none [OF d(1)] none [OF d(2)] none [OF e] none [OF g] m by (simp add: target_step_def mk_step_def)
qed

lemma slot_warning_keeps: "set (dr_warnings d) \<subseteq> set (dr_warnings (fold (slot_warning i t) ss d))"
proof (induction ss arbitrary: d)
  case (Cons s ss)
  have "set (dr_warnings d) \<subseteq> set (dr_warnings (slot_warning i t s d))"
    by (auto simp: slot_warning_def warn_def Let_def)
  with Cons [of "slot_warning i t s d"] show ?case by auto
qed simp

lemma manager_warnings: "set (dr_warnings (manager_draft lc i t)) \<subseteq> set (dr_warnings (final_draft lc i t))"
  unfolding final_draft_def Let_def
  using slot_warning_keeps [of "manager_draft lc i t" i t "di_services i"]
    slot_warning_keeps [of "warn NoSafetyCopy (manager_draft lc i t)" i t "di_services i"]
  by (auto simp: warn_def)

text \<open>
  Retiring a manager keeps the swarm manageable: a plan that can run leaves at least one
  manager, and an odd number of them unless it warns of the even count; whom it promotes is a
  schedulable worker that is not behind NAT.
\<close>

theorem managers_remain:
  assumes "retiring i t" and "pl_runnable (planDecommission lc i)" and "node_is_manager t"
    and "remaining = length (filter node_is_manager (di_nodes i)) - 1"
    and "promoted = filter (\<lambda>s. st_kind s = ManagerPromote) (pl_steps (planDecommission lc i))"
  shows "0 < remaining + length promoted
    \<and> (odd (remaining + length promoted) \<or> EvenManagers remaining \<in> set (pl_warnings (planDecommission lc i)))
    \<and> (\<forall>s \<in> set promoted. \<exists>w \<in> set (di_nodes i). st_destination s = Some (dn_nodeId w) \<and> node_is_worker w
         \<and> isSchedulable w \<and> nodeReachability w \<noteq> RNat)"
proof -
  let ?d = "edge_draft lc i t"
  define worker where "worker = rp_chosen (pickRoleHost lc (dr_picker ?d) [] node_is_worker)"
  have p: "promoted = snd (plan_managers lc i t ?d)" unfolding assms(5) by (rule promoted_steps [OF assms(1)])
  have "set (dr_blockers (manager_draft lc i t)) \<subseteq> set (dr_blockers (final_draft lc i t))"
    using grows_final(1) [of lc i t] by (simp add: grows_def)
  with assms(2) have b: "dr_blockers (fst (plan_managers lc i t ?d)) = []"
    unfolding plan_of_target(3) [OF assms(1)] manager_draft_def by simp
  have w: "set (dr_warnings (fst (plan_managers lc i t ?d))) \<subseteq> set (pl_warnings (planDecommission lc i))"
    unfolding plan_of_target(4) [OF assms(1)] using manager_warnings [of lc i t] by (simp add: manager_draft_def)
  have n: "pk_nodes (dr_picker ?d) = di_nodes i" using ledger.inv_edge [of i t lc] by (simp add: ledger_ok_def)
  have k: "v \<in> set (di_nodes i) \<and> node_is_worker v \<and> isSchedulable v \<and> nodeReachability v \<noteq> RNat" if "worker = Some v" for v
    using pickRoleHost_mem [OF that [unfolded worker_def]] n by simp
  note pm = plan_managers_def [of lc i t ?d, unfolded Let_def, folded assms(4) worker_def]
  show ?thesis
  proof (cases worker)
    case None
    with b w assms(3) p show ?thesis by (auto simp: pm block_def warn_def split: if_splits)
  next
    case (Some v)
    with k [OF Some] b w assms(3) p show ?thesis by (auto simp: pm mk_step_def split: if_splits)
  qed
qed

section \<open>No data left behind\<close>

lemma grows_fold_ex:
  assumes "\<And>x d. grows d (f x d)" "x \<in> set xs"
  shows "\<exists>ys. grows (f x (fold f ys d)) (fold f xs d)"
  by (rule grows_fold_at [of f x xs d, OF assms]) blast

lemma with_destination_prop:
  assumes "\<And>n e. P (k n e)" "\<And>e. P (block NoDestination (Some s) e)"
  shows "P (with_destination lc s b k d)"
  using assms by (cases rule: with_destination_cases [of lc d b s k]) auto

lemma no_blockers_before: "grows d e \<Longrightarrow> dr_blockers e = [] \<Longrightarrow> dr_blockers d = []"
  by (simp add: grows_def)

text \<open>Some recorded step is about \<open>subject\<close> and of one of the kinds \<open>K\<close>.\<close>

definition data_covered :: "string \<Rightarrow> draft \<Rightarrow> bool" where
  "data_covered subject d \<longleftrightarrow> dr_blockers d \<noteq> [] \<or> (\<exists>s \<in> set (dr_dataSteps d). st_subject s = Some subject
     \<and> st_kind s \<in> {DbSwitchover, DbStandbySwitchover, DbFailoverStep, VolumeRestore})"

lemma data_covered_block: "data_covered x (block c y d)"
  by (simp add: data_covered_def block_def)

lemma data_covered_step:
  "k \<in> {DbSwitchover, DbStandbySwitchover, DbFailoverStep, VolumeRestore} \<Longrightarrow> data_covered x (data_step (mk_step k a (Some x) vs n dt b) d)"
  by (auto simp: data_covered_def data_step_def mk_step_def)

lemma db_primary_covered: "data_covered (sv_name m) (db_primary lc i t c ms m d)"
  unfolding db_primary_def Let_def
  by (simp split: if_split)
    (intro conjI impI; intro data_covered_block data_covered_step with_destination_prop [where P = "data_covered (sv_name m)"]; simp)

lemma set_alist_update: "set (AList.update k v al) \<subseteq> insert (k, v) (set al)"
  by (induction al) auto

lemma add_to_cluster_keeps:
  "x \<in> set (opt_or (map_of acc k) []) \<Longrightarrow> x \<in> set (opt_or (map_of (add_to_cluster s acc) k) [])"
  by (auto simp: add_to_cluster_def update_conv' opt_or_def split: if_splits option.splits)

lemma db_clusters_add:
  "is_db_member x \<Longrightarrow> x \<in> set ss \<or> x \<in> set (opt_or (map_of acc (cluster_key x)) []) \<Longrightarrow>
   x \<in> set (opt_or (map_of (fold add_to_cluster ss acc) (cluster_key x)) [])"
proof (induction ss arbitrary: acc)
  case (Cons s ss)
  have "x = s \<Longrightarrow> x \<in> set (opt_or (map_of (add_to_cluster s acc) (cluster_key x)) [])"
    using Cons.prems(1) by (simp add: add_to_cluster_def update_conv' opt_or_def)
  with Cons.prems add_to_cluster_keeps [of x acc "cluster_key x" s] Cons.IH [of "add_to_cluster s acc"] show ?case by auto
qed auto

lemma db_clusters_mem:
  assumes "m \<in> set (di_services i)" "is_db_member m"
  obtains key ms where "(key, ms) \<in> set (db_clusters i)" "m \<in> set ms"
proof (cases "map_of (db_clusters i) (cluster_key m)")
  case None
  with db_clusters_add [OF assms(2), of "di_services i" "[]"] assms(1) show ?thesis by (simp add: db_clusters_def opt_or_def)
next
  case (Some ms)
  with db_clusters_add [OF assms(2), of "di_services i" "[]"] assms(1) have "m \<in> set ms"
    by (simp add: db_clusters_def opt_or_def)
  with map_of_SomeD [OF Some] that show ?thesis by blast
qed

text \<open>
  C13. No managed database is left behind: when a plan can run, every Postgres primary on the
  server has a step that moves it (a switchover to its replica, a copy with a switchover, a
  failover or a restore).
\<close>

theorem databases_move:
  assumes "retiring i t" and "pl_runnable (planDecommission lc i)"
    and "m \<in> set (di_services i)" and "is_db_member m" and "svl m DB_ROLE = Some ''primary''"
    and "map_of (onTarget i t) (sv_name m) \<noteq> None"
  shows "\<exists>s \<in> set (pl_steps (planDecommission lc i)). st_subject s = Some (sv_name m)
    \<and> st_kind s \<in> {DbSwitchover, DbStandbySwitchover, DbFailoverStep, VolumeRestore}"
proof -
  obtain key ms where k: "(key, ms) \<in> set (db_clusters i)" "m \<in> set ms"
    by (rule db_clusters_mem [OF assms(3,4)])
  let ?f = "\<lambda>(key, members). fold (db_member lc i t (last (js_split (CHR ''/'') key)) members) members"
  let ?g = "db_member lc i t (last (js_split (CHR ''/'') key)) ms"
  have grow: "grows d (?f x d)" for x d by (auto simp: case_prod_beta intro: grows_fold)
  obtain ys where o1: "grows (?f (key, ms) (fold ?f ys (start_draft i t))) (plan_databases lc i t (start_draft i t))"
    using grows_fold_ex [of ?f "(key, ms)" "db_clusters i" "start_draft i t", OF grow k(1)] unfolding plan_databases_def by blast
  obtain us where o2: "grows (?g m (fold ?g us (fold ?f ys (start_draft i t)))) (fold ?g ms (fold ?f ys (start_draft i t)))"
    using grows_fold_ex [of ?g m ms "fold ?f ys (start_draft i t)", OF grows_db_member [OF grows_refl] k(2)] by blast
  let ?d = "?g m (fold ?g us (fold ?f ys (start_draft i t)))"
  have "grows (plan_databases lc i t (start_draft i t)) (data_draft lc i t)" unfolding data_draft_def by (rule grows_phases)
  from grows_trans [OF o2 [folded prod.case [of _ key ms]]] o1 this grows_final(5) have g: "grows ?d (final_draft lc i t)"
    by (metis (no_types, lifting) grows_trans prod.case)
  have "data_covered (sv_name m) (?g m e)" for e using assms(5,6) by (auto simp: db_member_def intro: db_primary_covered)
  then have "data_covered (sv_name m) ?d" by blast
  moreover have "dr_blockers ?d = []"
    using no_blockers_before [OF g] assms(2) unfolding plan_of_target(3) [OF assms(1)] by blast
  ultimately obtain s where "s \<in> set (dr_dataSteps ?d)" "st_subject s = Some (sv_name m)"
    "st_kind s \<in> {DbSwitchover, DbStandbySwitchover, DbFailoverStep, VolumeRestore}" unfolding data_covered_def by blast
  moreover from this(1) g have "s \<in> set (dr_dataSteps (final_draft lc i t))" by (auto simp: grows_def)
  with plan_has_steps [OF assms(1), of lc] have "s \<in> set (pl_steps (planDecommission lc i))" by blast
  ultimately show ?thesis by blast
qed

subsection \<open>What the earlier sections have handled\<close>

lemma handled_ops [simp]:
  "dr_handled (block c x d) = dr_handled d" "dr_handled (warn w d) = dr_handled d" "dr_handled (is_stateless n d) = dr_handled d"
  "dr_handled (data_step st d) = dr_handled d" "dr_handled (volume_step st d) = dr_handled d"
  "dr_handled (needs_backup i vs d) = dr_handled d" "dr_handled (count_bytes b u d) = dr_handled d"
  "set (dr_handled (mark_handled n d)) = insert n (set (dr_handled d))"
  by (simp_all add: draft_ops split: option.split)

lemma handled_with_destination:
  "(\<And>n e. dr_handled (k n e) = dr_handled e) \<Longrightarrow> dr_handled (with_destination lc x b k d) = dr_handled d"
  by (cases rule: with_destination_cases [of lc d b x k]) simp_all

lemma handled_db_primary: "dr_handled (db_primary lc i t c ms m d) = dr_handled d"
  unfolding db_primary_def Let_def by (simp add: handled_with_destination)

lemma handled_db_member: "set (dr_handled (db_member lc i t c ms m d)) \<subseteq> insert (sv_name m) (set (dr_handled d))"
  by (auto simp: db_member_def handled_db_primary)

lemma handled_fold:
  assumes "\<And>x d. x \<in> set xs \<Longrightarrow> set (dr_handled (f x d)) \<subseteq> set (dr_handled d) \<union> A x"
  shows "set (dr_handled (fold f xs d)) \<subseteq> set (dr_handled d) \<union> (\<Union>x \<in> set xs. A x)"
  using assms
proof (induction xs arbitrary: d)
  case (Cons x xs)
  have "set (dr_handled (fold f xs (f x d))) \<subseteq> set (dr_handled (f x d)) \<union> (\<Union>x \<in> set xs. A x)"
    using Cons.prems by (intro Cons.IH) simp
  also have "\<dots> \<subseteq> set (dr_handled d) \<union> (\<Union>x \<in> set (x # xs). A x)" using Cons.prems [of x d] by auto
  finally show ?case by simp
qed simp

lemma db_clusters_sound:
  assumes "(key, ms) \<in> set (db_clusters i)" "m \<in> set ms"
  shows "m \<in> set (di_services i) \<and> is_db_member m"
proof -
  have "\<forall>e \<in> set (fold add_to_cluster ss acc). \<forall>m \<in> set (snd e). m \<in> S \<and> is_db_member m"
    if "set ss \<subseteq> S" "\<forall>e \<in> set acc. \<forall>m \<in> set (snd e). m \<in> S \<and> is_db_member m" for ss acc S
    using that
  proof (induction ss arbitrary: acc)
    case (Cons x ss)
    have "\<forall>m \<in> set (opt_or (map_of acc (cluster_key x)) []). m \<in> S \<and> is_db_member m"
    proof (cases "map_of acc (cluster_key x)")
      case (Some ys)
      with Cons.prems(2) map_of_SomeD [OF Some] show ?thesis by (fastforce simp: opt_or_def)
    qed (simp add: opt_or_def)
    then have "\<forall>e \<in> (if is_db_member x then insert (cluster_key x, opt_or (map_of acc (cluster_key x)) [] @ [x]) (set acc) else set acc).
        \<forall>m \<in> set (snd e). m \<in> S \<and> is_db_member m" using Cons.prems by simp
    moreover have "set (add_to_cluster x acc)
        \<subseteq> (if is_db_member x then insert (cluster_key x, opt_or (map_of acc (cluster_key x)) [] @ [x]) (set acc) else set acc)"
      by (simp add: add_to_cluster_def set_alist_update)
    ultimately have "\<forall>e \<in> set (add_to_cluster x acc). \<forall>m \<in> set (snd e). m \<in> S \<and> is_db_member m" by blast
    with Cons.IH [of "add_to_cluster x acc"] Cons.prems(1) show ?case by simp
  qed simp
  from this [of "di_services i" "set (di_services i)" "[]"] assms show ?thesis by (auto simp: db_clusters_def)
qed

lemma handled_databases:
  "set (dr_handled (plan_databases lc i t d)) \<subseteq> set (dr_handled d) \<union> sv_name ` {m \<in> set (di_services i). is_db_member m}"
proof -
  have "set (dr_handled (plan_databases lc i t d)) \<subseteq> set (dr_handled d) \<union> (\<Union>e \<in> set (db_clusters i). \<Union>m \<in> set (snd e). {sv_name m})"
    unfolding plan_databases_def
  proof (rule handled_fold)
    fix e d assume "e \<in> set (db_clusters i)"
    obtain key ms where e: "e = (key, ms)" by (cases e)
    have "set (dr_handled (fold (db_member lc i t c ms) ms d)) \<subseteq> set (dr_handled d) \<union> (\<Union>m \<in> set ms. {sv_name m})" for c
      by (rule handled_fold) (use handled_db_member in fastforce)
    with e show "set (dr_handled ((case e of (key, members) \<Rightarrow> fold (db_member lc i t (last (js_split (CHR ''/'') key)) members) members) d))
        \<subseteq> set (dr_handled d) \<union> (\<Union>m \<in> set (snd e). {sv_name m})" by simp
  qed
  also have "\<dots> \<subseteq> set (dr_handled d) \<union> sv_name ` {m \<in> set (di_services i). is_db_member m}"
    using db_clusters_sound by fastforce
  finally show ?thesis .
qed

definition cache_done :: "decom_node \<Rightarrow> decom_service \<Rightarrow> bool" where
  "cache_done t s \<longleftrightarrow> truthy (svl s CACHE_CLUSTER) \<and> \<not> (svl s CACHE_ROLE = Some ''primary'' \<and> dn_online t)"

lemma handled_caches:
  "set (dr_handled (plan_caches i t d)) \<subseteq> set (dr_handled d) \<union> sv_name ` {m \<in> set (di_services i). cache_done t m}"
proof -
  have "set (dr_handled (plan_caches i t d)) \<subseteq> set (dr_handled d) \<union> (\<Union>s \<in> set (di_services i). if cache_done t s then {sv_name s} else {})"
    unfolding plan_caches_def by (rule handled_fold) (auto simp: cache_service_def cache_done_def Let_def)
  then show ?thesis by (auto split: if_splits)
qed

lemma handled_garage: "dr_handled (fst (plan_garage lc i t d)) = dr_handled d"
  by (simp add: plan_garage_def Let_def)

lemma handled_start: "dr_handled (start_draft i t) = []"
  by (simp add: start_draft_def Let_def block_def)

lemma handled_before_volumes:
  "set (dr_handled (garage_draft lc i t)) \<subseteq> sv_name ` {m \<in> set (di_services i). is_db_member m \<or> cache_done t m}"
  unfolding garage_draft_def data_draft_def handled_garage
  using handled_caches [of i t "plan_databases lc i t (start_draft i t)"] handled_databases [of lc i t "start_draft i t"] handled_start [of i t]
  by auto

subsection \<open>Volumes\<close>

lemma distinct_onTarget: "distinct (map fst (onTarget i t))"
proof -
  have "distinct (map fst (fold f xs m))" if "\<And>x m. distinct (map fst m) \<Longrightarrow> distinct (map fst (f x m))" "distinct (map fst m)"
    for f :: "'b \<Rightarrow> (decom_mount list) jsmap \<Rightarrow> (decom_mount list) jsmap" and xs m
    using that by (induction xs arbitrary: m) auto
  note fold = this
  show ?thesis unfolding onTarget_def Let_def
    by (intro fold) (auto simp: distinct_update)
qed

definition volume_covered :: "decom_node \<Rightarrow> string \<Rightarrow> string \<Rightarrow> draft \<Rightarrow> bool" where
  "volume_covered t subject v d \<longleftrightarrow> dr_blockers d \<noteq> [] \<or> (\<exists>s \<in> set (dr_volumeSteps d). st_subject s = Some subject
     \<and> st_kind s = (if dn_online t then VolumeCopy else VolumeRestore) \<and> v \<in> set (st_volumes s) \<and> st_destination s \<noteq> None)"

lemma volume_covered_block: "volume_covered t x v (block c y d)"
  by (simp add: volume_covered_def block_def)

lemma volume_covered_step:
  "k = (if dn_online t then VolumeCopy else VolumeRestore) \<Longrightarrow> v \<in> set vs \<Longrightarrow>
   volume_covered t x v (volume_step (mk_step k a (Some x) vs (Some n) dt b) d)"
  by (simp add: volume_covered_def volume_step_def mk_step_def)

lemma move_volumes_covered: "v \<in> set vs \<Longrightarrow> volume_covered t name v (move_volumes lc i t name vs d)"
  unfolding move_volumes_def Let_def
  by (simp split: if_split)
    (intro conjI impI; intro volume_covered_block volume_covered_step with_destination_prop [where P = "volume_covered t name v"]; simp)

lemma handled_move_volumes: "dr_handled (move_volumes lc i t n vs d) = dr_handled d"
  unfolding move_volumes_def Let_def by (simp add: handled_with_destination)

lemma handled_fold_warn: "dr_handled (fold (\<lambda>b. warn (w b)) bs d) = dr_handled d"
  by (induction bs arbitrary: d) simp_all

lemma handled_volume_service: "set (dr_handled (volume_service lc i t e d)) \<subseteq> set (dr_handled d) \<union> {fst e}"
  unfolding volume_service_def Let_def
  by (auto simp: case_prod_beta handled_move_volumes handled_fold_warn split: if_splits)

text \<open>A service of its own on the server keeps data in the volume \<open>v\<close> there.\<close>

definition holds_volume :: "decom_input \<Rightarrow> decom_node \<Rightarrow> decom_service \<Rightarrow> string \<Rightarrow> bool" where
  "holds_volume i t s v \<longleftrightarrow> s \<in> set (di_services i) \<and> sv_mode s = Replicated \<and> \<not> is_garage_service t (sv_name s) (Some s)
     \<and> \<not> is_db_member s \<and> \<not> cache_done t s \<and> (pinned_to (swarm_id t) s \<or> desired_or (Some s) 1 \<le> 1)
     \<and> v \<in> set (named_volumes (opt_or (map_of (onTarget i t) (sv_name s)) []))
     \<and> \<not> anonymous_volume v \<and> is_local_volume i v"

lemma volume_service_covered:
  assumes "holds_volume i t s v" "serviceByName i (sv_name s) = Some s" "map_of (onTarget i t) (sv_name s) = Some mounts"
    and "sv_name s \<notin> set (dr_handled d)"
  shows "volume_covered t (sv_name s) v (volume_service lc i t (sv_name s, mounts) d)"
proof -
  have v: "v \<in> set (named_volumes mounts)" "\<not> anonymous_volume v" "is_local_volume i v"
    using assms(1,3) by (auto simp: holds_volume_def opt_or_def)
  define vs where "vs = filter (is_local_volume i) (filter (\<lambda>v. \<not> anonymous_volume v) (named_volumes mounts))"
  have vs: "v \<in> set vs" using v by (simp add: vs_def)
  then have ne: "vs \<noteq> []" "filter (\<lambda>v. \<not> anonymous_volume v) (named_volumes mounts) \<noteq> []"
    using v by (auto simp: filter_empty_conv)
  have "\<exists>e. volume_service lc i t (sv_name s, mounts) d = move_volumes lc i t (sv_name s) vs e"
    using assms ne unfolding volume_service_def Let_def prod.case vs_def [symmetric] assms(2)
    by (auto simp: holds_volume_def)
  with move_volumes_covered [OF vs] show ?thesis by auto
qed

lemma serviceByName_distinct:
  assumes "distinct (map sv_name (di_services i))" "s \<in> set (di_services i)"
  shows "serviceByName i (sv_name s) = Some s"
proof -
  have "distinct (map fst (rev (map (\<lambda>s. (sv_name s, s)) (di_services i))))"
    using assms(1) by (simp add: rev_map [symmetric] comp_def)
  then show ?thesis unfolding serviceByName_def using assms(2) by (intro map_of_is_SomeI) auto
qed

lemma volumes_covered:
  assumes "distinct (map sv_name (di_services i))" "holds_volume i t s v" "dr_blockers (final_draft lc i t) = []"
  shows "\<exists>st \<in> set (dr_volumeSteps (final_draft lc i t)). st_subject st = Some (sv_name s)
    \<and> st_kind st = (if dn_online t then VolumeCopy else VolumeRestore) \<and> v \<in> set (st_volumes st) \<and> st_destination st \<noteq> None"
proof -
  let ?g = "garage_draft lc i t"
  have s: "s \<in> set (di_services i)" "\<not> is_db_member s" "\<not> cache_done t s" using assms(2) by (simp_all add: holds_volume_def)
  obtain mounts where m: "map_of (onTarget i t) (sv_name s) = Some mounts"
    using assms(2) by (cases "map_of (onTarget i t) (sv_name s)") (auto simp: holds_volume_def opt_or_def named_volumes_def)
  from map_of_SomeD [OF this] have mem: "(sv_name s, mounts) \<in> set (onTarget i t)" .
  have grow: "grows d (volume_service lc i t x d)" for x d by auto
  obtain ys zs where yz: "onTarget i t = ys @ (sv_name s, mounts) # zs"
      "grows (volume_service lc i t (sv_name s, mounts) (fold (volume_service lc i t) ys ?g)) (fold (volume_service lc i t) (onTarget i t) ?g)"
    using grows_fold_at [of "volume_service lc i t", OF grow mem] by blast
  let ?d = "fold (volume_service lc i t) ys ?g"
  have "sv_name s \<notin> set (dr_handled ?g)"
    using handled_before_volumes [of lc i t] s assms(1) by (auto simp: distinct_map inj_on_def)
  moreover have "set (dr_handled ?d) \<subseteq> set (dr_handled ?g) \<union> (\<Union>e \<in> set ys. {fst e})"
    by (rule handled_fold) (rule handled_volume_service)
  moreover have "sv_name s \<notin> fst ` set ys" using distinct_onTarget [of i t] yz(1) by auto
  ultimately have h: "sv_name s \<notin> set (dr_handled ?d)" by auto
  have "volume_covered t (sv_name s) v (volume_service lc i t (sv_name s, mounts) ?d)"
    by (rule volume_service_covered [OF assms(2) serviceByName_distinct [OF assms(1) s(1)] m h])
  moreover have "grows (fold (volume_service lc i t) (onTarget i t) ?g) (volume_draft lc i t)"
    unfolding volume_draft_def plan_volumes_def Let_def by auto
  with yz(2) have gf: "grows (volume_service lc i t (sv_name s, mounts) ?d) (final_draft lc i t)"
    by (blast intro: grows_trans grows_final)
  then have "dr_blockers (volume_service lc i t (sv_name s, mounts) ?d) = []" using no_blockers_before assms(3) by blast
  ultimately show ?thesis using gf unfolding volume_covered_def grows_def by blast
qed


section \<open>An example\<close>

text \<open>
  The manager \<open>a\<close> retires; it runs a web service with a volume and a database without replica,
  and \<open>b\<close> is the only other server.
\<close>

definition demo_input :: decom_input where
  "demo_input = \<lparr>di_target = ''a'', di_nodes = [demo_node ''a'' Manager, demo_node ''b'' Worker],
     di_services = [\<lparr>sv_name = ''web'', sv_mode = Replicated, sv_desired = Some 1, sv_labels = []\<rparr>,
       \<lparr>sv_name = ''db'', sv_mode = Replicated, sv_desired = Some 1, sv_labels = [(DB_CLUSTER, ''c''), (DB_ROLE, ''primary''),
          (DB_PIN_NODE_LABEL, ''sa''), (DB_DATA_VOLUME_LABEL, ''dbv'')]\<rparr>],
     di_containers = [\<lparr>dc_serviceName = Some ''web'', dc_labels = [], dc_mounts = [\<lparr>dm_type = Some ''volume'', dm_source = Some ''data''\<rparr>]\<rparr>],
     di_volumes = [\<lparr>dv_name = ''data'', dv_driver = Some ''local'', dv_size = Some 20\<rparr>,
       \<lparr>dv_name = ''dbv'', dv_driver = None, dv_size = Some 30\<rparr>],
     di_lastBackupAt = [], di_backupsConfigured = True, di_garageReplicationFactor = None, di_now = 0\<rparr>"

definition demo_plan :: decom_plan where
  "demo_plan = planDecommission (by_key (\<lambda>s. s)) demo_input"

definition demo_db :: decom_service where
  "demo_db = di_services demo_input ! 1"

definition demo_web :: decom_service where
  "demo_web = di_services demo_input ! 0"

lemma demo_retiring: "retiring demo_input (demo_node ''a'' Manager)"
  by (simp add: retiring_def demo_input_def demo_node_def)

lemma demo_kinds:
  "map st_kind (pl_steps demo_plan) = [SafetyBackup, Cordon, ManagerPromote, DbStandbySwitchover, VolumeCopy, DrainNode,
     ManagerDemote, SwarmLeave, Forget]"
  by code_simp

lemma demo_runnable: "pl_runnable demo_plan"
  by code_simp

lemma demo_bytes: "placed_bytes (pl_steps demo_plan) ''b'' = 50"
  by code_simp


theorem moved_volumes_have_backup_witness:
  "\<exists>b bs. pl_steps demo_plan = b # bs \<and> st_kind b = SafetyBackup \<and> ''data'' \<in> set (st_volumes b)"
proof -
  have "\<exists>s \<in> set (pl_steps demo_plan). st_kind s = VolumeCopy \<and> ''data'' \<in> set (st_volumes s)" by code_simp
  then obtain s where s: "s \<in> set (pl_steps demo_plan)" "st_kind s \<in> {DbStandbySwitchover, VolumeCopy, VolumeRestore}"
    "''data'' \<in> set (st_volumes s)" by blast
  have "di_backupsConfigured demo_input" "\<not> hasFreshBackup demo_input ''data''" "dn_online (demo_node ''a'' Manager)"
    by (simp_all add: demo_input_def demo_node_def hasFreshBackup_def last_backup_def)
  with moved_volumes_have_backup [OF demo_retiring _ s(1) [unfolded demo_plan_def] s(2,3)] show ?thesis
    unfolding demo_plan_def by simp
qed

theorem managers_remain_witness:
  "length (filter (\<lambda>s. st_kind s = ManagerPromote) (pl_steps demo_plan)) = 1
     \<and> 0 < length (filter node_is_manager (di_nodes demo_input)) - 1 + length (filter (\<lambda>s. st_kind s = ManagerPromote) (pl_steps demo_plan))"
proof -
  have "node_is_manager (demo_node ''a'' Manager)" by (simp add: node_is_manager_def demo_node_def)
  from managers_remain [OF demo_retiring demo_runnable [unfolded demo_plan_def] this refl refl]
  have "0 < length (filter node_is_manager (di_nodes demo_input)) - 1 + length (filter (\<lambda>s. st_kind s = ManagerPromote) (pl_steps demo_plan))"
    unfolding demo_plan_def by blast
  moreover have "length (filter (\<lambda>s. st_kind s = ManagerPromote) (pl_steps demo_plan)) = 1" by code_simp
  ultimately show ?thesis by blast
qed

theorem databases_move_witness:
  "\<exists>s \<in> set (pl_steps demo_plan). st_subject s = Some (sv_name demo_db)
     \<and> st_kind s \<in> {DbSwitchover, DbStandbySwitchover, DbFailoverStep, VolumeRestore}"
proof -
  have "demo_db \<in> set (di_services demo_input)" by (simp add: demo_db_def demo_input_def)
  moreover have "is_db_member demo_db" "svl demo_db DB_ROLE = Some ''primary''" by code_simp+
  moreover have "map_of (onTarget demo_input (demo_node ''a'' Manager)) (sv_name demo_db) \<noteq> None" by code_simp
  ultimately show ?thesis
    using databases_move [OF demo_retiring demo_runnable [unfolded demo_plan_def]] unfolding demo_plan_def by blast
qed


end
