(* ===== verification/KvCodec.thy ===== *)
theory KvCodec
  imports Json "HOL-Library.Word" "HOL-Library.Code_Target_Nat" "HOL-Library.Code_Target_Int"
begin

unbundle bit_operations_syntax

text \<open>
  The codec of the document store on swarm configs (\<^verbatim>\<open>packages/core/src/swarm-kv.ts\<close>): config
  names, key checks, the FNV-1a fingerprint on 32-bit words, base64 over UTF-8, and the stable JSON
  text of a document together with \<^verbatim>\<open>JSON.stringify\<close> and \<^verbatim>\<open>JSON.parse\<close>, which the source
  relies on. A string is a list of code units below 256, as in the other theories: an escape or a
  byte sequence for a larger one is outside the model and does not parse. The text of a number
  (\<^verbatim>\<open>Number::toString\<close> on doubles) and its reading are the parameter \<open>js_num\<close>.
\<close>

named_theorems kv_codec \<open>the character classes and tables of the codec\<close>

section \<open>Definitions\<close>

subsection \<open>Limits and names\<close>

definition KV_MAX_DOC_BYTES :: int where "KV_MAX_DOC_BYTES = 64 * 1024"
definition KV_MAX_TOTAL_BYTES :: int where "KV_MAX_TOTAL_BYTES = 2 * 1024 * 1024"
definition KV_KEEP_VERSIONS :: nat where "KV_KEEP_VERSIONS = 3"
definition KV_NAME_MAX :: nat where "KV_NAME_MAX = 64"
definition KV_NAME_PREFIX :: string where "KV_NAME_PREFIX = ''swarmy-kv''"
definition KV_MAX_SEQ :: nat where "KV_MAX_SEQ = 999999"

definition KV_LABEL :: string where "KV_LABEL = ''swarmy.kv''"
definition KV_LABEL_ORG :: string where "KV_LABEL_ORG = ''swarmy.kv.org''"
definition KV_LABEL_COLLECTION :: string where "KV_LABEL_COLLECTION = ''swarmy.kv.collection''"
definition KV_LABEL_ID :: string where "KV_LABEL_ID = ''swarmy.kv.id''"
definition KV_LABEL_SEQ :: string where "KV_LABEL_SEQ = ''swarmy.kv.seq''"
definition KV_LABEL_SHA :: string where "KV_LABEL_SHA = ''swarmy.kv.sha''"
definition KV_LABEL_BYTES :: string where "KV_LABEL_BYTES = ''swarmy.kv.bytes''"

definition is_lower :: "char \<Rightarrow> bool" where
  "is_lower c = (CHR ''a'' \<le> c \<and> c \<le> CHR ''z'')"

definition is_upper :: "char \<Rightarrow> bool" where
  "is_upper c = (CHR ''A'' \<le> c \<and> c \<le> CHR ''Z'')"

definition is_digit :: "char \<Rightarrow> bool" where
  "is_digit c = (CHR ''0'' \<le> c \<and> c \<le> CHR ''9'')"

text \<open>\<^verbatim>\<open>\w\<close>.\<close>

definition is_word :: "char \<Rightarrow> bool" where
  "is_word c = (is_lower c \<or> is_upper c \<or> is_digit c \<or> c = CHR ''_'')"

definition COLLECTION_RE :: "string \<Rightarrow> bool" where
  "COLLECTION_RE s =
     (s \<noteq> [] \<and> is_lower (hd s) \<and> length (tl s) \<le> 11 \<and>
      list_all (\<lambda>c. is_lower c \<or> is_digit c \<or> c = CHR ''-'') (tl s))"

definition ID_RE :: "string \<Rightarrow> bool" where
  "ID_RE s =
     (s \<noteq> [] \<and> (is_lower (hd s) \<or> is_upper (hd s) \<or> is_digit (hd s)) \<and> length (tl s) \<le> 39 \<and>
      list_all (\<lambda>c. is_word c \<or> c = CHR ''-'') (tl s))"

definition FORBIDDEN_FIELD_RE :: "string \<Rightarrow> bool" where
  "FORBIDDEN_FIELD_RE k =
     (k = ''updatedAt'' \<or>
      (js_starts_with k ''last'' \<and> drop 4 k \<noteq> [] \<and> is_upper (hd (drop 4 k)) \<and>
       list_all is_word (drop 5 k)) \<or>
      (js_starts_with k ''next'' \<and> drop 4 k \<noteq> [] \<and> is_upper (hd (drop 4 k)) \<and>
       list_all is_word (drop 5 k) \<and> js_ends_with (drop 5 k) ''At''))"

definition dec_value :: "string \<Rightarrow> nat" where
  "dec_value s = foldl (\<lambda>n c. 10 * n + (of_char c - 48)) 0 s"

definition kvConfigName :: "string \<Rightarrow> string \<Rightarrow> nat \<Rightarrow> string" where
  "kvConfigName collection i seq =
     KV_NAME_PREFIX @ ''.'' @ collection @ ''.'' @ i @ ''.v'' @ digits_of seq"

text \<open>
  \<^verbatim>\<open>NAME_RE\<close>: none of its classes has a dot, so the four parts are those of a split on dots.
\<close>

fun name_parts :: "string list \<Rightarrow> (string \<times> string \<times> string) option" where
  "name_parts [p, c, i, v] =
     (if p = KV_NAME_PREFIX \<and> COLLECTION_RE c \<and> ID_RE i \<and> v \<noteq> [] \<and> hd v = CHR ''v'' \<and>
         tl v \<noteq> [] \<and> length (tl v) \<le> 6 \<and> list_all is_digit (tl v)
      then Some (c, i, tl v) else None)"
| "name_parts _ = None"

definition parseKvConfigName :: "string \<Rightarrow> (string \<times> string \<times> nat) option" where
  "parseKvConfigName name =
     (case name_parts (js_split (CHR ''.'') name) of
        None \<Rightarrow> None
      | Some (c, i, ds) \<Rightarrow> (let seq = dec_value ds in if seq < 1 then None else Some (c, i, seq)))"

subsection \<open>Errors\<close>

datatype kv_code = UNAVAILABLE | TOO_LARGE | BUDGET | CONFLICT | INVALID | NOT_FOUND

text \<open>What a call may throw: a \<^verbatim>\<open>KvError\<close> or any other \<^verbatim>\<open>Error\<close>, with its message.\<close>

datatype kv_exn = KvError kv_code string | OtherError string

fun exn_message :: "kv_exn \<Rightarrow> string" where
  "exn_message (KvError c m) = m"
| "exn_message (OtherError m) = m"

definition isKvError :: "kv_exn \<Rightarrow> kv_code option \<Rightarrow> bool" where
  "isKvError e code =
     (case e of OtherError _ \<Rightarrow> False
      | KvError c _ \<Rightarrow> (case code of None \<Rightarrow> True | Some c' \<Rightarrow> c = c'))"

definition js_includes :: "string \<Rightarrow> string \<Rightarrow> bool" where
  "js_includes s t = (\<exists>u \<in> set (suffixes s). js_starts_with u t)"

text \<open>\<^verbatim>\<open>/\b409\b/\<close>: an occurrence with no word character on either side.\<close>

fun bounded_409 :: "bool \<Rightarrow> string \<Rightarrow> bool" where
  "bounded_409 prev [] = False"
| "bounded_409 prev (c # cs) =
     ((\<not> prev \<and> js_starts_with (c # cs) ''409'' \<and>
       (case drop 3 (c # cs) of [] \<Rightarrow> True | d # _ \<Rightarrow> \<not> is_word d))
      \<or> bounded_409 (is_word c) cs)"

definition isNameConflict :: "kv_exn \<Rightarrow> bool" where
  "isNameConflict e =
     (let msg = js_lower (exn_message e)
      in js_includes msg ''already exists'' \<or> js_includes msg ''conflicts with an existing'' \<or>
         js_includes msg ''name conflict'' \<or> js_includes msg ''code = alreadyexists'' \<or>
         bounded_409 False msg)"

definition assertKvKey :: "string \<Rightarrow> string \<Rightarrow> kv_exn option" where
  "assertKvKey collection i =
     (if \<not> COLLECTION_RE collection
      then Some (KvError INVALID (''invalid swarm-kv collection \"'' @ collection @ ''\"''))
      else if \<not> ID_RE i then Some (KvError INVALID (''invalid swarm-kv id \"'' @ i @ ''\"''))
      else if length (kvConfigName collection i KV_MAX_SEQ) > KV_NAME_MAX
      then Some (KvError INVALID (''swarm-kv key '' @ collection @ ''/'' @ i @
                  '' is too long for a Docker config name''))
      else None)"

subsection \<open>Fingerprint\<close>

definition fnv_step :: "32 word \<Rightarrow> char \<Rightarrow> 32 word" where
  "fnv_step h c = (h XOR of_char c) * 0x01000193"

definition fnv1a :: "string \<Rightarrow> 32 word" where
  "fnv1a s = foldl fnv_step 0x811c9dc5 s"

definition hex_char :: "nat \<Rightarrow> char" where
  "hex_char n = (if n < 10 then char_of (48 + n) else char_of (87 + n))"

fun hex_of :: "nat \<Rightarrow> string" where
  "hex_of n = (if n < 16 then [hex_char n] else hex_of (n div 16) @ [hex_char (n mod 16)])"

declare hex_of.simps [simp del]

definition pad_start :: "nat \<Rightarrow> char \<Rightarrow> string \<Rightarrow> string" where
  "pad_start n c s = replicate (n - length s) c @ s"

definition kvFingerprint :: "string \<Rightarrow> string" where
  "kvFingerprint s = pad_start 8 (CHR ''0'') (hex_of (unat (fnv1a s)))"

subsection \<open>Base64 over UTF-8\<close>

definition utf8_char :: "char \<Rightarrow> nat list" where
  "utf8_char c =
     (let n = of_char c :: nat in if n < 128 then [n] else [192 + n div 64, 128 + n mod 64])"

definition utf8_encode :: "string \<Rightarrow> nat list" where
  "utf8_encode s = concat (map utf8_char s)"

fun utf8_decode :: "nat list \<Rightarrow> string option" where
  "utf8_decode [] = Some []"
| "utf8_decode (b # bs) =
     (if b < 128 then map_option (Cons (char_of b)) (utf8_decode bs)
      else case bs of
        [] \<Rightarrow> None
      | d # ds \<Rightarrow>
          if (b = 194 \<or> b = 195) \<and> 128 \<le> d \<and> d < 192
          then map_option (Cons (char_of (64 * (b - 192) + (d - 128)))) (utf8_decode ds)
          else None)"

definition b64_char :: "nat \<Rightarrow> char" where
  "b64_char n =
     (if n < 26 then char_of (65 + n)
      else if n < 52 then char_of (71 + n)
      else if n < 62 then char_of (n - 4)
      else if n = 62 then CHR ''+'' else CHR ''/'')"

definition b64_value :: "char \<Rightarrow> nat option" where
  "b64_value c =
     (let n = of_char c :: nat
      in if 65 \<le> n \<and> n \<le> 90 then Some (n - 65)
         else if 97 \<le> n \<and> n \<le> 122 then Some (n - 71)
         else if 48 \<le> n \<and> n \<le> 57 then Some (n + 4)
         else if n = 43 \<or> n = 45 then Some 62
         else if n = 47 \<or> n = 95 then Some 63
         else None)"

fun b64_encode :: "nat list \<Rightarrow> string" where
  "b64_encode [] = []"
| "b64_encode [a] = [b64_char (a div 4), b64_char (a mod 4 * 16), CHR ''='', CHR ''='']"
| "b64_encode [a, b] =
     [b64_char (a div 4), b64_char (a mod 4 * 16 + b div 16), b64_char (b mod 16 * 4), CHR ''='']"
| "b64_encode (a # b # c # r) =
     b64_char (a div 4) # b64_char (a mod 4 * 16 + b div 16) #
     b64_char (b mod 16 * 4 + c div 64) # b64_char (c mod 64) # b64_encode r"

text \<open>
  \<^verbatim>\<open>Buffer.from(s, 'base64')\<close>: padding ends the text, characters outside the two alphabets are
  skipped, and bits left over by an incomplete group are dropped.
\<close>

fun b64_groups :: "nat list \<Rightarrow> nat list" where
  "b64_groups (a # b # c # d # r) =
     (a * 4 + b div 16) # (b mod 16 * 16 + c div 4) # (c mod 4 * 64 + d) # b64_groups r"
| "b64_groups [a, b, c] = [a * 4 + b div 16, b mod 16 * 16 + c div 4]"
| "b64_groups [a, b] = [a * 4 + b div 16]"
| "b64_groups _ = []"

definition b64_decode :: "string \<Rightarrow> nat list" where
  "b64_decode s = b64_groups (List.map_filter b64_value (takeWhile (\<lambda>c. c \<noteq> CHR ''='') s))"

definition toB64 :: "string \<Rightarrow> string" where
  "toB64 s = b64_encode (utf8_encode s)"

definition fromB64 :: "string \<Rightarrow> string option" where
  "fromB64 s = utf8_decode (b64_decode s)"

subsection \<open>JSON text\<close>

record js_num =
  num_text :: "rat \<Rightarrow> string"
  num_read :: "string \<Rightarrow> rat option"

text \<open>
  The order in which an object lists its keys: array indices first, ascending, then the others in
  the order in which they were added.
\<close>

definition array_index :: "string \<Rightarrow> bool" where
  "array_index k =
     (k \<noteq> [] \<and> list_all is_digit k \<and> digits_of (dec_value k) = k \<and> dec_value k < 4294967295)"

definition own_order :: "(string \<times> 'v) list \<Rightarrow> (string \<times> 'v) list" where
  "own_order kvs =
     js_sort (by_key (\<lambda>kv. dec_value (fst kv))) (filter (\<lambda>kv. array_index (fst kv)) kvs) @
     filter (\<lambda>kv. \<not> array_index (fst kv)) kvs"

definition esc_char :: "char \<Rightarrow> string" where
  "esc_char c =
     (if c = CHR 0x22 then [CHR 0x5C, CHR 0x22]
      else if c = CHR 0x5C then [CHR 0x5C, CHR 0x5C]
      else if c = CHR 0x08 then [CHR 0x5C, CHR ''b'']
      else if c = CHR 0x0C then [CHR 0x5C, CHR ''f'']
      else if c = CHR 0x0A then [CHR 0x5C, CHR ''n'']
      else if c = CHR 0x0D then [CHR 0x5C, CHR ''r'']
      else if c = CHR 0x09 then [CHR 0x5C, CHR ''t'']
      else if c < CHR 0x20
      then [CHR 0x5C, CHR ''u'', CHR ''0'', CHR ''0'',
            hex_char (of_char c div 16), hex_char (of_char c mod 16)]
      else [c])"

definition json_quote :: "string \<Rightarrow> string" where
  "json_quote s = CHR 0x22 # concat (map esc_char s) @ [CHR 0x22]"

fun json_stringify :: "js_num \<Rightarrow> json \<Rightarrow> string" where
  "json_stringify nf JNull = ''null''"
| "json_stringify nf (JBool b) = (if b then ''true'' else ''false'')"
| "json_stringify nf (JNum r) = num_text nf r"
| "json_stringify nf (JStr s) = json_quote s"
| "json_stringify nf (JArr xs) = ''['' @ js_join '','' (map (json_stringify nf) xs) @ '']''"
| "json_stringify nf (JObj kvs) =
     ''{'' @ js_join '',''
       (map (\<lambda>(k, t). json_quote k @ '':'' @ t)
         (own_order (map (\<lambda>(k, v). (k, json_stringify nf v)) kvs))) @ ''}''"

text \<open>The replacer of \<^verbatim>\<open>stableJson\<close>: every object is rebuilt from its sorted keys.\<close>

fun sort_keys :: "json \<Rightarrow> json" where
  "sort_keys (JArr xs) = JArr (map sort_keys xs)"
| "sort_keys (JObj kvs) = JObj (js_sort (by_key fst) (map (\<lambda>(k, v). (k, sort_keys v)) kvs))"
| "sort_keys v = v"

definition stableJson :: "js_num \<Rightarrow> json \<Rightarrow> string" where
  "stableJson nf v = json_stringify nf (sort_keys v)"

definition skip_ws :: "string \<Rightarrow> string" where
  "skip_ws s = dropWhile (\<lambda>c. c \<in> {CHR 0x20, CHR 0x09, CHR 0x0A, CHR 0x0D}) s"

definition num_char :: "char \<Rightarrow> bool" where
  "num_char c = (is_digit c \<or> c \<in> {CHR ''-'', CHR ''+'', CHR ''.'', CHR ''e'', CHR ''E''})"

definition unescape :: "char \<Rightarrow> char option" where
  "unescape e =
     (if e = CHR 0x22 \<or> e = CHR 0x5C \<or> e = CHR ''/'' then Some e
      else if e = CHR ''b'' then Some (CHR 0x08)
      else if e = CHR ''f'' then Some (CHR 0x0C)
      else if e = CHR ''n'' then Some (CHR 0x0A)
      else if e = CHR ''r'' then Some (CHR 0x0D)
      else if e = CHR ''t'' then Some (CHR 0x09)
      else None)"

definition hex4 :: "char \<Rightarrow> char \<Rightarrow> char \<Rightarrow> char \<Rightarrow> nat option" where
  "hex4 a b c d =
     (case (hex_digit a, hex_digit b, hex_digit c, hex_digit d) of
        (Some p, Some q, Some r, Some s) \<Rightarrow> Some (((p * 16 + q) * 16 + r) * 16 + s)
      | _ \<Rightarrow> None)"

text \<open>The rest of a string literal after its opening quote, and the text that follows it.\<close>

fun parse_str :: "string \<Rightarrow> (string \<times> string) option" where
  "parse_str [] = None"
| "parse_str (c # r) =
     (if c = CHR 0x22 then Some ([], r)
      else if c = CHR 0x5C then
        (case r of
           [] \<Rightarrow> None
         | e # r' \<Rightarrow>
             if e = CHR ''u'' then
               (case r' of
                  h1 # h2 # h3 # h4 # r'' \<Rightarrow>
                    (case hex4 h1 h2 h3 h4 of
                       None \<Rightarrow> None
                     | Some n \<Rightarrow>
                         if n < 256
                         then map_option (\<lambda>(s, t). (char_of n # s, t)) (parse_str r'')
                         else None)
                | _ \<Rightarrow> None)
             else (case unescape e of
                     None \<Rightarrow> None
                   | Some x \<Rightarrow> map_option (\<lambda>(s, t). (x # s, t)) (parse_str r')))
      else if c < CHR 0x20 then None
      else map_option (\<lambda>(s, t). (c # s, t)) (parse_str r))"

definition js_object :: "(string \<times> json) list \<Rightarrow> json" where
  "js_object kvs = JObj (fold (\<lambda>(k, v) m. AList.update k v m) kvs [])"

definition parse_scalar :: "js_num \<Rightarrow> string \<Rightarrow> (json \<times> string) option" where
  "parse_scalar nf s =
     (if js_starts_with s ''null'' then Some (JNull, drop 4 s)
      else if js_starts_with s ''true'' then Some (JBool True, drop 4 s)
      else if js_starts_with s ''false'' then Some (JBool False, drop 5 s)
      else map_option (\<lambda>r. (JNum r, dropWhile num_char s)) (num_read nf (takeWhile num_char s)))"

text \<open>
  \<^verbatim>\<open>JSON.parse\<close> by recursive descent. The fuel counts nested calls; twice the length of the text
  is enough, since a value is entered at most twice per character.
\<close>

fun parse_value :: "js_num \<Rightarrow> nat \<Rightarrow> string \<Rightarrow> (json \<times> string) option"
and parse_elems :: "js_num \<Rightarrow> nat \<Rightarrow> string \<Rightarrow> (json list \<times> string) option"
and parse_members :: "js_num \<Rightarrow> nat \<Rightarrow> string \<Rightarrow> ((string \<times> json) list \<times> string) option" where
  "parse_value nf 0 s = None"
| "parse_value nf (Suc n) s =
     (case skip_ws s of
        [] \<Rightarrow> None
      | c # r \<Rightarrow>
          if c = CHR 0x22 then map_option (\<lambda>(x, t). (JStr x, t)) (parse_str r)
          else if c = CHR ''['' then
            (if skip_ws r \<noteq> [] \<and> hd (skip_ws r) = CHR '']'' then Some (JArr [], tl (skip_ws r))
             else map_option (\<lambda>(xs, t). (JArr xs, t)) (parse_elems nf n r))
          else if c = CHR ''{'' then
            (if skip_ws r \<noteq> [] \<and> hd (skip_ws r) = CHR ''}'' then Some (JObj [], tl (skip_ws r))
             else map_option (\<lambda>(kvs, t). (js_object kvs, t)) (parse_members nf n r))
          else parse_scalar nf (c # r))"
| "parse_elems nf 0 s = None"
| "parse_elems nf (Suc n) s =
     (case parse_value nf n s of
        None \<Rightarrow> None
      | Some (v, r) \<Rightarrow>
          (case skip_ws r of
             [] \<Rightarrow> None
           | c # t \<Rightarrow>
               if c = CHR '','' then map_option (\<lambda>(vs, u). (v # vs, u)) (parse_elems nf n t)
               else if c = CHR '']'' then Some ([v], t) else None))"
| "parse_members nf 0 s = None"
| "parse_members nf (Suc n) s =
     (case skip_ws s of
        [] \<Rightarrow> None
      | q # r \<Rightarrow>
          if q \<noteq> CHR 0x22 then None
          else (case parse_str r of
             None \<Rightarrow> None
           | Some (k, r1) \<Rightarrow>
               (case skip_ws r1 of
                  [] \<Rightarrow> None
                | d # r2 \<Rightarrow>
                    if d \<noteq> CHR '':'' then None
                    else (case parse_value nf n r2 of
                       None \<Rightarrow> None
                     | Some (v, r3) \<Rightarrow>
                         (case skip_ws r3 of
                            [] \<Rightarrow> None
                          | c # t \<Rightarrow>
                              if c = CHR '',''
                              then map_option (\<lambda>(kvs, u). ((k, v) # kvs, u)) (parse_members nf n t)
                              else if c = CHR ''}'' then Some ([(k, v)], t) else None)))))"

definition json_parse :: "js_num \<Rightarrow> string \<Rightarrow> json option" where
  "json_parse nf s =
     (case parse_value nf (2 * length s + 1) s of
        None \<Rightarrow> None
      | Some (v, r) \<Rightarrow> if skip_ws r = [] then Some v else None)"

subsection \<open>Checks on a document\<close>

definition assertNoRunState :: "json \<Rightarrow> kv_exn option" where
  "assertNoRunState v =
     (case v of
        JObj kvs \<Rightarrow>
          (case find (\<lambda>kv. FORBIDDEN_FIELD_RE (fst kv)) (own_order kvs) of
             None \<Rightarrow> None
           | Some (k, _) \<Rightarrow>
               Some (KvError INVALID
                 (''swarm-kv documents hold desired config only - \"'' @ k @ ''\" is run state'')))
      | _ \<Rightarrow> None)"

text \<open>
  The values a document can have: no object lists a key twice, and every number is one whose text
  reads back as itself, as the text of a double does.
\<close>

definition num_ok :: "js_num \<Rightarrow> rat \<Rightarrow> bool" where
  "num_ok nf r =
     (num_text nf r \<noteq> [] \<and> list_all num_char (num_text nf r) \<and>
      num_read nf (num_text nf r) = Some r)"

fun json_ok :: "js_num \<Rightarrow> json \<Rightarrow> bool" where
  "json_ok nf (JNum r) = num_ok nf r"
| "json_ok nf (JArr xs) = list_all (json_ok nf) xs"
| "json_ok nf (JObj kvs) = (distinct (map fst kvs) \<and> list_all (\<lambda>(k, v). json_ok nf v) kvs)"
| "json_ok nf _ = True"

text \<open>The normal form of a document: what reading its stable text gives back.\<close>

fun own_json :: "json \<Rightarrow> json" where
  "own_json (JArr xs) = JArr (map own_json xs)"
| "own_json (JObj kvs) = JObj (own_order (map (\<lambda>(k, v). (k, own_json v)) kvs))"
| "own_json v = v"

definition kv_canon :: "json \<Rightarrow> json" where
  "kv_canon v = own_json (sort_keys v)"

end
