(* ===== verification/KvRoundTrip.thy ===== *)
theory KvRoundTrip
  imports KvCodec
begin

text \<open>
  What the codec of the document store promises: a config name reads back as its key and version,
  base64 and JSON read back what they wrote, a document's stable text does not depend on the order
  of its keys, and the fingerprint is a fixed-width hexadecimal number.
\<close>

section \<open>Decimal numbers and names\<close>

declare digits_of.simps [simp del]

lemma of_char_char_of_small: "n < 256 \<Longrightarrow> of_char (char_of n :: char) = (n::nat)"
  by simp

lemma char_le_iff: "c \<le> d \<longleftrightarrow> (of_char c :: nat) \<le> of_char d"
  by (simp add: less_eq_char_def)

lemma char_less_iff: "c < d \<longleftrightarrow> (of_char c :: nat) < of_char d"
  by (simp add: less_char_def)

lemmas char_class_defs = is_lower_def is_upper_def is_digit_def is_word_def char_le_iff

lemma dec_value_snoc: "dec_value (s @ [c]) = 10 * dec_value s + (of_char c - 48)"
  by (simp add: dec_value_def)

lemma dec_value_digits_of [simp]: "dec_value (digits_of n) = n"
proof (induction n rule: digits_of.induct)
  case (1 n)
  show ?case
  proof (cases "n < 10")
    case True
    then show ?thesis by (subst digits_of.simps) (simp add: dec_value_def)
  next
    case False
    with 1 have "dec_value (digits_of (n div 10)) = n div 10" by simp
    with False show ?thesis by (subst digits_of.simps) (simp add: dec_value_snoc)
  qed
qed

lemma digits_of_digits: "list_all is_digit (digits_of n)"
proof (induction n rule: digits_of.induct)
  case (1 n)
  have "is_digit (char_of (48 + k))" if "k < 10" for k :: nat
    using that by (simp add: is_digit_def char_le_iff)
  with 1 show ?case by (subst digits_of.simps) simp
qed

lemma digits_of_not_Nil [simp]: "digits_of n \<noteq> []"
  by (subst digits_of.simps) simp

lemma length_digits_of: "0 < k \<Longrightarrow> n < 10 ^ k \<Longrightarrow> length (digits_of n) \<le> k"
proof (induction k arbitrary: n)
  case (Suc k)
  show ?case
  proof (cases "n < 10")
    case True
    then show ?thesis by (subst digits_of.simps) simp
  next
    case False
    then have "0 < k" using Suc.prems by (cases k) auto
    moreover have "n div 10 < 10 ^ k" using Suc.prems by (simp add: less_mult_imp_div_less mult.commute)
    ultimately have "length (digits_of (n div 10)) \<le> k" by (rule Suc.IH)
    with False show ?thesis by (subst digits_of.simps) simp
  qed
qed simp

lemma is_digit_not_dot: "list_all is_digit s \<Longrightarrow> CHR ''.'' \<notin> set s"
  by (auto simp: list_all_iff char_class_defs)

lemma collection_no_dot: "COLLECTION_RE c \<Longrightarrow> CHR ''.'' \<notin> set c"
  by (cases c) (auto simp: COLLECTION_RE_def list_all_iff char_class_defs)

lemma id_no_dot: "ID_RE i \<Longrightarrow> CHR ''.'' \<notin> set i"
  by (cases i) (auto simp: ID_RE_def list_all_iff char_class_defs)

lemma split_config_name:
  assumes "COLLECTION_RE c" and "ID_RE i"
  shows "js_split (CHR ''.'') (kvConfigName c i n) = [KV_NAME_PREFIX, c, i, CHR ''v'' # digits_of n]"
proof -
  have "CHR ''.'' \<notin> set (CHR ''v'' # digits_of n)"
    using is_digit_not_dot [OF digits_of_digits] by auto
  moreover have "CHR ''.'' \<notin> set KV_NAME_PREFIX" by (simp add: KV_NAME_PREFIX_def)
  ultimately show ?thesis
    using collection_no_dot [OF assms(1)] id_no_dot [OF assms(2)]
    by (simp add: kvConfigName_def js_split_append js_split_no_sep)
qed

lemma parse_config_name:
  assumes "COLLECTION_RE c" and "ID_RE i" and "1 \<le> n" and "n \<le> KV_MAX_SEQ"
  shows "parseKvConfigName (kvConfigName c i n) = Some (c, i, n)"
proof -
  have "length (digits_of n) \<le> 6"
    by (rule length_digits_of) (use assms(4) in \<open>auto simp: KV_MAX_SEQ_def\<close>)
  with assms show ?thesis
    by (simp add: parseKvConfigName_def split_config_name digits_of_digits)
qed

lemma kvConfigName_inj:
  assumes "COLLECTION_RE c" "ID_RE i" "COLLECTION_RE c'" "ID_RE i'"
    and "kvConfigName c i n = kvConfigName c' i' n'"
  shows "c = c' \<and> i = i' \<and> n = n'"
proof -
  have "js_split (CHR ''.'') (kvConfigName c i n) = js_split (CHR ''.'') (kvConfigName c' i' n')"
    using assms(5) by simp
  then have "c = c' \<and> i = i' \<and> digits_of n = digits_of n'"
    unfolding split_config_name [OF assms(1,2)] split_config_name [OF assms(3,4)] by simp
  then show ?thesis by (metis dec_value_digits_of)
qed

lemma digits_of_max: "digits_of KV_MAX_SEQ = ''999999''"
  by code_simp

lemma assertKvKey_None_iff:
  "assertKvKey c i = None \<longleftrightarrow> COLLECTION_RE c \<and> ID_RE i \<and> length c + length i \<le> 45"
  by (auto simp: assertKvKey_def kvConfigName_def digits_of_max KV_NAME_PREFIX_def KV_NAME_MAX_def)

text \<open>
  A key that passes the check has a name for each of its versions that Docker accepts (at most 64
  characters) and that reads back as exactly that key and version.
\<close>

theorem config_name_roundtrip:
  assumes "assertKvKey c i = None" and "1 \<le> n" and "n \<le> KV_MAX_SEQ"
  shows "length (kvConfigName c i n) \<le> 64 \<and> parseKvConfigName (kvConfigName c i n) = Some (c, i, n)"
proof -
  have key: "COLLECTION_RE c" "ID_RE i" "length c + length i \<le> 45"
    using assms(1) by (auto simp: assertKvKey_None_iff)
  have "length (digits_of n) \<le> 6"
    by (rule length_digits_of) (use assms(3) in \<open>auto simp: KV_MAX_SEQ_def\<close>)
  with key have "length (kvConfigName c i n) \<le> 64"
    by (simp add: kvConfigName_def KV_NAME_PREFIX_def)
  with parse_config_name [OF key(1,2) assms(2,3)] show ?thesis by simp
qed

theorem config_name_roundtrip_witness:
  "length (kvConfigName ''ingress'' ''org_1'' 41) \<le> 64 \<and>
   parseKvConfigName (kvConfigName ''ingress'' ''org_1'' 41) = Some (''ingress'', ''org_1'', 41)"
  by (rule config_name_roundtrip) code_simp+

section \<open>Base64\<close>

lemma b64_value_char: "n < 64 \<Longrightarrow> b64_value (b64_char n) = Some n"
  by (auto simp: b64_char_def b64_value_def Let_def)

lemma b64_char_not_pad: "n < 64 \<Longrightarrow> b64_char n \<noteq> CHR ''=''"
  using b64_value_char [of n] by (auto simp: b64_value_def)

lemma b64_digits_bounds:
  fixes a b c :: nat
  assumes "a < 256" "b < 256" "c < 256"
  shows "a div 4 < 64" "a mod 4 * 16 < 64" "a mod 4 * 16 + b div 16 < 64" "b mod 16 * 4 < 64"
    "b mod 16 * 4 + c div 64 < 64" "c mod 64 < 64"
proof -
  have "b div 16 < 16" "c div 64 < 4" using assms by (simp_all add: less_mult_imp_div_less)
  moreover have "a mod 4 < 4" "b mod 16 < 16" by simp_all
  ultimately show "a mod 4 * 16 < 64" "a mod 4 * 16 + b div 16 < 64" "b mod 16 * 4 < 64"
    "b mod 16 * 4 + c div 64 < 64" by linarith+
qed (use assms in \<open>simp_all add: less_mult_imp_div_less\<close>)

lemma b64_high_bits:
  fixes b :: nat
  assumes "b < 256"
  shows "b div 16 < 16" "b div 64 < 4"
  using assms by (simp_all add: less_mult_imp_div_less)

lemma b64_groups_encode:
  "list_all (\<lambda>b. b < 256) bs \<Longrightarrow>
   b64_groups (List.map_filter b64_value (takeWhile (\<lambda>c. c \<noteq> CHR ''='') (b64_encode bs))) = bs"
proof (induction bs rule: b64_encode.induct)
  case (2 a)
  then show ?case using b64_digits_bounds [of a 0 0] 
    by (simp add: b64_value_char b64_char_not_pad map_filter_simps)
next
  case (3 a b)
  then show ?case using b64_digits_bounds [of a b 0] b64_high_bits [of b]
    by (simp add: b64_value_char b64_char_not_pad map_filter_simps)
next
  case (4 a b c r)
  then show ?case using b64_digits_bounds [of a b c] b64_high_bits [of b] b64_high_bits [of c]
    by (simp add: b64_value_char b64_char_not_pad map_filter_simps)
qed (simp add: map_filter_simps)

lemma utf8_char_bytes: "list_all (\<lambda>b. b < 256) (utf8_char c)"
proof -
  have "(of_char c :: nat) div 64 < 4" by (rule b64_high_bits) simp
  then show ?thesis by (auto simp: utf8_char_def Let_def)
qed

lemma utf8_decode_char: "utf8_decode (utf8_char c @ bs) = map_option (Cons c) (utf8_decode bs)"
proof -
  define n where "n = (of_char c :: nat)"
  have n: "n < 256" "char_of n = c" by (simp_all add: n_def nat_of_char_less_256)
  show ?thesis
  proof (cases "n < 128")
    case True
    with n show ?thesis by (simp add: utf8_char_def n_def [symmetric] Let_def)
  next
    case False
    with n have hi: "n div 64 = 2 \<or> n div 64 = 3" by linarith
    have "64 * (192 + n div 64 - 192) + (128 + n mod 64 - 128) = n" by simp
    with False hi n show ?thesis
      by (auto simp: utf8_char_def n_def [symmetric] Let_def simp del: diff_add_inverse)
  qed
qed

lemma utf8_roundtrip: "utf8_decode (utf8_encode s) = Some s"
  by (induction s) (simp_all add: utf8_encode_def utf8_decode_char)

lemma utf8_encode_bytes: "list_all (\<lambda>b. b < 256) (utf8_encode s)"
  by (induction s) (use utf8_char_bytes in \<open>auto simp: utf8_encode_def\<close>)

lemma length_b64_encode: "length (b64_encode bs) = 4 * ((length bs + 2) div 3)"
proof (induction bs rule: b64_encode.induct)
  case (4 a b c r)
  have "(length (a # b # c # r) + 2) div 3 = (length r + 2) div 3 + 1" by simp
  with 4 show ?case by (simp del: length_Cons) 
qed simp_all

lemma fromB64_toB64: "fromB64 (toB64 s) = Some s"
  by (simp add: fromB64_def toB64_def b64_decode_def b64_groups_encode utf8_encode_bytes utf8_roundtrip)

text \<open>
  Base64 over UTF-8 loses nothing, and the stored size that the budget counts is four characters
  for each started group of three bytes.
\<close>
theorem base64_roundtrip:
  "fromB64 (toB64 s) = Some s \<and> length (toB64 s) = 4 * ((length (utf8_encode s) + 2) div 3)"
  by (simp add: fromB64_toB64) (simp add: toB64_def length_b64_encode)

section \<open>Fingerprint\<close>

lemma length_hex_of: "0 < k \<Longrightarrow> n < 16 ^ k \<Longrightarrow> length (hex_of n) \<le> k"
proof (induction k arbitrary: n)
  case (Suc k)
  show ?case
  proof (cases "n < 16")
    case True
    then show ?thesis by (subst hex_of.simps) simp
  next
    case False
    then have "0 < k" using Suc.prems by (cases k) auto
    moreover have "n div 16 < 16 ^ k" using Suc.prems by (simp add: less_mult_imp_div_less mult.commute)
    ultimately have "length (hex_of (n div 16)) \<le> k" by (rule Suc.IH)
    with False show ?thesis by (subst hex_of.simps) simp
  qed
qed simp

lemma hex_digit_char: "n < 16 \<Longrightarrow> hex_digit (hex_char n) = Some n"
  by (auto simp: hex_digit_def hex_char_def Let_def)

lemma hex_value_snoc: "hex_value (s @ [c]) = 16 * hex_value s + opt_or (hex_digit c) 0"
  by (simp add: hex_value_def)

lemma hex_value_hex_of: "hex_value (hex_of n) = n"
proof (induction n rule: hex_of.induct)
  case (1 n)
  show ?case
  proof (cases "n < 16")
    case True
    then show ?thesis by (subst hex_of.simps) (simp add: hex_value_def hex_digit_char opt_or_def)
  next
    case False
    with 1 have "hex_value (hex_of (n div 16)) = n div 16" by simp
    with False show ?thesis
      by (subst hex_of.simps) (simp add: hex_value_snoc hex_digit_char opt_or_def)
  qed
qed

lemma hex_value_zeros: "hex_value (replicate k (CHR ''0'') @ s) = hex_value s"
  by (induction k) (simp_all add: hex_value_def hex_digit_def opt_or_def)

lemma kvFingerprint_value:
  "length (kvFingerprint s) = 8 \<and> hex_value (kvFingerprint s) = unat (fnv1a s)"
proof -
  have "unat (fnv1a s) < 16 ^ 8"
    using unsigned_less [of "fnv1a s"] by simp
  then have "length (hex_of (unat (fnv1a s))) \<le> 8" by (intro length_hex_of) auto
  then show ?thesis by (simp add: kvFingerprint_def pad_start_def hex_value_zeros hex_value_hex_of)
qed

lemma kvFingerprint_eq_iff: "kvFingerprint s = kvFingerprint t \<longleftrightarrow> fnv1a s = fnv1a t"
  by (metis kvFingerprint_def kvFingerprint_value word_unat_eq_iff)

section \<open>JSON text\<close>

lemma mset_own_order [simp]: "mset (own_order kvs) = mset kvs"
  by (simp add: own_order_def)

lemma set_own_order [simp]: "set (own_order kvs) = set kvs"
  by (metis mset_own_order set_mset_mset)

lemma own_order_Nil_iff [simp]: "own_order kvs = [] \<longleftrightarrow> kvs = []"
  by (metis mset_own_order mset_zero_iff)

lemma distinct_own_order: "distinct (map fst (own_order kvs)) \<longleftrightarrow> distinct (map fst kvs)"
  by (metis mset_map mset_own_order mset_eq_imp_distinct_iff)

lemma js_insert_map:
  "(\<And>x y. cmp (h x) (h y) = cmp' x y) \<Longrightarrow> js_insert cmp (h x) (map h xs) = map h (js_insert cmp' x xs)"
  by (induction xs) auto

lemma js_sort_map:
  "(\<And>x y. cmp (h x) (h y) = cmp' x y) \<Longrightarrow> js_sort cmp (map h xs) = map h (js_sort cmp' xs)"
  by (induction xs) (auto simp: js_insert_map)

lemma own_order_map:
  "own_order (map (\<lambda>(k, v). (k, f v)) kvs) = map (\<lambda>(k, v). (k, f v)) (own_order kvs)"
proof -
  have sort: "js_sort (by_key (\<lambda>kv. dec_value (fst kv))) (map (\<lambda>(k, v). (k, f v)) xs) =
      map (\<lambda>(k, v). (k, f v)) (js_sort (by_key (\<lambda>kv. dec_value (fst kv))) xs)" for xs
    by (rule js_sort_map) (auto simp: by_key_def)
  have filt: "filter (\<lambda>kv. P (fst kv)) (map (\<lambda>(k, v). (k, f v)) kvs) =
      map (\<lambda>(k, v). (k, f v)) (filter (\<lambda>kv. P (fst kv)) kvs)" for P
    by (induction kvs) auto
  show ?thesis by (simp add: own_order_def filt sort filt [of "\<lambda>k. \<not> array_index k"])
qed

lemma hex4_low: "n < 256 \<Longrightarrow> hex4 (CHR ''0'') (CHR ''0'') (hex_char (n div 16)) (hex_char (n mod 16)) = Some n"
proof -
  assume "n < 256"
  then have "n div 16 < 16" by (simp add: less_mult_imp_div_less)
  moreover have "hex_digit (CHR ''0'') = Some 0" by (simp add: hex_digit_def)
  ultimately show ?thesis by (simp add: hex4_def hex_digit_char)
qed

lemma parse_str_esc_char:
  "parse_str (esc_char c @ t) = map_option (\<lambda>(s, u). (c # s, u)) (parse_str t)"
proof -
  consider "c = CHR 0x22" | "c = CHR 0x5C" | "c = CHR 0x08" | "c = CHR 0x0C" | "c = CHR 0x0A"
    | "c = CHR 0x0D" | "c = CHR 0x09"
    | "c \<notin> {CHR 0x22, CHR 0x5C, CHR 0x08, CHR 0x0C, CHR 0x0A, CHR 0x0D, CHR 0x09}" by blast
  then show ?thesis
  proof cases
    case 8
    then show ?thesis
      using hex4_low [of "of_char c"] by (simp add: esc_char_def)
  qed (simp_all add: esc_char_def unescape_def)
qed

lemma parse_str_quoted: "parse_str (concat (map esc_char s) @ CHR 0x22 # rest) = Some (s, rest)"
proof (induction s)
  case (Cons c s)
  then show ?case by (simp add: parse_str_esc_char del: parse_str.simps(2))
qed simp

declare parse_str.simps(2) [simp del]

definition token_end :: "string \<Rightarrow> bool" where
  "token_end r = (r = [] \<or> \<not> num_char (hd r))"

lemma token_end_sep [simp]: "token_end (CHR '','' # r)" "token_end (CHR '']'' # r)" "token_end (CHR ''}'' # r)"
  by (simp_all add: token_end_def num_char_def char_class_defs)

lemma token_end_Nil: "token_end []"
  by (simp add: token_end_def)

lemma skip_ws_Nil: "skip_ws [] = []"
  by (simp add: skip_ws_def)

lemma skip_ws_solid:
  "c \<notin> {CHR 0x20, CHR 0x09, CHR 0x0A, CHR 0x0D} \<Longrightarrow> skip_ws (c # r) = c # r"
  by (simp add: skip_ws_def)

text \<open>The first character of a value's text is no white space and closes nothing.\<close>

lemma stringify_head:
  assumes "json_ok nf v"
  obtains c r where "json_stringify nf v = c # r"
    and "c \<notin> {CHR 0x20, CHR 0x09, CHR 0x0A, CHR 0x0D, CHR '']'', CHR ''}''}"
proof (cases v)
  case (JNum x)
  with assms obtain c r where tx: "num_text nf x = c # r" "num_char c"
    by (cases "num_text nf x") (auto simp: num_ok_def)
  then have "c \<notin> {CHR 0x20, CHR 0x09, CHR 0x0A, CHR 0x0D, CHR '']'', CHR ''}''}"
    by (auto simp: num_char_def char_class_defs)
  with JNum tx that show thesis by simp
next
  case (JBool b)
  with that show thesis by (cases b) auto
qed (use that in \<open>auto simp: json_quote_def\<close>)

lemma skip_ws_stringify:
  "json_ok nf v \<Longrightarrow> skip_ws (json_stringify nf v @ r) = json_stringify nf v @ r"
  by (rule stringify_head) (auto simp: skip_ws_solid)

lemma parse_scalar_number:
  assumes "num_ok nf x" and "token_end r"
  shows "parse_scalar nf (num_text nf x @ r) = Some (JNum x, r)"
proof -
  obtain c t where tx: "num_text nf x = c # t" "num_char c" "list_all num_char t"
    using assms(1) by (cases "num_text nf x") (auto simp: num_ok_def)
  then have "c \<notin> {CHR ''n'', CHR ''t'', CHR ''f''}" by (auto simp: num_char_def char_class_defs)
  then have no_lit: "\<not> js_starts_with (num_text nf x @ r) ''null''"
    "\<not> js_starts_with (num_text nf x @ r) ''true''" "\<not> js_starts_with (num_text nf x @ r) ''false''"
    using tx(1) by (auto simp: js_starts_with_def)
  have all: "\<forall>y \<in> set (num_text nf x). num_char y" using assms(1) by (auto simp: num_ok_def list_all_iff)
  have "takeWhile num_char r = []" "dropWhile num_char r = r"
    using assms(2) by (cases r; auto simp: token_end_def)+
  with all have "takeWhile num_char (num_text nf x @ r) = num_text nf x"
    "dropWhile num_char (num_text nf x @ r) = r" by simp_all
  with no_lit assms(1) show ?thesis by (simp add: parse_scalar_def num_ok_def)
qed

lemma parse_value_number:
  assumes "num_ok nf x" and "token_end r"
  shows "parse_value nf (Suc n) (num_text nf x @ r) = Some (JNum x, r)"
proof -
  obtain c t where tx: "num_text nf x = c # t" "num_char c"
    using assms(1) by (cases "num_text nf x") (auto simp: num_ok_def)
  then have "c \<notin> {CHR 0x20, CHR 0x09, CHR 0x0A, CHR 0x0D, CHR 0x22, CHR ''['', CHR ''{''}"
    by (auto simp: num_char_def char_class_defs)
  with tx parse_scalar_number [OF assms] show ?thesis by (simp add: skip_ws_solid)
qed

definition reads_back :: "js_num \<Rightarrow> json \<Rightarrow> bool" where
  "reads_back nf v = (\<forall>n r. 2 * length (json_stringify nf v) \<le> n \<longrightarrow> token_end r \<longrightarrow>
     parse_value nf n (json_stringify nf v @ r) = Some (own_json v, r))"

lemma parse_elems_stringify:
  assumes "xs \<noteq> []" and "list_all (json_ok nf) xs" and "list_all (reads_back nf) xs"
    and "2 * length (js_join '','' (map (json_stringify nf) xs)) + 1 \<le> n"
  shows "parse_elems nf n (js_join '','' (map (json_stringify nf) xs) @ CHR '']'' # r) =
    Some (map own_json xs, r)"
  using assms
proof (induction xs arbitrary: n rule: induct_list012)
  case (2 x)
  then obtain m where n: "n = Suc m" by (cases n) auto
  with 2 have "parse_value nf m (json_stringify nf x @ CHR '']'' # r) = Some (own_json x, CHR '']'' # r)"
    by (auto simp: reads_back_def)
  with n show ?case by (simp add: skip_ws_solid)
next
  case (3 x y ys)
  then obtain m where n: "n = Suc m" by (cases n) auto
  define u where "u = js_join '','' (map (json_stringify nf) (y # ys)) @ CHR '']'' # r"
  have "parse_value nf m (json_stringify nf x @ CHR '','' # u) = Some (own_json x, CHR '','' # u)"
    using 3(4-6) n by (auto simp: reads_back_def)
  moreover have "parse_elems nf m u = Some (map own_json (y # ys), r)"
    unfolding u_def by (rule "3.IH"(2)) (use 3(4-6) n in auto)
  ultimately show ?case using n by (simp add: skip_ws_solid u_def)
qed simp

abbreviation member_text :: "js_num \<Rightarrow> string \<times> json \<Rightarrow> string" where
  "member_text nf kv \<equiv> json_quote (fst kv) @ '':'' @ json_stringify nf (snd kv)"

lemma parse_member:
  assumes "reads_back nf v" and "json_ok nf v" and "2 * length (json_stringify nf v) \<le> m" and "token_end (c # t)"
    and "c \<notin> {CHR 0x20, CHR 0x09, CHR 0x0A, CHR 0x0D}"
  shows "parse_members nf (Suc m) (member_text nf (k, v) @ c # t) =
    (if c = CHR '','' then map_option (\<lambda>(kvs, u). ((k, own_json v) # kvs, u)) (parse_members nf m t)
     else if c = CHR ''}'' then Some ([(k, own_json v)], t) else None)"
proof -
  have "parse_value nf m (json_stringify nf v @ c # t) = Some (own_json v, c # t)"
    using assms(1,3,4) by (auto simp: reads_back_def)
  then show ?thesis
    using assms(5)
    by (simp add: json_quote_def skip_ws_solid parse_str_quoted skip_ws_stringify [OF assms(2)])
qed

lemma parse_members_stringify:
  assumes "kvs \<noteq> []" and "list_all (\<lambda>kv. json_ok nf (snd kv)) kvs"
    and "list_all (\<lambda>kv. reads_back nf (snd kv)) kvs"
    and "2 * length (js_join '','' (map (member_text nf) kvs)) + 1 \<le> n"
  shows "parse_members nf n (js_join '','' (map (member_text nf) kvs) @ CHR ''}'' # r) =
    Some (map (\<lambda>(k, v). (k, own_json v)) kvs, r)"
  using assms
proof (induction kvs arbitrary: n rule: induct_list012)
  case (2 kv)
  then obtain m k v where n: "n = Suc m" "kv = (k, v)" by (cases n; cases kv) auto
  with 2 parse_member [of nf v m "CHR ''}''" r k] show ?case by (simp del: parse_members.simps)
next
  case (3 x y ys)
  then obtain m k v where n: "n = Suc m" "x = (k, v)" by (cases n; cases x) auto
  define u where "u = js_join '','' (map (member_text nf) (y # ys)) @ CHR ''}'' # r"
  have "parse_members nf m u = Some (map (\<lambda>(k, v). (k, own_json v)) (y # ys), r)"
    unfolding u_def by (rule "3.IH"(2)) (use 3(4-6) n in auto)
  moreover have "parse_members nf n (member_text nf (k, v) @ CHR '','' # u) =
      map_option (\<lambda>(kvs, u). ((k, own_json v) # kvs, u)) (parse_members nf m u)"
    unfolding n using parse_member [of nf v m "CHR '',''" u k] 3(4-6) n
    by (simp del: parse_members.simps)
  ultimately show ?case using n(2) by (simp add: u_def)
qed simp

lemma fold_update_fresh:
  "distinct (map fst (m @ kvs)) \<Longrightarrow> fold (\<lambda>(k, v) m. AList.update k v m) kvs m = m @ kvs"
proof (induction kvs arbitrary: m)
  case (Cons kv kvs)
  then have "AList.update (fst kv) (snd kv) m = m @ [kv]" by (simp add: alist_update_fresh)
  with Cons show ?case by (simp add: case_prod_beta)
qed simp

lemma js_object_distinct: "distinct (map fst kvs) \<Longrightarrow> js_object kvs = JObj kvs"
  by (simp add: js_object_def fold_update_fresh)

lemma map_fst_values [simp]: "map fst (map (\<lambda>(k, v). (k, f v)) kvs) = map fst kvs"
  by (induction kvs) auto

lemma stringify_object:
  "json_stringify nf (JObj kvs) = CHR ''{'' # js_join '','' (map (member_text nf) (own_order kvs)) @ ''}''"
  by (simp add: own_order_map case_prod_beta comp_def)

lemma join_members_head:
  assumes "kvs \<noteq> []"
  obtains t where "js_join '','' (map (member_text nf) kvs) = CHR 0x22 # t"
proof -
  obtain kv rest where "kvs = kv # rest" using assms by (cases kvs) auto
  with that show thesis by (cases rest) (auto simp: json_quote_def)
qed

lemma join_elems_head:
  assumes "list_all (json_ok nf) xs" and "xs \<noteq> []"
  obtains c t where "js_join '','' (map (json_stringify nf) xs) = c # t"
    and "c \<notin> {CHR 0x20, CHR 0x09, CHR 0x0A, CHR 0x0D, CHR '']'', CHR ''}''}"
proof -
  obtain x ys where xs: "xs = x # ys" using assms(2) by (cases xs) auto
  with assms(1) obtain c r where "json_stringify nf x = c # r"
    "c \<notin> {CHR 0x20, CHR 0x09, CHR 0x0A, CHR 0x0D, CHR '']'', CHR ''}''}"
    using stringify_head [of nf x] by auto
  with xs that show thesis by (cases ys) auto
qed

lemma reads_back_array:
  assumes "list_all (json_ok nf) xs" and "list_all (reads_back nf) xs"
  shows "reads_back nf (JArr xs)"
  unfolding reads_back_def
proof (intro allI impI)
  fix n r
  let ?j = "js_join '','' (map (json_stringify nf) xs)"
  assume n: "2 * length (json_stringify nf (JArr xs)) \<le> n"
  then obtain m where m: "n = Suc m" "2 * length ?j + 1 \<le> m" by (cases n) auto
  show "parse_value nf n (json_stringify nf (JArr xs) @ r) = Some (own_json (JArr xs), r)"
  proof (cases "xs = []")
    case True
    with m show ?thesis by (simp add: skip_ws_solid)
  next
    case False
    with assms(1) obtain c t where j: "?j = c # t"
      "c \<notin> {CHR 0x20, CHR 0x09, CHR 0x0A, CHR 0x0D, CHR '']'', CHR ''}''}" by (rule join_elems_head)
    have "parse_elems nf m (?j @ CHR '']'' # r) = Some (map own_json xs, r)"
      by (rule parse_elems_stringify) (use False assms m in auto)
    with m j show ?thesis by (simp add: skip_ws_solid)
  qed
qed

lemma reads_back_object:
  assumes "distinct (map fst kvs)" and "list_all (\<lambda>kv. json_ok nf (snd kv)) kvs"
    and "list_all (\<lambda>kv. reads_back nf (snd kv)) kvs"
  shows "reads_back nf (JObj kvs)"
  unfolding reads_back_def
proof (intro allI impI)
  fix n r
  let ?j = "js_join '','' (map (member_text nf) (own_order kvs))"
  assume "2 * length (json_stringify nf (JObj kvs)) \<le> n"
  then obtain m where m: "n = Suc m" "2 * length ?j + 1 \<le> m"
    unfolding stringify_object by (cases n) auto
  show "parse_value nf n (json_stringify nf (JObj kvs) @ r) = Some (own_json (JObj kvs), r)"
  proof (cases "kvs = []")
    case True
    with m show ?thesis by (simp add: skip_ws_solid own_order_def)
  next
    case False
    then have ne: "own_order kvs \<noteq> []" by simp
    then obtain t where j: "?j = CHR 0x22 # t" by (rule join_members_head)
    have "parse_members nf m (?j @ CHR ''}'' # r) = Some (map (\<lambda>(k, v). (k, own_json v)) (own_order kvs), r)"
      by (rule parse_members_stringify) (use ne assms m in \<open>auto simp: list_all_iff\<close>)
    moreover have "js_object (map (\<lambda>(k, v). (k, own_json v)) (own_order kvs)) =
        JObj (map (\<lambda>(k, v). (k, own_json v)) (own_order kvs))"
      by (rule js_object_distinct) (simp add: distinct_own_order assms(1) del: map_map)
    ultimately show ?thesis
      using m j unfolding stringify_object by (simp add: skip_ws_solid own_order_map)
  qed
qed

lemma reads_back_ok: "json_ok nf v \<Longrightarrow> reads_back nf v"
proof (induction v)
  case (JArr xs)
  then show ?case by (intro reads_back_array) (auto simp: list_all_iff)
next
  case (JObj kvs)
  then show ?case by (intro reads_back_object) (auto simp: list_all_iff snds.simps)
next
  case (JNum x)
  show ?case unfolding reads_back_def
  proof (intro allI impI)
    fix n r
    assume "2 * length (json_stringify nf (JNum x)) \<le> n" and r: "token_end r"
    with JNum obtain m where "n = Suc m" by (cases n) (auto simp: num_ok_def)
    with JNum r show "parse_value nf n (json_stringify nf (JNum x) @ r) = Some (own_json (JNum x), r)"
      by (simp add: parse_value_number del: parse_value.simps)
  qed
next
  case (JBool b)
  show ?case unfolding reads_back_def
    by (intro allI impI, case_tac n; cases b) (auto simp: skip_ws_solid parse_scalar_def js_starts_with_def)
next
  case JNull
  show ?case unfolding reads_back_def
    by (intro allI impI, case_tac n) (auto simp: skip_ws_solid parse_scalar_def js_starts_with_def)
next
  case (JStr s)
  show ?case unfolding reads_back_def
    by (intro allI impI, case_tac n) (auto simp: skip_ws_solid json_quote_def parse_str_quoted)
qed

lemma json_parse_stringify: "json_ok nf v \<Longrightarrow> json_parse nf (json_stringify nf v) = Some (own_json v)"
proof -
  assume "json_ok nf v"
  then have "reads_back nf v" by (rule reads_back_ok)
  then have "parse_value nf (2 * length (json_stringify nf v) + 1) (json_stringify nf v @ []) =
      Some (own_json v, [])"
    unfolding reads_back_def by (blast intro: token_end_Nil le_add1)
  then show ?thesis by (simp add: json_parse_def skip_ws_Nil del: parse_value.simps)
qed

lemma json_ok_sort_keys: "json_ok nf v \<Longrightarrow> json_ok nf (sort_keys v)"
proof (induction v)
  case (JObj kvs)
  let ?s = "js_sort (by_key fst) (map (\<lambda>(k, v). (k, sort_keys v)) kvs)"
  have "distinct (map fst ?s)" using JObj.prems by (simp del: map_map)
  moreover have "list_all (\<lambda>(k, v). json_ok nf v) ?s"
    using JObj by (auto simp: list_all_iff snds.simps)
  ultimately show ?case by simp
qed (auto simp: list_all_iff)

lemma json_parse_stableJson: "json_ok nf v \<Longrightarrow> json_parse nf (stableJson nf v) = Some (kv_canon v)"
  by (simp add: stableJson_def kv_canon_def json_parse_stringify json_ok_sort_keys)

text \<open>A text of the whole numbers, and a document with nested, quoted and numeric keys.\<close>

definition demo_num :: js_num where
  "demo_num = \<lparr>num_text = (\<lambda>r. digits_of (nat (floor r))), num_read = (\<lambda>s. Some (of_nat (dec_value s)))\<rparr>"

definition demo_doc :: json where
  "demo_doc = JObj [(''z'', JArr [JNull, JBool True, JNum 42]), (''10'', JStr ''a\"b''), (''9'', JObj []),
     (''b'', JObj [(''y'', JArr []), (''x'', JStr [CHR 0x01, CHR 0xE9])])]"

text \<open>
  Reading back a stored document gives the document in its normal form, and the normal form keeps
  every field: the JSON text of a document loses nothing but the order of its keys.
\<close>

theorem stable_json_roundtrip:
  assumes "json_ok nf v"
  shows "json_parse nf (stableJson nf v) = Some (kv_canon v)"
  using assms by (rule json_parse_stableJson)

theorem stable_json_roundtrip_witness:
  "json_parse demo_num (stableJson demo_num demo_doc) = Some (kv_canon demo_doc)"
  by (rule stable_json_roundtrip) code_simp

section \<open>Equality of documents\<close>

lemma size_zip_left [termination_simp]: "(a, b) \<in> set (zip xs ys) \<Longrightarrow> size a < Suc (size_list size xs)"
  by (metis less_Suc_eq set_zip_leftD size_list_estimation' dual_order.refl le_imp_less_Suc)

text \<open>Deep equality of two JavaScript values: the order of an object's keys does not count.\<close>

fun json_same :: "json \<Rightarrow> json \<Rightarrow> bool" where
  "json_same (JArr xs) (JArr ys) = (length xs = length ys \<and> list_all (\<lambda>(x, y). json_same x y) (zip xs ys))"
| "json_same (JObj kvs) (JObj lvs) =
     (set (map fst kvs) = set (map fst lvs) \<and>
      list_all (\<lambda>(k, v). case map_of lvs k of None \<Rightarrow> False | Some w \<Rightarrow> json_same v w) kvs)"
| "json_same v w = (v = w)"

lemma kv_canon_simps [simp]:
  "kv_canon JNull = JNull" "kv_canon (JBool b) = JBool b" "kv_canon (JNum r) = JNum r"
  "kv_canon (JStr s) = JStr s" "kv_canon (JArr xs) = JArr (map kv_canon xs)"
  by (simp_all add: kv_canon_def)

lemma kv_canon_obj:
  "kv_canon (JObj kvs) = JObj (own_order (js_sort (by_key fst) (map (\<lambda>(k, v). (k, kv_canon v)) kvs)))"
proof -
  have canon: "map (\<lambda>(k, v). (k, kv_canon v)) kvs =
      map (\<lambda>(k, v). (k, own_json v)) (map (\<lambda>(k, v). (k, sort_keys v)) kvs)"
    by (induction kvs) (auto simp: kv_canon_def)
  have "js_sort (by_key fst) (map (\<lambda>(k, v). (k, kv_canon v)) kvs) =
      map (\<lambda>(k, v). (k, own_json v)) (js_sort (by_key fst) (map (\<lambda>(k, v). (k, sort_keys v)) kvs))"
    unfolding canon by (rule js_sort_map) (auto simp: by_key_def)
  then show ?thesis by (simp add: kv_canon_def own_order_map)
qed

lemma set_canon_entries:
  "set (own_order (js_sort (by_key fst) (map (\<lambda>(k, v). (k, kv_canon v)) kvs))) =
   (\<lambda>(k, v). (k, kv_canon v)) ` set kvs"
  by simp

lemma canon_same: "json_ok nf v \<Longrightarrow> json_ok nf w \<Longrightarrow> kv_canon v = kv_canon w \<Longrightarrow> json_same v w"
proof (induction v arbitrary: w)
  case (JArr xs)
  then obtain ys where w: "w = JArr ys" "map kv_canon xs = map kv_canon ys"
    by (cases w) (auto simp: kv_canon_obj)
  have "json_same (xs ! i) (ys ! i)" if "i < length xs" for i
  proof (rule JArr.IH)
    show "xs ! i \<in> set xs" using that by simp
    show "kv_canon (xs ! i) = kv_canon (ys ! i)" using w(2) that by (metis length_map nth_map)
    have "length ys = length xs" using w(2) by (metis length_map)
    then show "json_ok nf (xs ! i)" "json_ok nf (ys ! i)"
      using JArr.prems w(1) that by (simp_all add: list_all_length)
  qed
  moreover have "length xs = length ys" using w(2) by (metis length_map)
  ultimately show ?case using w(1) by (simp add: list_all_length)
next
  case (JObj kvs)
  then obtain lvs where w: "w = JObj lvs" by (cases w) (auto simp: kv_canon_obj)
  let ?c = "\<lambda>(k, v). (k :: string, kv_canon v)"
  have entries: "own_order (js_sort (by_key fst) (map ?c kvs)) = own_order (js_sort (by_key fst) (map ?c lvs))"
    using JObj.prems(3) unfolding w kv_canon_obj by simp
  have sets: "?c ` set kvs = ?c ` set lvs"
    using arg_cong [where f = set, OF entries] unfolding set_canon_entries .
  have "case map_of lvs k of None \<Rightarrow> False | Some u \<Rightarrow> json_same x u" if kx: "(k, x) \<in> set kvs" for k x
  proof -
    have "?c (k, x) \<in> ?c ` set lvs" using imageI [OF kx, of ?c] unfolding sets .
    then obtain u where u: "(k, u) \<in> set lvs" "kv_canon x = kv_canon u" by auto
    then have "map_of lvs k = Some u" using JObj.prems(2) w by simp
    moreover have "json_same x u"
      by (rule JObj.IH [of "(k, x)" x]) (use kx u JObj.prems(1,2) w in \<open>auto simp: list_all_iff snds.simps\<close>)
    ultimately show ?thesis by simp
  qed
  moreover have "set (map fst kvs) = set (map fst lvs)"
  proof -
    have "fst ` ?c ` set kvs = fst ` ?c ` set lvs" using sets by simp
    then show ?thesis by (simp add: image_image case_prod_beta)
  qed
  ultimately show ?case unfolding w by (auto simp: list_all_iff)
qed ((case_tac w; simp add: kv_canon_obj)+)

lemma sorted_fst_unique:
  fixes xs ys :: "(string \<times> 'a) list"
  assumes "distinct (map fst xs)" and "set xs = set ys" and "distinct (map fst ys)"
  shows "js_sort (by_key fst) xs = js_sort (by_key fst) ys"
proof (rule map_sorted_distinct_set_unique)
  have sorted: "sorted (map fst (js_sort (by_key fst) zs))" for zs :: "(string \<times> 'a) list"
    using js_comparator.sorted_js_sort [OF js_comparator_by_key, of fst zs] by (simp add: sorted_map)
  show "sorted (map fst (js_sort (by_key fst) xs))" "sorted (map fst (js_sort (by_key fst) ys))"
    by (rule sorted)+
  show "inj_on fst (set (js_sort (by_key fst) xs) \<union> set (js_sort (by_key fst) ys))"
    using assms by (simp add: distinct_map)
qed (use assms in simp_all)

lemma same_canon: "json_ok nf v \<Longrightarrow> json_ok nf w \<Longrightarrow> json_same v w \<Longrightarrow> sort_keys v = sort_keys w"
proof (induction v w rule: json_same.induct)
  case (1 xs ys)
  have "sort_keys (xs ! i) = sort_keys (ys ! i)" if i: "i < length xs" for i
  proof -
    have len: "length ys = length xs" using 1 by simp
    then have mem: "(xs ! i, ys ! i) \<in> set (zip xs ys)" using i by (simp add: in_set_zip) blast
    moreover have "json_same (xs ! i) (ys ! i)" using "1.prems"(3) mem by (auto simp: list_all_iff)
    moreover have "json_ok nf (xs ! i)" "json_ok nf (ys ! i)"
      using 1 i len by (simp_all add: list_all_length)
    ultimately show ?thesis using "1.IH" by blast
  qed
  with 1 show ?case by (simp add: list_eq_iff_nth_eq)
next
  case (2 kvs lvs)
  let ?s = "\<lambda>(k, v). (k :: string, sort_keys v)"
  have dist: "distinct (map fst kvs)" "distinct (map fst lvs)" using 2 by simp_all
  have match: "\<exists>u. (k, u) \<in> set lvs \<and> sort_keys u = sort_keys x" if kx: "(k, x) \<in> set kvs" for k x
  proof -
    obtain u where u: "map_of lvs k = Some u" "json_same x u"
      using "2.prems"(3) kx by (auto simp: list_all_iff split: option.splits)
    then have mem: "(k, u) \<in> set lvs" by (simp add: map_of_SomeD)
    moreover have "json_ok nf x" "json_ok nf u" using "2.prems" kx mem by (auto simp: list_all_iff)
    ultimately show ?thesis using "2.IH" [OF kx refl u(1)] u(2) by metis
  qed
  have "?s ` set kvs = ?s ` set lvs"
  proof (intro set_eqI iffI)
    fix p assume "p \<in> ?s ` set kvs"
    then obtain k x where p: "p = (k, sort_keys x)" "(k, x) \<in> set kvs" by auto
    then obtain u where "(k, u) \<in> set lvs" "sort_keys u = sort_keys x" using match by blast
    with p(1) show "p \<in> ?s ` set lvs" by (simp add: image_iff) (metis case_prod_conv)
  next
    fix p assume "p \<in> ?s ` set lvs"
    then obtain k u where p: "p = (k, sort_keys u)" "(k, u) \<in> set lvs" by auto
    then have "k \<in> fst ` set kvs" using "2.prems"(3) by force
    then obtain x where x: "(k, x) \<in> set kvs" by auto
    with match obtain u' where "(k, u') \<in> set lvs" "sort_keys u' = sort_keys x" by blast
    with p dist(2) have "sort_keys x = sort_keys u" by (metis eq_key_imp_eq_value)
    with x p(1) show "p \<in> ?s ` set kvs" by (simp add: image_iff) (metis case_prod_conv)
  qed
  then have "js_sort (by_key fst) (map ?s kvs) = js_sort (by_key fst) (map ?s lvs)"
    using dist by (intro sorted_fst_unique) (simp_all del: map_map)
  then show ?case by simp
qed auto

lemma sort_keys_canon: "json_ok nf v \<Longrightarrow> sort_keys (kv_canon v) = sort_keys v"
proof (induction v)
  case (JArr xs)
  then show ?case by (simp add: list_all_iff)
next
  case (JObj kvs)
  let ?s = "\<lambda>(k, v). (k :: string, sort_keys v)" and ?c = "\<lambda>(k, v). (k :: string, kv_canon v)"
  let ?es = "own_order (js_sort (by_key fst) (map ?c kvs))"
  have dist: "distinct (map fst kvs)" using JObj.prems by simp
  have "?s (?c kv) = ?s kv" if "kv \<in> set kvs" for kv
    using JObj that by (cases kv) (auto simp: list_all_iff snds.simps)
  then have "set (map ?s ?es) = set (map ?s kvs)" by (simp add: image_image cong: image_cong)
  moreover have "distinct (map fst ?es)" using dist by (simp add: distinct_own_order del: map_map)
  ultimately have "js_sort (by_key fst) (map ?s ?es) = js_sort (by_key fst) (map ?s kvs)"
    using dist by (intro sorted_fst_unique) (simp_all del: map_map)
  then show ?case by (simp add: kv_canon_obj)
qed simp_all

lemma kv_canon_idem: "json_ok nf v \<Longrightarrow> kv_canon (kv_canon v) = kv_canon v"
  by (subst kv_canon_def) (simp add: sort_keys_canon, simp add: kv_canon_def)

lemma json_ok_canon: "json_ok nf v \<Longrightarrow> json_ok nf (kv_canon v)"
proof (induction v)
  case (JObj kvs)
  let ?es = "own_order (js_sort (by_key fst) (map (\<lambda>(k, v). (k, kv_canon v)) kvs))"
  have "distinct (map fst ?es)" using JObj.prems by (simp add: distinct_own_order del: map_map)
  moreover have "list_all (\<lambda>(k, v). json_ok nf v) ?es" using JObj by (auto simp: list_all_iff snds.simps)
  ultimately show ?case by (simp add: kv_canon_obj)
qed (auto simp: list_all_iff)

lemma stableJson_canon: "json_ok nf v \<Longrightarrow> stableJson nf (kv_canon v) = stableJson nf v"
  by (simp add: stableJson_def sort_keys_canon)

text \<open>
  Two documents have the same stable text exactly when they are deeply equal, whatever the order
  of their keys: the text that is fingerprinted is a faithful image of the document.
\<close>

theorem stable_json_iff_same:
  assumes "json_ok nf v" and "json_ok nf w"
  shows "stableJson nf v = stableJson nf w \<longleftrightarrow> json_same v w"
proof
  assume "stableJson nf v = stableJson nf w"
  then have "json_parse nf (json_stringify nf (sort_keys v)) = json_parse nf (json_stringify nf (sort_keys w))"
    by (simp add: stableJson_def)
  then have "kv_canon v = kv_canon w"
    by (simp add: json_parse_stringify json_ok_sort_keys assms kv_canon_def)
  then show "json_same v w" by (rule canon_same [OF assms])
next
  assume "json_same v w"
  then show "stableJson nf v = stableJson nf w" by (simp add: stableJson_def same_canon [OF assms])
qed

theorem stable_json_iff_same_witness:
  "stableJson demo_num (JObj [(''a'', JNum 1), (''b'', JNull)]) =
   stableJson demo_num (JObj [(''b'', JNull), (''a'', JNum 1)]) \<and>
   json_same (JObj [(''a'', JNum 1), (''b'', JNull)]) (JObj [(''b'', JNull), (''a'', JNum 1)])"
proof -
  have ok: "json_ok demo_num (JObj [(''a'', JNum 1), (''b'', JNull)])"
    "json_ok demo_num (JObj [(''b'', JNull), (''a'', JNum 1)])" by code_simp+
  moreover have "json_same (JObj [(''a'', JNum 1), (''b'', JNull)]) (JObj [(''b'', JNull), (''a'', JNum 1)])"
    by code_simp
  ultimately show ?thesis using stable_json_iff_same [OF ok] by blast
qed

end
