(* ===== verification/SwarmKv.thy ===== *)
theory SwarmKv
  imports KvRoundTrip "HOL-Library.DAList"
begin

text \<open>
  The versioned document store on swarm configs: the class \<^verbatim>\<open>SwarmKv\<close> of
  \<^verbatim>\<open>packages/core/src/swarm-kv.ts\<close> and its in-memory driver. The store is a record of the fields
  that change (cache, load time, refresh in flight, generation counter, touched keys) and of the
  state of the swarm, which only the driver reads and writes. A method is a function from the store
  to what it returns or throws and the store afterwards. Writes are serialised by the class
  (\<^verbatim>\<open>serial\<close>), so a write is one function; a background refresh is a job of the state that
  \<open>refresh_tick\<close> advances one await at a time, between the other operations.

  The driver, the sealer and the clock are injected in the source and are arguments here
  (\<open>kv_conf\<close>). \<^verbatim>\<open>structuredClone\<close> is the identity on values. The random pause between two
  attempts has no effect on the result. An em dash in a message is written as a hyphen, and the
  cause and the byte counts that a message quotes are left out. A background refresh is interleaved
  between operations, not inside one.
\<close>

section \<open>Definitions\<close>

subsection \<open>Data\<close>

record version_meta =
  vm_seq :: nat
  vm_bytes :: int
  vm_sha :: string
  vm_created :: int

record kv_entry =
  e_versions :: "version_meta list"
  e_value :: json

record kv_doc =
  d_collection :: string
  d_id :: string
  d_seq :: nat
  d_value :: json
  d_updatedAt :: int

record kv_config_info =
  ci_name :: string
  ci_created :: int
  ci_labels :: labels

record 's kv_driver =
  drv_list :: "'s \<Rightarrow> (kv_exn + kv_config_info list) \<times> 's"
  drv_read :: "string \<Rightarrow> 's \<Rightarrow> (kv_exn + string) \<times> 's"
  drv_create :: "string \<Rightarrow> string \<Rightarrow> labels \<Rightarrow> 's \<Rightarrow> (kv_exn + unit) \<times> 's"
  drv_remove :: "string \<Rightarrow> 's \<Rightarrow> (kv_exn + unit) \<times> 's"

record kv_sealer =
  sealer_seal :: "string \<Rightarrow> string"
  sealer_open :: "string \<Rightarrow> string option"

definition plainKvSealer :: kv_sealer where
  "plainKvSealer = \<lparr>sealer_seal = (\<lambda>s. s), sealer_open = Some\<rparr>"

record 's kv_conf =
  orgId :: string
  driver :: "'s kv_driver"
  sealer :: kv_sealer
  allowed :: "string list option"
  maxDocBytes :: int
  maxTotalBytes :: int
  keep :: nat
  refreshMs :: int
  maxRetries :: nat
  now :: "'s \<Rightarrow> int"
  numbers :: js_num

record kv_options =
  o_collections :: "string list option"
  o_maxDocBytes :: "int option"
  o_maxTotalBytes :: "int option"
  o_keepVersions :: "nat option"
  o_refreshMs :: "int option"
  o_maxRetries :: "nat option"

text \<open>
  A refresh in flight: waiting for the listing, or reading the keys that are left, with the
  generation at which it started and the entries collected so far.
\<close>

datatype refresh_job =
    Listing nat
  | Reading nat "(string \<times> version_meta list) list" "kv_entry jsmap"

record 's kv =
  entries :: "kv_entry jsmap"
  loadedAt :: "int option"
  loading :: "refresh_job option"
  gen :: nat
  touched :: "nat jsmap"
  swarm :: 's

type_synonym ('s, 'a) kv_io = "'s kv \<Rightarrow> (kv_exn + 'a) \<times> 's kv"

definition kv_conf_of ::
    "string \<Rightarrow> 's kv_driver \<Rightarrow> kv_sealer \<Rightarrow> ('s \<Rightarrow> int) \<Rightarrow> js_num \<Rightarrow> kv_options \<Rightarrow> 's kv_conf" where
  "kv_conf_of org d sl clock nf opts =
     \<lparr>orgId = org, driver = d, sealer = sl, allowed = o_collections opts,
      maxDocBytes = opt_or (o_maxDocBytes opts) KV_MAX_DOC_BYTES,
      maxTotalBytes = opt_or (o_maxTotalBytes opts) KV_MAX_TOTAL_BYTES,
      keep = max 1 (opt_or (o_keepVersions opts) KV_KEEP_VERSIONS),
      refreshMs = opt_or (o_refreshMs opts) 60000,
      maxRetries = opt_or (o_maxRetries opts) 5, now = clock, numbers = nf\<rparr>"

definition new_kv :: "'s \<Rightarrow> 's kv" where
  "new_kv s = \<lparr>entries = [], loadedAt = None, loading = None, gen = 0, touched = [], swarm = s\<rparr>"

subsection \<open>Sequencing\<close>

definition io_return :: "'a \<Rightarrow> ('s, 'a) kv_io" where
  "io_return a w = (Inr a, w)"

definition io_throw :: "kv_exn \<Rightarrow> ('s, 'a) kv_io" where
  "io_throw e w = (Inl e, w)"

definition io_bind :: "('s, 'a) kv_io \<Rightarrow> ('a \<Rightarrow> ('s, 'b) kv_io) \<Rightarrow> ('s, 'b) kv_io" where
  "io_bind m f w = (case m w of (Inl e, w') \<Rightarrow> (Inl e, w') | (Inr a, w') \<Rightarrow> f a w')"

definition io_guard :: "kv_exn option \<Rightarrow> ('s, unit) kv_io" where
  "io_guard eo = (case eo of None \<Rightarrow> io_return () | Some e \<Rightarrow> io_throw e)"

definition io_modify :: "('s kv \<Rightarrow> 's kv) \<Rightarrow> ('s, unit) kv_io" where
  "io_modify f w = (Inr (), f w)"

definition io_call :: "('s \<Rightarrow> (kv_exn + 'a) \<times> 's) \<Rightarrow> ('s, 'a) kv_io" where
  "io_call f w = (case f (swarm w) of (r, s) \<Rightarrow> (r, w\<lparr>swarm := s\<rparr>))"

subsection \<open>Reading the swarm\<close>

definition keyOf :: "string \<Rightarrow> string \<Rightarrow> string" where
  "keyOf collection i = collection @ [CHR 0x00] @ i"

definition key_parts :: "string \<Rightarrow> string \<times> string" where
  "key_parts k = (case js_split (CHR 0x00) k of c # i # _ \<Rightarrow> (c, i) | _ \<Rightarrow> (k, []))"

definition entry_versions :: "kv_entry option \<Rightarrow> version_meta list" where
  "entry_versions eo = (case eo of None \<Rightarrow> [] | Some e \<Rightarrow> e_versions e)"

definition latest_of :: "version_meta list \<Rightarrow> version_meta option" where
  "latest_of vs = (if vs = [] then None else Some (last vs))"

definition footprint :: "'s kv \<Rightarrow> int" where
  "footprint w = sum_list (map (\<lambda>(k, e). sum_list (map vm_bytes (e_versions e))) (entries w))"

text \<open>\<^verbatim>\<open>Number.parseInt(s, 10) || 0\<close>.\<close>

definition parse_int_or_0 :: "string \<Rightarrow> int" where
  "parse_int_or_0 s =
     (let t = dropWhile js_space s;
          neg = (t \<noteq> [] \<and> hd t = CHR ''-'');
          u = (if t \<noteq> [] \<and> (hd t = CHR ''-'' \<or> hd t = CHR ''+'') then tl t else t);
          n = int (dec_value (takeWhile is_digit u))
      in if neg then - n else n)"

definition is_allowed :: "'s kv_conf \<Rightarrow> string \<Rightarrow> bool" where
  "is_allowed cf c = (case allowed cf of None \<Rightarrow> True | Some cs \<Rightarrow> c \<in> set cs)"

definition is_mine :: "'s kv_conf \<Rightarrow> kv_config_info \<Rightarrow> bool" where
  "is_mine cf x =
     (lbl (ci_labels x) KV_LABEL = Some ''1'' \<and> lbl (ci_labels x) KV_LABEL_ORG = Some (orgId cf))"

definition meta_of :: "nat \<Rightarrow> kv_config_info \<Rightarrow> version_meta" where
  "meta_of seq x =
     \<lparr>vm_seq = seq,
      vm_bytes = parse_int_or_0 (opt_or (lbl (ci_labels x) KV_LABEL_BYTES) ''0''),
      vm_sha = opt_or (lbl (ci_labels x) KV_LABEL_SHA) [],
      vm_created = ci_created x\<rparr>"

definition group_one ::
    "'s kv_conf \<Rightarrow> kv_config_info \<Rightarrow> version_meta list jsmap \<Rightarrow> version_meta list jsmap" where
  "group_one cf x byKey =
     (if \<not> is_mine cf x then byKey
      else case parseKvConfigName (ci_name x) of
        None \<Rightarrow> byKey
      | Some (c, i, seq) \<Rightarrow>
          if \<not> is_allowed cf c then byKey
          else AList.update (keyOf c i)
                 (opt_or (map_of byKey (keyOf c i)) [] @ [meta_of seq x]) byKey)"

definition group_mine :: "'s kv_conf \<Rightarrow> kv_config_info list \<Rightarrow> version_meta list jsmap" where
  "group_mine cf xs = map (\<lambda>(k, vs). (k, js_sort (by_key vm_seq) vs)) (fold (group_one cf) xs [])"

definition listMine :: "'s kv_conf \<Rightarrow> ('s, version_meta list jsmap) kv_io" where
  "listMine cf = io_bind (io_call (drv_list (driver cf))) (\<lambda>xs. io_return (group_mine cf xs))"

text \<open>A stored payload: base64, sealed, JSON. \<open>None\<close> where one of the three steps throws.\<close>

definition decode :: "'s kv_conf \<Rightarrow> string \<Rightarrow> json option" where
  "decode cf dataB64 =
     Option.bind (fromB64 dataB64)
       (\<lambda>t. Option.bind (sealer_open (sealer cf) t) (json_parse (numbers cf)))"

definition readVersion :: "'s kv_conf \<Rightarrow> string \<Rightarrow> string \<Rightarrow> nat \<Rightarrow> ('s, json) kv_io" where
  "readVersion cf c i seq =
     io_bind (io_call (drv_read (driver cf) (kvConfigName c i seq)))
       (\<lambda>dataB64. case decode cf dataB64 of
          None \<Rightarrow> io_throw (KvError INVALID
            (''swarm-kv '' @ c @ ''/'' @ i @ '' v'' @ digits_of seq @ '' can't be opened''))
        | Some v \<Rightarrow> io_return v)"

definition touch :: "string \<Rightarrow> 's kv \<Rightarrow> 's kv" where
  "touch k w = w\<lparr>gen := gen w + 1, touched := AList.update k (gen w + 1) (touched w)\<rparr>"

definition set_entry :: "string \<Rightarrow> kv_entry \<Rightarrow> 's kv \<Rightarrow> 's kv" where
  "set_entry k e w = w\<lparr>entries := AList.update k e (entries w)\<rparr>"

definition drop_entry :: "string \<Rightarrow> 's kv \<Rightarrow> 's kv" where
  "drop_entry k w = w\<lparr>entries := AList.delete k (entries w)\<rparr>"

subsection \<open>Refreshing the cache\<close>

definition refresh_begin :: "'s kv \<Rightarrow> 's kv" where
  "refresh_begin w =
     (case loading w of None \<Rightarrow> w\<lparr>loading := Some (Listing (gen w))\<rparr> | Some _ \<Rightarrow> w)"

text \<open>One turn of the loop of \<^verbatim>\<open>doRefresh\<close>: reuse the cached value of an unchanged key, read others.\<close>

definition refresh_key ::
    "'s kv_conf \<Rightarrow> string \<times> version_meta list \<Rightarrow> kv_entry jsmap \<Rightarrow> ('s, kv_entry jsmap) kv_io" where
  "refresh_key cf kv nxt w =
     (let k = fst kv; versions = snd kv; latest = last versions; cur = map_of (entries w) k
      in case (cur, latest_of (entry_versions cur)) of
           (Some e, Some curLatest) \<Rightarrow>
             if vm_seq curLatest = vm_seq latest
             then (Inr (AList.update k \<lparr>e_versions = versions, e_value = e_value e\<rparr> nxt), w)
             else io_bind (readVersion cf (fst (key_parts k)) (snd (key_parts k)) (vm_seq latest))
               (\<lambda>v. io_return (AList.update k \<lparr>e_versions = versions, e_value = v\<rparr> nxt)) w
         | _ \<Rightarrow> io_bind (readVersion cf (fst (key_parts k)) (snd (key_parts k)) (vm_seq latest))
               (\<lambda>v. io_return (AList.update k \<lparr>e_versions = versions, e_value = v\<rparr> nxt)) w)"

definition keep_local :: "nat \<Rightarrow> kv_entry jsmap \<Rightarrow> string \<times> nat \<Rightarrow> kv_entry jsmap \<Rightarrow> kv_entry jsmap" where
  "keep_local startGen es kg nxt =
     (if snd kg \<le> startGen then nxt
      else case map_of es (fst kg) of
        Some cur \<Rightarrow> AList.update (fst kg) cur nxt
      | None \<Rightarrow> AList.delete (fst kg) nxt)"

definition refresh_commit :: "'s kv_conf \<Rightarrow> nat \<Rightarrow> kv_entry jsmap \<Rightarrow> 's kv \<Rightarrow> 's kv" where
  "refresh_commit cf startGen nxt w =
     w\<lparr>entries := fold (keep_local startGen (entries w)) (touched w) nxt,
       touched := [], loadedAt := Some (now cf (swarm w))\<rparr>"

primrec refresh_loop ::
    "'s kv_conf \<Rightarrow> (string \<times> version_meta list) list \<Rightarrow> kv_entry jsmap \<Rightarrow> ('s, kv_entry jsmap) kv_io" where
  "refresh_loop cf [] nxt = io_return nxt"
| "refresh_loop cf (kv # todo) nxt = io_bind (refresh_key cf kv nxt) (refresh_loop cf todo)"

definition run_job :: "'s kv_conf \<Rightarrow> refresh_job \<Rightarrow> ('s, unit) kv_io" where
  "run_job cf job =
     (case job of
        Listing g \<Rightarrow>
          io_bind (listMine cf) (\<lambda>listed.
          io_bind (refresh_loop cf listed []) (\<lambda>nxt. io_modify (refresh_commit cf g nxt)))
      | Reading g todo nxt \<Rightarrow>
          io_bind (refresh_loop cf todo nxt) (\<lambda>nxt'. io_modify (refresh_commit cf g nxt')))"

text \<open>Awaiting \<^verbatim>\<open>refresh()\<close>: start a refresh unless one is in flight, and run it to its end.\<close>

definition refresh :: "'s kv_conf \<Rightarrow> ('s, unit) kv_io" where
  "refresh cf w =
     (case loading (refresh_begin w) of
        None \<Rightarrow> (Inr (), w)
      | Some job \<Rightarrow> (case run_job cf job (refresh_begin w) of (r, w') \<Rightarrow> (r, w'\<lparr>loading := None\<rparr>)))"

text \<open>One await of a refresh in the background, whose error is dropped.\<close>

definition refresh_tick :: "'s kv_conf \<Rightarrow> 's kv \<Rightarrow> 's kv" where
  "refresh_tick cf w =
     (case loading w of
        None \<Rightarrow> w
      | Some (Listing g) \<Rightarrow>
          (case listMine cf w of
             (Inl e, w') \<Rightarrow> w'\<lparr>loading := None\<rparr>
           | (Inr listed, w') \<Rightarrow> w'\<lparr>loading := Some (Reading g listed [])\<rparr>)
      | Some (Reading g [] nxt) \<Rightarrow> (refresh_commit cf g nxt w)\<lparr>loading := None\<rparr>
      | Some (Reading g (kv # todo) nxt) \<Rightarrow>
          (case refresh_key cf kv nxt w of
             (Inl e, w') \<Rightarrow> w'\<lparr>loading := None\<rparr>
           | (Inr nxt', w') \<Rightarrow> w'\<lparr>loading := Some (Reading g todo nxt')\<rparr>))"

definition ensureFresh :: "'s kv_conf \<Rightarrow> ('s, unit) kv_io" where
  "ensureFresh cf w =
     (case loadedAt w of
        None \<Rightarrow> refresh cf w
      | Some t \<Rightarrow>
          if now cf (swarm w) - t \<ge> refreshMs cf \<and> loading w = None
          then (Inr (), refresh_begin w) else (Inr (), w))"

text \<open>Re-read one key from the swarm.\<close>

definition refreshKey :: "'s kv_conf \<Rightarrow> string \<Rightarrow> string \<Rightarrow> ('s, unit) kv_io" where
  "refreshKey cf c i =
     io_bind (listMine cf) (\<lambda>listed.
     io_bind (io_modify (touch (keyOf c i))) (\<lambda>_.
       case opt_or (map_of listed (keyOf c i)) [] of
         [] \<Rightarrow> io_modify (drop_entry (keyOf c i))
       | v # vs \<Rightarrow>
           io_bind (readVersion cf c i (vm_seq (last (v # vs)))) (\<lambda>value.
           io_modify (set_entry (keyOf c i) \<lparr>e_versions = v # vs, e_value = value\<rparr>))))"

subsection \<open>Reads\<close>

definition checkCollection :: "'s kv_conf \<Rightarrow> string \<Rightarrow> kv_exn option" where
  "checkCollection cf c =
     (if \<not> is_allowed cf c
      then Some (KvError INVALID (''swarm-kv collection \"'' @ c @ ''\" is not allowlisted''))
      else if \<not> COLLECTION_RE c
      then Some (KvError INVALID (''invalid swarm-kv collection \"'' @ c @ ''\"''))
      else None)"

definition check :: "'s kv_conf \<Rightarrow> string \<Rightarrow> string \<Rightarrow> kv_exn option" where
  "check cf c i = (case checkCollection cf c of Some e \<Rightarrow> Some e | None \<Rightarrow> assertKvKey c i)"

definition docOf :: "string \<Rightarrow> string \<Rightarrow> 's kv \<Rightarrow> kv_doc option" where
  "docOf c i w =
     (case map_of (entries w) (keyOf c i) of
        None \<Rightarrow> None
      | Some e \<Rightarrow>
          (case latest_of (e_versions e) of
             None \<Rightarrow> None
           | Some m \<Rightarrow>
               Some \<lparr>d_collection = c, d_id = i, d_seq = vm_seq m, d_value = e_value e,
                     d_updatedAt = vm_created m\<rparr>))"

definition getDoc :: "'s kv_conf \<Rightarrow> string \<Rightarrow> string \<Rightarrow> ('s, kv_doc option) kv_io" where
  "getDoc cf c i =
     io_bind (io_guard (check cf c i)) (\<lambda>_. io_bind (ensureFresh cf) (\<lambda>_ w. (Inr (docOf c i w), w)))"

definition kv_get :: "'s kv_conf \<Rightarrow> string \<Rightarrow> string \<Rightarrow> ('s, json) kv_io" where
  "kv_get cf c i =
     io_bind (getDoc cf c i) (\<lambda>d. io_return (case d of None \<Rightarrow> JNull | Some x \<Rightarrow> d_value x))"

definition kv_list :: "'s kv_conf \<Rightarrow> string \<Rightarrow> ('s, kv_doc list) kv_io" where
  "kv_list cf c =
     io_bind (io_guard (checkCollection cf c)) (\<lambda>_. io_bind (ensureFresh cf) (\<lambda>_ w.
       (Inr (js_sort (by_key d_id)
          (List.map_filter (\<lambda>k. if fst (key_parts k) \<noteq> c then None
                               else docOf (fst (key_parts k)) (snd (key_parts k)) w)
             (map fst (entries w)))), w)))"

definition kv_versions :: "'s kv_conf \<Rightarrow> string \<Rightarrow> string \<Rightarrow> ('s, (nat \<times> int) list) kv_io" where
  "kv_versions cf c i =
     io_bind (io_guard (check cf c i)) (\<lambda>_. io_bind (ensureFresh cf) (\<lambda>_ w.
       (Inr (rev (map (\<lambda>v. (vm_seq v, vm_created v))
          (entry_versions (map_of (entries w) (keyOf c i))))), w)))"

definition getVersion :: "'s kv_conf \<Rightarrow> string \<Rightarrow> string \<Rightarrow> nat \<Rightarrow> ('s, json) kv_io" where
  "getVersion cf c i seq =
     io_bind (io_guard (check cf c i)) (\<lambda>_. readVersion cf c i seq)"

subsection \<open>Writes\<close>

definition gone_message :: "kv_exn \<Rightarrow> bool" where
  "gone_message e =
     (let msg = js_lower (exn_message e) in js_includes msg ''not found'' \<or> js_includes msg ''no such'')"

definition removeQuietly :: "'s kv_conf \<Rightarrow> string \<Rightarrow> ('s, bool) kv_io" where
  "removeQuietly cf name w =
     (case io_call (drv_remove (driver cf) name) w of
        (Inr _, w') \<Rightarrow> (Inr True, w')
      | (Inl e, w') \<Rightarrow> (Inr (gone_message e), w'))"

primrec gc_loop ::
    "'s kv_conf \<Rightarrow> string \<Rightarrow> string \<Rightarrow> version_meta list \<Rightarrow> version_meta list \<Rightarrow> ('s, version_meta list) kv_io" where
  "gc_loop cf c i [] kept = io_return kept"
| "gc_loop cf c i (v # vs) kept =
     io_bind (removeQuietly cf (kvConfigName c i (vm_seq v)))
       (\<lambda>ok. gc_loop cf c i vs (if ok then kept else v # kept))"

definition gc :: "'s kv_conf \<Rightarrow> string \<Rightarrow> string \<Rightarrow> ('s, unit) kv_io" where
  "gc cf c i w =
     (case map_of (entries w) (keyOf c i) of
        None \<Rightarrow> (Inr (), w)
      | Some e \<Rightarrow>
          if length (e_versions e) \<le> keep cf then (Inr (), w)
          else
            let n = length (e_versions e) - keep cf
            in io_bind (gc_loop cf c i (take n (e_versions e)) (drop n (e_versions e)))
                 (\<lambda>kept. io_modify (set_entry (keyOf c i)
                    \<lparr>e_versions = js_sort (by_key vm_seq) kept, e_value = e_value e\<rparr>)) w)"

definition kv_labels :: "'s kv_conf \<Rightarrow> string \<Rightarrow> string \<Rightarrow> nat \<Rightarrow> string \<Rightarrow> nat \<Rightarrow> labels" where
  "kv_labels cf c i seq sha bytes =
     [(KV_LABEL, ''1''), (KV_LABEL_ORG, orgId cf), (KV_LABEL_COLLECTION, c), (KV_LABEL_ID, i),
      (KV_LABEL_SEQ, digits_of seq), (KV_LABEL_SHA, sha), (KV_LABEL_BYTES, digits_of bytes)]"

text \<open>
  What a write of \<open>json\<close> over the cached entry \<open>cur\<close> would store: the version number, the
  payload and the versions it will prune, or the error it is refused with.
\<close>

definition plan_write ::
    "'s kv_conf \<Rightarrow> string \<Rightarrow> string \<Rightarrow> kv_entry option \<Rightarrow> string \<Rightarrow> 's kv \<Rightarrow> kv_exn + (nat \<times> string)" where
  "plan_write cf c i cur text w =
     (let dataB64 = toB64 (sealer_seal (sealer cf) text);
          bytes = int (length dataB64);
          prior = entry_versions cur;
          seq = (case latest_of prior of None \<Rightarrow> 0 | Some m \<Rightarrow> vm_seq m) + 1;
          pruned = take (length prior + 1 - keep cf) prior;
          projected = footprint w + bytes - sum_list (map vm_bytes pruned)
      in if bytes > maxDocBytes cf
         then Inl (KvError TOO_LARGE (''swarm-kv document '' @ c @ ''/'' @ i @ '' is too large''))
         else if seq > KV_MAX_SEQ
         then Inl (KvError INVALID (''swarm-kv '' @ c @ ''/'' @ i @ '' ran out of version numbers''))
         else if projected > maxTotalBytes cf
         then Inl (KvError BUDGET ''swarm-kv footprint would exceed its limit - refusing to grow raft'')
         else Inr (seq, dataB64))"

text \<open>What follows a successful create: the cache, the touched key and the garbage collection.\<close>

definition after_create ::
    "'s kv_conf \<Rightarrow> string \<Rightarrow> string \<Rightarrow> kv_entry option \<Rightarrow> nat \<Rightarrow> string \<Rightarrow> string \<Rightarrow> ('s, kv_doc option) kv_io" where
  "after_create cf c i cur seq text dataB64 w =
     (let meta = \<lparr>vm_seq = seq, vm_bytes = int (length dataB64), vm_sha = kvFingerprint text,
                  vm_created = now cf (swarm w)\<rparr>
      in case json_parse (numbers cf) text of
           None \<Rightarrow> (Inl (OtherError ''JSON Parse error''), w)
         | Some v \<Rightarrow>
             io_bind (io_modify (set_entry (keyOf c i)
                        \<lparr>e_versions = entry_versions cur @ [meta], e_value = v\<rparr>)) (\<lambda>_.
             io_bind (io_modify (touch (keyOf c i))) (\<lambda>_.
             io_bind (gc cf c i) (\<lambda>_ w. (Inr (docOf c i w), w)))) w)"

text \<open>
  One turn of the loop of \<^verbatim>\<open>update\<close>. \<open>retry\<close> is what follows a create that lost a race.
\<close>

definition update_attempt ::
    "'s kv_conf \<Rightarrow> string \<Rightarrow> string \<Rightarrow> (json option \<Rightarrow> kv_exn + json option) \<Rightarrow>
     ('s, kv_doc option) kv_io \<Rightarrow> ('s, kv_doc option) kv_io" where
  "update_attempt cf c i fn retry w =
     (let cur = map_of (entries w) (keyOf c i);
          curLatest = latest_of (entry_versions cur)
      in case fn (if curLatest = None then None else map_option e_value cur) of
           Inl e \<Rightarrow> (Inl e, w)
         | Inr None \<Rightarrow> (Inr (docOf c i w), w)
         | Inr (Some v) \<Rightarrow>
             (case assertNoRunState v of
                Some e \<Rightarrow> (Inl e, w)
              | None \<Rightarrow>
                  let text = stableJson (numbers cf) v; sha = kvFingerprint text
                  in if map_option vm_sha curLatest = Some sha then (Inr (docOf c i w), w)
                     else case plan_write cf c i cur text w of
                       Inl e \<Rightarrow> (Inl e, w)
                     | Inr (seq, dataB64) \<Rightarrow>
                         (case io_call (drv_create (driver cf) (kvConfigName c i seq) dataB64
                                  (kv_labels cf c i seq sha (length dataB64))) w of
                            (Inl e, w') \<Rightarrow> if \<not> isNameConflict e then (Inl e, w') else retry w'
                          | (Inr _, w') \<Rightarrow> after_create cf c i cur seq text dataB64 w')))"

primrec update_loop ::
    "'s kv_conf \<Rightarrow> string \<Rightarrow> string \<Rightarrow> (json option \<Rightarrow> kv_exn + json option) \<Rightarrow> nat \<Rightarrow>
     ('s, kv_doc option) kv_io" where
  "update_loop cf c i fn 0 =
     update_attempt cf c i fn
       (io_throw (KvError CONFLICT (''swarm-kv '' @ c @ ''/'' @ i @ '': gave up after '' @
          digits_of (maxRetries cf + 1) @ '' conflicting writes'')))"
| "update_loop cf c i fn (Suc n) =
     update_attempt cf c i fn (io_bind (refreshKey cf c i) (\<lambda>_. update_loop cf c i fn n))"

definition kv_update ::
    "'s kv_conf \<Rightarrow> string \<Rightarrow> string \<Rightarrow> (json option \<Rightarrow> kv_exn + json option) \<Rightarrow> ('s, kv_doc option) kv_io" where
  "kv_update cf c i fn =
     io_bind (io_guard (check cf c i)) (\<lambda>_.
     io_bind (ensureFresh cf) (\<lambda>_. update_loop cf c i fn (maxRetries cf)))"

definition kv_put :: "'s kv_conf \<Rightarrow> string \<Rightarrow> string \<Rightarrow> json \<Rightarrow> ('s, kv_doc option) kv_io" where
  "kv_put cf c i v = kv_update cf c i (\<lambda>_. Inr (Some v))"

primrec remove_all :: "'s kv_conf \<Rightarrow> string \<Rightarrow> string \<Rightarrow> version_meta list \<Rightarrow> ('s, unit) kv_io" where
  "remove_all cf c i [] = io_return ()"
| "remove_all cf c i (v # vs) =
     io_bind (removeQuietly cf (kvConfigName c i (vm_seq v))) (\<lambda>_. remove_all cf c i vs)"

definition kv_delete :: "'s kv_conf \<Rightarrow> string \<Rightarrow> string \<Rightarrow> ('s, bool) kv_io" where
  "kv_delete cf c i =
     io_bind (io_guard (check cf c i)) (\<lambda>_.
     io_bind (ensureFresh cf) (\<lambda>_.
     io_bind (refreshKey cf c i) (\<lambda>_ w.
       case map_of (entries w) (keyOf c i) of
         None \<Rightarrow> (Inr False, w)
       | Some e \<Rightarrow>
           io_bind (remove_all cf c i (e_versions e)) (\<lambda>_.
           io_bind (io_modify (drop_entry (keyOf c i))) (\<lambda>_.
           io_bind (io_modify (touch (keyOf c i))) (\<lambda>_. io_return True))) w)))"

definition kv_revert :: "'s kv_conf \<Rightarrow> string \<Rightarrow> string \<Rightarrow> nat \<Rightarrow> ('s, kv_doc option) kv_io" where
  "kv_revert cf c i seq = io_bind (getVersion cf c i seq) (kv_put cf c i)"

subsection \<open>Backup and restore\<close>

type_synonym kv_export = "string \<times> string \<times> json"

definition export_order :: "kv_export \<Rightarrow> kv_export \<Rightarrow> int" where
  "export_order a b =
     (if fst a = fst b then (if fst (snd a) < fst (snd b) then -1 else 1)
      else if fst a < fst b then -1 else 1)"

definition exportAll :: "'s kv_conf \<Rightarrow> ('s, kv_export list) kv_io" where
  "exportAll cf w =
     (case refresh cf w of
        (r, w') \<Rightarrow>
          (case (r, loadedAt w') of
             (Inl e, None) \<Rightarrow> (Inl e, w')
           | _ \<Rightarrow> (Inr (js_sort export_order
                (map (\<lambda>(k, e). (fst (key_parts k), snd (key_parts k), e_value e)) (entries w'))), w')))"

primrec import_loop :: "'s kv_conf \<Rightarrow> kv_export list \<Rightarrow> nat \<Rightarrow> ('s, nat) kv_io" where
  "import_loop cf [] n = io_return n"
| "import_loop cf (d # ds) n =
     (case d of (c, i, v) \<Rightarrow>
        if \<not> is_allowed cf c then import_loop cf ds n
        else io_bind (kv_put cf c i v) (\<lambda>_. import_loop cf ds (n + 1)))"

definition importAll :: "'s kv_conf \<Rightarrow> kv_export list \<Rightarrow> ('s, nat) kv_io" where
  "importAll cf docs = import_loop cf docs 0"

subsection \<open>The in-memory driver\<close>

record mem_config =
  mc_data :: string
  mc_labels :: labels
  mc_created :: int

record mem_swarm =
  configs :: "(string, mem_config) alist"
  calls :: "string list"
  mem_now :: int

definition note_call :: "string \<Rightarrow> mem_swarm \<Rightarrow> mem_swarm" where
  "note_call t s = s\<lparr>calls := calls s @ [t]\<rparr>"

definition mem_list :: "mem_swarm \<Rightarrow> (kv_exn + kv_config_info list) \<times> mem_swarm" where
  "mem_list s =
     (Inr (map (\<lambda>(n, x). \<lparr>ci_name = n, ci_created = mc_created x, ci_labels = mc_labels x\<rparr>)
        (DAList.impl_of (configs s))),
      note_call ''list'' s)"

definition mem_read :: "string \<Rightarrow> mem_swarm \<Rightarrow> (kv_exn + string) \<times> mem_swarm" where
  "mem_read n s =
     (case DAList.lookup (configs s) n of
        None \<Rightarrow> (Inl (OtherError (''config '' @ n @ '' not found'')), note_call (''read '' @ n) s)
      | Some x \<Rightarrow> (Inr (mc_data x), note_call (''read '' @ n) s))"

text \<open>The hook \<open>beforeCreate\<close> lets a racing writer act between the call and its effect.\<close>

definition mem_create ::
    "(string \<Rightarrow> mem_swarm \<Rightarrow> mem_swarm) \<Rightarrow> string \<Rightarrow> string \<Rightarrow> labels \<Rightarrow> mem_swarm \<Rightarrow> (kv_exn + unit) \<times> mem_swarm" where
  "mem_create beforeCreate n d l s =
     (let s1 = beforeCreate n (note_call (''create '' @ n) s)
      in if DAList.lookup (configs s1) n \<noteq> None
         then (Inl (OtherError (''rpc error: code = AlreadyExists desc = config '' @ n @ '' already exists'')), s1)
         else (Inr (), s1\<lparr>configs := DAList.update n
                 \<lparr>mc_data = d, mc_labels = l, mc_created = mem_now s1\<rparr> (configs s1)\<rparr>))"

definition mem_remove :: "string \<Rightarrow> mem_swarm \<Rightarrow> (kv_exn + unit) \<times> mem_swarm" where
  "mem_remove n s =
     (if DAList.lookup (configs s) n = None
      then (Inl (OtherError (''config '' @ n @ '' not found'')), note_call (''remove '' @ n) s)
      else (Inr (), (note_call (''remove '' @ n) s)\<lparr>configs := DAList.delete n (configs s)\<rparr>))"

definition memoryKvDriver :: "(string \<Rightarrow> mem_swarm \<Rightarrow> mem_swarm) \<Rightarrow> mem_swarm kv_driver" where
  "memoryKvDriver beforeCreate =
     \<lparr>drv_list = mem_list, drv_read = mem_read, drv_create = mem_create beforeCreate,
      drv_remove = mem_remove\<rparr>"

end
