(* ===== verification/KvCoherence.thy ===== *)
theory KvCoherence
  imports SwarmKv
begin

text \<open>
  The specification of the document store. The configs of a swarm are a map from names to configs,
  which stands for a map from keys to documents (\<open>doc_in\<close>); \<open>update_spec\<close> says what an update
  may do to it. A store is coherent when its cache is what the swarm holds; \<open>kv_inv\<close> adds what a
  refresh in flight has collected. The lemmas relate listings, names and cached versions to the map.
\<close>

named_theorems io_defs \<open>sequencing of store operations\<close>

declare io_return_def [io_defs] io_throw_def [io_defs] io_modify_def [io_defs]

section \<open>Specification\<close>

type_synonym raft = "string \<rightharpoonup> mem_config"

definition kv_key :: "'s kv_conf \<Rightarrow> string \<Rightarrow> string \<Rightarrow> bool" where
  "kv_key cf c i = (check cf c i = None)"

text \<open>The versions of a document that the swarm holds.\<close>

definition versions_in :: "raft \<Rightarrow> string \<Rightarrow> string \<Rightarrow> nat set" where
  "versions_in R c i = {n. 1 \<le> n \<and> n \<le> KV_MAX_SEQ \<and> R (kvConfigName c i n) \<noteq> None}"

definition stored_as :: "'s kv_conf \<Rightarrow> string \<Rightarrow> string \<Rightarrow> nat \<Rightarrow> mem_config \<Rightarrow> json \<Rightarrow> bool" where
  "stored_as cf c i n x v =
     (json_ok (numbers cf) v \<and>
      mc_data x = toB64 (sealer_seal (sealer cf) (stableJson (numbers cf) v)) \<and>
      mc_labels x = kv_labels cf c i n (kvFingerprint (stableJson (numbers cf) v)) (length (mc_data x)))"

text \<open>Every config with the name of a document version was written by a store of this swarm.\<close>

definition raft_ok :: "'s kv_conf \<Rightarrow> raft \<Rightarrow> bool" where
  "raft_ok cf R = (\<forall>name x c i n. R name = Some x \<longrightarrow> parseKvConfigName name = Some (c, i, n) \<longrightarrow>
     name = kvConfigName c i n \<and> kv_key cf c i \<and> (\<exists>v. stored_as cf c i n x v))"

definition metas_ok :: "raft \<Rightarrow> string \<Rightarrow> string \<Rightarrow> version_meta list \<Rightarrow> bool" where
  "metas_ok R c i vs =
     (sorted_wrt (\<lambda>a b. vm_seq a < vm_seq b) vs \<and> vm_seq ` set vs = versions_in R c i \<and>
      (\<forall>m \<in> set vs. \<forall>x. R (kvConfigName c i (vm_seq m)) = Some x \<longrightarrow>
         vm_bytes m = int (length (mc_data x)) \<and> lbl (mc_labels x) KV_LABEL_SHA = Some (vm_sha m)))"

definition entry_ok :: "'s kv_conf \<Rightarrow> raft \<Rightarrow> string \<Rightarrow> string \<Rightarrow> kv_entry option \<Rightarrow> bool" where
  "entry_ok cf R c i eo =
     (case eo of
        None \<Rightarrow> versions_in R c i = {}
      | Some e \<Rightarrow> e_versions e \<noteq> [] \<and> metas_ok R c i (e_versions e) \<and>
          (\<forall>x. R (kvConfigName c i (vm_seq (last (e_versions e)))) = Some x \<longrightarrow>
             decode cf (mc_data x) = Some (e_value e)))"

definition keys_ok :: "'s kv_conf \<Rightarrow> 'v jsmap \<Rightarrow> bool" where
  "keys_ok cf m =
     (distinct (map fst m) \<and> (\<forall>k \<in> fst ` set m. \<exists>c i. kv_key cf c i \<and> k = keyOf c i))"

definition coherent :: "'s kv_conf \<Rightarrow> raft \<Rightarrow> kv_entry jsmap \<Rightarrow> bool" where
  "coherent cf R es =
     (keys_ok cf es \<and> (\<forall>c i. kv_key cf c i \<longrightarrow> entry_ok cf R c i (map_of es (keyOf c i))))"

text \<open>The documents: for each key of the store the value of its highest version.\<close>

definition doc_in :: "'s kv_conf \<Rightarrow> raft \<Rightarrow> string \<times> string \<Rightarrow> json option" where
  "doc_in cf R ci =
     (case ci of (c, i) \<Rightarrow>
        if \<not> kv_key cf c i \<or> versions_in R c i = {} then None
        else Option.bind (R (kvConfigName c i (Max (versions_in R c i)))) (\<lambda>x. decode cf (mc_data x)))"

text \<open>The sealer opens what it sealed.\<close>

definition sealer_ok :: "kv_sealer \<Rightarrow> bool" where
  "sealer_ok sl = (\<forall>t. sealer_open sl (sealer_seal sl t) = Some t)"

text \<open>
  What an update of one document does to the documents: a call that throws changes nothing; a call
  that returns has put the function's value, in normal form, at the key, or nothing when the
  function wants no change, and answers with the document as it then is.
\<close>

definition update_spec ::
    "(json option \<Rightarrow> kv_exn + json option) \<Rightarrow> string \<times> string \<Rightarrow> (string \<times> string \<rightharpoonup> json) \<Rightarrow>
     kv_exn + kv_doc option \<Rightarrow> (string \<times> string \<rightharpoonup> json) \<Rightarrow> bool" where
  "update_spec fn k M r M' =
     (case r of
        Inl e \<Rightarrow> M' = M
      | Inr d \<Rightarrow>
          (case fn (M k) of
             Inl e \<Rightarrow> False
           | Inr None \<Rightarrow> M' = M
           | Inr (Some v) \<Rightarrow> M' = M(k \<mapsto> kv_canon v)) \<and>
          map_option d_value d = M' k)"

text \<open>The stored document and its replacement differ in their fingerprints if they differ at all.\<close>

definition no_collision ::
    "js_num \<Rightarrow> (json option \<Rightarrow> kv_exn + json option) \<Rightarrow> json option \<Rightarrow> bool" where
  "no_collision nf fn cur =
     (case (cur, fn cur) of
        (Some u, Inr (Some v)) \<Rightarrow>
          kvFingerprint (stableJson nf u) = kvFingerprint (stableJson nf v) \<longrightarrow> u = kv_canon v
      | _ \<Rightarrow> True)"

definition spec_unless_collision ::
    "'s kv_conf \<Rightarrow> (json option \<Rightarrow> kv_exn + json option) \<Rightarrow> string \<times> string \<Rightarrow> raft \<Rightarrow>
     kv_exn + kv_doc option \<Rightarrow> raft \<Rightarrow> bool" where
  "spec_unless_collision cf fn k R r R' =
     (no_collision (numbers cf) fn (doc_in cf R k) \<longrightarrow> update_spec fn k (doc_in cf R) r (doc_in cf R'))"

text \<open>The function of an update yields documents.\<close>

definition yields_json ::
    "js_num \<Rightarrow> (json option \<Rightarrow> kv_exn + json option) \<Rightarrow> json option \<Rightarrow> bool" where
  "yields_json nf fn cur = (case fn cur of Inr (Some v) \<Rightarrow> json_ok nf v | _ \<Rightarrow> True)"

section \<open>Keys and names\<close>

lemma check_None_iff:
  "check cf c i = None \<longleftrightarrow> is_allowed cf c \<and> COLLECTION_RE c \<and> ID_RE i \<and> length c + length i \<le> 45"
  by (auto simp: check_def checkCollection_def assertKvKey_None_iff split: option.splits)

lemma kv_keyD:
  "kv_key cf c i \<Longrightarrow> COLLECTION_RE c" "kv_key cf c i \<Longrightarrow> ID_RE i" "kv_key cf c i \<Longrightarrow> is_allowed cf c"
  by (simp_all add: kv_key_def check_None_iff)

lemma collection_no_nul: "COLLECTION_RE c \<Longrightarrow> CHR 0x00 \<notin> set c"
  by (cases c) (auto simp: COLLECTION_RE_def list_all_iff char_class_defs)

lemma id_no_nul: "ID_RE i \<Longrightarrow> CHR 0x00 \<notin> set i"
  by (cases i) (auto simp: ID_RE_def list_all_iff char_class_defs)

lemma key_parts_keyOf: "COLLECTION_RE c \<Longrightarrow> ID_RE i \<Longrightarrow> key_parts (keyOf c i) = (c, i)"
  by (simp add: key_parts_def keyOf_def js_split_append js_split_no_sep collection_no_nul id_no_nul)

lemma key_parts_kv_key [simp]: "kv_key cf c i \<Longrightarrow> key_parts (keyOf c i) = (c, i)"
  by (simp add: key_parts_keyOf kv_keyD)

lemma keyOf_inj:
  "kv_key cf c i \<Longrightarrow> kv_key cf c' i' \<Longrightarrow> keyOf c i = keyOf c' i' \<longleftrightarrow> c = c' \<and> i = i'"
  using key_parts_kv_key [of cf c i] key_parts_kv_key [of cf c' i'] by (metis prod.inject)

lemma name_inj:
  "kv_key cf c i \<Longrightarrow> kv_key cf c' i' \<Longrightarrow>
   kvConfigName c i n = kvConfigName c' i' n' \<longleftrightarrow> c = c' \<and> i = i' \<and> n = n'"
  using kvConfigName_inj [of c i c' i' n n'] by (auto simp: kv_keyD)

lemma parse_kv_name:
  "kv_key cf c i \<Longrightarrow> 1 \<le> n \<Longrightarrow> n \<le> KV_MAX_SEQ \<Longrightarrow> parseKvConfigName (kvConfigName c i n) = Some (c, i, n)"
  by (rule parse_config_name) (auto simp: kv_keyD)

lemma dec_value_digits_le: "length ds \<le> k \<Longrightarrow> list_all is_digit ds \<Longrightarrow> dec_value ds < 10 ^ k"
proof (induction ds arbitrary: k rule: rev_induct)
  case (snoc d ds)
  then obtain k' where k: "k = Suc k'" by (cases k) auto
  with snoc have "dec_value ds < 10 ^ k'" by simp
  moreover have "of_char d - 48 \<le> (9::nat)" using snoc.prems by (auto simp: is_digit_def char_le_iff)
  ultimately show ?case unfolding k dec_value_snoc power_Suc by linarith
qed (simp add: dec_value_def)

lemma name_parts_Some:
  "name_parts ps = Some (c, i, ds) \<Longrightarrow>
   COLLECTION_RE c \<and> ID_RE i \<and> length ds \<le> 6 \<and> list_all is_digit ds"
  by (induction ps rule: name_parts.induct) (auto split: if_splits)

lemma parse_name_sound:
  assumes "parseKvConfigName name = Some (c, i, n)"
  shows "COLLECTION_RE c \<and> ID_RE i \<and> 1 \<le> n \<and> n \<le> KV_MAX_SEQ"
proof -
  obtain ds where ds: "name_parts (js_split (CHR ''.'') name) = Some (c, i, ds)" "dec_value ds = n" "1 \<le> n"
    using assms by (auto simp: parseKvConfigName_def Let_def split: option.splits if_splits)
  have parts: "COLLECTION_RE c" "ID_RE i" "length ds \<le> 6" "list_all is_digit ds"
    using name_parts_Some [OF ds(1)] by simp_all
  have "dec_value ds < 10 ^ 6" by (rule dec_value_digits_le) (use parts in simp_all)
  with parts ds show ?thesis by (simp add: KV_MAX_SEQ_def)
qed



lemma parse_int_digits_of [simp]: "parse_int_or_0 (digits_of n) = int n"
proof -
  obtain d ds where t: "digits_of n = d # ds" "is_digit d" "list_all is_digit ds"
    using digits_of_digits [of n] by (cases "digits_of n") auto
  then have "\<not> js_space d" "d \<noteq> CHR ''-''" "d \<noteq> CHR ''+''"
    by (auto simp: js_space_def char_class_defs)
  moreover have "takeWhile is_digit (d # ds) = d # ds"
    using t by (auto simp: takeWhile_eq_all_conv list_all_iff)
  ultimately show ?thesis
    using t(1) dec_value_digits_of [of n] by (simp add: parse_int_or_0_def Let_def)
qed

section \<open>The configs as a map\<close>

lemma versions_in_upd:
  assumes "kv_key cf c i" and "kv_key cf c' i'" and "1 \<le> n" and "n \<le> KV_MAX_SEQ"
  shows "versions_in (R(kvConfigName c i n \<mapsto> x)) c' i' =
    (if c' = c \<and> i' = i then insert n (versions_in R c i) else versions_in R c' i')"
  using assms by (auto simp: versions_in_def name_inj)

lemma versions_in_del:
  assumes "kv_key cf c i" and "kv_key cf c' i'"
  shows "versions_in (R(kvConfigName c i n := None)) c' i' =
    (if c' = c \<and> i' = i then versions_in R c i - {n} else versions_in R c' i')"
  using assms by (auto simp: versions_in_def name_inj)

lemma finite_versions_in [simp]: "finite (versions_in R c i)"
  by (rule finite_subset [of _ "{.. KV_MAX_SEQ}"]) (auto simp: versions_in_def)

lemma versions_inD: "n \<in> versions_in R c i \<Longrightarrow> 1 \<le> n \<and> n \<le> KV_MAX_SEQ \<and> (\<exists>x. R (kvConfigName c i n) = Some x)"
  by (auto simp: versions_in_def)

lemma raft_ok_stored:
  assumes "raft_ok cf R" and "kv_key cf c i" and "n \<in> versions_in R c i"
  obtains x v where "R (kvConfigName c i n) = Some x" and "stored_as cf c i n x v"
proof -
  obtain x where x: "R (kvConfigName c i n) = Some x" "1 \<le> n" "n \<le> KV_MAX_SEQ"
    using versions_inD [OF assms(3)] by blast
  then have "parseKvConfigName (kvConfigName c i n) = Some (c, i, n)"
    using parse_kv_name [OF assms(2)] by blast
  with assms(1) x(1) obtain v where "stored_as cf c i n x v" unfolding raft_ok_def by blast
  with x(1) that show thesis by blast
qed

lemma raft_ok_upd:
  assumes "raft_ok cf R" and "kv_key cf c i" and "1 \<le> n" and "n \<le> KV_MAX_SEQ" and "stored_as cf c i n x v"
  shows "raft_ok cf (R(kvConfigName c i n \<mapsto> x))"
  using assms parse_kv_name [OF assms(2-4)] unfolding raft_ok_def by (auto split: if_splits)

lemma raft_ok_del: "raft_ok cf R \<Longrightarrow> raft_ok cf (R(name := None))"
  unfolding raft_ok_def by (auto split: if_splits)

lemma stored_labels:
  assumes "stored_as cf c i n x v"
  shows "lbl (mc_labels x) KV_LABEL = Some ''1''" "lbl (mc_labels x) KV_LABEL_ORG = Some (orgId cf)"
    "lbl (mc_labels x) KV_LABEL_SHA = Some (kvFingerprint (stableJson (numbers cf) v))"
    "lbl (mc_labels x) KV_LABEL_BYTES = Some (digits_of (length (mc_data x)))"
  using assms
  by (simp_all add: stored_as_def kv_labels_def lbl_def KV_LABEL_def KV_LABEL_ORG_def KV_LABEL_SHA_def
      KV_LABEL_BYTES_def KV_LABEL_COLLECTION_def KV_LABEL_ID_def KV_LABEL_SEQ_def)

lemma decode_stored:
  "sealer_ok (sealer cf) \<Longrightarrow> stored_as cf c i n x v \<Longrightarrow> decode cf (mc_data x) = Some (kv_canon v)"
  by (simp add: decode_def stored_as_def sealer_ok_def fromB64_toB64 json_parse_stableJson)

section \<open>Listings\<close>

text \<open>What a listing of the swarm is: one row per config, in any order.\<close>

definition listing :: "raft \<Rightarrow> kv_config_info list \<Rightarrow> bool" where
  "listing R xs =
     (distinct (map ci_name xs) \<and>
      (\<forall>x. x \<in> set xs \<longleftrightarrow>
         (\<exists>y. R (ci_name x) = Some y \<and> ci_labels x = mc_labels y \<and> ci_created x = mc_created y)))"

text \<open>The version of key \<open>k\<close> that a row of the listing is.\<close>

definition version_of_row :: "'s kv_conf \<Rightarrow> string \<Rightarrow> kv_config_info \<Rightarrow> version_meta option" where
  "version_of_row cf k x =
     (if is_mine cf x then
        (case parseKvConfigName (ci_name x) of
           None \<Rightarrow> None
         | Some (c, i, n) \<Rightarrow> if is_allowed cf c \<and> keyOf c i = k then Some (meta_of n x) else None)
      else None)"

lemma group_one_lookup:
  "map_of (group_one cf x m) k =
     (case version_of_row cf k x of None \<Rightarrow> map_of m k | Some v \<Rightarrow> Some (opt_or (map_of m k) [] @ [v]))"
  by (auto simp: group_one_def version_of_row_def update_conv' split: option.split)

lemma group_fold_lookup:
  "map_of (fold (group_one cf) xs m) k =
     (if List.map_filter (version_of_row cf k) xs = [] then map_of m k
      else Some (opt_or (map_of m k) [] @ List.map_filter (version_of_row cf k) xs))"
proof (induction xs arbitrary: m)
  case (Cons x xs)
  then show ?case
    by (cases "version_of_row cf k x") (auto simp: group_one_lookup map_filter_simps opt_or_def)
qed (simp add: map_filter_simps)

lemma distinct_group_one: "distinct (map fst m) \<Longrightarrow> distinct (map fst (group_one cf x m))"
  by (auto simp: group_one_def distinct_update split: option.split)

lemma distinct_group_fold: "distinct (map fst m) \<Longrightarrow> distinct (map fst (fold (group_one cf) xs m))"
  by (induction xs arbitrary: m) (auto simp: distinct_group_one)

lemma group_mine_lookup:
  "map_of (group_mine cf xs) k =
     (if List.map_filter (version_of_row cf k) xs = [] then None
      else Some (js_sort (by_key vm_seq) (List.map_filter (version_of_row cf k) xs)))"
proof -
  have "map_of (group_mine cf xs) k = map_option (js_sort (by_key vm_seq)) (map_of (fold (group_one cf) xs []) k)"
    unfolding group_mine_def by (simp add: map_of_map)
  then show ?thesis by (simp add: group_fold_lookup opt_or_def)
qed

lemma distinct_group_mine: "distinct (map fst (group_mine cf xs))"
  unfolding group_mine_def by (simp add: distinct_group_fold del: map_map)

lemma js_sort_strict:
  assumes "distinct (map f xs)"
  shows "sorted_wrt (\<lambda>a b. f a < f b) (js_sort (by_key f) xs)"
proof -
  have "sorted (map f (js_sort (by_key f) xs))"
    using js_comparator.sorted_js_sort [OF js_comparator_by_key, of f xs] by (simp add: sorted_map)
  with assms have "sorted_wrt (<) (map f (js_sort (by_key f) xs))" by (simp add: strict_sorted_iff)
  then show ?thesis by (simp add: sorted_wrt_map)
qed

lemma set_map_filter: "set (List.map_filter f xs) = {y. \<exists>x \<in> set xs. f x = Some y}"
  by (induction xs) (auto simp: map_filter_simps split: option.splits)

lemma distinct_map_filter:
  assumes "distinct (map g xs)" and "\<And>x y. x \<in> set xs \<Longrightarrow> f x = Some y \<Longrightarrow> g x = h (p y)"
  shows "distinct (map p (List.map_filter f xs))"
  using assms
proof (induction xs)
  case (Cons x xs)
  have IH: "distinct (map p (List.map_filter f xs))" using Cons by simp
  show ?case
  proof (cases "f x")
    case (Some y)
    have "p y \<noteq> p z" if z: "z \<in> set (List.map_filter f xs)" for z
    proof
      assume eq: "p y = p z"
      obtain u where u: "u \<in> set xs" "f u = Some z" using z unfolding set_map_filter by blast
      then have "g u = g x" using Cons.prems(2) [of u z] Cons.prems(2) [of x y] Some eq by simp
      with u(1) Cons.prems(1) show False by (metis distinct.simps(2) imageI list.simps(9) set_map)
    qed
    with IH Some show ?thesis by (auto simp: map_filter_simps)
  qed (use IH in \<open>simp add: map_filter_simps\<close>)
qed (simp add: map_filter_simps)

lemma version_of_row_Some:
  assumes "raft_ok cf R" and "listing R xs" and "x \<in> set xs" and "kv_key cf c i"
    and "version_of_row cf (keyOf c i) x = Some m"
  shows "ci_name x = kvConfigName c i (vm_seq m) \<and> vm_seq m \<in> versions_in R c i \<and>
    (\<forall>y. R (kvConfigName c i (vm_seq m)) = Some y \<longrightarrow>
       vm_bytes m = int (length (mc_data y)) \<and> lbl (mc_labels y) KV_LABEL_SHA = Some (vm_sha m))"
proof -
  obtain c' i' n where p: "parseKvConfigName (ci_name x) = Some (c', i', n)" "keyOf c' i' = keyOf c i" "m = meta_of n x"
    using assms(5) by (auto simp: version_of_row_def split: option.splits if_splits)
  obtain y where y: "R (ci_name x) = Some y" "ci_labels x = mc_labels y"
    using assms(2,3) by (auto simp: listing_def)
  then have st: "ci_name x = kvConfigName c' i' n" "kv_key cf c' i'" "\<exists>v. stored_as cf c' i' n y v"
    using assms(1) p(1) unfolding raft_ok_def by blast+
  then have ci: "c' = c" "i' = i" using keyOf_inj [OF st(2) assms(4)] p(2) by simp_all
  have n: "1 \<le> n" "n \<le> KV_MAX_SEQ" using parse_name_sound [OF p(1)] by simp_all
  obtain v where "stored_as cf c i n y v" using st(3) ci by blast
  then have "vm_bytes m = int (length (mc_data y)) \<and> lbl (mc_labels y) KV_LABEL_SHA = Some (vm_sha m)"
    using stored_labels [of cf c i n y v] y(2) p(3) by (simp add: meta_of_def opt_or_def)
  with st(1) y(1) n p(3) ci show ?thesis by (simp add: versions_in_def meta_of_def)
qed

lemma version_of_row_exists:
  assumes "raft_ok cf R" and "listing R xs" and "kv_key cf c i" and "n \<in> versions_in R c i"
  shows "\<exists>x \<in> set xs. \<exists>m. version_of_row cf (keyOf c i) x = Some m \<and> vm_seq m = n"
proof -
  obtain y v where y: "R (kvConfigName c i n) = Some y" "stored_as cf c i n y v"
    using assms(1,3,4) by (rule raft_ok_stored)
  define x where "x = \<lparr>ci_name = kvConfigName c i n, ci_created = mc_created y, ci_labels = mc_labels y\<rparr>"
  have "x \<in> set xs" using assms(2) y(1) by (simp add: listing_def x_def)
  moreover have "is_mine cf x" using stored_labels [OF y(2)] by (simp add: is_mine_def x_def)
  moreover have "parseKvConfigName (ci_name x) = Some (c, i, n)"
    using parse_kv_name [OF assms(3)] versions_inD [OF assms(4)] by (simp add: x_def)
  moreover have "is_allowed cf c" using assms(3) by (rule kv_keyD)
  ultimately show ?thesis
    by (intro bexI [of _ x]) (simp_all add: version_of_row_def meta_of_def)
qed

lemma listing_of_key:
  assumes "raft_ok cf R" and "listing R xs" and "kv_key cf c i"
  shows "case map_of (group_mine cf xs) (keyOf c i) of
      None \<Rightarrow> versions_in R c i = {} | Some vs \<Rightarrow> vs \<noteq> [] \<and> metas_ok R c i vs"
proof -
  let ?ms = "List.map_filter (version_of_row cf (keyOf c i)) xs"
  note row = version_of_row_Some [OF assms(1,2) _ assms(3)]
  have seqs: "vm_seq ` set ?ms = versions_in R c i"
    using row version_of_row_exists [OF assms] by (fastforce simp: set_map_filter)
  have "distinct (map vm_seq ?ms)"
    by (rule distinct_map_filter [where g = ci_name and h = "kvConfigName c i"])
      (use assms(2) row in \<open>auto simp: listing_def\<close>)
  then have "sorted_wrt (\<lambda>a b. vm_seq a < vm_seq b) (js_sort (by_key vm_seq) ?ms)" by (rule js_sort_strict)
  moreover have "\<forall>m \<in> set ?ms. \<forall>x. R (kvConfigName c i (vm_seq m)) = Some x \<longrightarrow>
      vm_bytes m = int (length (mc_data x)) \<and> lbl (mc_labels x) KV_LABEL_SHA = Some (vm_sha m)"
    using row by (fastforce simp: set_map_filter)
  ultimately have "metas_ok R c i (js_sort (by_key vm_seq) ?ms)" using seqs by (simp add: metas_ok_def)
  with seqs show ?thesis by (cases "?ms = []") (simp_all add: group_mine_lookup)
qed

lemma group_mine_keys_ok:
  assumes "raft_ok cf R" and "listing R xs"
  shows "keys_ok cf (group_mine cf xs)"
  unfolding keys_ok_def
proof (intro conjI ballI)
  fix k assume "k \<in> fst ` set (group_mine cf xs)"
  then have "map_of (group_mine cf xs) k \<noteq> None" by (simp add: map_of_eq_None_iff)
  then have "List.map_filter (version_of_row cf k) xs \<noteq> []" by (auto simp: group_mine_lookup)
  then obtain m where "m \<in> set (List.map_filter (version_of_row cf k) xs)" by (meson hd_in_set)
  then obtain x where x: "x \<in> set xs" "version_of_row cf k x = Some m" by (auto simp: set_map_filter)
  then obtain c i n where p: "parseKvConfigName (ci_name x) = Some (c, i, n)" "keyOf c i = k"
    by (auto simp: version_of_row_def split: option.splits if_splits)
  moreover obtain y where "R (ci_name x) = Some y" using assms(2) x(1) by (auto simp: listing_def)
  ultimately have "kv_key cf c i" using assms(1) unfolding raft_ok_def by blast
  with p(2) show "\<exists>c i. kv_key cf c i \<and> k = keyOf c i" by blast
qed (rule distinct_group_mine)

section \<open>Coherent caches\<close>

lemma versions_in_cong:
  "(\<And>n. R' (kvConfigName c i n) = R (kvConfigName c i n)) \<Longrightarrow> versions_in R' c i = versions_in R c i"
  by (simp add: versions_in_def)

lemma metas_ok_cong:
  "(\<And>n. R' (kvConfigName c i n) = R (kvConfigName c i n)) \<Longrightarrow> metas_ok R' c i vs = metas_ok R c i vs"
  by (simp add: metas_ok_def versions_in_cong [of R' c i R])

lemma entry_ok_cong:
  "(\<And>n. R' (kvConfigName c i n) = R (kvConfigName c i n)) \<Longrightarrow> entry_ok cf R' c i eo = entry_ok cf R c i eo"
  by (simp add: entry_ok_def metas_ok_cong [of R' c i R] versions_in_cong [of R' c i R] split: option.split)

lemma doc_in_cong:
  "(\<And>n. R' (kvConfigName c i n) = R (kvConfigName c i n)) \<Longrightarrow> doc_in cf R' (c, i) = doc_in cf R (c, i)"
  by (simp add: doc_in_def versions_in_cong [of R' c i R])

text \<open>A change of the swarm that leaves the versions of every other key alone.\<close>

definition only_key :: "'s kv_conf \<Rightarrow> string \<Rightarrow> string \<Rightarrow> raft \<Rightarrow> raft \<Rightarrow> bool" where
  "only_key cf c i R R' =
     (\<forall>c' i' n. kv_key cf c' i' \<longrightarrow> (c', i') \<noteq> (c, i) \<longrightarrow> R' (kvConfigName c' i' n) = R (kvConfigName c' i' n))"

lemma only_key_refl [simp]: "only_key cf c i R R"
  by (simp add: only_key_def)

lemma only_key_trans: "only_key cf c i R R' \<Longrightarrow> only_key cf c i R' R'' \<Longrightarrow> only_key cf c i R R''"
  by (simp add: only_key_def)

lemma only_key_upd: "kv_key cf c i \<Longrightarrow> only_key cf c i R (R(kvConfigName c i n := x))"
  unfolding only_key_def by (auto simp: name_inj [where cf = cf])

lemma last_of_sorted:
  assumes "sorted_wrt (\<lambda>a b. f a < (f b :: nat)) vs" and "vs \<noteq> []"
  shows "f (last vs) = Max (f ` set vs)"
proof (rule sym, rule Max_eqI)
  fix y assume "y \<in> f ` set vs"
  then obtain v where v: "v \<in> set vs" "y = f v" by blast
  have "vs = butlast vs @ [last vs]" using assms(2) by simp
  then have "sorted_wrt (\<lambda>a b. f a < f b) (butlast vs @ [last vs])" using assms(1) by simp
  then have "\<forall>x \<in> set (butlast vs). f x < f (last vs)" by (simp add: sorted_wrt_append)
  moreover have "v \<in> set (butlast vs) \<or> v = last vs"
    using v(1) assms(2) by (metis append_butlast_last_id in_set_conv_decomp insertE list.set(2) set_append Un_iff empty_iff list.set(1))
  ultimately show "y \<le> f (last vs)" using v(2) by auto
qed (use assms(2) in auto)

lemma strict_distinct: "sorted_wrt (\<lambda>a b. f a < (f b :: nat)) vs \<Longrightarrow> distinct (map f vs)"
  by (induction vs) auto

lemma last_is_max:
  assumes "sorted_wrt (\<lambda>a b. f a < (f b :: nat)) vs" and "y \<in> set vs" and "\<And>v. v \<in> set vs \<Longrightarrow> f v \<le> f y"
  shows "last vs = y"
proof (rule ccontr)
  assume ne: "last vs \<noteq> y"
  have vs: "vs = butlast vs @ [last vs]" using assms(2) by (cases vs rule: rev_cases) auto
  then have "y \<in> set (butlast vs)" using assms(2) ne by (metis UnE empty_iff insertE list.set set_append)
  moreover have "sorted_wrt (\<lambda>a b. f a < f b) (butlast vs @ [last vs])" using assms(1) vs by simp
  ultimately have "f y < f (last vs)" by (simp add: sorted_wrt_append)
  moreover have "last vs \<in> set vs" using assms(2) by (cases vs rule: rev_cases) auto
  ultimately show False using assms(3) by (meson not_le)
qed

lemma metas_ok_latest:
  assumes "metas_ok R c i vs" and "vs \<noteq> []"
  shows "vm_seq (last vs) = Max (versions_in R c i)" and "vm_seq (last vs) \<in> versions_in R c i"
proof -
  have seqs: "vm_seq ` set vs = versions_in R c i" using assms(1) by (simp add: metas_ok_def)
  then show "vm_seq (last vs) = Max (versions_in R c i)"
    using assms last_of_sorted [of vm_seq vs] by (simp add: metas_ok_def)
  show "vm_seq (last vs) \<in> versions_in R c i"
    unfolding seqs [symmetric] using assms(2) by (intro imageI) simp
qed

lemma entry_ok_doc:
  assumes key: "kv_key cf c i" and ok: "entry_ok cf R c i eo"
  shows "doc_in cf R (c, i) = map_option e_value eo"
proof (cases eo)
  case (Some e)
  with ok have ne: "e_versions e \<noteq> []" and metas: "metas_ok R c i (e_versions e)" by (simp_all add: entry_ok_def)
  note latest = metas_ok_latest [OF metas ne]
  obtain x where "R (kvConfigName c i (vm_seq (last (e_versions e)))) = Some x"
    using versions_inD [OF latest(2)] by blast
  with key ok Some latest show ?thesis by (auto simp: entry_ok_def doc_in_def)
qed (use ok in \<open>simp add: entry_ok_def doc_in_def\<close>)

lemma coherentD: "coherent cf R es \<Longrightarrow> kv_key cf c i \<Longrightarrow> entry_ok cf R c i (map_of es (keyOf c i))"
  by (simp add: coherent_def)

lemma coherent_doc:
  "coherent cf R es \<Longrightarrow> kv_key cf c i \<Longrightarrow> doc_in cf R (c, i) = map_option e_value (map_of es (keyOf c i))"
  by (simp add: entry_ok_doc coherentD)

lemma only_key_doc:
  assumes "only_key cf c i R R'" and "p \<noteq> (c, i)"
  shows "doc_in cf R' p = doc_in cf R p"
proof (cases p)
  case (Pair c' i')
  show ?thesis
  proof (cases "kv_key cf c' i'")
    case True
    then show ?thesis using assms unfolding Pair by (intro doc_in_cong) (auto simp: only_key_def)
  qed (simp add: Pair doc_in_def)
qed

lemma keys_ok_update: "keys_ok cf m \<Longrightarrow> kv_key cf c i \<Longrightarrow> keys_ok cf (AList.update (keyOf c i) v m)"
  unfolding keys_ok_def by (auto simp: distinct_update dom_update)

lemma keys_ok_delete: "keys_ok cf m \<Longrightarrow> keys_ok cf (AList.delete k m)"
proof -
  assume ok: "keys_ok cf m"
  have "fst ` set (AList.delete k m) \<subseteq> fst ` set m"
    by (metis Diff_subset delete_keys set_map set_removeAll)
  with ok show ?thesis unfolding keys_ok_def by (metis distinct_delete subsetD)
qed

lemma coherent_change:
  assumes "coherent cf R es" and "kv_key cf c i" and "only_key cf c i R R'"
    and "keys_ok cf es'" and "\<And>k. k \<noteq> keyOf c i \<Longrightarrow> map_of es' k = map_of es k"
    and "entry_ok cf R' c i (map_of es' (keyOf c i))"
  shows "coherent cf R' es'"
  unfolding coherent_def
proof (intro conjI allI impI)
  fix c' i' assume key: "kv_key cf c' i'"
  show "entry_ok cf R' c' i' (map_of es' (keyOf c' i'))"
  proof (cases "(c', i') = (c, i)")
    case False
    then have "keyOf c' i' \<noteq> keyOf c i" using keyOf_inj [OF key assms(2)] by auto
    then have "map_of es' (keyOf c' i') = map_of es (keyOf c' i')" by (rule assms(5))
    moreover have "entry_ok cf R' c' i' eo = entry_ok cf R c' i' eo" for eo
      using assms(3) key False by (intro entry_ok_cong) (simp add: only_key_def)
    ultimately show ?thesis using coherentD [OF assms(1) key] by simp
  qed (use assms(6) in simp)
qed (rule assms(4))

section \<open>Operations over a swarm\<close>

text \<open>An operation that touched neither the cache nor the configs.\<close>

definition quiet :: "('s \<Rightarrow> raft) \<Rightarrow> 's kv \<Rightarrow> 's kv \<Rightarrow> bool" where
  "quiet raft w w' = (w' = w\<lparr>swarm := swarm w'\<rparr> \<and> raft (swarm w') = raft (swarm w))"

definition store_ok :: "('s \<Rightarrow> raft) \<Rightarrow> 's kv_conf \<Rightarrow> 's kv \<Rightarrow> bool" where
  "store_ok raft cf w =
     (raft_ok cf (raft (swarm w)) \<and> coherent cf (raft (swarm w)) (entries w))"

lemma swarm_only_trans:
  fixes w :: "'s kv"
  assumes "w1 = w\<lparr>swarm := swarm w1\<rparr>" and "w2 = w1\<lparr>swarm := swarm w2\<rparr>"
  shows "w2 = w\<lparr>swarm := swarm w2\<rparr>"
  using assms by (metis kv.surjective kv.update_convs(6))

lemma quiet_refl [simp]: "quiet raft w w"
  by (simp add: quiet_def)

lemma quiet_trans: "quiet raft w w' \<Longrightarrow> quiet raft w' w'' \<Longrightarrow> quiet raft w w''"
  unfolding quiet_def by (metis kv.update_convs(6) kv.surjective)

lemma quiet_fields:
  assumes "quiet raft w w'"
  shows "entries w' = entries w" "loadedAt w' = loadedAt w" "loading w' = loading w" "gen w' = gen w"
    "touched w' = touched w" "raft (swarm w') = raft (swarm w)"
proof -
  have eq: "w' = w\<lparr>swarm := swarm w'\<rparr>" and "raft (swarm w') = raft (swarm w)"
    using assms by (simp_all add: quiet_def)
  then show "raft (swarm w') = raft (swarm w)" by simp
  show "entries w' = entries w" "loadedAt w' = loadedAt w" "loading w' = loading w" "gen w' = gen w"
    "touched w' = touched w" by (subst eq, simp)+
qed

lemma quiet_store_ok: "quiet raft w w' \<Longrightarrow> store_ok raft cf w' = store_ok raft cf w"
  by (simp add: store_ok_def quiet_fields)

lemma io_bind_cases:
  assumes "io_bind m f w = (r, w')"
  obtains e where "m w = (Inl e, w')" and "r = Inl e"
  | a w1 where "m w = (Inr a, w1)" and "f a w1 = (r, w')"
  using assms by (auto simp: io_bind_def split: prod.splits sum.splits)

text \<open>
  What a write of one key changes: the configs and the cached entry of that key, which is then
  marked as touched; nothing of the other keys, of the load time and of a refresh in flight.
\<close>

definition kv_frame :: "('s \<Rightarrow> raft) \<Rightarrow> 's kv_conf \<Rightarrow> string \<Rightarrow> string \<Rightarrow> 's kv \<Rightarrow> 's kv \<Rightarrow> bool" where
  "kv_frame raft cf c i w w' =
     (only_key cf c i (raft (swarm w)) (raft (swarm w')) \<and>
      (\<forall>k. k \<noteq> keyOf c i \<longrightarrow>
         map_of (entries w') k = map_of (entries w) k \<and> map_of (touched w') k = map_of (touched w) k) \<and>
      loadedAt w' = loadedAt w \<and> loading w' = loading w \<and> gen w \<le> gen w' \<and>
      (keys_ok cf (touched w) \<longrightarrow> keys_ok cf (touched w')) \<and>
      ((\<forall>n. raft (swarm w') (kvConfigName c i n) = raft (swarm w) (kvConfigName c i n)) \<and>
         map_of (entries w') (keyOf c i) = map_of (entries w) (keyOf c i) \<and>
         map_of (touched w') (keyOf c i) = map_of (touched w) (keyOf c i) \<and> gen w' = gen w \<or>
       (\<exists>g. map_of (touched w') (keyOf c i) = Some g \<and> gen w < g \<and> g \<le> gen w')))"

lemma kv_frame_quiet: "quiet raft w w' \<Longrightarrow> kv_frame raft cf c i w w'"
  by (simp add: kv_frame_def quiet_fields)

lemma kv_frame_trans:
  assumes a: "kv_frame raft cf c i w w1" and b: "kv_frame raft cf c i w1 w2"
  shows "kv_frame raft cf c i w w2"
proof -
  have "only_key cf c i (raft (swarm w)) (raft (swarm w2))"
    using a b unfolding kv_frame_def by (blast intro: only_key_trans)
  moreover have "(\<forall>n. raft (swarm w2) (kvConfigName c i n) = raft (swarm w) (kvConfigName c i n)) \<and>
      map_of (entries w2) (keyOf c i) = map_of (entries w) (keyOf c i) \<and>
      map_of (touched w2) (keyOf c i) = map_of (touched w) (keyOf c i) \<and> gen w2 = gen w \<or>
    (\<exists>g. map_of (touched w2) (keyOf c i) = Some g \<and> gen w < g \<and> g \<le> gen w2)"
    using a b unfolding kv_frame_def by (elim conjE disjE exE) (auto intro: le_trans less_le_trans)
  ultimately show ?thesis using a b unfolding kv_frame_def by auto
qed

lemma kv_frame_touch:
  assumes "kv_key cf c i" and "only_key cf c i (raft (swarm w)) (raft (swarm w'))"
    and "\<And>k. k \<noteq> keyOf c i \<Longrightarrow> map_of (entries w') k = map_of (entries w) k"
    and "touched w' = touched (touch (keyOf c i) w)" and "gen w' = gen (touch (keyOf c i) w)"
    and "loadedAt w' = loadedAt w" and "loading w' = loading w"
  shows "kv_frame raft cf c i w w'"
  using assms by (simp add: kv_frame_def update_conv' touch_def keys_ok_update)

lemma touch_fields [simp]:
  "entries (touch k w) = entries w" "loadedAt (touch k w) = loadedAt w" "loading (touch k w) = loading w"
  "swarm (touch k w) = swarm w"
  by (simp_all add: touch_def)

lemma set_entry_fields [simp]:
  "map_of (entries (set_entry k e w)) = (map_of (entries w))(k \<mapsto> e)" "loadedAt (set_entry k e w) = loadedAt w"
  "loading (set_entry k e w) = loading w" "swarm (set_entry k e w) = swarm w"
  "gen (set_entry k e w) = gen w" "touched (set_entry k e w) = touched w"
  by (simp_all add: set_entry_def update_conv')

lemma drop_entry_fields [simp]:
  "map_of (entries (drop_entry k w)) = (map_of (entries w))(k := None)" "loadedAt (drop_entry k w) = loadedAt w"
  "loading (drop_entry k w) = loading w" "swarm (drop_entry k w) = swarm w"
  "gen (drop_entry k w) = gen w" "touched (drop_entry k w) = touched w"
  by (simp_all add: drop_entry_def delete_conv')

definition next_seq :: "kv_entry option \<Rightarrow> nat" where
  "next_seq cur = (case latest_of (entry_versions cur) of None \<Rightarrow> 0 | Some m \<Rightarrow> vm_seq m) + 1"

lemma versions_below_next:
  assumes "entry_ok cf R c i cur" and "m \<in> set (entry_versions cur)"
  shows "vm_seq m < next_seq cur"
proof (cases cur)
  case (Some e)
  with assms have ok: "metas_ok R c i (e_versions e)" "e_versions e \<noteq> []" "m \<in> set (e_versions e)"
    by (auto simp: entry_ok_def entry_versions_def)
  then have "vm_seq m \<in> versions_in R c i" by (auto simp: metas_ok_def)
  then have "vm_seq m \<le> vm_seq (last (e_versions e))"
    using metas_ok_latest(1) [OF ok(1,2)] by simp
  with Some ok(2) show ?thesis by (simp add: next_seq_def latest_of_def entry_versions_def)
qed (use assms in \<open>simp add: entry_versions_def\<close>)

lemma entry_ok_seqs: "entry_ok cf R c i cur \<Longrightarrow> vm_seq ` set (entry_versions cur) = versions_in R c i"
  by (cases cur) (auto simp: entry_ok_def metas_ok_def entry_versions_def)

lemma metas_ok_append:
  assumes ok: "entry_ok cf R c i cur" and key: "kv_key cf c i" and max: "next_seq cur \<le> KV_MAX_SEQ"
    and st: "stored_as cf c i (next_seq cur) x v"
    and meta: "vm_seq m = next_seq cur" "vm_bytes m = int (length (mc_data x))"
      "vm_sha m = kvFingerprint (stableJson (numbers cf) v)"
  shows "metas_ok (R(kvConfigName c i (next_seq cur) \<mapsto> x)) c i (entry_versions cur @ [m])"
  unfolding metas_ok_def
proof (intro conjI ballI allI impI)
  let ?R' = "R(kvConfigName c i (next_seq cur) \<mapsto> x)"
  have "sorted_wrt (\<lambda>a b. vm_seq a < vm_seq b) (entry_versions cur)"
    using ok by (cases cur) (simp_all add: entry_ok_def metas_ok_def entry_versions_def)
  then show "sorted_wrt (\<lambda>a b. vm_seq a < vm_seq b) (entry_versions cur @ [m])"
    using versions_below_next [OF ok] meta(1) by (simp add: sorted_wrt_append)
  have "1 \<le> next_seq cur" by (simp add: next_seq_def)
  then show "vm_seq ` set (entry_versions cur @ [m]) = versions_in ?R' c i"
    using entry_ok_seqs [OF ok] versions_in_upd [OF key key _ max] meta(1) by simp
  fix u y assume u: "u \<in> set (entry_versions cur @ [m])" and y: "?R' (kvConfigName c i (vm_seq u)) = Some y"
  have "vm_bytes u = int (length (mc_data y)) \<and> lbl (mc_labels y) KV_LABEL_SHA = Some (vm_sha u)"
  proof (cases "u \<in> set (entry_versions cur)")
    case True
    then have "R (kvConfigName c i (vm_seq u)) = Some y"
      using y versions_below_next [OF ok True] name_inj [OF key key] by auto
    moreover obtain e where "cur = Some e" using True by (cases cur) (auto simp: entry_versions_def)
    ultimately show ?thesis using ok True by (auto simp: entry_ok_def metas_ok_def entry_versions_def)
  next
    case False
    then have "u = m" using u by simp
    with y meta stored_labels [OF st] show ?thesis by simp
  qed
  then show "vm_bytes u = int (length (mc_data y))" "lbl (mc_labels y) KV_LABEL_SHA = Some (vm_sha u)" by simp_all
qed

lemma latest_stored:
  assumes "sealer_ok (sealer cf)" and R: "raft_ok cf R" and key: "kv_key cf c i"
    and ok: "entry_ok cf R c i (Some e)"
  obtains u x where "stored_as cf c i (vm_seq (last (e_versions e))) x u"
    and "e_value e = kv_canon u" and "vm_sha (last (e_versions e)) = kvFingerprint (stableJson (numbers cf) u)"
proof -
  have ne: "e_versions e \<noteq> []" and metas: "metas_ok R c i (e_versions e)" using ok by (simp_all add: entry_ok_def)
  note latest = metas_ok_latest [OF metas ne]
  obtain x u where x: "R (kvConfigName c i (vm_seq (last (e_versions e)))) = Some x"
    "stored_as cf c i (vm_seq (last (e_versions e))) x u" using R key latest(2) by (rule raft_ok_stored)
  have "e_value e = kv_canon u" using ok x(1) decode_stored [OF assms(1) x(2)] by (simp add: entry_ok_def)
  moreover have "vm_sha (last (e_versions e)) = kvFingerprint (stableJson (numbers cf) u)"
  proof -
    have "last (e_versions e) \<in> set (e_versions e)" using ne by simp
    then have "lbl (mc_labels x) KV_LABEL_SHA = Some (vm_sha (last (e_versions e)))"
      using metas x(1) unfolding metas_ok_def by blast
    with stored_labels(3) [OF x(2)] show ?thesis by simp
  qed
  ultimately show thesis using that x(2) by blast
qed

section \<open>The state with a refresh in flight\<close>

definition fresh_touch :: "'s kv \<Rightarrow> nat \<Rightarrow> string \<Rightarrow> bool" where
  "fresh_touch w g k = (\<exists>h. map_of (touched w) k = Some h \<and> g < h)"

text \<open>
  A refresh that started at generation \<open>g\<close>: for every key that was not written since, what it has
  collected, or still has to read, is what the swarm holds.
\<close>

definition job_data ::
    "('s \<Rightarrow> raft) \<Rightarrow> 's kv_conf \<Rightarrow> 's kv \<Rightarrow> nat \<Rightarrow> version_meta list jsmap \<Rightarrow> kv_entry jsmap \<Rightarrow> bool" where
  "job_data raft cf w g todo nxt =
     (g \<le> gen w \<and> keys_ok cf todo \<and> keys_ok cf nxt \<and>
      (\<forall>c i. kv_key cf c i \<longrightarrow> \<not> fresh_touch w g (keyOf c i) \<longrightarrow>
         (case map_of todo (keyOf c i) of
            Some vs \<Rightarrow> vs \<noteq> [] \<and> metas_ok (raft (swarm w)) c i vs
          | None \<Rightarrow> entry_ok cf (raft (swarm w)) c i (map_of nxt (keyOf c i)))))"

definition job_ok :: "('s \<Rightarrow> raft) \<Rightarrow> 's kv_conf \<Rightarrow> 's kv \<Rightarrow> bool" where
  "job_ok raft cf w =
     (case loading w of
        None \<Rightarrow> True
      | Some (Listing g) \<Rightarrow> g \<le> gen w
      | Some (Reading g todo nxt) \<Rightarrow> job_data raft cf w g todo nxt)"

text \<open>The invariant of a store: its cache, once loaded, is the swarm; until then it is empty.\<close>

definition kv_inv :: "('s \<Rightarrow> raft) \<Rightarrow> 's kv_conf \<Rightarrow> 's kv \<Rightarrow> bool" where
  "kv_inv raft cf w =
     (raft_ok cf (raft (swarm w)) \<and> keys_ok cf (touched w) \<and>
      (\<forall>k h. map_of (touched w) k = Some h \<longrightarrow> h \<le> gen w) \<and>
      (if loadedAt w = None then entries w = [] \<and> touched w = []
       else coherent cf (raft (swarm w)) (entries w)) \<and>
      job_ok raft cf w)"

lemma kv_inv_store_ok: "kv_inv raft cf w \<Longrightarrow> loadedAt w \<noteq> None \<Longrightarrow> store_ok raft cf w"
  by (simp add: kv_inv_def store_ok_def)

lemma job_data_cong:
  assumes "raft (swarm w') = raft (swarm w)" and "touched w' = touched w" and "gen w' = gen w"
  shows "job_data raft cf w' g todo nxt = job_data raft cf w g todo nxt"
  unfolding job_data_def fresh_touch_def assms ..

lemma job_data_quiet: "quiet raft w w' \<Longrightarrow> job_data raft cf w' g todo nxt = job_data raft cf w g todo nxt"
  by (rule job_data_cong) (simp_all add: quiet_fields)

lemma job_data_loading [simp]: "job_data raft cf (w\<lparr>loading := x\<rparr>) g todo nxt = job_data raft cf w g todo nxt"
  by (rule job_data_cong) simp_all

lemma kv_inv_quiet:
  assumes "quiet raft w w'"
  shows "kv_inv raft cf w' = kv_inv raft cf w"
  unfolding kv_inv_def job_ok_def job_data_quiet [OF assms] quiet_fields [OF assms] ..

lemma job_data_frame:
  assumes fr: "kv_frame raft cf c i w w'" and key: "kv_key cf c i" and jd: "job_data raft cf w g todo nxt"
  shows "job_data raft cf w' g todo nxt"
  unfolding job_data_def
proof (intro conjI allI impI)
  show "g \<le> gen w'" "keys_ok cf todo" "keys_ok cf nxt" using fr jd by (auto simp: kv_frame_def job_data_def)
  fix c' i' assume key': "kv_key cf c' i'" and nf: "\<not> fresh_touch w' g (keyOf c' i')"
  have same: "(\<forall>n. raft (swarm w') (kvConfigName c' i' n) = raft (swarm w) (kvConfigName c' i' n)) \<and>
      map_of (touched w') (keyOf c' i') = map_of (touched w) (keyOf c' i')"
  proof (cases "(c', i') = (c, i)")
    case True
    have "\<not> (\<exists>h. map_of (touched w') (keyOf c i) = Some h \<and> gen w < h \<and> h \<le> gen w')"
      using nf True jd by (auto simp: fresh_touch_def job_data_def)
    then show ?thesis using fr True unfolding kv_frame_def by blast
  next
    case False
    then have "keyOf c' i' \<noteq> keyOf c i" using keyOf_inj [OF key' key] by auto
    then show ?thesis using fr key' False unfolding kv_frame_def only_key_def by blast
  qed
  then have R: "\<And>n. raft (swarm w') (kvConfigName c' i' n) = raft (swarm w) (kvConfigName c' i' n)" by blast
  have metas: "metas_ok (raft (swarm w')) c' i' vs = metas_ok (raft (swarm w)) c' i' vs" for vs
    by (rule metas_ok_cong) (rule R)
  have entries: "entry_ok cf (raft (swarm w')) c' i' eo = entry_ok cf (raft (swarm w)) c' i' eo" for eo
    by (rule entry_ok_cong) (rule R)
  have "\<not> fresh_touch w g (keyOf c' i')" using nf same by (simp add: fresh_touch_def)
  then show "case map_of todo (keyOf c' i') of
      Some vs \<Rightarrow> vs \<noteq> [] \<and> metas_ok (raft (swarm w')) c' i' vs
    | None \<Rightarrow> entry_ok cf (raft (swarm w')) c' i' (map_of nxt (keyOf c' i'))"
    using jd key' unfolding job_data_def metas entries by blast
qed

lemma kv_inv_frame:
  assumes inv: "kv_inv raft cf w" and loaded: "loadedAt w \<noteq> None" and key: "kv_key cf c i"
    and fr: "kv_frame raft cf c i w w'" and ok: "store_ok raft cf w'"
  shows "kv_inv raft cf w'"
proof -
  have "h \<le> gen w'" if "map_of (touched w') k = Some h" for k h
  proof (cases "k = keyOf c i")
    case True
    with that fr inv show ?thesis unfolding kv_frame_def kv_inv_def by (metis le_trans option.inject)
  next
    case False
    with that fr inv show ?thesis unfolding kv_frame_def kv_inv_def by (metis le_trans)
  qed
  moreover have "job_ok raft cf w'"
    using inv fr job_data_frame [OF fr key] unfolding kv_inv_def job_ok_def kv_frame_def
    by (auto split: option.splits refresh_job.splits)
  moreover have "keys_ok cf (touched w')" "loadedAt w' \<noteq> None" using fr inv loaded by (auto simp: kv_frame_def kv_inv_def)
  ultimately show ?thesis using ok by (auto simp: kv_inv_def store_ok_def)
qed

lemma keep_local_lookup:
  "map_of (keep_local g es (k', h) nxt) k = (if k = k' \<and> g < h then map_of es k else map_of nxt k)"
  by (auto simp: keep_local_def update_conv' delete_conv' split: option.split)

lemma keep_local_fold:
  "distinct (map fst ts) \<Longrightarrow> map_of (fold (keep_local g es) ts nxt) k =
     (if \<exists>h. map_of ts k = Some h \<and> g < h then map_of es k else map_of nxt k)"
proof (induction ts arbitrary: nxt)
  case (Cons t ts)
  obtain k' h where t: "t = (k', h)" by fastforce
  show ?case
  proof (cases "k = k'")
    case True
    moreover have "map_of ts k' = None" using Cons.prems t by (auto simp: map_of_eq_None_iff)
    ultimately show ?thesis using Cons t by (simp add: keep_local_lookup)
  next
    case False
    then have "map_of (t # ts) k = map_of ts k" "map_of (keep_local g es t nxt) k = map_of nxt k"
      by (simp_all add: t keep_local_lookup)
    moreover have "distinct (map fst ts)" using Cons.prems by simp
    ultimately show ?thesis using Cons.IH [of "keep_local g es t nxt"] unfolding fold_simps by (simp only:)
  qed
qed simp

lemma keep_local_keys:
  "keys_ok cf ts \<Longrightarrow> keys_ok cf nxt \<Longrightarrow> keys_ok cf (fold (keep_local g es) ts nxt)"
proof (induction ts arbitrary: nxt)
  case (Cons t ts)
  obtain c i h where t: "t = (keyOf c i, h)" "kv_key cf c i" using Cons.prems(1) by (cases t) (auto simp: keys_ok_def)
  have "keys_ok cf ts" using Cons.prems(1) by (simp add: keys_ok_def)
  moreover have "keys_ok cf (keep_local g es t nxt)"
    using Cons.prems(2) t by (auto simp: keep_local_def keys_ok_update keys_ok_delete split: option.split)
  ultimately show ?case using Cons.IH by simp
qed simp

lemma keys_ok_Nil [simp]: "keys_ok cf []"
  by (simp add: keys_ok_def)

lemma refresh_commit_coherent:
  assumes inv: "kv_inv raft cf w" and jd: "job_data raft cf w g [] nxt"
  shows "coherent cf (raft (swarm w)) (entries (refresh_commit cf g nxt w))"
proof -
  let ?es = "fold (keep_local g (entries w)) (touched w) nxt"
  have t: "keys_ok cf (touched w)" using inv by (simp add: kv_inv_def)
  then have look: "map_of ?es k = (if fresh_touch w g k then map_of (entries w) k else map_of nxt k)" for k
    unfolding fresh_touch_def by (intro keep_local_fold) (simp add: keys_ok_def)
  have "entry_ok cf (raft (swarm w)) c i (map_of ?es (keyOf c i))" if key: "kv_key cf c i" for c i
  proof (cases "fresh_touch w g (keyOf c i)")
    case True
    then have "touched w \<noteq> []" by (auto simp: fresh_touch_def)
    then have "coherent cf (raft (swarm w)) (entries w)" using inv by (auto simp: kv_inv_def split: if_splits)
    with True look key show ?thesis by (simp add: coherentD)
  next
    case False
    with jd key look show ?thesis by (simp add: job_data_def)
  qed
  moreover have "keys_ok cf ?es" using t jd by (simp add: keep_local_keys job_data_def)
  ultimately show ?thesis by (simp add: refresh_commit_def coherent_def)
qed

lemma refresh_commit_inv:
  assumes "kv_inv raft cf w" and "job_data raft cf w g [] nxt"
  shows "kv_inv raft cf ((refresh_commit cf g nxt w)\<lparr>loading := None\<rparr>)"
  using refresh_commit_coherent [OF assms] assms(1) by (simp add: kv_inv_def refresh_commit_def job_ok_def)

lemma kv_inv_idle: "kv_inv raft cf w \<Longrightarrow> kv_inv raft cf (w\<lparr>loading := None\<rparr>)"
  by (simp add: kv_inv_def job_ok_def)

lemma kv_inv_begin: "kv_inv raft cf w \<Longrightarrow> kv_inv raft cf (refresh_begin w)"
  by (auto simp: kv_inv_def job_ok_def refresh_begin_def split: option.split)

lemma coherent_docOf:
  assumes "coherent cf R (entries w)" and "kv_key cf c i"
  shows "map_option d_value (docOf c i w) = doc_in cf R (c, i)"
proof -
  have "entry_ok cf R c i (map_of (entries w) (keyOf c i))" by (rule coherentD [OF assms])
  then show ?thesis unfolding coherent_doc [OF assms]
    by (cases "map_of (entries w) (keyOf c i)") (simp_all add: docOf_def entry_ok_def latest_of_def)
qed

lemma raft_ok_subset: "raft_ok cf R \<Longrightarrow> (\<And>n. R' n = None \<or> R' n = R n) \<Longrightarrow> raft_ok cf R'"
  unfolding raft_ok_def by (metis option.distinct(1))

text \<open>The configs left when some versions of a document are removed.\<close>

definition without :: "raft \<Rightarrow> string \<Rightarrow> string \<Rightarrow> version_meta list \<Rightarrow> raft" where
  "without R c i vs = (\<lambda>n. if n \<in> (\<lambda>v. kvConfigName c i (vm_seq v)) ` set vs then None else R n)"

lemma without_Nil [simp]: "without R c i [] = R"
  by (simp add: without_def)

lemma without_Cons: "without R c i (v # vs) = without (R(kvConfigName c i (vm_seq v) := None)) c i vs"
  by (auto simp: without_def)

lemma without_only_key: "kv_key cf c i \<Longrightarrow> only_key cf c i R (without R c i vs)"
  unfolding only_key_def without_def by (auto simp: name_inj [where cf = cf])

lemma versions_in_without:
  "kv_key cf c i \<Longrightarrow> versions_in (without R c i vs) c i = versions_in R c i - vm_seq ` set vs"
  by (auto simp: versions_in_def without_def name_inj [where cf = cf])

text \<open>The cache is right except for one key.\<close>

definition stale_at :: "('s \<Rightarrow> raft) \<Rightarrow> 's kv_conf \<Rightarrow> string \<Rightarrow> string \<Rightarrow> 's kv \<Rightarrow> bool" where
  "stale_at raft cf c i w =
     (loadedAt w \<noteq> None \<and> keys_ok cf (entries w) \<and>
      (\<exists>es. kv_inv raft cf (w\<lparr>entries := es\<rparr>) \<and>
         (\<forall>k. k \<noteq> keyOf c i \<longrightarrow> map_of (entries w) k = map_of es k)))"

lemma refresh_begin_fields [simp]:
  "entries (refresh_begin w) = entries w" "loadedAt (refresh_begin w) = loadedAt w"
  "touched (refresh_begin w) = touched w" "gen (refresh_begin w) = gen w" "swarm (refresh_begin w) = swarm w"
  by (simp_all add: refresh_begin_def split: option.split)

lemma ensureFresh_loaded:
  assumes "loadedAt w \<noteq> None"
  obtains w1 where "ensureFresh cf w = (Inr (), w1)" and "w1 = w \<or> w1 = refresh_begin w"
proof -
  obtain t where "loadedAt w = Some t" using assms by blast
  with that show thesis
    by (cases "refreshMs cf \<le> now cf (swarm w) - t \<and> loading w = None") (auto simp: ensureFresh_def)
qed

lemma stale_at_begin:
  assumes "stale_at raft cf c i w"
  shows "stale_at raft cf c i (refresh_begin w)"
proof -
  obtain es where es: "kv_inv raft cf (w\<lparr>entries := es\<rparr>)"
    "\<forall>k. k \<noteq> keyOf c i \<longrightarrow> map_of (entries w) k = map_of es k" using assms by (auto simp: stale_at_def)
  have "(refresh_begin w)\<lparr>entries := es\<rparr> = refresh_begin (w\<lparr>entries := es\<rparr>)"
    by (cases "loading w") (simp_all add: refresh_begin_def)
  then have "kv_inv raft cf ((refresh_begin w)\<lparr>entries := es\<rparr>)" using kv_inv_begin [OF es(1)] by simp
  with es(2) assms show ?thesis unfolding stale_at_def by (metis refresh_begin_fields(1,2))
qed

lemma kv_inv_stale_at: "kv_inv raft cf w \<Longrightarrow> loadedAt w \<noteq> None \<Longrightarrow> stale_at raft cf c i w"
  unfolding stale_at_def by (auto simp: kv_inv_def coherent_def intro!: exI [of _ "entries w"])

end
