(* ===== verification/KvStore.thy ===== *)
theory KvStore
  imports KvCoherence
begin

text \<open>
  What the document store promises over a swarm. \<open>kv_store\<close> states what the store relies on: a
  listing has one row per config, a create succeeds only on a free name, a call that throws changes
  nothing. Any call may fail at any time. The lemmas show for each operation that it keeps the
  invariant \<open>kv_inv\<close> and what it does to the documents.
\<close>

locale kv_store =
  fixes cf :: "'s kv_conf" and raft :: "'s \<Rightarrow> raft"
  assumes list_law: "drv_list (driver cf) s = (r, s') \<Longrightarrow>
      raft s' = raft s \<and> (\<forall>xs. r = Inr xs \<longrightarrow> listing (raft s) xs)"
    and read_law: "drv_read (driver cf) n s = (r', s') \<Longrightarrow>
      raft s' = raft s \<and> (\<forall>d. r' = Inr d \<longrightarrow> (\<exists>x. raft s n = Some x \<and> mc_data x = d))"
    and create_law: "drv_create (driver cf) n d l s = (r'', s') \<Longrightarrow>
      (case r'' of
         Inl e \<Rightarrow> raft s' = raft s
       | Inr _ \<Rightarrow> raft s n = None \<and>
           (\<exists>t. raft s' = (raft s)(n \<mapsto> \<lparr>mc_data = d, mc_labels = l, mc_created = t\<rparr>)))"
    and remove_law: "drv_remove (driver cf) n s = (r'', s') \<Longrightarrow>
      (case r'' of
         Inl e \<Rightarrow> raft s' = raft s \<and> (gone_message e \<longrightarrow> raft s n = None)
       | Inr _ \<Rightarrow> raft s' = (raft s)(n := None))"
    and sealer_law: "sealer_ok (sealer cf)"
    and keep_pos: "1 \<le> keep cf"
begin

lemma listMine_law:
  assumes "listMine cf w = (r, w')"
  shows "quiet raft w w' \<and> (\<forall>l. r = Inr l \<longrightarrow> (\<exists>xs. listing (raft (swarm w)) xs \<and> l = group_mine cf xs))"
proof -
  obtain q s where call: "drv_list (driver cf) (swarm w) = (q, s)" by fastforce
  with assms have w': "w' = w\<lparr>swarm := s\<rparr>" and "\<And>l. r = Inr l \<Longrightarrow> \<exists>xs. q = Inr xs \<and> l = group_mine cf xs"
    by (auto simp: listMine_def io_bind_def io_call_def io_return_def split: sum.splits)
  with list_law [OF call] show ?thesis by (fastforce simp: quiet_def)
qed

lemma readVersion_law:
  assumes "readVersion cf c i n w = (r, w')"
  shows "quiet raft w w' \<and>
    (\<forall>v. r = Inr v \<longrightarrow> (\<exists>x. raft (swarm w) (kvConfigName c i n) = Some x \<and> decode cf (mc_data x) = Some v))"
proof -
  obtain q s where call: "drv_read (driver cf) (kvConfigName c i n) (swarm w) = (q, s)" by fastforce
  with assms have w': "w' = w\<lparr>swarm := s\<rparr>" and "\<And>v. r = Inr v \<Longrightarrow> \<exists>d. q = Inr d \<and> decode cf d = Some v"
    by (auto simp: readVersion_def io_bind_def io_call_def io_return_def io_throw_def
        split: sum.splits option.splits)
  with read_law [OF call] show ?thesis by (fastforce simp: quiet_def)
qed

lemma removeQuietly_law:
  assumes "removeQuietly cf (kvConfigName c i n) w = (r, w')"
  shows "w' = w\<lparr>swarm := swarm w'\<rparr> \<and>
    ((r = Inr True \<and> raft (swarm w') = (raft (swarm w))(kvConfigName c i n := None)) \<or>
     (r = Inr False \<and> raft (swarm w') = raft (swarm w)))"
proof -
  obtain q s where call: "drv_remove (driver cf) (kvConfigName c i n) (swarm w) = (q, s)" by fastforce
  show ?thesis
  proof (cases q)
    case (Inl e)
    then have "raft s = raft (swarm w)" "gone_message e \<Longrightarrow> raft (swarm w) (kvConfigName c i n) = None"
      using remove_law [OF call] by simp_all
    moreover from this have "gone_message e \<Longrightarrow> (raft (swarm w))(kvConfigName c i n := None) = raft (swarm w)"
      by (simp add: fun_upd_idem)
    ultimately show ?thesis using assms call Inl by (cases "gone_message e") (auto simp: removeQuietly_def io_call_def)
  next
    case (Inr u)
    then show ?thesis using assms call remove_law [OF call] by (auto simp: removeQuietly_def io_call_def)
  qed
qed

lemma gc_loop_law:
  assumes "gc_loop cf c i vs kept w = (r, w')" and "kv_key cf c i"
    and "distinct (map vm_seq (kept @ vs))"
    and "vm_seq ` set (kept @ vs) = versions_in (raft (swarm w)) c i"
  shows "\<exists>kept'. r = Inr kept' \<and> w' = w\<lparr>swarm := swarm w'\<rparr> \<and> set kept \<subseteq> set kept' \<and>
    set kept' \<subseteq> set (kept @ vs) \<and> distinct (map vm_seq kept') \<and>
    vm_seq ` set kept' = versions_in (raft (swarm w')) c i \<and>
    only_key cf c i (raft (swarm w)) (raft (swarm w')) \<and>
    (\<forall>n \<in> vm_seq ` set kept'. raft (swarm w') (kvConfigName c i n) = raft (swarm w) (kvConfigName c i n)) \<and>
    (raft_ok cf (raft (swarm w)) \<longrightarrow> raft_ok cf (raft (swarm w')))"
  using assms
proof (induction vs arbitrary: kept w)
  case Nil
  then show ?case by (intro exI [of _ kept]) (auto simp: io_return_def)
next
  case (Cons v vs)
  let ?R = "raft (swarm w)" and ?nm = "kvConfigName c i"
  obtain q w1 where q: "removeQuietly cf (?nm (vm_seq v)) w = (q, w1)" by fastforce
  note rem = removeQuietly_law [OF q]
  consider (gone) "q = Inr True" "raft (swarm w1) = ?R(?nm (vm_seq v) := None)"
    | (left) "q = Inr False" "raft (swarm w1) = ?R" using rem by blast
  then show ?case
  proof cases
    case gone
    have step: "gc_loop cf c i vs kept w1 = (r, w')" using Cons.prems(1) q gone(1) by (simp add: io_bind_def)
    have vers: "vm_seq ` set (kept @ vs) = versions_in (raft (swarm w1)) c i"
    proof -
      have "vm_seq v \<notin> vm_seq ` set (kept @ vs)" using Cons.prems(3) by auto
      moreover have "versions_in ?R c i = insert (vm_seq v) (vm_seq ` set (kept @ vs))"
        using Cons.prems(4) by (simp add: Un_commute insert_commute image_Un)
      ultimately show ?thesis unfolding gone(2) versions_in_del [OF Cons.prems(2) Cons.prems(2)] by simp
    qed
    have dist: "distinct (map vm_seq (kept @ vs))" using Cons.prems(3) by auto
    obtain kept' where k: "r = Inr kept'" "w' = w1\<lparr>swarm := swarm w'\<rparr>" "set kept \<subseteq> set kept'"
      "set kept' \<subseteq> set (kept @ vs)" "distinct (map vm_seq kept')"
      "vm_seq ` set kept' = versions_in (raft (swarm w')) c i"
      "only_key cf c i (raft (swarm w1)) (raft (swarm w'))"
      "\<forall>n \<in> vm_seq ` set kept'. raft (swarm w') (?nm n) = raft (swarm w1) (?nm n)"
      "raft_ok cf (raft (swarm w1)) \<longrightarrow> raft_ok cf (raft (swarm w'))"
      using Cons.IH [OF step Cons.prems(2) dist vers] by blast
    have "vm_seq v \<notin> vm_seq ` set kept'" using k(4) Cons.prems(3) by auto
    then have "raft (swarm w1) (?nm n) = ?R (?nm n)" if "n \<in> vm_seq ` set kept'" for n
    proof -
      have "n \<noteq> vm_seq v" using that \<open>vm_seq v \<notin> vm_seq ` set kept'\<close> by blast
      then show ?thesis using name_inj [OF Cons.prems(2) Cons.prems(2)] unfolding gone(2) by simp
    qed
    moreover have "only_key cf c i ?R (raft (swarm w'))"
      using only_key_upd [OF Cons.prems(2)] k(7) unfolding gone(2) by (rule only_key_trans)
    moreover have "raft_ok cf ?R \<longrightarrow> raft_ok cf (raft (swarm w'))" using raft_ok_del k(9) unfolding gone(2) by blast
    moreover have "w' = w\<lparr>swarm := swarm w'\<rparr>" using k(2) rem by (metis kv.surjective kv.update_convs(6))
    ultimately show ?thesis using k by (intro exI [of _ kept']) auto
  next
    case left
    have step: "gc_loop cf c i vs (v # kept) w1 = (r, w')" using Cons.prems(1) q left(1) by (simp add: io_bind_def)
    have vers: "vm_seq ` set ((v # kept) @ vs) = versions_in (raft (swarm w1)) c i"
      using Cons.prems(4) left(2) by auto
    have dist: "distinct (map vm_seq ((v # kept) @ vs))" using Cons.prems(3) by auto
    have "w' = w\<lparr>swarm := swarm w'\<rparr>" if "w' = w1\<lparr>swarm := swarm w'\<rparr>"
      using that rem by (metis kv.surjective kv.update_convs(6))
    then show ?thesis using Cons.IH [OF step Cons.prems(2) dist vers] left(2) by auto
  qed
qed

lemma gc_law:
  assumes run: "gc cf c i w = (r, w')" and key: "kv_key cf c i"
    and raft: "raft_ok cf (raft (swarm w))" and coh: "coherent cf (raft (swarm w)) (entries w)"
  shows "r = Inr () \<and> raft_ok cf (raft (swarm w')) \<and> coherent cf (raft (swarm w')) (entries w') \<and>
    only_key cf c i (raft (swarm w)) (raft (swarm w')) \<and>
    w' = w\<lparr>entries := entries w', swarm := swarm w'\<rparr> \<and>
    (\<forall>k. k \<noteq> keyOf c i \<longrightarrow> map_of (entries w') k = map_of (entries w) k) \<and>
    (\<forall>e. map_of (entries w) (keyOf c i) = Some e \<longrightarrow>
       (\<exists>e'. map_of (entries w') (keyOf c i) = Some e' \<and> e_value e' = e_value e \<and>
          last (e_versions e') = last (e_versions e)))"
proof -
  let ?R = "raft (swarm w)"
  have unchanged: ?thesis if "r = Inr ()" "w' = w" using that raft coh by simp
  show ?thesis
  proof (cases "\<exists>e. map_of (entries w) (keyOf c i) = Some e \<and> keep cf < length (e_versions e)")
    case False
    then have "gc cf c i w = (Inr (), w)"
      unfolding gc_def by (cases "map_of (entries w) (keyOf c i)") (auto simp: not_less)
    with run unchanged show ?thesis by simp
  next
    case True
    then obtain e where e: "map_of (entries w) (keyOf c i) = Some e" "keep cf < length (e_versions e)" by blast
    define n where "n = length (e_versions e) - keep cf"
    have ok: "entry_ok cf ?R c i (Some e)" using coherentD [OF coh key] e(1) by simp
    then have sorted: "sorted_wrt (\<lambda>a b. vm_seq a < vm_seq b) (e_versions e)"
      and seqs: "vm_seq ` set (e_versions e) = versions_in ?R c i"
      and labels: "\<forall>m \<in> set (e_versions e). \<forall>x. ?R (kvConfigName c i (vm_seq m)) = Some x \<longrightarrow>
        vm_bytes m = int (length (mc_data x)) \<and> lbl (mc_labels x) KV_LABEL_SHA = Some (vm_sha m)"
      by (simp_all add: entry_ok_def metas_ok_def)
    have ne: "e_versions e \<noteq> []" using e(2) by auto
    have all: "set (drop n (e_versions e) @ take n (e_versions e)) = set (e_versions e)"
      by (metis append_take_drop_id set_append sup_commute)
    have "map vm_seq (e_versions e) = map vm_seq (take n (e_versions e)) @ map vm_seq (drop n (e_versions e))"
      by (metis append_take_drop_id map_append)
    then have "distinct (map vm_seq (take n (e_versions e)) @ map vm_seq (drop n (e_versions e)))"
      using strict_distinct [OF sorted] by simp
    then have dist: "distinct (map vm_seq (drop n (e_versions e) @ take n (e_versions e)))"
      unfolding map_append distinct_append by (simp only: inf_commute)
    obtain q w1 where loop: "gc_loop cf c i (take n (e_versions e)) (drop n (e_versions e)) w = (q, w1)" by fastforce
    obtain kept where k: "q = Inr kept" "w1 = w\<lparr>swarm := swarm w1\<rparr>" "set (drop n (e_versions e)) \<subseteq> set kept"
      "set kept \<subseteq> set (e_versions e)" "distinct (map vm_seq kept)"
      "vm_seq ` set kept = versions_in (raft (swarm w1)) c i" "only_key cf c i ?R (raft (swarm w1))"
      "\<forall>m \<in> vm_seq ` set kept. raft (swarm w1) (kvConfigName c i m) = ?R (kvConfigName c i m)"
      "raft_ok cf (raft (swarm w1))"
      using gc_loop_law [OF loop key dist] seqs raft unfolding all by blast
    define e' where "e' = \<lparr>e_versions = js_sort (by_key vm_seq) kept, e_value = e_value e\<rparr>"
    have w': "r = Inr ()" "w' = set_entry (keyOf c i) e' w1"
      using run e loop k(1) unfolding gc_def e'_def n_def by (simp_all add: io_bind_def io_modify_def Let_def)
    have in_kept: "last (e_versions e) \<in> set kept"
    proof -
      have "n < length (e_versions e)" using e(2) keep_pos by (simp add: n_def)
      then have "last (drop n (e_versions e)) = last (e_versions e)" "drop n (e_versions e) \<noteq> []" by simp_all
      then show ?thesis using k(3) by (metis last_in_set subsetD)
    qed
    have top: "vm_seq v \<le> vm_seq (last (e_versions e))" if "v \<in> set kept" for v
      using last_of_sorted [OF sorted ne] k(4) that by (simp add: subsetD)
    have sorted': "sorted_wrt (\<lambda>a b. vm_seq a < vm_seq b) (e_versions e')"
      unfolding e'_def by (simp add: js_sort_strict [OF k(5)])
    have last': "last (e_versions e') = last (e_versions e)"
      by (rule last_is_max [OF sorted']) (use in_kept top in \<open>simp_all add: e'_def\<close>)
    have set': "set (e_versions e') = set kept" by (simp add: e'_def)
    have same: "raft (swarm w1) (kvConfigName c i (vm_seq m)) = ?R (kvConfigName c i (vm_seq m))"
      if "m \<in> set kept" for m using k(8) that by blast
    have "metas_ok (raft (swarm w1)) c i (e_versions e')"
      unfolding metas_ok_def set' using sorted' k(6) same k(4) labels by (metis subsetD)
    moreover have "e_versions e' \<noteq> []" using in_kept set' by auto
    ultimately have "entry_ok cf (raft (swarm w1)) c i (Some e')"
      using ok last' same [OF in_kept] by (simp add: entry_ok_def e'_def)
    moreover have "keys_ok cf (AList.update (keyOf c i) e' (entries w))"
      using coh key by (simp add: coherent_def keys_ok_update)
    ultimately have "coherent cf (raft (swarm w1)) (AList.update (keyOf c i) e' (entries w))"
      by (intro coherent_change [OF coh key k(7)]) (simp_all add: update_conv')
    moreover have "entries w1 = entries w" by (subst k(2)) simp
    ultimately show ?thesis
      using w' k(7,9) last' e(1) by (subst (asm) k(2), auto simp: set_entry_def update_conv' e'_def)
  qed
qed

lemma after_create_law:
  assumes run: "after_create cf c i cur seq (stableJson (numbers cf) v) (mc_data x) w = (r, w')"
    and key: "kv_key cf c i" and R: "raft_ok cf R" and coh: "coherent cf R (entries w)"
    and cur: "cur = map_of (entries w) (keyOf c i)" and seq: "seq = next_seq cur" "seq \<le> KV_MAX_SEQ"
    and created: "raft (swarm w) = R(kvConfigName c i seq \<mapsto> x)" and st: "stored_as cf c i seq x v"
  shows "(\<exists>d. r = Inr (Some d) \<and> d_value d = kv_canon v \<and> d_seq d = seq) \<and>
    raft_ok cf (raft (swarm w')) \<and> coherent cf (raft (swarm w')) (entries w') \<and>
    doc_in cf (raft (swarm w')) (c, i) = Some (kv_canon v) \<and> only_key cf c i R (raft (swarm w')) \<and>
    (\<forall>k. k \<noteq> keyOf c i \<longrightarrow> map_of (entries w') k = map_of (entries w) k) \<and>
    w' = (touch (keyOf c i) w)\<lparr>entries := entries w', swarm := swarm w'\<rparr>"
proof -
  let ?R1 = "R(kvConfigName c i seq \<mapsto> x)"
  define m where "m = \<lparr>vm_seq = seq, vm_bytes = int (length (mc_data x)),
    vm_sha = kvFingerprint (stableJson (numbers cf) v), vm_created = now cf (swarm w)\<rparr>"
  define e where "e = \<lparr>e_versions = entry_versions cur @ [m], e_value = kv_canon v\<rparr>"
  define w1 where "w1 = touch (keyOf c i) (set_entry (keyOf c i) e w)"
  have ok: "entry_ok cf R c i cur" using coherentD [OF coh key] cur by simp
  have "1 \<le> seq" using seq(1) by (simp add: next_seq_def)
  then have R1: "raft_ok cf ?R1" using raft_ok_upd [OF R key _ seq(2) st] by blast
  have only1: "only_key cf c i R ?R1" by (rule only_key_upd [OF key])
  have "metas_ok ?R1 c i (entry_versions cur @ [m])"
    using metas_ok_append [OF ok key _ st [unfolded seq(1)]] seq by (simp add: m_def)
  moreover have "decode cf (mc_data x) = Some (kv_canon v)" by (rule decode_stored [OF sealer_law st])
  ultimately have e_ok: "entry_ok cf ?R1 c i (Some e)" by (simp add: entry_ok_def e_def m_def)
  have w1: "entries w1 = AList.update (keyOf c i) e (entries w)" "swarm w1 = swarm w"
    by (simp_all add: w1_def touch_def set_entry_def)
  have coh1: "coherent cf (raft (swarm w1)) (entries w1)"
    unfolding w1 created using coh key e_ok
    by (intro coherent_change [OF coh key only1]) (simp_all add: update_conv' coherent_def keys_ok_update)
  obtain q w2 where gc: "gc cf c i w1 = (q, w2)" by fastforce
  have "raft_ok cf (raft (swarm w1))" using R1 w1(2) created by simp
  note g = gc_law [OF gc key this coh1]
  have parse: "json_parse (numbers cf) (stableJson (numbers cf) v) = Some (kv_canon v)"
    using st by (simp add: stored_as_def json_parse_stableJson)
  have q: "q = Inr ()" using g by blast
  have rw: "r = Inr (docOf c i w2)" "w' = w2"
    using run parse gc q
    by (auto simp: after_create_def io_bind_def io_modify_def w1_def Let_def m_def e_def)
  have e1: "map_of (entries w1) (keyOf c i) = Some e" unfolding w1 by (simp add: update_conv')
  obtain e' where e': "map_of (entries w2) (keyOf c i) = Some e'" "e_value e' = e_value e"
    "last (e_versions e') = last (e_versions e)" using g e1 by blast
  have coh2: "coherent cf (raft (swarm w2)) (entries w2)" using g by blast
  then have "e_versions e' \<noteq> []" using coherentD [OF coh2 key] e'(1) by (simp add: entry_ok_def)
  then have doc: "docOf c i w2 = Some \<lparr>d_collection = c, d_id = i, d_seq = seq, d_value = kv_canon v,
      d_updatedAt = vm_created m\<rparr>"
    using e' by (simp add: docOf_def latest_of_def e_def m_def)
  have "doc_in cf (raft (swarm w2)) (c, i) = Some (kv_canon v)"
    using coherent_doc [OF coh2 key] e' by (simp add: e_def)
  moreover have "only_key cf c i R (raft (swarm w2))"
    using only1 g unfolding w1(2) created by (blast intro: only_key_trans)
  moreover have "\<forall>k. k \<noteq> keyOf c i \<longrightarrow> map_of (entries w2) k = map_of (entries w) k"
    using g unfolding w1 by (simp add: update_conv')
  moreover have "w2 = (touch (keyOf c i) w)\<lparr>entries := entries w2, swarm := swarm w2\<rparr>"
  proof -
    have "w2 = w1\<lparr>entries := entries w2, swarm := swarm w2\<rparr>" using g by blast
    also have "\<dots> = (touch (keyOf c i) w)\<lparr>entries := entries w2, swarm := swarm w2\<rparr>"
      by (simp add: w1_def touch_def set_entry_def)
    finally show ?thesis .
  qed
  ultimately show ?thesis using rw doc g coh2 by auto
qed

lemma refreshKey_law:
  assumes run: "refreshKey cf c i w = (r, w')" and key: "kv_key cf c i"
    and R: "raft_ok cf (raft (swarm w))" and ks: "keys_ok cf (entries w)"
  shows "raft (swarm w') = raft (swarm w) \<and> keys_ok cf (entries w') \<and> kv_frame raft cf c i w w' \<and>
    (case r of
       Inl _ \<Rightarrow> entries w' = entries w
     | Inr _ \<Rightarrow> entry_ok cf (raft (swarm w)) c i (map_of (entries w') (keyOf c i)))"
proof -
  obtain q w1 where l: "listMine cf w = (q, w1)" by fastforce
  note ll = listMine_law [OF l]
  have q1: "quiet raft w w1" using ll by blast
  show ?thesis
  proof (cases q)
    case (Inl e)
    then have "r = Inl e" "w' = w1" using run l by (simp_all add: refreshKey_def io_bind_def)
    then show ?thesis using q1 ks kv_frame_quiet [OF q1] by (simp add: quiet_fields)
  next
    case (Inr ls)
    then obtain xs where xs: "listing (raft (swarm w)) xs" "ls = group_mine cf xs" using ll by blast
    note lk = listing_of_key [OF R xs(1) key]
    let ?t = "touch (keyOf c i) w1"
    show ?thesis
    proof (cases "opt_or (map_of ls (keyOf c i)) []")
      case Nil
      then have none: "versions_in (raft (swarm w)) c i = {}"
        using lk xs(2) by (auto simp: opt_or_def split: option.splits)
      have rw: "r = Inr ()" "w' = drop_entry (keyOf c i) ?t"
        using run l Inr Nil by (simp_all add: refreshKey_def io_bind_def io_modify_def)
      have "kv_frame raft cf c i w1 w'" by (rule kv_frame_touch [OF key]) (simp_all add: rw)
      then have "kv_frame raft cf c i w w'" using kv_frame_quiet [OF q1] kv_frame_trans by blast
      moreover have "keys_ok cf (entries w')"
        using ks q1 by (simp add: rw drop_entry_def quiet_fields keys_ok_delete)
      ultimately show ?thesis using none q1 by (simp add: rw quiet_fields entry_ok_def)
    next
      case (Cons v vs)
      then have look: "map_of ls (keyOf c i) = Some (v # vs)" by (auto simp: opt_or_def split: option.splits)
      then have metas: "metas_ok (raft (swarm w)) c i (v # vs)" using lk xs(2) by simp
      obtain p w2 where rd: "readVersion cf c i (vm_seq (last (v # vs))) ?t = (p, w2)" by fastforce
      note rl = readVersion_law [OF rd]
      have q2: "quiet raft ?t w2" using rl by blast
      note f2 = quiet_fields [OF q2] quiet_fields [OF q1]
      show ?thesis
      proof (cases p)
        case (Inl e)
        then have rw: "r = Inl e" "w' = w2"
          using run l Inr look rd by (simp_all add: refreshKey_def io_bind_def io_modify_def opt_or_def)
        have "kv_frame raft cf c i w1 w'" by (rule kv_frame_touch [OF key]) (simp_all add: rw f2)
        then have "kv_frame raft cf c i w w'" using kv_frame_quiet [OF q1] kv_frame_trans by blast
        then show ?thesis using ks by (simp add: rw f2)
      next
        case (Inr val)
        let ?e = "\<lparr>e_versions = v # vs, e_value = val\<rparr>"
        have rw: "r = Inr ()" "w' = set_entry (keyOf c i) ?e w2"
          using run l \<open>q = Inr ls\<close> look rd Inr by (simp_all add: refreshKey_def io_bind_def io_modify_def opt_or_def)
        have "kv_frame raft cf c i w1 w'" by (rule kv_frame_touch [OF key]) (simp_all add: rw f2)
        then have fr: "kv_frame raft cf c i w w'" using kv_frame_quiet [OF q1] kv_frame_trans by blast
        have "keys_ok cf (entries w')"
          using ks key by (simp add: rw set_entry_def f2 keys_ok_update)
        moreover have "entry_ok cf (raft (swarm w)) c i (Some ?e)"
          using metas rl Inr by (auto simp: entry_ok_def f2)
        ultimately show ?thesis using fr by (simp add: rw f2)
      qed
    qed
  qed
qed

lemma update_attempt_law:
  assumes run: "update_attempt cf c i fn retry w = (r, w')" and key: "kv_key cf c i"
    and ok: "store_ok raft cf w"
    and json: "\<And>v. fn (doc_in cf (raft (swarm w)) (c, i)) = Inr (Some v) \<Longrightarrow> json_ok (numbers cf) v"
  obtains (retry) w1 where "quiet raft w w1" and "retry w1 = (r, w')"
  | (refused) e where "r = Inl e" and "quiet raft w w'"
  | (unchanged) "r = Inr (docOf c i w)" and "w' = w"
      and "fn (doc_in cf (raft (swarm w)) (c, i)) = Inr None"
  | (same_sha) v u n x where "r = Inr (docOf c i w)" and "w' = w"
      and "fn (doc_in cf (raft (swarm w)) (c, i)) = Inr (Some v)"
      and "doc_in cf (raft (swarm w)) (c, i) = Some (kv_canon u)" and "stored_as cf c i n x u"
      and "kvFingerprint (stableJson (numbers cf) u) = kvFingerprint (stableJson (numbers cf) v)"
  | (wrote) v d where "fn (doc_in cf (raft (swarm w)) (c, i)) = Inr (Some v)"
      and "r = Inr (Some d)" and "d_value d = kv_canon v" and "store_ok raft cf w'"
      and "doc_in cf (raft (swarm w')) = (doc_in cf (raft (swarm w)))((c, i) \<mapsto> kv_canon v)"
      and "kv_frame raft cf c i w w'"
proof -
  let ?R = "raft (swarm w)"
  define cur where "cur = map_of (entries w) (keyOf c i)"
  have R: "raft_ok cf ?R" and coh: "coherent cf ?R (entries w)" using ok by (simp_all add: store_ok_def)
  have cur_ok: "entry_ok cf ?R c i cur" using coherentD [OF coh key] by (simp add: cur_def)
  then have none: "latest_of (entry_versions cur) = None \<longleftrightarrow> cur = None"
    by (cases cur) (auto simp: entry_ok_def entry_versions_def latest_of_def)
  have doc: "doc_in cf ?R (c, i) = map_option e_value cur" using coherent_doc [OF coh key] by (simp add: cur_def)
  then have arg: "(if latest_of (entry_versions cur) = None then None else map_option e_value cur) = doc_in cf ?R (c, i)"
    using none by auto
  note body = run [unfolded update_attempt_def Let_def, folded cur_def, unfolded arg]
  show thesis
  proof (cases "fn (doc_in cf ?R (c, i))")
    case (Inl e)
    then have "r = Inl e" "w' = w" using body by simp_all
    then show thesis using refused [of e] by simp
  next
    case (Inr nv)
    show thesis
    proof (cases nv)
      case None
      then have fn: "fn (doc_in cf ?R (c, i)) = Inr None" using Inr by simp
      have "r = Inr (docOf c i w)" "w' = w" using body [unfolded fn sum.case option.case] by auto
      then show thesis using unchanged fn by blast
    next
      case (Some v)
      let ?text = "stableJson (numbers cf) v"
      have fn: "fn (doc_in cf ?R (c, i)) = Inr (Some v)" using Inr Some by simp
      note body2 = body [unfolded fn sum.case option.case]
      show thesis
      proof (cases "assertNoRunState v")
        case (Some e)
        then have "r = Inl e" "w' = w" using body2 by simp_all
        then show thesis using refused [of e] by simp
      next
        case None
        note body3 = body2 [unfolded None option.case]
        show thesis
        proof (cases "map_option vm_sha (latest_of (entry_versions cur)) = Some (kvFingerprint ?text)")
          case True
          then have rw: "r = Inr (docOf c i w)" "w' = w" using body3 by auto
          obtain e where e: "cur = Some e" using True none by (cases cur) auto
          obtain u x where u: "stored_as cf c i (vm_seq (last (e_versions e))) x u" "e_value e = kv_canon u"
            "vm_sha (last (e_versions e)) = kvFingerprint (stableJson (numbers cf) u)"
            using latest_stored [OF sealer_law R key cur_ok [unfolded e]] by blast
          have "e_versions e \<noteq> []" using cur_ok e by (simp add: entry_ok_def)
          then have "kvFingerprint (stableJson (numbers cf) u) = kvFingerprint ?text"
            using True u(3) e by (simp add: latest_of_def entry_versions_def)
          moreover have "doc_in cf ?R (c, i) = Some (kv_canon u)" using doc e u(2) by simp
          ultimately show thesis using same_sha rw fn u(1) by blast
        next
          case False
          note body4 = body3 [unfolded if_not_P [OF False]]
          show thesis
          proof (cases "plan_write cf c i cur ?text w")
            case (Inl e)
            then have "r = Inl e" "w' = w" using body4 by simp_all
            then show thesis using refused [of e] by simp
          next
            case (Inr sd)
            then obtain seq data where sd: "plan_write cf c i cur ?text w = Inr (seq, data)" by (cases sd) simp
            then have seq: "seq = next_seq cur" "seq \<le> KV_MAX_SEQ" and data: "data = toB64 (sealer_seal (sealer cf) ?text)"
              by (auto simp: plan_write_def next_seq_def Let_def split: if_splits)
            let ?l = "kv_labels cf c i seq (kvFingerprint ?text) (length data)"
            obtain q s where call: "drv_create (driver cf) (kvConfigName c i seq) data ?l (swarm w) = (q, s)" by fastforce
            note body5 = body4 [unfolded sd sum.case prod.case io_call_def call]
            show thesis
            proof (cases q)
              case (Inl e)
              then have "quiet raft w (w\<lparr>swarm := s\<rparr>)" using create_law [OF call] by (simp add: quiet_def)
              moreover have "r = Inl e \<and> w' = w\<lparr>swarm := s\<rparr> \<or> retry (w\<lparr>swarm := s\<rparr>) = (r, w')"
                using body5 Inl by (simp split: if_splits)
              ultimately show thesis using refused retry by blast
            next
              case (Inr un)
              define x where "x t = \<lparr>mc_data = data, mc_labels = ?l, mc_created = t\<rparr>" for t
              obtain t where created: "raft s = ?R(kvConfigName c i seq \<mapsto> x t)"
                using create_law [OF call] Inr by (auto simp: x_def)
              have st: "stored_as cf c i seq (x t) v" using json [OF fn] data by (simp add: stored_as_def x_def)
              have "after_create cf c i cur seq ?text (mc_data (x t)) (w\<lparr>swarm := s\<rparr>) = (r, w')"
                using body5 Inr by (simp add: x_def)
              then have ac: "(\<exists>d. r = Inr (Some d) \<and> d_value d = kv_canon v \<and> d_seq d = seq) \<and>
                  raft_ok cf (raft (swarm w')) \<and> coherent cf (raft (swarm w')) (entries w') \<and>
                  doc_in cf (raft (swarm w')) (c, i) = Some (kv_canon v) \<and> only_key cf c i ?R (raft (swarm w')) \<and>
                  (\<forall>k. k \<noteq> keyOf c i \<longrightarrow> map_of (entries w') k = map_of (entries (w\<lparr>swarm := s\<rparr>)) k) \<and>
                  w' = (touch (keyOf c i) (w\<lparr>swarm := s\<rparr>))\<lparr>entries := entries w', swarm := swarm w'\<rparr>"
                by (rule after_create_law [OF _ key R _ _ seq _ st]) (use coh cur_def created in simp_all)
              then obtain d where d: "r = Inr (Some d)" "d_value d = kv_canon v" by blast
              have ok': "store_ok raft cf w'" using ac by (simp add: store_ok_def)
              have only: "only_key cf c i ?R (raft (swarm w'))" using ac by blast
              have docs: "doc_in cf (raft (swarm w')) = (doc_in cf ?R)((c, i) \<mapsto> kv_canon v)"
                using ac only_key_doc [OF only] by auto
              have w'_eq: "w' = (touch (keyOf c i) (w\<lparr>swarm := s\<rparr>))\<lparr>entries := entries w', swarm := swarm w'\<rparr>"
                using ac by blast
              have fields: "touched w' = touched (touch (keyOf c i) w)" "gen w' = gen (touch (keyOf c i) w)"
                "loadedAt w' = loadedAt w" "loading w' = loading w"
                by (subst w'_eq, simp add: touch_def)+
              have "kv_frame raft cf c i w w'"
                by (rule kv_frame_touch [OF key only _ fields]) (use ac in simp)
              then show thesis using wrote fn d ok' docs by blast
            qed
          qed
        qed
      qed
    qed
  qed
qed

lemma refresh_key_law:
  assumes run: "refresh_key cf (k, vs) nxt w = (r, w')"
  shows "quiet raft w w' \<and> (\<forall>nxt'. r = Inr nxt' \<longrightarrow>
    (\<exists>val. nxt' = AList.update k \<lparr>e_versions = vs, e_value = val\<rparr> nxt \<and>
      (\<forall>c i. kv_key cf c i \<longrightarrow> k = keyOf c i \<longrightarrow> vs \<noteq> [] \<longrightarrow> metas_ok (raft (swarm w)) c i vs \<longrightarrow>
         (\<forall>e. map_of (entries w) k = Some e \<longrightarrow> entry_ok cf (raft (swarm w)) c i (Some e)) \<longrightarrow>
         entry_ok cf (raft (swarm w)) c i (Some \<lparr>e_versions = vs, e_value = val\<rparr>))))"
proof (cases "\<exists>e. map_of (entries w) k = Some e \<and> e_versions e \<noteq> [] \<and> vm_seq (last (e_versions e)) = vm_seq (last vs)")
  case True
  then obtain e where e: "map_of (entries w) k = Some e" "e_versions e \<noteq> []"
    "vm_seq (last (e_versions e)) = vm_seq (last vs)" by blast
  then have "r = Inr (AList.update k \<lparr>e_versions = vs, e_value = e_value e\<rparr> nxt)" "w' = w"
    using run by (auto simp: refresh_key_def Let_def entry_versions_def latest_of_def)
  with e show ?thesis by (auto simp: entry_ok_def intro!: exI [of _ "e_value e"])
next
  case False
  then have read: "io_bind (readVersion cf (fst (key_parts k)) (snd (key_parts k)) (vm_seq (last vs)))
      (\<lambda>v. io_return (AList.update k \<lparr>e_versions = vs, e_value = v\<rparr> nxt)) w = (r, w')"
    using run by (auto simp: refresh_key_def Let_def entry_versions_def latest_of_def split: option.splits if_splits)
  obtain q w1 where q: "readVersion cf (fst (key_parts k)) (snd (key_parts k)) (vm_seq (last vs)) w = (q, w1)" by fastforce
  note rl = readVersion_law [OF q]
  have w': "w' = w1" and r: "\<And>nxt'. r = Inr nxt' \<Longrightarrow> \<exists>val. q = Inr val \<and> nxt' = AList.update k \<lparr>e_versions = vs, e_value = val\<rparr> nxt"
    using read q by (auto simp: io_bind_def io_return_def split: sum.splits)
  show ?thesis
  proof (intro conjI allI impI)
    show "quiet raft w w'" using rl w' by blast
    fix nxt' assume "r = Inr nxt'"
    then obtain val where val: "q = Inr val" "nxt' = AList.update k \<lparr>e_versions = vs, e_value = val\<rparr> nxt" using r by blast
    have "entry_ok cf (raft (swarm w)) c i (Some \<lparr>e_versions = vs, e_value = val\<rparr>)"
      if "kv_key cf c i" "k = keyOf c i" "vs \<noteq> []" "metas_ok (raft (swarm w)) c i vs" for c i
      using rl val(1) that by (auto simp: entry_ok_def)
    with val(2) show "\<exists>val. nxt' = AList.update k \<lparr>e_versions = vs, e_value = val\<rparr> nxt \<and>
      (\<forall>c i. kv_key cf c i \<longrightarrow> k = keyOf c i \<longrightarrow> vs \<noteq> [] \<longrightarrow> metas_ok (raft (swarm w)) c i vs \<longrightarrow>
         (\<forall>e. map_of (entries w) k = Some e \<longrightarrow> entry_ok cf (raft (swarm w)) c i (Some e)) \<longrightarrow>
         entry_ok cf (raft (swarm w)) c i (Some \<lparr>e_versions = vs, e_value = val\<rparr>))" by blast
  qed
qed

text \<open>The entries a refresh may reuse.\<close>

lemma cached_ok:
  "kv_inv raft cf w \<Longrightarrow> kv_key cf c i \<Longrightarrow> map_of (entries w) (keyOf c i) = Some e \<Longrightarrow>
   entry_ok cf (raft (swarm w)) c i (Some e)"
  using coherentD [of cf "raft (swarm w)" "entries w" c i] by (auto simp: kv_inv_def split: if_splits)

lemma job_step:
  assumes run: "refresh_key cf kv nxt w = (r, w')" and inv: "kv_inv raft cf w"
    and jd: "job_data raft cf w g (kv # todo) nxt"
  shows "quiet raft w w' \<and> (\<forall>nxt'. r = Inr nxt' \<longrightarrow> job_data raft cf w' g todo nxt')"
proof -
  obtain k vs where kv: "kv = (k, vs)" by fastforce
  note law = refresh_key_law [OF run [unfolded kv]]
  have quiet: "quiet raft w w'" using law by blast
  have "job_data raft cf w g todo nxt'" if "r = Inr nxt'" for nxt'
  proof -
    obtain val where val: "nxt' = AList.update k \<lparr>e_versions = vs, e_value = val\<rparr> nxt"
      "\<And>c i. kv_key cf c i \<Longrightarrow> k = keyOf c i \<Longrightarrow> vs \<noteq> [] \<Longrightarrow> metas_ok (raft (swarm w)) c i vs \<Longrightarrow>
         entry_ok cf (raft (swarm w)) c i (Some \<lparr>e_versions = vs, e_value = val\<rparr>)"
      using law \<open>r = Inr nxt'\<close> cached_ok [OF inv] by metis
    have keys: "keys_ok cf (kv # todo)" "keys_ok cf nxt" using jd by (simp_all add: job_data_def)
    then obtain c0 i0 where k: "kv_key cf c0 i0" "k = keyOf c0 i0" using kv by (auto simp: keys_ok_def)
    have "keys_ok cf todo" using keys(1) by (simp add: keys_ok_def)
    moreover have "keys_ok cf nxt'" unfolding val(1) k(2) using keys(2) k(1) by (rule keys_ok_update)
    moreover have "case map_of todo (keyOf c i) of
        Some us \<Rightarrow> us \<noteq> [] \<and> metas_ok (raft (swarm w)) c i us
      | None \<Rightarrow> entry_ok cf (raft (swarm w)) c i (map_of nxt' (keyOf c i))"
      if key: "kv_key cf c i" and nf: "\<not> fresh_touch w g (keyOf c i)" for c i
    proof -
      have old: "case map_of (kv # todo) (keyOf c i) of
          Some us \<Rightarrow> us \<noteq> [] \<and> metas_ok (raft (swarm w)) c i us
        | None \<Rightarrow> entry_ok cf (raft (swarm w)) c i (map_of nxt (keyOf c i))"
        using jd key nf unfolding job_data_def by blast
      show ?thesis
      proof (cases "keyOf c i = k")
        case True
        moreover have "map_of todo k = None" using keys(1) kv by (auto simp: keys_ok_def map_of_eq_None_iff)
        ultimately show ?thesis using old val kv key by (simp add: update_conv')
      next
        case False
        then have "map_of nxt' (keyOf c i) = map_of nxt (keyOf c i)"
          "map_of (kv # todo) (keyOf c i) = map_of todo (keyOf c i)" unfolding val(1) kv by (simp_all add: update_conv')
        then show ?thesis using old by (simp only:)
      qed
    qed
    ultimately show ?thesis using jd unfolding job_data_def by blast
  qed
  then show ?thesis using quiet job_data_quiet [OF quiet] by blast
qed

lemma refresh_loop_law:
  assumes "refresh_loop cf todo nxt w = (r, w')" and "kv_inv raft cf w" and "job_data raft cf w g todo nxt"
  shows "quiet raft w w' \<and> (\<forall>nxt'. r = Inr nxt' \<longrightarrow> job_data raft cf w' g [] nxt')"
  using assms
proof (induction todo arbitrary: nxt w)
  case Nil
  then show ?case by (auto simp: io_return_def)
next
  case (Cons kv todo)
  obtain q w1 where q: "refresh_key cf kv nxt w = (q, w1)" by fastforce
  note step = job_step [OF q Cons.prems(2,3)]
  show ?case
  proof (cases q)
    case (Inl e)
    then show ?thesis using Cons.prems(1) q step by (auto simp: io_bind_def)
  next
    case (Inr nxt1)
    then have "refresh_loop cf todo nxt1 w1 = (r, w')" using Cons.prems(1) q by (simp add: io_bind_def)
    moreover have "kv_inv raft cf w1" using step Cons.prems(2) kv_inv_quiet by blast
    ultimately show ?thesis using Cons.IH [of nxt1 w1] step Inr quiet_trans by blast
  qed
qed

lemma listed_job:
  assumes "listMine cf w = (Inr ls, w')" and "kv_inv raft cf w" and "g \<le> gen w"
  shows "quiet raft w w' \<and> job_data raft cf w' g ls []"
proof -
  obtain xs where xs: "listing (raft (swarm w)) xs" "ls = group_mine cf xs" and quiet: "quiet raft w w'"
    using listMine_law [OF assms(1)] by blast
  have R: "raft_ok cf (raft (swarm w))" using assms(2) by (simp add: kv_inv_def)
  have "case map_of ls (keyOf c i) of
      Some vs \<Rightarrow> vs \<noteq> [] \<and> metas_ok (raft (swarm w)) c i vs
    | None \<Rightarrow> entry_ok cf (raft (swarm w)) c i (map_of [] (keyOf c i))" if "kv_key cf c i" for c i
    using listing_of_key [OF R xs(1) that] xs(2) by (simp add: entry_ok_def split: option.splits)
  then have "job_data raft cf w g ls []"
    unfolding job_data_def using assms(3) group_mine_keys_ok [OF R xs(1)] xs(2) by simp
  then show ?thesis using quiet job_data_quiet [OF quiet] by blast
qed

lemma refresh_tick_inv:
  assumes inv: "kv_inv raft cf w"
  shows "kv_inv raft cf (refresh_tick cf w)"
proof (cases "loading w")
  case None
  with inv show ?thesis by (simp add: refresh_tick_def)
next
  case (Some job)
  show ?thesis
  proof (cases job)
    case (Listing g)
    obtain q w1 where q: "listMine cf w = (q, w1)" by fastforce
    then have w1: "kv_inv raft cf w1" using listMine_law [OF q] kv_inv_quiet inv by blast
    show ?thesis
    proof (cases q)
      case (Inl e)
      with q Some Listing kv_inv_idle [OF w1] show ?thesis by (simp add: refresh_tick_def)
    next
      case (Inr ls)
      have "g \<le> gen w" using inv Some Listing by (simp add: kv_inv_def job_ok_def)
      then have "job_data raft cf w1 g ls []" using listed_job q Inr inv by blast
      with w1 q Some Listing Inr show ?thesis by (simp add: refresh_tick_def kv_inv_def job_ok_def)
    qed
  next
    case (Reading g todo nxt)
    have jd: "job_data raft cf w g todo nxt" using inv Some Reading by (simp add: kv_inv_def job_ok_def)
    show ?thesis
    proof (cases todo)
      case Nil
      with Some Reading refresh_commit_inv [OF inv] jd show ?thesis by (simp add: refresh_tick_def)
    next
      case (Cons kv rest)
      obtain q w1 where q: "refresh_key cf kv nxt w = (q, w1)" by fastforce
      note step = job_step [OF q inv jd [unfolded Cons]]
      then have w1: "kv_inv raft cf w1" using kv_inv_quiet inv by blast
      show ?thesis
      proof (cases q)
        case (Inl e)
        with q Some Reading Cons kv_inv_idle [OF w1] show ?thesis by (simp add: refresh_tick_def)
      next
        case (Inr nxt')
        then have "job_data raft cf w1 g rest nxt'" using step by blast
        with w1 q Some Reading Cons Inr show ?thesis by (simp add: refresh_tick_def kv_inv_def job_ok_def)
      qed
    qed
  qed
qed

lemma run_job_law:
  assumes run: "run_job cf job w = (r, w')" and inv: "kv_inv raft cf w" and job: "loading w = Some job"
  shows "raft (swarm w') = raft (swarm w) \<and> kv_inv raft cf (w'\<lparr>loading := None\<rparr>) \<and>
    (case r of Inl _ \<Rightarrow> quiet raft w w' | Inr _ \<Rightarrow> loadedAt w' \<noteq> None)"
proof -
  have finish: ?thesis if loop: "refresh_loop cf todo nxt w1 = (q, w2)" and w1: "quiet raft w w1"
    and jd: "job_data raft cf w1 g todo nxt"
    and res: "(r, w') = (case q of Inl e \<Rightarrow> (Inl e, w2) | Inr nxt' \<Rightarrow> (Inr (), refresh_commit cf g nxt' w2))"
    for todo nxt q w1 w2 g
  proof -
    have inv1: "kv_inv raft cf w1" using kv_inv_quiet [OF w1] inv by blast
    note law = refresh_loop_law [OF loop inv1 jd]
    have q2: "quiet raft w w2" using law w1 quiet_trans by blast
    then have inv2: "kv_inv raft cf w2" using kv_inv_quiet inv by blast
    show ?thesis
    proof (cases q)
      case (Inl e)
      with res q2 kv_inv_idle [OF inv2] show ?thesis by (simp add: quiet_fields)
    next
      case (Inr nxt')
      then have "job_data raft cf w2 g [] nxt'" using law by blast
      then have "kv_inv raft cf ((refresh_commit cf g nxt' w2)\<lparr>loading := None\<rparr>)" by (rule refresh_commit_inv [OF inv2])
      with res Inr q2 show ?thesis by (simp add: quiet_fields refresh_commit_def)
    qed
  qed
  show ?thesis
  proof (cases job)
    case (Listing g)
    obtain q w1 where q: "listMine cf w = (q, w1)" by fastforce
    have quiet: "quiet raft w w1" using listMine_law [OF q] by blast
    then have inv1: "kv_inv raft cf w1" using kv_inv_quiet inv by blast
    show ?thesis
    proof (cases q)
      case (Inl e)
      then have "r = Inl e" "w' = w1" using run q Listing by (simp_all add: run_job_def io_bind_def)
      with quiet kv_inv_idle [OF inv1] show ?thesis by (simp add: quiet_fields)
    next
      case (Inr ls)
      have "g \<le> gen w" using inv job Listing by (simp add: kv_inv_def job_ok_def)
      then have jd: "job_data raft cf w1 g ls []" using listed_job q Inr inv by blast
      obtain p w2 where p: "refresh_loop cf ls [] w1 = (p, w2)" by fastforce
      show ?thesis
        by (rule finish [OF p quiet jd]) (use run q Inr p Listing in \<open>simp add: run_job_def io_bind_def io_modify_def split: sum.splits\<close>)
    qed
  next
    case (Reading g todo nxt)
    have jd: "job_data raft cf w g todo nxt" using inv job Reading by (simp add: kv_inv_def job_ok_def)
    obtain p w2 where p: "refresh_loop cf todo nxt w = (p, w2)" by fastforce
    show ?thesis
      by (rule finish [OF p quiet_refl jd]) (use run p Reading in \<open>simp add: run_job_def io_bind_def io_modify_def split: sum.splits\<close>)
  qed
qed

lemma ensureFresh_law:
  assumes run: "ensureFresh cf w = (r, w')" and inv: "kv_inv raft cf w"
  shows "raft (swarm w') = raft (swarm w) \<and> kv_inv raft cf w' \<and> (\<forall>u. r = Inr u \<longrightarrow> loadedAt w' \<noteq> None)"
proof (cases "loadedAt w")
  case (Some t)
  then have "r = Inr () \<and> (w' = w \<or> w' = refresh_begin w)" using run by (auto simp: ensureFresh_def split: if_splits)
  with inv kv_inv_begin [OF inv] Some show ?thesis by (auto simp: refresh_begin_def split: option.splits)
next
  case None
  obtain job where job: "loading (refresh_begin w) = Some job"
    by (cases "loading w") (auto simp: refresh_begin_def)
  obtain q w1 where q: "run_job cf job (refresh_begin w) = (q, w1)" by fastforce
  have rw: "r = q" "w' = w1\<lparr>loading := None\<rparr>" using run None job q by (auto simp: ensureFresh_def refresh_def)
  have "raft (swarm (refresh_begin w)) = raft (swarm w)" by (simp add: refresh_begin_def split: option.split)
  with run_job_law [OF q kv_inv_begin [OF inv] job] rw show ?thesis by (cases q) auto
qed

lemma attempt_spec:
  assumes run: "update_attempt cf c i fn retry w = (r, w')" and key: "kv_key cf c i" and inv: "kv_inv raft cf w"
    and loaded: "loadedAt w \<noteq> None"
    and json: "yields_json (numbers cf) fn (doc_in cf (raft (swarm w)) (c, i))"
    and again: "\<And>w1. quiet raft w w1 \<Longrightarrow> retry w1 = (r, w') \<Longrightarrow>
      kv_inv raft cf w' \<and> loadedAt w' \<noteq> None \<and>
      spec_unless_collision cf fn (c, i) (raft (swarm w1)) r (raft (swarm w'))"
  shows "kv_inv raft cf w' \<and> loadedAt w' \<noteq> None \<and>
    spec_unless_collision cf fn (c, i) (raft (swarm w)) r (raft (swarm w'))"
proof -
  let ?M = "doc_in cf (raft (swarm w))"
  have ok: "store_ok raft cf w" by (rule kv_inv_store_ok [OF inv loaded])
  then have doc: "map_option d_value (docOf c i w) = ?M (c, i)" by (simp add: store_ok_def coherent_docOf key)
  have json': "json_ok (numbers cf) v" if "fn (?M (c, i)) = Inr (Some v)" for v
    using json that by (simp add: yields_json_def)
  show ?thesis
  proof (cases rule: update_attempt_law [OF run key ok json'])
    case (2 w1)
    with again [of w1] show ?thesis by (simp add: quiet_fields)
  next
    case (3 e)
    with inv loaded show ?thesis by (simp add: kv_inv_quiet spec_unless_collision_def update_spec_def quiet_fields)
  next
    case 4
    with inv loaded doc show ?thesis by (simp add: spec_unless_collision_def update_spec_def)
  next
    case (5 v u n x)
    have "stableJson (numbers cf) (kv_canon u) = stableJson (numbers cf) u"
      using 5(5) by (simp add: stored_as_def stableJson_canon)
    with 5(3,4,6) have "no_collision (numbers cf) fn (?M (c, i)) \<Longrightarrow> kv_canon u = kv_canon v" by (simp add: no_collision_def)
    with 5 inv loaded doc show ?thesis by (auto simp: spec_unless_collision_def update_spec_def fun_upd_idem)
  next
    case (6 v d)
    have "loadedAt w' \<noteq> None" using 6(6) loaded by (simp add: kv_frame_def)
    moreover have "kv_inv raft cf w'" by (rule kv_inv_frame [OF inv loaded key 6(6,4)])
    ultimately show ?thesis using 6 by (simp add: spec_unless_collision_def update_spec_def)
  qed
qed

lemma refreshKey_touches:
  assumes "refreshKey cf c i w = (Inr u, w')"
  shows "\<exists>g. map_of (touched w') (keyOf c i) = Some g \<and> gen w < g \<and> g \<le> gen w'"
proof -
  obtain q w1 where l: "listMine cf w = (q, w1)" by fastforce
  obtain ls where q: "q = Inr ls" using assms l by (cases q) (auto simp: refreshKey_def io_bind_def)
  have q1: "quiet raft w w1" using listMine_law [OF l] by blast
  let ?t = "touch (keyOf c i) w1"
  have fields: "touched w' = touched ?t \<and> gen w' = gen ?t"
  proof (cases "opt_or (map_of ls (keyOf c i)) []")
    case Nil
    then show ?thesis using assms l q by (auto simp: refreshKey_def io_bind_def io_modify_def)
  next
    case (Cons v vs)
    obtain p w2 where rd: "readVersion cf c i (vm_seq (last (v # vs))) ?t = (p, w2)" by fastforce
    have "quiet raft ?t w2" using readVersion_law [OF rd] by blast
    moreover obtain val where "p = Inr val" "w' = set_entry (keyOf c i) \<lparr>e_versions = v # vs, e_value = val\<rparr> w2"
      using assms l q Cons rd by (cases p) (auto simp: refreshKey_def io_bind_def io_modify_def split: if_splits)
    ultimately show ?thesis by (simp add: quiet_fields)
  qed
  then show ?thesis using q1 by (simp add: touch_def update_conv' quiet_fields)
qed

lemma refreshKey_inv:
  assumes run: "refreshKey cf c i w = (r, w')" and key: "kv_key cf c i" and inv: "kv_inv raft cf w"
    and loaded: "loadedAt w \<noteq> None"
  shows "kv_inv raft cf w' \<and> loadedAt w' \<noteq> None \<and> raft (swarm w') = raft (swarm w)"
proof -
  have ok: "raft_ok cf (raft (swarm w))" "coherent cf (raft (swarm w)) (entries w)"
    using kv_inv_store_ok [OF inv loaded] by (simp_all add: store_ok_def)
  then have "keys_ok cf (entries w)" by (simp add: coherent_def)
  note law = refreshKey_law [OF run key ok(1) this]
  have "coherent cf (raft (swarm w)) (entries w')"
  proof (cases r)
    case (Inl e)
    with law ok show ?thesis by simp
  next
    case (Inr u)
    show ?thesis
      by (rule coherent_change [OF ok(2) key only_key_refl]) (use law Inr in \<open>auto simp: kv_frame_def\<close>)
  qed
  then have "store_ok raft cf w'" using law ok by (simp add: store_ok_def)
  moreover have "kv_frame raft cf c i w w'" using law by blast
  ultimately have "kv_inv raft cf w'" using kv_inv_frame [OF inv loaded key] by blast
  moreover have "loadedAt w' \<noteq> None" using law loaded by (simp add: kv_frame_def)
  ultimately show ?thesis using law by blast
qed

lemma update_loop_spec:
  assumes "update_loop cf c i fn n w = (r, w')" and "kv_key cf c i" and "kv_inv raft cf w" and "loadedAt w \<noteq> None"
    and "yields_json (numbers cf) fn (doc_in cf (raft (swarm w)) (c, i))"
  shows "kv_inv raft cf w' \<and> loadedAt w' \<noteq> None \<and>
    spec_unless_collision cf fn (c, i) (raft (swarm w)) r (raft (swarm w'))"
  using assms
proof (induction n arbitrary: w)
  case 0
  show ?case
  proof (rule attempt_spec [OF 0(1) [unfolded update_loop.simps] 0(2-5)])
    fix w1 assume q: "quiet raft w w1"
      and "io_throw (KvError CONFLICT (''swarm-kv '' @ c @ ''/'' @ i @ '': gave up after '' @
          digits_of (maxRetries cf + 1) @ '' conflicting writes'')) w1 = (r, w')"
    then have "w' = w1" "\<exists>e. r = Inl e" by (auto simp: io_throw_def)
    with q 0(3,4) show "kv_inv raft cf w' \<and> loadedAt w' \<noteq> None \<and>
        spec_unless_collision cf fn (c, i) (raft (swarm w1)) r (raft (swarm w'))"
      by (auto simp: spec_unless_collision_def update_spec_def kv_inv_quiet quiet_fields)
  qed
next
  case (Suc n)
  show ?case
  proof (rule attempt_spec [OF Suc.prems(1) [unfolded update_loop.simps] Suc.prems(2-5)])
    fix w1 assume q: "quiet raft w w1" and b: "io_bind (refreshKey cf c i) (\<lambda>_. update_loop cf c i fn n) w1 = (r, w')"
    have w1: "kv_inv raft cf w1" "loadedAt w1 \<noteq> None" "raft (swarm w1) = raft (swarm w)"
      using q Suc.prems(3,4) by (simp_all add: kv_inv_quiet quiet_fields)
    from b show "kv_inv raft cf w' \<and> loadedAt w' \<noteq> None \<and>
        spec_unless_collision cf fn (c, i) (raft (swarm w1)) r (raft (swarm w'))"
    proof (cases rule: io_bind_cases)
      case (1 e)
      with refreshKey_inv [OF 1(1) Suc.prems(2) w1(1,2)] show ?thesis by (simp add: spec_unless_collision_def update_spec_def)
    next
      case (2 u w2)
      note rk = refreshKey_inv [OF 2(1) Suc.prems(2) w1(1,2)]
      with Suc.IH [OF 2(2) Suc.prems(2)] Suc.prems(5) w1(3) show ?thesis by simp
    qed
  qed
qed

lemma kv_update_spec:
  assumes run: "kv_update cf c i fn w = (r, w')" and inv: "kv_inv raft cf w"
    and json: "yields_json (numbers cf) fn (doc_in cf (raft (swarm w)) (c, i))"
  shows "kv_inv raft cf w' \<and>
    spec_unless_collision cf fn (c, i) (raft (swarm w)) r (raft (swarm w'))"
proof (cases "check cf c i")
  case (Some e)
  then have "r = Inl e" "w' = w" using run by (simp_all add: kv_update_def io_bind_def io_guard_def io_throw_def)
  with inv show ?thesis by (simp add: spec_unless_collision_def update_spec_def)
next
  case None
  then have key: "kv_key cf c i" by (simp add: kv_key_def)
  have "io_bind (ensureFresh cf) (\<lambda>_. update_loop cf c i fn (maxRetries cf)) w = (r, w')"
    using run None by (simp add: kv_update_def io_bind_def io_guard_def io_return_def)
  then show ?thesis
  proof (cases rule: io_bind_cases)
    case (1 e)
    with ensureFresh_law [OF 1(1) inv] show ?thesis by (simp add: spec_unless_collision_def update_spec_def)
  next
    case (2 u w1)
    have e: "kv_inv raft cf w1" "loadedAt w1 \<noteq> None" "raft (swarm w1) = raft (swarm w)"
      using ensureFresh_law [OF 2(1) inv] by auto
    with update_loop_spec [OF 2(2) key e(1,2)] json show ?thesis by simp
  qed
qed

lemma getDoc_spec:
  assumes run: "getDoc cf c i w = (r, w')" and inv: "kv_inv raft cf w"
  shows "kv_inv raft cf w' \<and> raft (swarm w') = raft (swarm w) \<and>
    (\<forall>d. r = Inr d \<longrightarrow> map_option d_value d = doc_in cf (raft (swarm w)) (c, i))"
proof (cases "check cf c i")
  case (Some e)
  then show ?thesis using run inv by (auto simp: getDoc_def io_bind_def io_guard_def io_throw_def)
next
  case None
  then have key: "kv_key cf c i" by (simp add: kv_key_def)
  have "io_bind (ensureFresh cf) (\<lambda>_ w. (Inr (docOf c i w), w)) w = (r, w')"
    using run None by (simp add: getDoc_def io_bind_def io_guard_def io_return_def)
  then show ?thesis
  proof (cases rule: io_bind_cases)
    case (1 e)
    with ensureFresh_law [OF 1(1) inv] show ?thesis by simp
  next
    case (2 u w1)
    have e: "kv_inv raft cf w1" "loadedAt w1 \<noteq> None" "raft (swarm w1) = raft (swarm w)"
      using ensureFresh_law [OF 2(1) inv] by auto
    then have "coherent cf (raft (swarm w1)) (entries w1)" by (auto simp: kv_inv_def)
    from coherent_docOf [OF this key] 2(2) e show ?thesis by auto
  qed
qed

text \<open>A refreshed key repairs a cache that was wrong about that key only.\<close>

lemma refreshKey_repairs:
  assumes run: "refreshKey cf c i w = (Inr u, w')" and key: "kv_key cf c i" and st: "stale_at raft cf c i w"
  shows "kv_inv raft cf w' \<and> loadedAt w' \<noteq> None \<and> raft (swarm w') = raft (swarm w)"
proof -
  obtain es where es: "kv_inv raft cf (w\<lparr>entries := es\<rparr>)" "\<And>k. k \<noteq> keyOf c i \<Longrightarrow> map_of (entries w) k = map_of es k"
    and ks: "keys_ok cf (entries w)" and loaded: "loadedAt w \<noteq> None" using st by (auto simp: stale_at_def)
  have R: "raft_ok cf (raft (swarm w))" and coh: "coherent cf (raft (swarm w)) es"
    using es(1) loaded by (auto simp: kv_inv_def)
  note law = refreshKey_law [OF run key R ks]
  have fr: "kv_frame raft cf c i w w'" using law by blast
  have touched: "\<exists>g. map_of (touched w') (keyOf c i) = Some g \<and> gen w < g \<and> g \<le> gen w'"
    by (rule refreshKey_touches [OF run])
  have "kv_frame raft cf c i (w\<lparr>entries := es\<rparr>) w'" using fr es(2) touched unfolding kv_frame_def by simp
  moreover have "coherent cf (raft (swarm w)) (entries w')"
    by (rule coherent_change [OF coh key only_key_refl]) (use law fr es(2) in \<open>auto simp: kv_frame_def\<close>)
  then have "store_ok raft cf w'" using law R by (simp add: store_ok_def)
  ultimately have "kv_inv raft cf w'" using kv_inv_frame [OF es(1) _ key] loaded by simp
  moreover have "loadedAt w' \<noteq> None" using fr loaded by (simp add: kv_frame_def)
  ultimately show ?thesis using law by blast
qed

lemma stale_loop_spec:
  assumes run: "update_loop cf c i fn (Suc n) w = (r, w')" and key: "kv_key cf c i" and st: "stale_at raft cf c i w"
    and taken: "next_seq (map_of (entries w) (keyOf c i)) \<in> versions_in (raft (swarm w)) c i"
    and json: "yields_json (numbers cf) fn (doc_in cf (raft (swarm w)) (c, i))"
  shows "raft (swarm w') = raft (swarm w) \<or>
    spec_unless_collision cf fn (c, i) (raft (swarm w)) r (raft (swarm w'))"
proof -
  let ?R = "raft (swarm w)"
  define cur where "cur = map_of (entries w) (keyOf c i)"
  define arg where "arg = (if latest_of (entry_versions cur) = None then None else map_option e_value cur)"
  define retry where "retry = io_bind (refreshKey cf c i) (\<lambda>_. update_loop cf c i fn n)"
  note body = run [unfolded update_loop.simps update_attempt_def Let_def, folded cur_def retry_def, folded arg_def]
  have again: ?thesis if "retry (w\<lparr>swarm := s\<rparr>) = (r, w')" and raft: "raft s = ?R" for s
  proof -
    let ?w1 = "w\<lparr>swarm := s\<rparr>"
    have "kv_inv raft cf (?w1\<lparr>entries := es\<rparr>) = kv_inv raft cf (w\<lparr>entries := es\<rparr>)" for es
      by (rule kv_inv_quiet) (simp add: quiet_def raft)
    then have st1: "stale_at raft cf c i ?w1" using st by (simp add: stale_at_def)
    from that(1) [unfolded retry_def] show ?thesis
    proof (cases rule: io_bind_cases)
      case (1 e)
      have "raft_ok cf (raft (swarm ?w1))" "keys_ok cf (entries ?w1)"
        using st1 by (auto simp: stale_at_def kv_inv_def)
      from refreshKey_law [OF 1(1) key this] raft show ?thesis by simp
    next
      case (2 u w2)
      have w2: "kv_inv raft cf w2" "loadedAt w2 \<noteq> None" "raft (swarm w2) = ?R"
        using refreshKey_repairs [OF 2(1) key st1] raft by simp_all
      with update_loop_spec [OF 2(2) key w2(1,2)] json show ?thesis by simp
    qed
  qed
  show ?thesis
  proof (cases "\<exists>v seq data. fn arg = Inr (Some v) \<and> plan_write cf c i cur (stableJson (numbers cf) v) w = Inr (seq, data) \<and>
      assertNoRunState v = None \<and> map_option vm_sha (latest_of (entry_versions cur)) \<noteq> Some (kvFingerprint (stableJson (numbers cf) v))")
    case False
    then have "w' = w" using body by (auto split: sum.splits option.splits if_splits)
    then show ?thesis by simp
  next
    case True
    then obtain v seq data where v: "fn arg = Inr (Some v)"
      "plan_write cf c i cur (stableJson (numbers cf) v) w = Inr (seq, data)" "assertNoRunState v = None"
      "map_option vm_sha (latest_of (entry_versions cur)) \<noteq> Some (kvFingerprint (stableJson (numbers cf) v))" by blast
    have seq: "seq = next_seq cur" using v(2) by (auto simp: plan_write_def next_seq_def Let_def split: if_splits)
    obtain q s where call: "drv_create (driver cf) (kvConfigName c i seq) data
        (kv_labels cf c i seq (kvFingerprint (stableJson (numbers cf) v)) (length data)) (swarm w) = (q, s)" by fastforce
    obtain e where q: "q = Inl e" "raft s = ?R"
      using create_law [OF call] taken seq by (cases q) (auto simp: cur_def versions_in_def)
    have "w' = w\<lparr>swarm := s\<rparr> \<or> retry (w\<lparr>swarm := s\<rparr>) = (r, w')"
      using body v call q(1) by (simp add: io_call_def split: if_splits)
    then show ?thesis using again q(2) by auto
  qed
qed

lemma kv_update_stale:
  assumes run: "kv_update cf c i fn w = (r, w')" and st: "stale_at raft cf c i w" and retries: "0 < maxRetries cf"
    and taken: "next_seq (map_of (entries w) (keyOf c i)) \<in> versions_in (raft (swarm w)) c i"
    and json: "yields_json (numbers cf) fn (doc_in cf (raft (swarm w)) (c, i))"
  shows "raft (swarm w') = raft (swarm w) \<or>
    spec_unless_collision cf fn (c, i) (raft (swarm w)) r (raft (swarm w'))"
proof (cases "check cf c i")
  case (Some e)
  then have "w' = w" using run by (simp add: kv_update_def io_bind_def io_guard_def io_throw_def)
  then show ?thesis by simp
next
  case None
  then have key: "kv_key cf c i" by (simp add: kv_key_def)
  obtain n where n: "maxRetries cf = Suc n" using retries by (cases "maxRetries cf") auto
  have "loadedAt w \<noteq> None" using st by (simp add: stale_at_def)
  then obtain w1 where w1: "ensureFresh cf w = (Inr (), w1)" "w1 = w \<or> w1 = refresh_begin w"
    by (rule ensureFresh_loaded)
  have "stale_at raft cf c i w1" "entries w1 = entries w" "raft (swarm w1) = raft (swarm w)"
    using w1(2) st stale_at_begin [OF st] by auto
  moreover have "update_loop cf c i fn (Suc n) w1 = (r, w')"
    using run None w1(1) n by (simp add: kv_update_def io_bind_def io_guard_def io_return_def)
  ultimately show ?thesis using stale_loop_spec [OF _ key] taken json by metis
qed

end

text \<open>
  A swarm whose removals fail only on configs that are gone already. Its other calls may fail.
\<close>

locale kv_removing = kv_store +
  assumes remove_gone: "drv_remove (driver cf) n s = (Inl e, s') \<Longrightarrow> gone_message e"
begin

lemma removeQuietly_gone:
  assumes "removeQuietly cf (kvConfigName c i n) w = (r, w')"
  shows "r = Inr True \<and> w' = w\<lparr>swarm := swarm w'\<rparr> \<and>
    raft (swarm w') = (raft (swarm w))(kvConfigName c i n := None)"
proof -
  have "r \<noteq> Inr False"
    using assms remove_gone by (auto simp: removeQuietly_def io_call_def split: prod.splits sum.splits)
  with removeQuietly_law [OF assms] show ?thesis by blast
qed

lemma remove_all_law:
  "remove_all cf c i vs w = (r, w') \<Longrightarrow>
   r = Inr () \<and> w' = w\<lparr>swarm := swarm w'\<rparr> \<and> raft (swarm w') = without (raft (swarm w)) c i vs"
proof (induction vs arbitrary: w)
  case Nil
  then show ?case by (simp add: io_return_def)
next
  case (Cons v vs)
  obtain q w1 where q: "removeQuietly cf (kvConfigName c i (vm_seq v)) w = (q, w1)" by fastforce
  note rq = removeQuietly_gone [OF q]
  then have "remove_all cf c i vs w1 = (r, w')" using Cons.prems q by (simp add: io_bind_def)
  note IH = Cons.IH [OF this]
  have "w' = w\<lparr>swarm := swarm w'\<rparr>" using swarm_only_trans rq IH by blast
  moreover have "raft (swarm w') = without (raft (swarm w)) c i (v # vs)" unfolding without_Cons using IH rq by metis
  ultimately show ?case using IH by blast
qed

text \<open>Versions are removed from the oldest: an interrupted removal leaves the document as it was.\<close>

lemma interrupted_removal:
  assumes run: "remove_all cf c i (take m (e_versions e)) w = (r, w')" and key: "kv_key cf c i"
    and ok: "entry_ok cf (raft (swarm w)) c i (Some e)" and m: "m < length (e_versions e)"
  shows "doc_in cf (raft (swarm w')) = doc_in cf (raft (swarm w))"
proof
  fix p
  let ?R = "raft (swarm w)" and ?vs = "e_versions e" and ?R' = "without (raft (swarm w)) c i (take m (e_versions e))"
  have R': "raft (swarm w') = ?R'" using remove_all_law [OF run] by blast
  show "doc_in cf (raft (swarm w')) p = doc_in cf ?R p"
  proof (cases "p = (c, i)")
    case False
    then show ?thesis unfolding R' by (rule only_key_doc [OF without_only_key [OF key]])
  next
    case True
    have metas: "metas_ok ?R c i ?vs" and ne: "?vs \<noteq> []" using ok by (simp_all add: entry_ok_def)
    have split: "?vs = take m ?vs @ drop m ?vs" by simp
    have "sorted_wrt (\<lambda>a b. vm_seq a < vm_seq b) (take m ?vs @ drop m ?vs)" using metas by (simp add: metas_ok_def)
    then have less: "vm_seq a < vm_seq (last ?vs)" if "a \<in> set (take m ?vs)" for a
      using that m unfolding sorted_wrt_append by (metis drop_eq_Nil last_drop last_in_set not_le)
    then have notin: "vm_seq (last ?vs) \<notin> vm_seq ` set (take m ?vs)" by (metis imageE less_irrefl)
    note latest = metas_ok_latest [OF metas ne]
    have vers: "versions_in ?R' c i = versions_in ?R c i - vm_seq ` set (take m ?vs)"
      by (rule versions_in_without [OF key])
    then have "vm_seq (last ?vs) \<in> versions_in ?R' c i" using latest(2) notin by blast
    moreover from this have "Max (versions_in ?R' c i) = vm_seq (last ?vs)"
      using latest(1) vers by (intro Max_eqI) auto
    moreover have "?R' (kvConfigName c i (vm_seq (last ?vs))) = ?R (kvConfigName c i (vm_seq (last ?vs)))"
      using notin by (auto simp: without_def name_inj [OF key key])
    ultimately show ?thesis using True latest R' by (auto simp: doc_in_def)
  qed
qed

lemma kv_delete_spec:
  assumes run: "kv_delete cf c i w = (r, w')" and inv: "kv_inv raft cf w"
  shows "kv_inv raft cf w' \<and>
    (case r of
       Inl _ \<Rightarrow> doc_in cf (raft (swarm w')) = doc_in cf (raft (swarm w))
     | Inr b \<Rightarrow> doc_in cf (raft (swarm w')) = (doc_in cf (raft (swarm w)))((c, i) := None) \<and>
         versions_in (raft (swarm w')) c i = {} \<and> b = (doc_in cf (raft (swarm w)) (c, i) \<noteq> None))"
proof (cases "check cf c i")
  case (Some e)
  then have "r = Inl e" "w' = w" using run by (simp_all add: kv_delete_def io_bind_def io_guard_def io_throw_def)
  with inv show ?thesis by simp
next
  case None
  then have key: "kv_key cf c i" by (simp add: kv_key_def)
  define body where "body = (\<lambda>_::unit. \<lambda>w. case map_of (entries w) (keyOf c i) of
         None \<Rightarrow> (Inr False, w)
       | Some e \<Rightarrow>
           io_bind (remove_all cf c i (e_versions e)) (\<lambda>_.
           io_bind (io_modify (drop_entry (keyOf c i))) (\<lambda>_.
           io_bind (io_modify (touch (keyOf c i))) (\<lambda>_. io_return True))) w)"
  have "io_bind (ensureFresh cf) (\<lambda>_. io_bind (refreshKey cf c i) body) w = (r, w')"
    using run None by (simp add: kv_delete_def body_def io_bind_def io_guard_def io_return_def)
  then show ?thesis
  proof (cases rule: io_bind_cases)
    case (1 e)
    with ensureFresh_law [OF 1(1) inv] show ?thesis by simp
  next
    case (2 u w1)
    have w1: "kv_inv raft cf w1" "loadedAt w1 \<noteq> None" "raft (swarm w1) = raft (swarm w)"
      using ensureFresh_law [OF 2(1) inv] by auto
    from 2(2) show ?thesis
    proof (cases rule: io_bind_cases)
      case (1 e)
      with refreshKey_inv [OF 1(1) key w1(1,2)] w1(3) show ?thesis by simp
    next
      case (2 u w2)
      have w2: "kv_inv raft cf w2" "loadedAt w2 \<noteq> None" "raft (swarm w2) = raft (swarm w)"
        using refreshKey_inv [OF 2(1) key w1(1,2)] w1(3) by auto
      then have ok: "raft_ok cf (raft (swarm w2))" and coh: "coherent cf (raft (swarm w2)) (entries w2)"
        by (auto simp: kv_inv_def)
      show ?thesis
      proof (cases "map_of (entries w2) (keyOf c i)")
        case None
        then have "r = Inr False" "w' = w2" using 2(2) by (simp_all add: body_def)
        moreover have "versions_in (raft (swarm w2)) c i = {}" using coherentD [OF coh key] None by (simp add: entry_ok_def)
        moreover from this have "doc_in cf (raft (swarm w2)) (c, i) = None" by (simp add: doc_in_def)
        ultimately show ?thesis using w2 by (simp add: fun_upd_idem)
      next
        case (Some e)
        obtain q w3 where rem: "remove_all cf c i (e_versions e) w2 = (q, w3)" by fastforce
        note ra = remove_all_law [OF rem]
        have rw: "r = Inr True" "w' = touch (keyOf c i) (drop_entry (keyOf c i) w3)"
          using 2(2) Some rem ra by (simp_all add: body_def io_bind_def io_modify_def io_return_def)
        let ?R2 = "raft (swarm w2)" and ?R3 = "without (raft (swarm w2)) c i (e_versions e)"
        have eok: "entry_ok cf ?R2 c i (Some e)" using coherentD [OF coh key] Some by simp
        then have empty: "versions_in ?R3 c i = {}"
          unfolding versions_in_without [OF key] by (simp add: entry_ok_def metas_ok_def)
        have w3: "w3 = w2\<lparr>swarm := swarm w3\<rparr>" "raft (swarm w3) = ?R3" using ra by blast+
        have f3: "entries w3 = entries w2" "touched w3 = touched w2" "gen w3 = gen w2" "loadedAt w3 = loadedAt w2"
          "loading w3 = loading w2" by (subst w3(1), simp)+
        have only: "only_key cf c i ?R2 ?R3" by (rule without_only_key [OF key])
        have "kv_frame raft cf c i w2 w'"
          by (rule kv_frame_touch [OF key]) (use only w3(2) f3 in \<open>simp_all add: rw touch_def\<close>)
        moreover have "coherent cf ?R3 (entries w')"
          using coh empty
          by (intro coherent_change [OF coh key only])
            (simp_all add: rw f3 entry_ok_def drop_entry_def delete_conv' coherent_def keys_ok_delete)
        moreover have "raft_ok cf ?R3" by (rule raft_ok_subset [OF ok]) (auto simp: without_def)
        ultimately have "kv_inv raft cf w'"
          by (intro kv_inv_frame [OF w2(1,2) key]) (simp_all add: store_ok_def rw w3(2))
        moreover have "doc_in cf ?R3 = (doc_in cf ?R2)((c, i) := None)"
          using only_key_doc [OF only] empty by (auto simp: doc_in_def)
        moreover have "doc_in cf ?R2 (c, i) \<noteq> None" using entry_ok_doc [OF key eok] by simp
        ultimately show ?thesis using rw w3(2) empty w2(3) by simp
      qed
    qed
  qed
qed

end

text \<open>A swarm that accepts every config with a free name.\<close>

locale kv_up = kv_removing +
  assumes create_up: "raft s n = None \<Longrightarrow> \<exists>s'. drv_create (driver cf) n d l s = (Inr (), s')"

end
