(* ===== verification/KvSystem.thy ===== *)
theory KvSystem
  imports KvStore
begin

text \<open>
  The document store over the in-memory swarm, and over any swarm that keeps its laws: what a
  caller of the store, and a user of its backups, can rely on.
\<close>

section \<open>The in-memory swarm keeps the laws\<close>

definition mem_raft :: "mem_swarm \<Rightarrow> raft" where
  "mem_raft s = DAList.lookup (configs s)"

definition mem_conf :: "string \<Rightarrow> js_num \<Rightarrow> kv_options \<Rightarrow> mem_swarm kv_conf" where
  "mem_conf org nf opts = kv_conf_of org (memoryKvDriver (\<lambda>_ s. s)) plainKvSealer mem_now nf opts"

lemma mem_conf_fields [simp]:
  "driver (mem_conf org nf opts) = memoryKvDriver (\<lambda>_ s. s)" "sealer (mem_conf org nf opts) = plainKvSealer"
  "numbers (mem_conf org nf opts) = nf" "keep (mem_conf org nf opts) = max 1 (opt_or (o_keepVersions opts) KV_KEEP_VERSIONS)"
  by (simp_all add: mem_conf_def kv_conf_of_def)

lemma listing_mem: "mem_list s = (r, s') \<Longrightarrow> mem_raft s' = mem_raft s \<and> (\<forall>xs. r = Inr xs \<longrightarrow> listing (mem_raft s) xs)"
proof -
  let ?f = "\<lambda>(n, x). \<lparr>ci_name = n, ci_created = mc_created x, ci_labels = mc_labels x\<rparr>"
  let ?cs = "DAList.impl_of (configs s)"
  have dist: "distinct (map fst ?cs)" by simp
  have "map ci_name (map ?f ?cs) = map fst ?cs" by (simp add: case_prod_beta comp_def)
  then have "distinct (map ci_name (map ?f ?cs))" using dist by (simp only:)
  moreover have "x \<in> set (map ?f ?cs) \<longleftrightarrow>
      (\<exists>y. mem_raft s (ci_name x) = Some y \<and> ci_labels x = mc_labels y \<and> ci_created x = mc_created y)" for x
    using dist by (cases x) (auto simp: mem_raft_def DAList.lookup.rep_eq map_of_eq_Some_iff image_iff split: prod.splits)
  ultimately have "listing (mem_raft s) (map ?f ?cs)" by (simp add: listing_def)
  moreover assume "mem_list s = (r, s')"
  ultimately show ?thesis by (auto simp: mem_list_def mem_raft_def note_call_def)
qed

lemma js_includes_middle: "js_includes (a @ t @ b) t"
  unfolding js_includes_def in_set_suffixes
  by (rule bexI [of _ "t @ b"]) (auto simp: suffix_def js_starts_with_iff)

lemma gone_message_mem: "gone_message (OtherError (''config '' @ n @ '' not found''))"
proof -
  have "js_lower (''config '' @ n @ '' not found'') = js_lower (''config '' @ n @ '' '') @ ''not found'' @ []"
    by (simp add: js_lower_def lower_char_def)
  then show ?thesis using js_includes_middle by (metis exn_message.simps(2) gone_message_def)
qed

lemma lookup_update_map: "DAList.lookup (DAList.update k v m) = (DAList.lookup m)(k \<mapsto> v)"
  by (rule ext) (simp add: lookup_update)

lemma mem_create_law:
  assumes "mem_create (\<lambda>_ s. s) n d l s = (r, s')"
  shows "case r of Inl e \<Rightarrow> mem_raft s' = mem_raft s
    | Inr _ \<Rightarrow> mem_raft s n = None \<and>
        (\<exists>t. mem_raft s' = (mem_raft s)(n \<mapsto> \<lparr>mc_data = d, mc_labels = l, mc_created = t\<rparr>))"
  using assms by (auto simp: mem_create_def mem_raft_def note_call_def Let_def lookup_update_map split: if_splits)

lemma mem_remove_law:
  assumes "mem_remove n s = (r, s')"
  shows "case r of Inl e \<Rightarrow> mem_raft s' = mem_raft s \<and> mem_raft s n = None \<and> gone_message e
    | Inr _ \<Rightarrow> mem_raft s' = (mem_raft s)(n := None)"
  using assms gone_message_mem [of n] by (auto simp: mem_remove_def mem_raft_def note_call_def split: if_splits)

lemma mem_read_law:
  assumes "mem_read n s = (r, s')"
  shows "mem_raft s' = mem_raft s \<and> (\<forall>d. r = Inr d \<longrightarrow> (\<exists>x. mem_raft s n = Some x \<and> mc_data x = d))"
  using assms by (auto simp: mem_read_def mem_raft_def note_call_def split: option.splits)

interpretation mem: kv_up "mem_conf org nf opts" mem_raft for org nf opts
proof (unfold_locales, goal_cases)
  case (1 s r s')
  then show ?case by (simp add: memoryKvDriver_def listing_mem)
next
  case (2 n s r s')
  then show ?case by (simp add: memoryKvDriver_def mem_read_law)
next
  case (3 n d l s r s')
  then show ?case using mem_create_law [of n d l s r s'] by (simp add: memoryKvDriver_def)
next
  case (4 n s r s')
  then show ?case using mem_remove_law [of n s r s'] by (auto simp: memoryKvDriver_def split: sum.splits)
next
  case 5
  show ?case by (simp add: sealer_ok_def plainKvSealer_def)
next
  case 6
  show ?case by simp
next
  case (7 n s e s')
  then show ?case using mem_remove_law [of n s "Inl e" s'] by (simp add: memoryKvDriver_def)
next
  case (8 s n d l)
  then show ?case by (simp add: memoryKvDriver_def mem_create_def mem_raft_def note_call_def Let_def)
qed

section \<open>Updates\<close>

lemma raft_ok_empty: "raft_ok cf (\<lambda>_. None)"
  by (simp add: raft_ok_def)

lemma kv_inv_new: "raft_ok cf (raft s) \<Longrightarrow> kv_inv raft cf (new_kv s)"
  by (simp add: kv_inv_def new_kv_def job_ok_def)

definition empty_swarm :: mem_swarm where
  "empty_swarm = \<lparr>configs = DAList.empty, calls = [], mem_now = 0\<rparr>"

definition demo_opts :: kv_options where
  "demo_opts = \<lparr>o_collections = Some [''ingress'', ''mesh''], o_maxDocBytes = None, o_maxTotalBytes = None,
     o_keepVersions = None, o_refreshMs = None, o_maxRetries = None\<rparr>"

abbreviation demo_conf :: "mem_swarm kv_conf" where
  "demo_conf \<equiv> mem_conf ''org1'' demo_num demo_opts"

definition demo_value :: "nat \<Rightarrow> json" where
  "demo_value n = JObj [(''p'', JNum (of_nat n))]"

text \<open>A store that has written one document to an empty swarm.\<close>

definition demo_store :: "mem_swarm kv" where
  "demo_store = snd (kv_put demo_conf ''ingress'' ''o1'' (demo_value 80) (new_kv empty_swarm))"

lemma empty_swarm_raft: "mem_raft empty_swarm = (\<lambda>_. None)"
  by (auto simp: mem_raft_def empty_swarm_def)

lemma demo_new_inv: "kv_inv mem_raft demo_conf (new_kv empty_swarm)"
  by (rule kv_inv_new) (simp add: empty_swarm_raft raft_ok_empty)

lemma demo_value_ok: "json_ok demo_num (demo_value 80)" "json_ok demo_num (demo_value 81)"
  by code_simp+

lemma demo_store_inv: "kv_inv mem_raft demo_conf demo_store"
proof -
  obtain r where "kv_update demo_conf ''ingress'' ''o1'' (\<lambda>_. Inr (Some (demo_value 80))) (new_kv empty_swarm) = (r, demo_store)"
    unfolding demo_store_def kv_put_def by (metis prod.collapse)
  then show ?thesis
    using mem.kv_update_spec [OF _ demo_new_inv] demo_value_ok(1) by (simp add: yields_json_def)
qed




text \<open>Another controller loaded its cache before the document was written.\<close>

definition demo_stale :: "mem_swarm kv" where
  "demo_stale = demo_store\<lparr>entries := []\<rparr>"

lemma demo_store_facts:
  "loadedAt demo_store \<noteq> None \<and> map fst (entries demo_store) = [keyOf ''ingress'' ''o1''] \<and>
   mem_raft (swarm demo_store) (kvConfigName ''ingress'' ''o1'' 1) \<noteq> None"
proof -
  have "let w = demo_store in
      loadedAt w \<noteq> None \<and> map fst (entries w) = [keyOf ''ingress'' ''o1''] \<and>
      mem_raft (swarm w) (kvConfigName ''ingress'' ''o1'' 1) \<noteq> None" by code_simp
  then show ?thesis by (simp add: Let_def)
qed

lemma demo_stale_at: "stale_at mem_raft demo_conf ''ingress'' ''o1'' demo_stale"
proof -
  have "kv_inv mem_raft demo_conf (demo_stale\<lparr>entries := entries demo_store\<rparr>)"
    using demo_store_inv by (simp add: demo_stale_def)
  moreover have "map_of (entries demo_stale) k = map_of (entries demo_store) k" if "k \<noteq> keyOf ''ingress'' ''o1''" for k
    using demo_store_facts that by (cases "entries demo_store") (auto simp: demo_stale_def)
  moreover have "loadedAt demo_stale \<noteq> None" "keys_ok demo_conf (entries demo_stale)"
    using demo_store_facts by (simp_all add: demo_stale_def)
  ultimately show ?thesis unfolding stale_at_def by blast
qed


section \<open>Deletes\<close>



text \<open>
  A delete removes the oldest version first: when it is interrupted after any number of removals but
  the last, the document still reads as before, and no older version has come back.
\<close>

theorem interrupted_delete_keeps_document:
  assumes "kv_removing cf raft" and "kv_inv raft cf w" and "loadedAt w \<noteq> None" and "kv_key cf c i"
    and "map_of (entries w) (keyOf c i) = Some e" and "m < length (e_versions e)"
    and "remove_all cf c i (take m (e_versions e)) w = (r, w')"
  shows "doc_in cf (raft (swarm w')) = doc_in cf (raft (swarm w))"
proof (rule kv_removing.interrupted_removal [OF assms(1,7,4) _ assms(6)])
  have "coherent cf (raft (swarm w)) (entries w)" using assms(2,3) by (auto simp: kv_inv_def)
  then show "entry_ok cf (raft (swarm w)) c i (Some e)" using coherentD [of cf _ _ c i] assms(4,5) by metis
qed

definition demo_store2 :: "mem_swarm kv" where
  "demo_store2 = snd (kv_put demo_conf ''ingress'' ''o1'' (demo_value 81) demo_store)"

lemma demo_store2_inv: "kv_inv mem_raft demo_conf demo_store2"
proof -
  obtain r where "kv_update demo_conf ''ingress'' ''o1'' (\<lambda>_. Inr (Some (demo_value 81))) demo_store = (r, demo_store2)"
    unfolding demo_store2_def kv_put_def by (metis prod.collapse)
  then show ?thesis
    using mem.kv_update_spec [OF _ demo_store_inv] demo_value_ok(2) by (simp add: yields_json_def)
qed

lemma demo_store2_facts:
  "loadedAt demo_store2 \<noteq> None \<and> check demo_conf ''ingress'' ''o1'' = None \<and>
   map vm_seq (entry_versions (map_of (entries demo_store2) (keyOf ''ingress'' ''o1''))) = [1, 2]"
proof -
  have "let w = demo_store2 in
      loadedAt w \<noteq> None \<and> check demo_conf ''ingress'' ''o1'' = None \<and>
      map vm_seq (entry_versions (map_of (entries w) (keyOf ''ingress'' ''o1''))) = [1, 2]" by code_simp
  then show ?thesis by (simp add: Let_def)
qed

theorem interrupted_delete_keeps_document_witness:
  "\<exists>e r w'. map_of (entries demo_store2) (keyOf ''ingress'' ''o1'') = Some e \<and>
     remove_all demo_conf ''ingress'' ''o1'' (take 1 (e_versions e)) demo_store2 = (r, w') \<and>
     doc_in demo_conf (mem_raft (swarm w')) = doc_in demo_conf (mem_raft (swarm demo_store2))"
proof -
  obtain e where e: "map_of (entries demo_store2) (keyOf ''ingress'' ''o1'') = Some e" "map vm_seq (e_versions e) = [1, 2]"
    using demo_store2_facts by (cases "map_of (entries demo_store2) (keyOf ''ingress'' ''o1'')") (auto simp: entry_versions_def)
  from e(2) have len: "1 < length (e_versions e)" by (metis length_map length_Cons list.size(3) lessI One_nat_def)
  obtain r w' where run: "remove_all demo_conf ''ingress'' ''o1'' (take 1 (e_versions e)) demo_store2 = (r, w')" by fastforce
  have "doc_in demo_conf (mem_raft (swarm w')) = doc_in demo_conf (mem_raft (swarm demo_store2))"
    by (rule interrupted_delete_keeps_document [OF mem.kv_removing_axioms demo_store2_inv _ _ e(1) len run])
      (use demo_store2_facts in \<open>simp_all add: kv_key_def\<close>)
  with e(1) run show ?thesis by blast
qed

section \<open>The cache under interleaving\<close>

text \<open>
  What one controller does to its store: reads, updates and deletes, each one function since the
  class serialises them, and between them the steps of a refresh in the background.
\<close>

inductive kv_step :: "'s kv_conf \<Rightarrow> 's kv \<Rightarrow> 's kv \<Rightarrow> bool" for cf where
  tick: "kv_step cf w (refresh_tick cf w)"
| read: "getDoc cf c i w = (r, w') \<Longrightarrow> kv_step cf w w'"
| update: "kv_update cf c i fn w = (r', w') \<Longrightarrow> (\<And>x. yields_json (numbers cf) fn x) \<Longrightarrow> kv_step cf w w'"
| delete: "kv_delete cf c i w = (r'', w') \<Longrightarrow> kv_step cf w w'"

inductive_cases kv_stepE: "kv_step cf w w'"

lemma kv_step_inv: "kv_removing cf raft \<Longrightarrow> kv_step cf w w' \<Longrightarrow> kv_inv raft cf w \<Longrightarrow> kv_inv raft cf w'"
proof (erule kv_step.cases)
  assume sw: "kv_removing cf raft" and inv: "kv_inv raft cf w"
  note st = kv_removing.axioms(1) [OF sw]
  show "kv_inv raft cf w'" if "w = u" "w' = refresh_tick cf u" for u
    using kv_store.refresh_tick_inv [OF st inv] that by simp
  show "kv_inv raft cf w'" if "w = u" "w' = v" "getDoc cf c i u = (r, v)" for u v c i r
    using kv_store.getDoc_spec [OF st _ inv] that by blast
  show "kv_inv raft cf w'" if "w = u" "w' = v" "kv_update cf c i fn u = (r, v)" "\<And>x. yields_json (numbers cf) fn x" for u v c i fn r
    using kv_store.kv_update_spec [OF st _ inv] that by blast
  show "kv_inv raft cf w'" if "w = u" "w' = v" "kv_delete cf c i u = (r, v)" for u v c i r
    using kv_removing.kv_delete_spec [OF sw _ inv] that by blast
qed

lemma kv_steps_inv:
  "(kv_step cf)\<^sup>*\<^sup>* w w' \<Longrightarrow> kv_removing cf raft \<Longrightarrow> kv_inv raft cf w \<Longrightarrow> kv_inv raft cf w'"
  by (induction rule: rtranclp_induct) (auto intro: kv_step_inv)



end
