(* ===== verification/KvLimits.thy ===== *)
theory KvLimits
  imports KvSystem
begin

text \<open>
  The limits of the document store: which writes it refuses and that a refused write changes
  nothing, that an accepted write succeeds, and that the versions it keeps stay within the budget.
\<close>

section \<open>One attempt, case by case\<close>

lemma update_attempt_cases:
  assumes run: "update_attempt cf c i fn retry w = (r, w')"
  obtains (idle) "w' = w"
  | (threw) e s where "r = Inl e" and "w' = w\<lparr>swarm := s\<rparr>"
  | (lost) s where "retry (w\<lparr>swarm := s\<rparr>) = (r, w')"
      and "\<exists>n d l e. drv_create (driver cf) n d l (swarm w) = (Inl e, s)"
  | (created) v seq data l s where "plan_write cf c i (map_of (entries w) (keyOf c i)) (stableJson (numbers cf) v) w = Inr (seq, data)"
      and "drv_create (driver cf) (kvConfigName c i seq) data l (swarm w) = (Inr (), s)"
      and "after_create cf c i (map_of (entries w) (keyOf c i)) seq (stableJson (numbers cf) v) data (w\<lparr>swarm := s\<rparr>) = (r, w')"
proof -
  define cur where "cur = map_of (entries w) (keyOf c i)"
  define arg where "arg = (if latest_of (entry_versions cur) = None then None else map_option e_value cur)"
  note body = run [unfolded update_attempt_def Let_def, folded cur_def, folded arg_def]
  show thesis
  proof (cases "\<exists>v seq data. fn arg = Inr (Some v) \<and> plan_write cf c i cur (stableJson (numbers cf) v) w = Inr (seq, data) \<and>
      assertNoRunState v = None \<and> map_option vm_sha (latest_of (entry_versions cur)) \<noteq> Some (kvFingerprint (stableJson (numbers cf) v))")
    case False
    then have "w' = w" using body by (auto split: sum.splits option.splits if_splits)
    then show thesis by (rule idle)
  next
    case True
    then obtain v seq data where v: "fn arg = Inr (Some v)"
      "plan_write cf c i cur (stableJson (numbers cf) v) w = Inr (seq, data)" "assertNoRunState v = None"
      "map_option vm_sha (latest_of (entry_versions cur)) \<noteq> Some (kvFingerprint (stableJson (numbers cf) v))" by blast
    define l where "l = kv_labels cf c i seq (kvFingerprint (stableJson (numbers cf) v)) (length data)"
    obtain q s where call: "drv_create (driver cf) (kvConfigName c i seq) data l (swarm w) = (q, s)" by fastforce
    show thesis
    proof (cases q)
      case (Inl e)
      then have "r = Inl e \<and> w' = w\<lparr>swarm := s\<rparr> \<or> retry (w\<lparr>swarm := s\<rparr>) = (r, w')"
        using body [unfolded v(1,3) sum.case option.case if_not_P [OF v(4)] v(2) prod.case] call
        by (simp add: l_def io_call_def split: if_splits)
      then show thesis using threw lost call Inl by blast
    next
      case (Inr u)
      then have "after_create cf c i cur seq (stableJson (numbers cf) v) data (w\<lparr>swarm := s\<rparr>) = (r, w')"
        using body [unfolded v(1,3) sum.case option.case if_not_P [OF v(4)] v(2) prod.case] call
        by (simp add: l_def io_call_def)
      then show thesis using created v(2) call Inr unfolding cur_def by simp
    qed
  qed
qed

section \<open>Refused writes\<close>

text \<open>The cache is loaded and not due for a refresh.\<close>

definition settled :: "'s kv_conf \<Rightarrow> 's kv \<Rightarrow> bool" where
  "settled cf w = (case loadedAt w of None \<Rightarrow> False | Some t \<Rightarrow> now cf (swarm w) - t < refreshMs cf)"

definition stored_bytes :: "'s kv_conf \<Rightarrow> json \<Rightarrow> int" where
  "stored_bytes cf v = int (length (toB64 (sealer_seal (sealer cf) (stableJson (numbers cf) v))))"

definition pruned_bytes :: "'s kv_conf \<Rightarrow> kv_entry option \<Rightarrow> int" where
  "pruned_bytes cf cur =
     sum_list (map vm_bytes (take (length (entry_versions cur) + 1 - keep cf) (entry_versions cur)))"

lemma put_settled:
  assumes "check cf c i = None" and "settled cf w"
  shows "kv_put cf c i v w = update_loop cf c i (\<lambda>_. Inr (Some v)) (maxRetries cf) w"
  using assms
  by (auto simp: kv_put_def kv_update_def io_bind_def io_guard_def io_return_def settled_def ensureFresh_def split: option.splits)

lemma put_refused:
  assumes "check cf c i = None" and "settled cf w" and "assertNoRunState v = None"
    and "map_option vm_sha (latest_of (entry_versions cur)) \<noteq> Some (kvFingerprint (stableJson (numbers cf) v))"
    and "cur = map_of (entries w) (keyOf c i)" and "plan_write cf c i cur (stableJson (numbers cf) v) w = Inl e"
  shows "kv_put cf c i v w = (Inl e, w)"
proof -
  have "update_attempt cf c i (\<lambda>_. Inr (Some v)) retry w = (Inl e, w)" for retry
    using assms(3-6) by (simp add: update_attempt_def Let_def)
  then show ?thesis unfolding put_settled [OF assms(1,2)] by (cases "maxRetries cf") simp_all
qed

lemma put_refusals:
  assumes settled: "settled cf w" and cur: "cur = map_of (entries w) (keyOf c i)"
    and changed: "map_option vm_sha (latest_of (entry_versions cur)) \<noteq> Some (kvFingerprint (stableJson (numbers cf) v))"
  shows "check cf c i = Some e \<Longrightarrow> kv_put cf c i v w = (Inl e, w)"
    and "check cf c i = None \<Longrightarrow> assertNoRunState v = Some e \<Longrightarrow> kv_put cf c i v w = (Inl e, w)"
    and "check cf c i = None \<Longrightarrow> assertNoRunState v = None \<Longrightarrow> stored_bytes cf v > maxDocBytes cf \<Longrightarrow>
      \<exists>m. kv_put cf c i v w = (Inl (KvError TOO_LARGE m), w)"
    and "check cf c i = None \<Longrightarrow> assertNoRunState v = None \<Longrightarrow> stored_bytes cf v \<le> maxDocBytes cf \<Longrightarrow>
      next_seq cur > KV_MAX_SEQ \<Longrightarrow> \<exists>m. kv_put cf c i v w = (Inl (KvError INVALID m), w)"
    and "check cf c i = None \<Longrightarrow> assertNoRunState v = None \<Longrightarrow> stored_bytes cf v \<le> maxDocBytes cf \<Longrightarrow>
      next_seq cur \<le> KV_MAX_SEQ \<Longrightarrow> footprint w + stored_bytes cf v - pruned_bytes cf cur > maxTotalBytes cf \<Longrightarrow>
      \<exists>m. kv_put cf c i v w = (Inl (KvError BUDGET m), w)"
proof -
  show "check cf c i = Some e \<Longrightarrow> kv_put cf c i v w = (Inl e, w)"
    by (simp add: kv_put_def kv_update_def io_bind_def io_guard_def io_throw_def)
  assume key: "check cf c i = None"
  {
    assume "assertNoRunState v = Some e"
    then have "update_attempt cf c i (\<lambda>_. Inr (Some v)) retry w = (Inl e, w)" for retry
      by (simp add: update_attempt_def Let_def)
    then show "kv_put cf c i v w = (Inl e, w)"
      unfolding put_settled [OF key settled] by (cases "maxRetries cf") simp_all
  }
  assume state: "assertNoRunState v = None"
  note refuse = put_refused [OF key settled state changed cur]
  note plan = plan_write_def stored_bytes_def pruned_bytes_def next_seq_def Let_def
  {
    assume "stored_bytes cf v > maxDocBytes cf"
    then have "\<exists>m. plan_write cf c i cur (stableJson (numbers cf) v) w = Inl (KvError TOO_LARGE m)" by (simp add: plan)
    then show "\<exists>m. kv_put cf c i v w = (Inl (KvError TOO_LARGE m), w)" using refuse by blast
  }
  assume size: "stored_bytes cf v \<le> maxDocBytes cf"
  {
    assume "next_seq cur > KV_MAX_SEQ"
    with size have "\<exists>m. plan_write cf c i cur (stableJson (numbers cf) v) w = Inl (KvError INVALID m)" by (simp add: plan)
    then show "\<exists>m. kv_put cf c i v w = (Inl (KvError INVALID m), w)" using refuse by blast
  }
  assume "next_seq cur \<le> KV_MAX_SEQ" and "footprint w + stored_bytes cf v - pruned_bytes cf cur > maxTotalBytes cf"
  with size have "\<exists>m. plan_write cf c i cur (stableJson (numbers cf) v) w = Inl (KvError BUDGET m)" by (simp add: plan)
  then show "\<exists>m. kv_put cf c i v w = (Inl (KvError BUDGET m), w)" using refuse by blast
qed

text \<open>
  A put is refused, with the error the code names and with the store and the swarm exactly as they
  were, when its key is not one of the store, when the document holds run state, when its stored form
  is over the limit for a document, when its version numbers are used up, and when the versions kept
  after it would exceed the budget.
\<close>

theorem refused_put_changes_nothing:
  assumes "settled cf w" and "cur = map_of (entries w) (keyOf c i)"
    and "map_option vm_sha (latest_of (entry_versions cur)) \<noteq> Some (kvFingerprint (stableJson (numbers cf) v))"
  shows "(\<forall>e. check cf c i = Some e \<longrightarrow> kv_put cf c i v w = (Inl e, w)) \<and>
    (check cf c i = None \<longrightarrow>
       (\<forall>e. assertNoRunState v = Some e \<longrightarrow> kv_put cf c i v w = (Inl e, w)) \<and>
       (assertNoRunState v = None \<longrightarrow>
          (stored_bytes cf v > maxDocBytes cf \<longrightarrow> (\<exists>m. kv_put cf c i v w = (Inl (KvError TOO_LARGE m), w))) \<and>
          (stored_bytes cf v \<le> maxDocBytes cf \<longrightarrow>
             (next_seq cur > KV_MAX_SEQ \<longrightarrow> (\<exists>m. kv_put cf c i v w = (Inl (KvError INVALID m), w))) \<and>
             (next_seq cur \<le> KV_MAX_SEQ \<longrightarrow>
                footprint w + stored_bytes cf v - pruned_bytes cf cur > maxTotalBytes cf \<longrightarrow>
                (\<exists>m. kv_put cf c i v w = (Inl (KvError BUDGET m), w))))))"
  using put_refusals [OF assms] by blast

text \<open>A document with a run-state field, refused by the store of one document.\<close>

theorem refused_put_changes_nothing_witness:
  "\<exists>e. assertNoRunState (JObj [(''lastRun'', JNull)]) = Some e \<and>
     kv_put demo_conf ''ingress'' ''o1'' (JObj [(''lastRun'', JNull)]) demo_store = (Inl e, demo_store)"
proof -
  let ?v = "JObj [(''lastRun'', JNull)]" and ?cur = "map_of (entries demo_store) (keyOf ''ingress'' ''o1'')"
  have ev: "let w = demo_store in settled demo_conf w \<and> check demo_conf ''ingress'' ''o1'' = None \<and>
      map_option vm_sha (latest_of (entry_versions (map_of (entries w) (keyOf ''ingress'' ''o1'')))) \<noteq>
        Some (kvFingerprint (stableJson demo_num ?v))" by code_simp
  have "assertNoRunState ?v \<noteq> None" by code_simp
  then have "\<exists>e. assertNoRunState ?v = Some e" by simp
  moreover have "settled demo_conf demo_store" "check demo_conf ''ingress'' ''o1'' = None"
    "map_option vm_sha (latest_of (entry_versions ?cur)) \<noteq> Some (kvFingerprint (stableJson (numbers demo_conf) ?v))"
    using ev by (simp_all add: Let_def)
  ultimately show ?thesis using refused_put_changes_nothing [of demo_conf demo_store ?cur "''ingress''" "''o1''" ?v] by blast
qed

section \<open>Accepted writes\<close>

lemma update_loop_head:
  "\<exists>retry. update_loop cf c i fn n = update_attempt cf c i fn retry"
  by (cases n) auto

text \<open>
  A put that is not refused is carried out: on a loaded store and a swarm that accepts every config
  with a free name, it returns the document in its normal form with the next version number.
\<close>

theorem accepted_put_succeeds:
  assumes "kv_up cf raft" and "kv_inv raft cf w" and "loadedAt w \<noteq> None" and "kv_key cf c i"
    and "json_ok (numbers cf) v" and "assertNoRunState v = None" and "cur = map_of (entries w) (keyOf c i)"
    and "map_option vm_sha (latest_of (entry_versions cur)) \<noteq> Some (kvFingerprint (stableJson (numbers cf) v))"
    and "stored_bytes cf v \<le> maxDocBytes cf" and "next_seq cur \<le> KV_MAX_SEQ"
    and "footprint w + stored_bytes cf v - pruned_bytes cf cur \<le> maxTotalBytes cf"
  shows "\<exists>d w'. kv_put cf c i v w = (Inr (Some d), w') \<and> d_value d = kv_canon v \<and> d_seq d = next_seq cur"
proof -
  let ?text = "stableJson (numbers cf) v" and ?fn = "\<lambda>_ :: json option. Inr (Some v) :: kv_exn + json option"
  have removing: "kv_removing cf raft" using assms(1) by (rule kv_up.axioms(1))
  have store: "kv_store cf raft" using removing by (rule kv_removing.axioms(1))
  obtain w1 where w1: "ensureFresh cf w = (Inr (), w1)" "w1 = w \<or> w1 = refresh_begin w"
    by (rule ensureFresh_loaded [OF assms(3)])
  have fields: "entries w1 = entries w" "swarm w1 = swarm w" using w1(2) by auto
  obtain retry where loop: "update_loop cf c i ?fn (maxRetries cf) = update_attempt cf c i ?fn retry"
    using update_loop_head by blast
  have put: "kv_put cf c i v w = update_attempt cf c i ?fn retry w1"
    using assms(4) w1(1) loop by (simp add: kv_put_def kv_update_def kv_key_def io_bind_def io_guard_def io_return_def)
  have foot: "footprint w1 = footprint w" by (simp add: footprint_def fields)
  define data where "data = toB64 (sealer_seal (sealer cf) ?text)"
  have plan: "plan_write cf c i cur ?text w1 = Inr (next_seq cur, data)"
    using assms(9-11) foot
    by (simp add: plan_write_def stored_bytes_def pruned_bytes_def next_seq_def data_def Let_def)
  have coh: "coherent cf (raft (swarm w)) (entries w)" "raft_ok cf (raft (swarm w))" using assms(2,3) by (auto simp: kv_inv_def)
  then have ok: "entry_ok cf (raft (swarm w)) c i cur" using assms(4,7) by (simp add: coherentD)
  have "next_seq cur \<notin> versions_in (raft (swarm w)) c i"
    using versions_below_next [OF ok] entry_ok_seqs [OF ok] by (metis imageE less_irrefl)
  moreover have "1 \<le> next_seq cur" by (simp add: next_seq_def)
  ultimately have "raft (swarm w) (kvConfigName c i (next_seq cur)) = None" using assms(10) by (simp add: versions_in_def)
  then obtain s where call: "drv_create (driver cf) (kvConfigName c i (next_seq cur)) data
      (kv_labels cf c i (next_seq cur) (kvFingerprint ?text) (length data)) (swarm w) = (Inr (), s)"
    using kv_up.create_up [OF assms(1)] by blast
  define x where "x t = \<lparr>mc_data = data, mc_labels = kv_labels cf c i (next_seq cur) (kvFingerprint ?text) (length data),
    mc_created = t\<rparr>" for t
  obtain t where created: "raft s = (raft (swarm w))(kvConfigName c i (next_seq cur) \<mapsto> x t)"
    using kv_store.create_law [OF store call] by (auto simp: x_def)
  have st: "stored_as cf c i (next_seq cur) (x t) v" using assms(5) by (simp add: stored_as_def x_def data_def)
  obtain r w' where ac: "after_create cf c i cur (next_seq cur) ?text (mc_data (x t)) (w1\<lparr>swarm := s\<rparr>) = (r, w')" by fastforce
  have "\<exists>d. r = Inr (Some d) \<and> d_value d = kv_canon v \<and> d_seq d = next_seq cur"
    using kv_store.after_create_law [OF store ac assms(4) coh(2) _ _ refl assms(10) _ st] coh(1) created assms(7) fields
    by simp
  moreover have "kv_put cf c i v w = (r, w')"
    unfolding put update_attempt_def Let_def fields assms(7) [symmetric] sum.case option.case assms(6)
      if_not_P [OF assms(8)] plan prod.case
    using call ac fields(2) by (simp add: io_call_def x_def)
  ultimately show ?thesis by blast
qed

theorem accepted_put_succeeds_witness:
  "\<exists>d w'. kv_put demo_conf ''ingress'' ''o1'' (demo_value 81) demo_store = (Inr (Some d), w') \<and>
     d_value d = kv_canon (demo_value 81) \<and>
     d_seq d = next_seq (map_of (entries demo_store) (keyOf ''ingress'' ''o1''))"
proof -
  let ?cur = "map_of (entries demo_store) (keyOf ''ingress'' ''o1'')"
  have ev: "let w = demo_store; cur = map_of (entries w) (keyOf ''ingress'' ''o1''); v = demo_value 81 in
      check demo_conf ''ingress'' ''o1'' = None \<and> assertNoRunState v = None \<and>
      map_option vm_sha (latest_of (entry_versions cur)) \<noteq> Some (kvFingerprint (stableJson demo_num v)) \<and>
      stored_bytes demo_conf v \<le> maxDocBytes demo_conf \<and> next_seq cur \<le> KV_MAX_SEQ \<and>
      footprint w + stored_bytes demo_conf v - pruned_bytes demo_conf cur \<le> maxTotalBytes demo_conf" by code_simp
  show ?thesis
    by (rule accepted_put_succeeds [OF mem.kv_up_axioms demo_store_inv])
      (use ev demo_store_facts demo_value_ok in \<open>simp_all add: Let_def kv_key_def\<close>)
qed

section \<open>The budget\<close>

definition budget_ok :: "'s kv_conf \<Rightarrow> 's kv \<Rightarrow> bool" where
  "budget_ok cf w =
     (footprint w \<le> maxTotalBytes cf \<and>
      (\<forall>k e. map_of (entries w) k = Some e \<longrightarrow> length (e_versions e) \<le> keep cf))"

abbreviation entry_bytes :: "kv_entry \<Rightarrow> int" where
  "entry_bytes e \<equiv> sum_list (map vm_bytes (e_versions e))"

lemma sum_over_keys:
  assumes "distinct (map fst es)"
  shows "sum_list (map (\<lambda>(k, e). f e :: int) es) = (\<Sum>k \<in> fst ` set es. f (the (map_of es k)))"
proof -
  have "distinct es" using assms by (simp add: distinct_map)
  then have "sum_list (map (\<lambda>(k, e). f e) es) = (\<Sum>x \<in> set es. f (snd x))"
    by (simp add: sum_list_distinct_conv_sum_set case_prod_beta)
  also have "\<dots> = (\<Sum>x \<in> set es. f (the (map_of es (fst x))))"
    by (rule sum.cong) (use assms in auto)
  also have "\<dots> = (\<Sum>k \<in> fst ` set es. f (the (map_of es k)))"
    using assms by (simp add: sum.reindex distinct_map)
  finally show ?thesis .
qed

lemma footprint_update:
  assumes "distinct (map fst es)"
  shows "sum_list (map (\<lambda>(k, e). entry_bytes e) (AList.update k e es)) =
    sum_list (map (\<lambda>(k, e). entry_bytes e) es) + entry_bytes e - sum_list (map vm_bytes (entry_versions (map_of es k)))"
  using assms
proof (induction es)
  case (Cons x es)
  show ?case
  proof (cases "k = fst x")
    case True
    then show ?thesis by (cases x) (simp add: entry_versions_def)
  next
    case False
    with Cons show ?thesis by (cases x) simp
  qed
qed (simp add: entry_versions_def)

lemma metas_ok_bytes:
  assumes "metas_ok R c i vs" and "metas_ok R c i us"
  shows "map vm_bytes vs = map vm_bytes us"
proof -
  have seqs: "map vm_seq vs = map vm_seq us"
  proof (rule strict_sorted_equal)
    show "sorted_wrt (<) (map vm_seq vs)" "sorted_wrt (<) (map vm_seq us)"
      using assms by (simp_all add: metas_ok_def sorted_wrt_map)
    show "set (map vm_seq vs) = set (map vm_seq us)" using assms by (simp add: metas_ok_def)
  qed
  then have len: "length vs = length us" by (metis length_map)
  have "vm_bytes (vs ! j) = vm_bytes (us ! j)" if j: "j < length vs" for j
  proof -
    have eq: "vm_seq (vs ! j) = vm_seq (us ! j)" using seqs j len by (metis nth_map)
    have mem: "vs ! j \<in> set vs" "us ! j \<in> set us" using j len by simp_all
    then have "vm_seq (vs ! j) \<in> versions_in R c i" using assms(1) by (auto simp: metas_ok_def)
    then obtain x where "R (kvConfigName c i (vm_seq (vs ! j))) = Some x" by (auto simp: versions_in_def)
    with assms mem eq show ?thesis unfolding metas_ok_def by metis
  qed
  with len show ?thesis by (simp add: list_eq_iff_nth_eq)
qed

lemma entry_ok_None_iff: "entry_ok cf R c i eo \<Longrightarrow> eo = None \<longleftrightarrow> versions_in R c i = {}"
  by (cases eo) (auto simp: entry_ok_def metas_ok_def)

text \<open>Two caches of the same configs hold the same versions and count the same bytes.\<close>

lemma coherent_same_bytes:
  assumes "coherent cf R es" and "coherent cf R es'"
  shows "map_option (\<lambda>e. map vm_bytes (e_versions e)) (map_of es k) =
    map_option (\<lambda>e. map vm_bytes (e_versions e)) (map_of es' k)"
proof (cases "\<exists>c i. kv_key cf c i \<and> k = keyOf c i")
  case True
  then obtain c i where key: "kv_key cf c i" "k = keyOf c i" by blast
  have "entry_ok cf R c i (map_of es k)" "entry_ok cf R c i (map_of es' k)"
    using coherentD [OF assms(1) key(1)] coherentD [OF assms(2) key(1)] key(2) by simp_all
  note ok = this
  show ?thesis
  proof (cases "versions_in R c i = {}")
    case True
    with ok have "map_of es k = None" "map_of es' k = None" using entry_ok_None_iff by blast+
    then show ?thesis by simp
  next
    case False
    with ok obtain e e' where "map_of es k = Some e" "map_of es' k = Some e'" using entry_ok_None_iff by blast
    with ok metas_ok_bytes [of R c i "e_versions e" "e_versions e'"] show ?thesis by (simp add: entry_ok_def)
  qed
next
  case False
  then have "map_of es k = None" "map_of es' k = None"
    using assms by (auto simp: coherent_def keys_ok_def map_of_eq_None_iff)
  then show ?thesis by simp
qed

lemma coherent_budget:
  assumes "coherent cf R (entries w)" and "coherent cf R (entries w')"
  shows "budget_ok cf w' = budget_ok cf w"
proof -
  note same = coherent_same_bytes [OF assms]
  have keys: "fst ` set (entries w) = fst ` set (entries w')"
  proof -
    have "map_of (entries w) k = None \<longleftrightarrow> map_of (entries w') k = None" for k using same [of k] by (metis map_option_is_None)
    then show ?thesis by (metis (mono_tags, lifting) map_of_eq_None_iff subsetI subset_antisym)
  qed
  have len: "length (e_versions e) = length (e_versions e') \<and> entry_bytes e = entry_bytes e'"
    if "map_of (entries w) k = Some e" "map_of (entries w') k = Some e'" for k e e'
    using same [of k] that by (simp, metis length_map)
  have "footprint w = footprint w'"
  proof -
    have "entry_bytes (the (map_of (entries w) k)) = entry_bytes (the (map_of (entries w') k))"
      if mem: "k \<in> fst ` set (entries w)" for k
    proof -
      have "map_of (entries w) k \<noteq> None" "map_of (entries w') k \<noteq> None"
        using mem keys by (simp_all add: map_of_eq_None_iff)
      then obtain e e' where "map_of (entries w) k = Some e" "map_of (entries w') k = Some e'" by blast
      with len show ?thesis by simp
    qed
    moreover have "distinct (map fst (entries w))" "distinct (map fst (entries w'))"
      using assms by (simp_all add: coherent_def keys_ok_def)
    ultimately show ?thesis
      unfolding footprint_def using keys by (simp add: sum_over_keys cong: sum.cong)
  qed
  moreover have "(\<forall>k e. map_of (entries w) k = Some e \<longrightarrow> length (e_versions e) \<le> keep cf) \<longleftrightarrow>
      (\<forall>k e. map_of (entries w') k = Some e \<longrightarrow> length (e_versions e) \<le> keep cf)"
  proof -
    have there: "\<exists>e'. map_of (entries w') k = Some e' \<and> length (e_versions e') = length (e_versions e)"
      if "map_of (entries w) k = Some e" for k e
      using same [of k] that by (cases "map_of (entries w') k") (auto dest: map_eq_imp_length_eq)
    have converse: "\<exists>e'. map_of (entries w) k = Some e' \<and> length (e_versions e') = length (e_versions e)"
      if "map_of (entries w') k = Some e" for k e
      using same [of k] that by (cases "map_of (entries w) k") (auto dest: map_eq_imp_length_eq)
    from there converse show ?thesis by fastforce
  qed
  ultimately show ?thesis by (simp add: budget_ok_def)
qed

context kv_removing
begin

lemma gc_loop_all:
  "gc_loop cf c i vs kept w = (r, w') \<Longrightarrow> r = Inr kept \<and> w' = w\<lparr>swarm := swarm w'\<rparr>"
proof (induction vs arbitrary: w)
  case Nil
  then show ?case by (simp add: io_return_def)
next
  case (Cons v vs)
  obtain q w1 where q: "removeQuietly cf (kvConfigName c i (vm_seq v)) w = (q, w1)" by fastforce
  note rq = removeQuietly_gone [OF q]
  then have "gc_loop cf c i vs kept w1 = (r, w')" using Cons.prems q by (simp add: io_bind_def)
  from Cons.IH [OF this] rq swarm_only_trans show ?case by blast
qed

lemma gc_entries:
  assumes run: "gc cf c i w = (r, w')" and e: "map_of (entries w) (keyOf c i) = Some e"
    and n: "n = length (e_versions e) - keep cf"
  shows "\<exists>e'. (entries w' = entries w \<and> e' = e \<or> entries w' = AList.update (keyOf c i) e' (entries w)) \<and>
    mset (e_versions e') = mset (drop n (e_versions e))"
proof (cases "length (e_versions e) \<le> keep cf")
  case True
  then have "w' = w" using run e by (simp add: gc_def)
  with True n show ?thesis by (intro exI [of _ e]) simp
next
  case False
  obtain q w1 where loop: "gc_loop cf c i (take n (e_versions e)) (drop n (e_versions e)) w = (q, w1)" by fastforce
  note all = gc_loop_all [OF loop]
  let ?e = "\<lparr>e_versions = js_sort (by_key vm_seq) (drop n (e_versions e)), e_value = e_value e\<rparr>"
  have "w' = set_entry (keyOf c i) ?e w1"
    using run e False loop all n by (simp add: gc_def io_bind_def io_modify_def Let_def)
  moreover have "entries w1 = entries w" by (subst conjunct2 [OF all]) simp
  ultimately show ?thesis by (intro exI [of _ ?e]) (simp add: set_entry_def)
qed

lemma after_create_budget:
  assumes run: "after_create cf c i cur seq (stableJson (numbers cf) v) data w = (r, w')"
    and cur: "cur = map_of (entries w) (keyOf c i)" and dist: "distinct (map fst (entries w))"
    and bud: "budget_ok cf w"
    and plan: "footprint w + int (length data) - pruned_bytes cf cur \<le> maxTotalBytes cf"
  shows "budget_ok cf w'"
proof (cases "json_parse (numbers cf) (stableJson (numbers cf) v)")
  case None
  then have "w' = w" using run by (simp add: after_create_def Let_def)
  with bud show ?thesis by simp
next
  case (Some jv)
  define prior where "prior = entry_versions cur"
  define m where "m = \<lparr>vm_seq = seq, vm_bytes = int (length data),
    vm_sha = kvFingerprint (stableJson (numbers cf) v), vm_created = now cf (swarm w)\<rparr>"
  define e where "e = \<lparr>e_versions = prior @ [m], e_value = jv\<rparr>"
  define w1 where "w1 = touch (keyOf c i) (set_entry (keyOf c i) e w)"
  define n where "n = length (prior @ [m]) - keep cf"
  obtain q w2 where gc: "gc cf c i w1 = (q, w2)" by fastforce
  have "w' = w2"
    using run Some gc
    by (auto simp: after_create_def io_bind_def io_modify_def w1_def e_def m_def prior_def Let_def split: sum.splits)
  have w1: "entries w1 = AList.update (keyOf c i) e (entries w)" by (simp add: w1_def set_entry_def)
  then have e1: "map_of (entries w1) (keyOf c i) = Some e" by (simp add: update_conv')
  obtain e' where e': "entries w2 = entries w1 \<and> e' = e \<or> entries w2 = AList.update (keyOf c i) e' (entries w1)"
    "mset (e_versions e') = mset (drop n (e_versions e))"
    using gc_entries [OF gc e1, of n] unfolding n_def e_def by auto
  then have w2: "entries w2 = AList.update (keyOf c i) e' (entries w)" using w1 by auto
  have n_le: "n \<le> length prior" using keep_pos by (simp add: n_def)
  have bytes: "entry_bytes e' = sum_list (map vm_bytes prior) + int (length data) - pruned_bytes cf cur"
  proof -
    have "entry_bytes e' = sum_list (map vm_bytes (drop n (prior @ [m])))"
      using e'(2) by (metis e_def kv_entry.select_convs(1) mset_map sum_mset_sum_list)
    moreover have "sum_list (map vm_bytes (take n prior)) + sum_list (map vm_bytes (drop n (prior @ [m]))) =
        sum_list (map vm_bytes (prior @ [m]))"
      using n_le by (metis append_take_drop_id map_append sum_list_append take_append diff_is_0_eq take0 append_Nil2)
    moreover have "pruned_bytes cf cur = sum_list (map vm_bytes (take n prior))"
      by (simp add: pruned_bytes_def n_def prior_def)
    ultimately show ?thesis by (simp add: m_def)
  qed
  have "footprint w2 = footprint w + int (length data) - pruned_bytes cf cur"
    unfolding footprint_def w2 footprint_update [OF dist] bytes cur [symmetric] prior_def [symmetric] by simp
  moreover have "length (e_versions e') \<le> keep cf"
  proof -
    have "length (e_versions e') = length (drop n (prior @ [m]))" using e'(2) by (metis e_def kv_entry.select_convs(1) size_mset)
    then show ?thesis by (simp add: n_def)
  qed
  ultimately show ?thesis using bud plan \<open>w' = w2\<close> by (simp add: budget_ok_def w2 update_conv')
qed

lemma attempt_budget:
  assumes run: "update_attempt cf c i fn retry w = (r, w')" and inv: "kv_inv raft cf w" and loaded: "loadedAt w \<noteq> None"
    and bud: "budget_ok cf w"
    and again: "\<And>w1. quiet raft w w1 \<Longrightarrow> retry w1 = (r, w') \<Longrightarrow> budget_ok cf w'"
  shows "budget_ok cf w'"
proof -
  have bud_swarm: "budget_ok cf (w\<lparr>swarm := s\<rparr>)" for s using bud by (simp add: budget_ok_def footprint_def)
  show ?thesis
  proof (cases rule: update_attempt_cases [OF run])
    case 1
    with bud show ?thesis by simp
  next
    case (2 e s)
    with bud_swarm show ?thesis by simp
  next
    case (3 s)
    then have "quiet raft w (w\<lparr>swarm := s\<rparr>)" using create_law by (fastforce simp: quiet_def)
    with again 3(1) show ?thesis by blast
  next
    case (4 v seq data l s)
    let ?cur = "map_of (entries w) (keyOf c i)"
    have "distinct (map fst (entries w))" using inv loaded by (auto simp: kv_inv_def coherent_def keys_ok_def)
    moreover have "footprint w + int (length data) - pruned_bytes cf ?cur \<le> maxTotalBytes cf"
      using 4(1) by (auto simp: plan_write_def pruned_bytes_def Let_def split: if_splits)
    ultimately show ?thesis
      by (intro after_create_budget [OF 4(3) _ _ bud_swarm]) (simp_all add: footprint_def)
  qed
qed

lemma update_loop_budget:
  assumes "update_loop cf c i fn n w = (r, w')" and "kv_key cf c i" and "kv_inv raft cf w" and "loadedAt w \<noteq> None"
    and "budget_ok cf w"
  shows "budget_ok cf w'"
  using assms
proof (induction n arbitrary: w)
  case 0
  show ?case
  proof (rule attempt_budget [OF 0(1) [unfolded update_loop.simps] 0(3-5)])
    fix w1 assume "quiet raft w w1"
      and "io_throw (KvError CONFLICT (''swarm-kv '' @ c @ ''/'' @ i @ '': gave up after '' @
          digits_of (maxRetries cf + 1) @ '' conflicting writes'')) w1 = (r, w')"
    with 0(5) show "budget_ok cf w'" by (auto simp: io_throw_def budget_ok_def footprint_def quiet_fields)
  qed
next
  case (Suc n)
  show ?case
  proof (rule attempt_budget [OF Suc.prems(1) [unfolded update_loop.simps] Suc.prems(3-5)])
    fix w1 assume q: "quiet raft w w1" and b: "io_bind (refreshKey cf c i) (\<lambda>_. update_loop cf c i fn n) w1 = (r, w')"
    have w1: "kv_inv raft cf w1" "loadedAt w1 \<noteq> None" "entries w1 = entries w"
      using q Suc.prems(3,4) by (simp_all add: kv_inv_quiet quiet_fields)
    have same: "budget_ok cf u" if u: "kv_inv raft cf u" "loadedAt u \<noteq> None" "raft (swarm u) = raft (swarm w1)" for u
    proof -
      have "coherent cf (raft (swarm w1)) (entries w1)" "coherent cf (raft (swarm w1)) (entries u)"
        using w1(1,2) u by (auto simp: kv_inv_def)
      then have "budget_ok cf u = budget_ok cf w1" by (rule coherent_budget)
      with Suc.prems(5) w1(3) show ?thesis by (simp add: budget_ok_def footprint_def)
    qed
    from b show "budget_ok cf w'"
    proof (cases rule: io_bind_cases)
      case (1 e)
      with refreshKey_inv [OF 1(1) Suc.prems(2) w1(1,2)] same show ?thesis by blast
    next
      case (2 u w2)
      note rk = refreshKey_inv [OF 2(1) Suc.prems(2) w1(1,2)]
      with Suc.IH [OF 2(2) Suc.prems(2)] same show ?thesis by blast
    qed
  qed
qed

end



end
