(* ===== verification/KvBackup.thy ===== *)
theory KvBackup
  imports KvSystem
begin

text \<open>
  Backups of the document store, and what it does outside the conditions its guarantees need: two
  documents with the same fingerprint, a removal that fails, a writer that is too far behind.
\<close>

section \<open>Export and import\<close>

lemma doc_in_canon:
  assumes "kv_store cf raft" and "raft_ok cf (raft s)" and "doc_in cf (raft s) (c, i) = Some v"
  shows "kv_key cf c i \<and> json_ok (numbers cf) v \<and> kv_canon v = v"
proof -
  let ?vs = "versions_in (raft s) c i"
  have key: "kv_key cf c i" and ne: "?vs \<noteq> {}" using assms(3) by (auto simp: doc_in_def split: if_splits)
  obtain x u where x: "raft s (kvConfigName c i (Max ?vs)) = Some x" "stored_as cf c i (Max ?vs) x u"
    using assms(2) key Max_in [OF finite_versions_in ne] by (rule raft_ok_stored)
  then have "v = kv_canon u"
    using assms(3) key ne decode_stored [OF kv_store.sealer_law [OF assms(1)] x(2)] by (simp add: doc_in_def)
  with x(2) key show ?thesis by (auto simp: stored_as_def json_ok_canon kv_canon_idem)
qed

lemma refresh_law:
  assumes "kv_store cf raft" and run: "refresh cf w = (r, w')" and inv: "kv_inv raft cf w"
  shows "kv_inv raft cf w' \<and> raft (swarm w') = raft (swarm w) \<and> (\<forall>u. r = Inr u \<longrightarrow> loadedAt w' \<noteq> None)"
proof -
  obtain job where job: "loading (refresh_begin w) = Some job" by (cases "loading w") (auto simp: refresh_begin_def)
  obtain q w1 where q: "run_job cf job (refresh_begin w) = (q, w1)" by fastforce
  with run job have "w' = w1\<lparr>loading := None\<rparr>" "r = q" by (auto simp: refresh_def)
  with kv_store.run_job_law [OF assms(1) q kv_inv_begin [OF inv] job] show ?thesis by (cases q) auto
qed

lemma exportAll_law:
  assumes store: "kv_store cf raft" and run: "exportAll cf w = (Inr ds, w')" and inv: "kv_inv raft cf w"
  shows "distinct (map (\<lambda>(c, i, v). (c, i)) ds) \<and>
    (\<forall>c i v. (c, i, v) \<in> set ds \<longleftrightarrow> doc_in cf (raft (swarm w)) (c, i) = Some v)"
proof -
  obtain r where rf: "refresh cf w = (r, w')" and loaded: "loadedAt w' \<noteq> None \<or> (\<exists>u. r = Inr u)"
    and ds: "ds = js_sort export_order (map (\<lambda>(k, e). (fst (key_parts k), snd (key_parts k), e_value e)) (entries w'))"
    using run by (auto simp: exportAll_def split: prod.splits sum.splits option.splits)
  let ?R = "raft (swarm w)" and ?f = "\<lambda>(k, e). (fst (key_parts k), snd (key_parts k), e_value e)"
  have law: "kv_inv raft cf w'" "raft (swarm w') = ?R" "loadedAt w' \<noteq> None"
    using refresh_law [OF store rf inv] loaded by auto
  then have coh: "coherent cf ?R (entries w')" by (auto simp: kv_inv_def)
  then have keys: "distinct (map fst (entries w'))"
    and valid: "\<And>k. k \<in> fst ` set (entries w') \<Longrightarrow> \<exists>c i. kv_key cf c i \<and> k = keyOf c i"
    by (auto simp: coherent_def keys_ok_def)
  have parts: "inj_on key_parts (fst ` set (entries w'))"
    using valid by (intro inj_onI) (metis key_parts_kv_key prod.inject)
  have "map (\<lambda>(c, i, v). (c, i)) (map ?f (entries w')) = map key_parts (map fst (entries w'))"
    by (simp add: case_prod_beta)
  then have "distinct (map (\<lambda>(c, i, v). (c, i)) (map ?f (entries w')))"
    using keys parts by (simp only: distinct_map [of key_parts]) simp
  then have "distinct (map (\<lambda>(c, i, v). (c, i)) ds)" unfolding ds distinct_map_js_sort .
  moreover have "(c, i, v) \<in> set ds \<longleftrightarrow> doc_in cf ?R (c, i) = Some v" for c i v
  proof
    assume "(c, i, v) \<in> set ds"
    then obtain k e where ke: "(k, e) \<in> set (entries w')" "key_parts k = (c, i)" "e_value e = v"
      unfolding ds by (auto simp: prod_eq_iff)
    then obtain c' i' where key: "kv_key cf c' i'" "k = keyOf c' i'" using valid by force
    with ke(2) have "c' = c" "i' = i" by simp_all
    with ke key coherent_doc [OF coh, of c i] keys show "doc_in cf ?R (c, i) = Some v" by simp
  next
    assume d: "doc_in cf ?R (c, i) = Some v"
    then have key: "kv_key cf c i" by (auto simp: doc_in_def split: if_splits)
    with d obtain e where e: "map_of (entries w') (keyOf c i) = Some e" "e_value e = v"
      using coherent_doc [OF coh key] by auto
    then have "?f (keyOf c i, e) \<in> ?f ` set (entries w')" by (intro imageI) (simp add: map_of_SomeD)
    with key e(2) show "(c, i, v) \<in> set ds" by (simp add: ds)
  qed
  ultimately show ?thesis by blast
qed

lemma import_loop_law:
  assumes "kv_store cf raft" and "kv_inv raft cf w" and "import_loop cf ds n w = (Inr m, w')"
    and "distinct (map (\<lambda>(c, i, v). (c, i)) ds)"
    and "\<And>c i v. (c, i, v) \<in> set ds \<Longrightarrow>
      kv_key cf c i \<and> json_ok (numbers cf) v \<and> kv_canon v = v \<and> doc_in cf (raft (swarm w)) (c, i) = None"
  shows "m = n + length ds \<and>
    doc_in cf (raft (swarm w')) = doc_in cf (raft (swarm w)) ++ map_of (map (\<lambda>(c, i, v). ((c, i), v)) ds)"
  using assms(2-5)
proof (induction ds arbitrary: n w)
  case Nil
  then show ?case by (simp add: io_return_def)
next
  case (Cons d ds)
  obtain c i v where d: "d = (c, i, v)" by (cases d) auto
  have dv: "kv_key cf c i" "json_ok (numbers cf) v" "kv_canon v = v" "doc_in cf (raft (swarm w)) (c, i) = None"
    using Cons.prems(4) [of c i v] d by simp_all
  have "io_bind (kv_put cf c i v) (\<lambda>_. import_loop cf ds (n + 1)) w = (Inr m, w')"
    using Cons.prems(2) d dv(1) by (simp add: kv_keyD)
  then obtain x w1 where put: "kv_put cf c i v w = (Inr x, w1)" and rest: "import_loop cf ds (n + 1) w1 = (Inr m, w')"
    by (cases rule: io_bind_cases) auto
  have sp: "kv_inv raft cf w1 \<and> spec_unless_collision cf (\<lambda>_. Inr (Some v)) (c, i) (raft (swarm w)) (Inr x) (raft (swarm w1))"
    using kv_store.kv_update_spec [OF assms(1) put [unfolded kv_put_def] Cons.prems(1)] dv(2) by (simp add: yields_json_def)
  then have docs: "doc_in cf (raft (swarm w1)) = (doc_in cf (raft (swarm w)))((c, i) \<mapsto> v)"
    using dv(3,4) by (simp add: spec_unless_collision_def no_collision_def update_spec_def)
  have fresh: "(c, i) \<notin> set (map (\<lambda>(c, i, v). (c, i)) ds)" using Cons.prems(3) d by simp
  have "m = n + 1 + length ds \<and>
      doc_in cf (raft (swarm w')) = doc_in cf (raft (swarm w1)) ++ map_of (map (\<lambda>(c, i, v). ((c, i), v)) ds)"
  proof (rule Cons.IH [OF conjunct1 [OF sp] rest])
    show "distinct (map (\<lambda>(c, i, v). (c, i)) ds)" using Cons.prems(3) by simp
    fix c' i' v' assume mem: "(c', i', v') \<in> set ds"
    then have "(c', i') \<noteq> (c, i)" using fresh by force
    then show "kv_key cf c' i' \<and> json_ok (numbers cf) v' \<and> kv_canon v' = v' \<and> doc_in cf (raft (swarm w1)) (c', i') = None"
      using Cons.prems(4) [of c' i' v'] mem docs by simp
  qed
  moreover have "map_of (map (\<lambda>(c, i, v). ((c, i), v)) ds) (c, i) = None"
    using fresh by (auto simp: map_of_eq_None_iff image_iff split: prod.splits)
  ultimately show ?case using docs d by (auto simp: map_add_def fun_eq_iff split: option.splits)
qed

text \<open>
  C12. Restoring a backup reproduces the documents: what one store exports, imported into a store over an
  empty swarm that allows the same collections, gives that swarm exactly the documents of the first,
  and the count that the import returns is their number.
\<close>

theorem restore_reproduces_documents:
  assumes "kv_store cf raft" and "kv_inv raft cf w" and "exportAll cf w = (Inr ds, w1)"
    and "kv_store cf2 raft2" and "kv_inv raft2 cf2 u" and "doc_in cf2 (raft2 (swarm u)) = Map.empty"
    and "allowed cf2 = allowed cf" and "numbers cf2 = numbers cf" and "importAll cf2 ds u = (Inr n, u')"
  shows "doc_in cf2 (raft2 (swarm u')) = doc_in cf (raft (swarm w)) \<and> n = length ds"
proof -
  note ex = exportAll_law [OF assms(1,3,2)]
  have R: "raft_ok cf (raft (swarm w))" using assms(2) by (simp add: kv_inv_def)
  have key: "kv_key cf2 c i = kv_key cf c i" for c i by (simp add: kv_key_def check_None_iff is_allowed_def assms(7))
  have "n = 0 + length ds \<and> doc_in cf2 (raft2 (swarm u')) =
      doc_in cf2 (raft2 (swarm u)) ++ map_of (map (\<lambda>(c, i, v). ((c, i), v)) ds)"
  proof (rule import_loop_law [OF assms(4,5) assms(9) [unfolded importAll_def]])
    show "distinct (map (\<lambda>(c, i, v). (c, i)) ds)" using ex by blast
    fix c i v assume "(c, i, v) \<in> set ds"
    then have "doc_in cf (raft (swarm w)) (c, i) = Some v" using ex by blast
    from doc_in_canon [OF assms(1) R this]
    show "kv_key cf2 c i \<and> json_ok (numbers cf2) v \<and> kv_canon v = v \<and> doc_in cf2 (raft2 (swarm u)) (c, i) = None"
      by (simp add: key assms(6,8))
  qed
  moreover have "map_of (map (\<lambda>(c, i, v). ((c, i), v)) ds) = doc_in cf (raft (swarm w))"
  proof
    fix p :: "string \<times> string"
    obtain c i where p: "p = (c, i)" by fastforce
    have keys: "map fst (map (\<lambda>(c, i, v). ((c, i), v)) ds) = map (\<lambda>(c, i, v). (c, i)) ds" by (simp add: case_prod_beta)
    have "map_of (map (\<lambda>(c, i, v). ((c, i), v)) ds) p = Some v \<longleftrightarrow> (c, i, v) \<in> set ds" for v
    proof -
      have dist: "distinct (map fst (map (\<lambda>(c, i, v). ((c, i), v)) ds))" unfolding keys using ex by blast
      show ?thesis unfolding map_of_eq_Some_iff [OF dist] p by force
    qed
    then show "map_of (map (\<lambda>(c, i, v). ((c, i), v)) ds) p = doc_in cf (raft (swarm w)) p"
      using ex p by (metis option.exhaust option.distinct(1))
  qed
  ultimately show ?thesis using assms(6) by simp
qed

theorem restore_reproduces_documents_witness:
  "\<exists>ds n u'. fst (exportAll demo_conf demo_store) = Inr ds \<and>
     importAll demo_conf ds (new_kv empty_swarm) = (Inr n, u') \<and>
     doc_in demo_conf (mem_raft (swarm u')) = doc_in demo_conf (mem_raft (swarm demo_store)) \<and> n = length ds"
proof -
  have ev: "(let r = fst (exportAll demo_conf demo_store) in
      case r of Inl _ \<Rightarrow> False
      | Inr ds \<Rightarrow> (case fst (importAll demo_conf ds (new_kv empty_swarm)) of Inl _ \<Rightarrow> False | Inr _ \<Rightarrow> True))"
    by code_simp
  obtain ds w1 where ds: "exportAll demo_conf demo_store = (Inr ds, w1)"
    using ev by (cases "exportAll demo_conf demo_store") (auto simp: Let_def split: sum.splits)
  obtain n u' where u': "importAll demo_conf ds (new_kv empty_swarm) = (Inr n, u')"
    using ev ds by (cases "importAll demo_conf ds (new_kv empty_swarm)") (auto simp: Let_def split: sum.splits)
  have "doc_in demo_conf (mem_raft (swarm (new_kv empty_swarm))) = Map.empty"
    by (auto simp: new_kv_def empty_swarm_raft doc_in_def versions_in_def)
  from restore_reproduces_documents [OF mem.kv_store_axioms demo_store_inv ds mem.kv_store_axioms demo_new_inv this refl refl u']
  show ?thesis using ds u' by auto
qed

section \<open>Outside the guarantees\<close>


text \<open>The in-memory swarm with one config whose removal times out.\<close>

definition flaky_conf :: "string \<Rightarrow> mem_swarm kv_conf" where
  "flaky_conf n =
     demo_conf\<lparr>driver := (memoryKvDriver (\<lambda>_ s. s))\<lparr>drv_remove :=
       (\<lambda>m s. if m = n then (Inl (OtherError ''request timed out''), s) else mem_remove m s)\<rparr>\<rparr>"


definition one_opts :: kv_options where
  "one_opts = demo_opts\<lparr>o_keepVersions := Some 1\<rparr>"

text \<open>
  A writer that is more versions behind than are kept is not stopped by the name check. With one
  version kept, a controller that cached version 1 while another wrote versions 2 and 3 creates version
  2 anew, since its name is free again: it reports its document as stored, while the document that
  every other reader sees stays version 3.
\<close>

theorem stale_writer_beyond_window_is_lost:
  "let cf = mem_conf ''org1'' demo_num one_opts;
       a = snd (kv_put cf ''ingress'' ''o1'' (demo_value 1) (new_kv empty_swarm));
       a' = snd (kv_put cf ''ingress'' ''o1'' (demo_value 3) (snd (kv_put cf ''ingress'' ''o1'' (demo_value 2) a)));
       (r, b) = kv_put cf ''ingress'' ''o1'' (demo_value 9) (a\<lparr>swarm := swarm a'\<rparr>);
       w = snd (refresh cf (new_kv (swarm b)))
   in (case r of Inr (Some d) \<Rightarrow> d_value d = demo_value 9 \<and> d_seq d = 2 | _ \<Rightarrow> False) \<and>
      map_option d_value (docOf ''ingress'' ''o1'' w) = Some (demo_value 3)"
  by code_simp

end
