(* ===== verification/UpgradePlan.thy ===== *)
theory UpgradePlan
  imports Prelude
begin

text \<open>
  The step engine of a platform upgrade: \<^verbatim>\<open>packages/trpc/src/services/platform-upgrade.plan.ts\<close>.
  A run is a persisted record of six steps; \<open>driveRun\<close> walks it from its current step, persists it
  after every transition and calls the handler of each step. Handlers, the write to the database
  and the clock are arguments; a handler and a write may throw (\<open>Inl\<close>). The run is one mutable
  object in the source, so it is threaded together with the world \<open>'w\<close> through every call. What a
  handler keeps in its step (\<^verbatim>\<open>data\<close>) is the type \<open>'d\<close>. Instants are milliseconds since the
  epoch. The second half has the decisions of two handlers, the plan of the system services and the
  scripts that are run with the docker command line. An em dash in a text is written as a hyphen.
\<close>

named_theorems upg_defs \<open>the effects of the step engine\<close>

section \<open>Definitions\<close>

subsection \<open>Runs\<close>

datatype step_key = Preflight | Controller | Agents | System | Engines | Verify

definition STEP_ORDER :: "step_key list" where
  "STEP_ORDER = [Preflight, Controller, Agents, System, Engines, Verify]"

fun STEP_LABEL :: "step_key \<Rightarrow> string" where
  "STEP_LABEL Preflight = ''Preflight''"
| "STEP_LABEL Controller = ''Controller''"
| "STEP_LABEL Agents = ''Agents''"
| "STEP_LABEL System = ''System services''"
| "STEP_LABEL Engines = ''Engine upgrades''"
| "STEP_LABEL Verify = ''Verify''"

datatype step_status = Pending | Running | Waiting | Done | Skipped | Failed | RolledBack

datatype run_status = RunRunning | RunDone | RunFailed | RunCancelled

record 'd step_state =
  st_key :: step_key
  st_status :: step_status
  st_detail :: "string option"
  st_error :: "string option"
  st_startedAt :: "int option"
  st_finishedAt :: "int option"
  st_data :: "'d option"

record 'd run_state =
  rn_status :: run_status
  rn_step :: step_key
  rn_steps :: "'d step_state list"
  rn_error :: "string option"
  rn_log :: "(int \<times> string) list"

datatype step_outcome = OutDone "string option" | OutSkipped "string option" | OutWait "string option"

type_synonym ('d, 'w) upg_state = "'d run_state \<times> 'w"
type_synonym ('d, 'w, 'a) upg = "('d, 'w) upg_state \<Rightarrow> (string + 'a) \<times> ('d, 'w) upg_state"

record ('d, 'w) step_handler =
  h_run :: "('d, 'w, step_outcome) upg"
  h_rollback :: "(string \<Rightarrow> ('d, 'w, string option) upg) option"

definition new_step :: "step_key \<Rightarrow> 'd step_state" where
  "new_step key =
     \<lparr>st_key = key, st_status = Pending, st_detail = None, st_error = None, st_startedAt = None,
      st_finishedAt = None, st_data = None\<rparr>"

definition initialSteps :: "'d step_state list" where
  "initialSteps = map new_step STEP_ORDER"

definition newRunState :: "'d run_state" where
  "newRunState =
     \<lparr>rn_status = RunRunning, rn_step = Preflight, rn_steps = initialSteps, rn_error = None,
      rn_log = []\<rparr>"

definition LOG_TAIL :: nat where "LOG_TAIL = 200"

definition noteOn :: "string \<Rightarrow> int \<Rightarrow> 'd run_state \<Rightarrow> 'd run_state" where
  "noteOn msg t r =
     (let l = rn_log r @ [(t, msg)] in r\<lparr>rn_log := drop (length l - LOG_TAIL) l\<rparr>)"

definition step_index :: "step_key \<Rightarrow> nat" where
  "step_index key = length (takeWhile (\<lambda>k. k \<noteq> key) STEP_ORDER)"

definition find_step :: "step_key \<Rightarrow> 'd run_state \<Rightarrow> 'd step_state option" where
  "find_step key r = find (\<lambda>x. st_key x = key) (rn_steps r)"

text \<open>
  \<^verbatim>\<open>stepOf\<close> returns a reference into the run: \<open>ensure_step\<close> is its effect on the run, \<open>status_of\<close>
  reads through the reference and \<open>set_step\<close> writes through it.
\<close>

definition ensure_step :: "step_key \<Rightarrow> 'd run_state \<Rightarrow> 'd run_state" where
  "ensure_step key r =
     (case find_step key r of
        Some _ \<Rightarrow> r
      | None \<Rightarrow> r\<lparr>rn_steps := js_sort (by_key (\<lambda>x. step_index (st_key x))) (rn_steps r @ [new_step key])\<rparr>)"

definition status_of :: "step_key \<Rightarrow> 'd run_state \<Rightarrow> step_status" where
  "status_of key r = (case find_step key r of None \<Rightarrow> Pending | Some x \<Rightarrow> st_status x)"

fun upd_first :: "step_key \<Rightarrow> ('d step_state \<Rightarrow> 'd step_state) \<Rightarrow> 'd step_state list \<Rightarrow> 'd step_state list" where
  "upd_first key f [] = []"
| "upd_first key f (x # xs) = (if st_key x = key then f x # xs else x # upd_first key f xs)"

definition set_step :: "step_key \<Rightarrow> ('d step_state \<Rightarrow> 'd step_state) \<Rightarrow> 'd run_state \<Rightarrow> 'd run_state" where
  "set_step key f r = r\<lparr>rn_steps := upd_first key f (rn_steps r)\<rparr>"

definition is_finished :: "step_status \<Rightarrow> bool" where
  "is_finished s = (s = Done \<or> s = Skipped)"

subsection \<open>Driving a run\<close>

definition u_return :: "'a \<Rightarrow> ('d, 'w, 'a) upg" where [upg_defs]:
  "u_return a s = (Inr a, s)"

definition u_throw :: "string \<Rightarrow> ('d, 'w, 'a) upg" where [upg_defs]:
  "u_throw e s = (Inl e, s)"

definition u_bind :: "('d, 'w, 'a) upg \<Rightarrow> ('a \<Rightarrow> ('d, 'w, 'b) upg) \<Rightarrow> ('d, 'w, 'b) upg" where
  "u_bind m f s = (case m s of (Inl e, s') \<Rightarrow> (Inl e, s') | (Inr a, s') \<Rightarrow> f a s')"

definition u_try :: "('d, 'w, 'a) upg \<Rightarrow> (string \<Rightarrow> ('d, 'w, 'b) upg) \<Rightarrow> ('a \<Rightarrow> ('d, 'w, 'b) upg) \<Rightarrow> ('d, 'w, 'b) upg" where
  "u_try m g f s = (case m s of (Inl e, s') \<Rightarrow> g e s' | (Inr a, s') \<Rightarrow> f a s')"

definition u_run :: "('d run_state \<Rightarrow> 'd run_state) \<Rightarrow> ('d, 'w, unit) upg" where [upg_defs]:
  "u_run f s = (Inr (), (f (fst s), snd s))"

definition u_now :: "('w \<Rightarrow> int) \<Rightarrow> (int \<Rightarrow> 'd run_state \<Rightarrow> 'd run_state) \<Rightarrow> ('d, 'w, unit) upg" where [upg_defs]:
  "u_now clk f s = (Inr (), (f (clk (snd s)) (fst s), snd s))"

definition checkpoint :: "('d run_state \<Rightarrow> 'w \<Rightarrow> (string + unit) \<times> 'w) \<Rightarrow> ('d, 'w, unit) upg" where
  "checkpoint persist s = (case persist (fst s) (snd s) of (res, w) \<Rightarrow> (res, (fst s, w)))"

definition begin_step :: "step_key \<Rightarrow> int \<Rightarrow> 'd run_state \<Rightarrow> 'd run_state" where
  "begin_step key t r =
     (let r1 = r\<lparr>rn_step := key\<rparr>;
          r2 = (if status_of key r \<noteq> Running \<and> status_of key r \<noteq> Waiting
                then noteOn (STEP_LABEL key @ '': started'') t r1 else r1)
      in set_step key
           (\<lambda>x. x\<lparr>st_status := Running, st_startedAt := Some (opt_or (st_startedAt x) t)\<rparr>) r2)"

definition set_detail :: "string option \<Rightarrow> 'd step_state \<Rightarrow> 'd step_state" where
  "set_detail d x = (if truthy d then x\<lparr>st_detail := d\<rparr> else x)"

definition wait_step :: "step_key \<Rightarrow> string option \<Rightarrow> 'd run_state \<Rightarrow> 'd run_state" where
  "wait_step key d = set_step key (\<lambda>x. set_detail d (x\<lparr>st_status := Waiting\<rparr>))"

definition finish_step :: "step_key \<Rightarrow> step_status \<Rightarrow> string option \<Rightarrow> int \<Rightarrow> 'd run_state \<Rightarrow> 'd run_state" where
  "finish_step key s d t r =
     noteOn (STEP_LABEL key @ '': '' @ (if s = Skipped then ''skipped'' else ''done'') @
             (if truthy d then '' - '' @ the d else [])) t
       (set_step key (\<lambda>x. (set_detail d (x\<lparr>st_status := s\<rparr>))\<lparr>st_finishedAt := Some t\<rparr>) r)"

definition fail_step :: "step_key \<Rightarrow> string \<Rightarrow> int \<Rightarrow> 'd run_state \<Rightarrow> 'd run_state" where
  "fail_step key reason t r =
     noteOn (STEP_LABEL key @ '' failed: '' @ reason) t
       (set_step key (\<lambda>x. x\<lparr>st_error := Some reason, st_status := Failed\<rparr>) r)"

definition rolled_back :: "step_key \<Rightarrow> string option \<Rightarrow> int \<Rightarrow> 'd run_state \<Rightarrow> 'd run_state" where
  "rolled_back key d t r =
     noteOn (STEP_LABEL key @ '' rolled back'' @ (if truthy d then '': '' @ the d else [])) t
       (set_step key (\<lambda>x. x\<lparr>st_status := RolledBack\<rparr>) r)"

definition halt_run :: "step_key \<Rightarrow> string \<Rightarrow> int \<Rightarrow> 'd run_state \<Rightarrow> 'd run_state" where
  "halt_run key reason t r =
     (set_step key (\<lambda>x. x\<lparr>st_finishedAt := Some t\<rparr>) r)
       \<lparr>rn_status := RunFailed, rn_error := Some (STEP_LABEL key @ '': '' @ reason)\<rparr>"

definition complete_run :: "'d run_state \<Rightarrow> 'd run_state" where
  "complete_run r = r\<lparr>rn_status := RunDone, rn_error := None\<rparr>"

text \<open>The rollback of a failed step: what it throws is noted and dropped.\<close>

definition try_rollback ::
    "('w \<Rightarrow> int) \<Rightarrow> step_key \<Rightarrow> (string \<Rightarrow> ('d, 'w, string option) upg) option \<Rightarrow> string \<Rightarrow> ('d, 'w, unit) upg" where
  "try_rollback clk key rb reason =
     (case rb of
        None \<Rightarrow> u_return ()
      | Some f \<Rightarrow>
          u_try (f reason)
            (\<lambda>e. u_now clk (noteOn (STEP_LABEL key @ '' ROLLBACK FAILED: '' @ e)))
            (\<lambda>d. u_now clk (rolled_back key d)))"

datatype drive_result = DriveDone | DriveFailed | DriveWaiting | DriveIdle

definition after_throw ::
    "('d run_state \<Rightarrow> 'w \<Rightarrow> (string + unit) \<times> 'w) \<Rightarrow> ('w \<Rightarrow> int) \<Rightarrow> step_key \<Rightarrow>
     ('d, 'w) step_handler \<Rightarrow> string \<Rightarrow> ('d, 'w, drive_result option) upg" where
  "after_throw persist clk key h reason =
     u_bind (u_now clk (fail_step key reason)) (\<lambda>_.
     u_bind (try_rollback clk key (h_rollback h) reason) (\<lambda>_.
     u_bind (u_now clk (halt_run key reason)) (\<lambda>_.
     u_bind (checkpoint persist) (\<lambda>_. u_return (Some DriveFailed)))))"

text \<open>
  What follows the handler: \<open>None\<close> when the loop goes on with the next step, \<open>Some\<close> when
  \<^verbatim>\<open>driveRun\<close> returns.
\<close>

fun after_outcome ::
    "('d run_state \<Rightarrow> 'w \<Rightarrow> (string + unit) \<times> 'w) \<Rightarrow> ('w \<Rightarrow> int) \<Rightarrow> step_key \<Rightarrow> step_outcome \<Rightarrow>
     ('d, 'w, drive_result option) upg" where
  "after_outcome persist clk key (OutWait d) =
     u_bind (u_run (wait_step key d)) (\<lambda>_.
     u_bind (checkpoint persist) (\<lambda>_. u_return (Some DriveWaiting)))"
| "after_outcome persist clk key (OutDone d) =
     u_bind (u_now clk (finish_step key Done d)) (\<lambda>_.
     u_bind (checkpoint persist) (\<lambda>_. u_return None))"
| "after_outcome persist clk key (OutSkipped d) =
     u_bind (u_now clk (finish_step key Skipped d)) (\<lambda>_.
     u_bind (checkpoint persist) (\<lambda>_. u_return None))"

definition drive_step ::
    "(step_key \<Rightarrow> ('d, 'w) step_handler) \<Rightarrow> ('d run_state \<Rightarrow> 'w \<Rightarrow> (string + unit) \<times> 'w) \<Rightarrow>
     ('w \<Rightarrow> int) \<Rightarrow> step_key \<Rightarrow> ('d, 'w, drive_result option) upg" where
  "drive_step hs persist clk key s =
     (let s1 = (ensure_step key (fst s), snd s)
      in if is_finished (status_of key (fst s1)) then (Inr None, s1)
         else u_bind (u_now clk (begin_step key)) (\<lambda>_.
              u_bind (checkpoint persist) (\<lambda>_.
                u_try (h_run (hs key))
                  (\<lambda>reason. after_throw persist clk key (hs key) reason)
                  (after_outcome persist clk key))) s1)"

primrec drive_loop ::
    "(step_key \<Rightarrow> ('d, 'w) step_handler) \<Rightarrow> ('d run_state \<Rightarrow> 'w \<Rightarrow> (string + unit) \<times> 'w) \<Rightarrow>
     ('w \<Rightarrow> int) \<Rightarrow> step_key list \<Rightarrow> ('d, 'w, drive_result) upg" where
  "drive_loop hs persist clk [] =
     u_bind (u_run complete_run) (\<lambda>_.
     u_bind (checkpoint persist) (\<lambda>_. u_return DriveDone))"
| "drive_loop hs persist clk (key # keys) =
     u_bind (drive_step hs persist clk key) (\<lambda>ro.
       case ro of Some x \<Rightarrow> u_return x | None \<Rightarrow> drive_loop hs persist clk keys)"

definition driveRun ::
    "(step_key \<Rightarrow> ('d, 'w) step_handler) \<Rightarrow> ('d run_state \<Rightarrow> 'w \<Rightarrow> (string + unit) \<times> 'w) \<Rightarrow>
     ('w \<Rightarrow> int) \<Rightarrow> ('d, 'w, drive_result) upg" where
  "driveRun hs persist clk s =
     (if rn_status (fst s) \<noteq> RunRunning then (Inr DriveIdle, s)
      else drive_loop hs persist clk (drop (step_index (rn_step (fst s))) STEP_ORDER) s)"

definition retryRun :: "int \<Rightarrow> 'd run_state \<Rightarrow> string + 'd run_state" where
  "retryRun t r =
     (if rn_status r \<noteq> RunFailed
      then Inl (''only a failed run can be retried (this one is '' @
             (case rn_status r of RunRunning \<Rightarrow> ''running'' | RunDone \<Rightarrow> ''done''
              | RunFailed \<Rightarrow> ''failed'' | RunCancelled \<Rightarrow> ''cancelled'') @ '')'')
      else Inr (noteOn (''retrying from '' @ STEP_LABEL (rn_step r)) t
             ((set_step (rn_step r)
                 (\<lambda>x. x\<lparr>st_status := Pending, st_error := None, st_finishedAt := None\<rparr>)
                 (ensure_step (rn_step r) r))
               \<lparr>rn_status := RunRunning, rn_error := None\<rparr>)))"

definition runProgress :: "'d run_state \<Rightarrow> nat \<times> nat" where
  "runProgress r =
     (if rn_status r = RunDone then length STEP_ORDER
      else length (filter (\<lambda>x. is_finished (st_status x)) (rn_steps r)), length STEP_ORDER)"

section \<open>What a step changes\<close>

text \<open>
  A handler owns its step: it may change the data and the detail of that step and the log, and
  nothing else of the run.
\<close>

definition touches :: "step_key \<Rightarrow> 'd run_state \<Rightarrow> 'd run_state \<Rightarrow> bool" where
  "touches k r r' \<longleftrightarrow>
     rn_status r' = rn_status r \<and> rn_step r' = rn_step r \<and> rn_error r' = rn_error r \<and>
     map st_key (rn_steps r') = map st_key (rn_steps r) \<and> status_of k r' = status_of k r \<and>
     (\<forall>k'. k' \<noteq> k \<longrightarrow> find_step k' r' = find_step k' r)"

text \<open>A run as the engine leaves it in the database.\<close>

definition run_ok :: "'d run_state \<Rightarrow> bool" where
  "run_ok r \<longleftrightarrow>
     map st_key (rn_steps r) = STEP_ORDER \<and>
     (\<forall>k. step_index k < step_index (rn_step r) \<longrightarrow> is_finished (status_of k r)) \<and>
     (\<forall>k. step_index (rn_step r) < step_index k \<longrightarrow> status_of k r = Pending) \<and>
     (rn_status r = RunDone \<longrightarrow> (\<forall>k. is_finished (status_of k r))) \<and>
     (rn_status r = RunFailed \<or> rn_status r = RunCancelled \<longrightarrow>
        status_of (rn_step r) r = Failed \<or> status_of (rn_step r) r = RolledBack)"

definition keeps_finished :: "'d run_state \<Rightarrow> 'd run_state \<Rightarrow> bool" where
  "keeps_finished r r' \<longleftrightarrow> (\<forall>k. is_finished (status_of k r) \<longrightarrow> find_step k r' = find_step k r)"

text \<open>The run inside \<open>driveRun\<close>: at the head of the loop, and within the turn of step \<open>k\<close>.\<close>

definition at_step :: "nat \<Rightarrow> 'd run_state \<Rightarrow> bool" where
  "at_step n r \<longleftrightarrow>
     map st_key (rn_steps r) = STEP_ORDER \<and> rn_status r = RunRunning \<and>
     (n = step_index (rn_step r) \<or> n = Suc (step_index (rn_step r))) \<and>
     (\<forall>k. step_index k < n \<longrightarrow> is_finished (status_of k r)) \<and>
     (\<forall>k. step_index (rn_step r) < step_index k \<longrightarrow> status_of k r = Pending)"

definition in_step :: "'d run_state \<Rightarrow> step_key \<Rightarrow> 'd run_state \<Rightarrow> bool" where
  "in_step r0 k r \<longleftrightarrow>
     at_step (step_index k) r \<and> rn_step r = k \<and> keeps_finished r0 r \<and> \<not> is_finished (status_of k r0)"

lemma step_index_simps [simp]:
  "step_index Preflight = 0" "step_index Controller = 1" "step_index Agents = 2"
  "step_index System = 3" "step_index Engines = 4" "step_index Verify = 5"
  by (simp_all add: step_index_def STEP_ORDER_def)

lemma step_index_inject [simp]: "step_index k = step_index k' \<longleftrightarrow> k = k'"
  by (cases k; cases k') simp_all

lemma step_index_less: "step_index k < 6"
  by (cases k) simp_all

lemma step_of_index:
  assumes "n < 6"
  shows "\<exists>k. step_index k = n"
proof -
  have "n \<in> {0, 1, 2, 3, 4, 5}" using assms by auto
  then show ?thesis using step_index_simps by blast
qed

lemma STEP_ORDER_nth: "STEP_ORDER ! step_index k = k"
  by (cases k) (simp_all add: STEP_ORDER_def)

lemma drop_STEP_ORDER: "drop (step_index k) STEP_ORDER = k # drop (Suc (step_index k)) STEP_ORDER"
  by (cases k) (simp_all add: STEP_ORDER_def eval_nat_numeral)

lemma find_upd_first:
  assumes "\<And>x. st_key (f x) = st_key x"
  shows "find (\<lambda>x. st_key x = k') (upd_first k f xs) =
         (if k' = k then map_option f (find (\<lambda>x. st_key x = k) xs) else find (\<lambda>x. st_key x = k') xs)"
  by (induction xs) (auto simp: assms)

lemma find_step_set_step:
  assumes "\<And>x. st_key (f x) = st_key x"
  shows "find_step k' (set_step k f r) = (if k' = k then map_option f (find_step k r) else find_step k' r)"
  by (simp add: find_step_def set_step_def find_upd_first assms)

lemma keys_set_step:
  assumes "\<And>x. st_key (f x) = st_key x"
  shows "map st_key (rn_steps (set_step k f r)) = map st_key (rn_steps r)"
proof -
  have "map st_key (upd_first k f xs) = map st_key xs" for xs by (induction xs) (auto simp: assms)
  then show ?thesis by (simp add: set_step_def)
qed

lemma set_step_fields [simp]:
  "rn_status (set_step k f r) = rn_status r" "rn_step (set_step k f r) = rn_step r"
  "rn_error (set_step k f r) = rn_error r" "rn_log (set_step k f r) = rn_log r"
  by (simp_all add: set_step_def)

lemma noteOn_fields [simp]:
  "rn_status (noteOn m t r) = rn_status r" "rn_step (noteOn m t r) = rn_step r"
  "rn_error (noteOn m t r) = rn_error r" "rn_steps (noteOn m t r) = rn_steps r"
  by (simp_all add: noteOn_def Let_def)

lemma find_step_fields [simp]:
  "find_step k (r\<lparr>rn_status := a\<rparr>) = find_step k r" "find_step k (r\<lparr>rn_step := b\<rparr>) = find_step k r"
  "find_step k (r\<lparr>rn_error := c\<rparr>) = find_step k r" "find_step k (noteOn m t r) = find_step k r"
  by (simp_all add: find_step_def)

lemma status_of_fields [simp]:
  "status_of k (r\<lparr>rn_status := a\<rparr>) = status_of k r" "status_of k (r\<lparr>rn_step := b\<rparr>) = status_of k r"
  "status_of k (r\<lparr>rn_error := c\<rparr>) = status_of k r" "status_of k (noteOn m t r) = status_of k r"
  by (simp_all add: status_of_def)

lemma set_detail_fields [simp]:
  "st_key (set_detail d x) = st_key x" "st_status (set_detail d x) = st_status x"
  "st_data (set_detail d x) = st_data x"
  by (simp_all add: set_detail_def)

lemma find_step_known:
  assumes "map st_key (rn_steps r) = STEP_ORDER"
  obtains x where "find_step k r = Some x" "st_key x = k"
proof -
  have "k \<in> set (map st_key (rn_steps r))" using assms by (cases k) (simp_all add: STEP_ORDER_def)
  then obtain y where "y \<in> set (rn_steps r)" "st_key y = k" by auto
  then have "find_step k r \<noteq> None" unfolding find_step_def
    using find_NoneD [of "\<lambda>x. st_key x = k" "rn_steps r" y] by metis
  then obtain x where x: "find_step k r = Some x" by blast
  then have "st_key x = k" unfolding find_step_def using find_SomeD by fastforce
  with x show thesis by (rule that)
qed

lemma ensure_step_known: "map st_key (rn_steps r) = STEP_ORDER \<Longrightarrow> ensure_step k r = r"
  by (metis ensure_step_def find_step_known option.simps(5))

lemma status_of_set_step:
  assumes "\<And>x. st_key (f x) = st_key x" and "\<And>x. st_status (f x) = s"
    and "map st_key (rn_steps r) = STEP_ORDER"
  shows "status_of k' (set_step k f r) = (if k' = k then s else status_of k' r)"
  by (rule find_step_known [OF assms(3), of k]) (simp add: status_of_def find_step_set_step assms(1,2))

lemma keeps_finished_refl [simp]: "keeps_finished r r"
  by (simp add: keeps_finished_def)

lemma keeps_finished_status: "keeps_finished r r' \<Longrightarrow> is_finished (status_of k r) \<Longrightarrow> is_finished (status_of k r')"
  by (metis keeps_finished_def status_of_def)

lemma keeps_finished_trans: "keeps_finished a b \<Longrightarrow> keeps_finished b c \<Longrightarrow> keeps_finished a c"
  by (metis keeps_finished_def keeps_finished_status)

lemma in_step_set_step:
  assumes "in_step r0 k r" and "\<And>x. st_key (f x) = st_key x"
  shows "in_step r0 k (set_step k f r)"
proof -
  have o: "find_step k' (set_step k f r) = find_step k' r" if "k' \<noteq> k" for k'
    by (simp add: find_step_set_step assms(2) that)
  then have s: "status_of k' (set_step k f r) = status_of k' r" if "k' \<noteq> k" for k'
    using that by (simp add: status_of_def)
  have "keeps_finished r0 (set_step k f r)"
    using assms(1) o by (metis in_step_def keeps_finished_def)
  moreover have "at_step (step_index k) (set_step k f r)"
    using assms(1) s unfolding in_step_def at_step_def
    by (metis (no_types, lifting) keys_set_step assms(2) set_step_fields(1,2) less_irrefl)
  ultimately show ?thesis using assms(1) by (simp add: in_step_def)
qed

lemma in_step_noteOn [simp]: "in_step r0 k (noteOn m t r) \<longleftrightarrow> in_step r0 k r"
  by (simp add: in_step_def at_step_def keeps_finished_def)

lemma touches_other:
  assumes "touches k r r'"
  shows "status_of k' r' = status_of k' r"
  using assms by (cases "k' = k") (simp_all add: touches_def status_of_def)

lemma in_step_touches:
  assumes "in_step r0 k r" and "touches k r r'"
  shows "in_step r0 k r'"
proof -
  have "at_step (step_index k) r'"
    using assms(1) touches_other [OF assms(2)] assms(2) by (simp add: in_step_def at_step_def touches_def)
  moreover have "keeps_finished r0 r'"
    using assms by (metis in_step_def keeps_finished_def touches_def)
  ultimately show ?thesis using assms by (simp add: in_step_def touches_def)
qed

lemma in_step_ok: "in_step r0 k r \<Longrightarrow> run_ok r"
  by (auto simp: in_step_def at_step_def run_ok_def)

lemma run_ok_at_step: "run_ok r \<Longrightarrow> rn_status r = RunRunning \<Longrightarrow> at_step (step_index (rn_step r)) r"
  by (auto simp: run_ok_def at_step_def)

lemma begin_step_in_step:
  assumes "at_step (step_index k) r" and "keeps_finished r0 r" and "\<not> is_finished (status_of k r)"
  shows "in_step r0 k (begin_step k t r)"
proof -
  have "at_step (step_index k) (r\<lparr>rn_step := k\<rparr>)" using assms(1) by (auto simp: at_step_def)
  moreover have "\<not> is_finished (status_of k r0)" using assms(2,3) keeps_finished_status by blast
  ultimately have "in_step r0 k (r\<lparr>rn_step := k\<rparr>)"
    using assms(2) by (simp add: in_step_def keeps_finished_def)
  then show ?thesis by (simp add: begin_step_def Let_def in_step_set_step)
qed

lemma wait_step_in_step: "in_step r0 k r \<Longrightarrow> in_step r0 k (wait_step k d r)"
  unfolding wait_step_def by (rule in_step_set_step) simp_all

lemma fail_step_in_step: "in_step r0 k r \<Longrightarrow> in_step r0 k (fail_step k e t r)"
  by (simp add: fail_step_def in_step_set_step)

lemma rolled_back_in_step: "in_step r0 k r \<Longrightarrow> in_step r0 k (rolled_back k d t r)"
  by (simp add: rolled_back_def in_step_set_step)

lemma in_step_keys: "in_step r0 k r \<Longrightarrow> map st_key (rn_steps r) = STEP_ORDER"
  by (simp add: in_step_def at_step_def)

lemma fail_step_status: "in_step r0 k r \<Longrightarrow> status_of k (fail_step k e t r) = Failed"
  by (simp add: fail_step_def status_of_set_step in_step_keys)

lemma rolled_back_status: "in_step r0 k r \<Longrightarrow> status_of k (rolled_back k d t r) = RolledBack"
  by (simp add: rolled_back_def status_of_set_step in_step_keys)

lemma halt_run_ok:
  assumes "in_step r0 k r" and "status_of k r = Failed \<or> status_of k r = RolledBack"
  shows "run_ok (halt_run k e t r) \<and> keeps_finished r0 (halt_run k e t r)"
proof -
  let ?r = "set_step k (\<lambda>x. x\<lparr>st_finishedAt := Some t\<rparr>) r"
  have i: "in_step r0 k ?r" by (rule in_step_set_step [OF assms(1)]) simp
  obtain x where "find_step k r = Some x" by (rule find_step_known [OF in_step_keys [OF assms(1)]])
  then have "status_of k ?r = status_of k r" by (simp add: status_of_def find_step_set_step)
  with i assms(2) show ?thesis
    by (auto simp: halt_run_def run_ok_def in_step_def at_step_def keeps_finished_def)
qed

lemma halt_run_status [simp]: "rn_status (halt_run k e t r) = RunFailed"
  by (simp add: halt_run_def)

lemma finish_step_ok:
  assumes "in_step r0 k r" and "is_finished s"
  shows "run_ok (finish_step k s d t r)" and "keeps_finished r0 (finish_step k s d t r)"
    and "at_step (Suc (step_index k)) (finish_step k s d t r)"
proof -
  let ?f = "\<lambda>x. (set_detail d (x\<lparr>st_status := s\<rparr>))\<lparr>st_finishedAt := Some t\<rparr>"
  have i: "in_step r0 k (set_step k ?f r)" by (rule in_step_set_step [OF assms(1)]) simp
  then have "in_step r0 k (finish_step k s d t r)" by (simp add: finish_step_def)
  then show "run_ok (finish_step k s d t r)" "keeps_finished r0 (finish_step k s d t r)"
    by (auto simp: in_step_ok) (simp add: in_step_def)
  have st: "status_of k (finish_step k s d t r) = s"
    by (simp add: finish_step_def status_of_set_step in_step_keys [OF assms(1)])
  show "at_step (Suc (step_index k)) (finish_step k s d t r)"
    using \<open>in_step r0 k (finish_step k s d t r)\<close> st assms(2)
    by (auto simp: in_step_def at_step_def less_Suc_eq)
qed

lemma at_step_skip:
  assumes "at_step (step_index k) r" and "is_finished (status_of k r)"
  shows "at_step (Suc (step_index k)) r"
  using assms by (auto simp: at_step_def less_Suc_eq is_finished_def)

lemma complete_run_ok:
  assumes "at_step 6 r" and "keeps_finished r0 r"
  shows "run_ok (complete_run r) \<and> keeps_finished r0 (complete_run r)"
proof -
  have "is_finished (status_of k r)" for k using assms(1) step_index_less [of k] by (simp add: at_step_def)
  moreover have "status_of k (complete_run r) = status_of k r" "find_step k (complete_run r) = find_step k r" for k
    by (simp_all add: complete_run_def status_of_def find_step_def)
  moreover have "step_index (rn_step r) = 5" using assms(1) step_index_less [of "rn_step r"] by (auto simp: at_step_def)
  moreover have "\<not> 5 < step_index k" for k using step_index_less [of k] by simp
  ultimately show ?thesis using assms
    by (simp add: run_ok_def at_step_def keeps_finished_def complete_run_def)
qed

section \<open>The engine over any handlers\<close>

text \<open>Everything written between two worlds satisfies \<open>Q\<close>.\<close>

definition emits :: "('w \<Rightarrow> 'r list) \<Rightarrow> ('r \<Rightarrow> bool) \<Rightarrow> 'w \<Rightarrow> 'w \<Rightarrow> bool" where
  "emits rows Q w w' \<longleftrightarrow> (\<exists>new. rows w' = rows w @ new \<and> list_all Q new)"

lemma emits_refl [simp]: "emits rows Q w w"
  by (simp add: emits_def)

lemma emits_trans: "emits rows Q a b \<Longrightarrow> emits rows Q b c \<Longrightarrow> emits rows Q a c"
  unfolding emits_def by (metis append.assoc list_all_append)

lemma emits_mono: "emits rows Q w w' \<Longrightarrow> (\<And>x. Q x \<Longrightarrow> Q' x) \<Longrightarrow> emits rows Q' w w'"
  unfolding emits_def by (metis list.pred_mono_strong)

text \<open>
  What the engine needs of its handlers and of the database: a handler (and its rollback) owns its
  step, in the run it leaves and in every row it writes on the way, and a write that succeeds
  stores the run as it is. A write that fails may or may not have stored it.
\<close>

locale step_engine =
  fixes hs :: "step_key \<Rightarrow> ('d, 'w) step_handler"
    and persist :: "'d run_state \<Rightarrow> 'w \<Rightarrow> (string + unit) \<times> 'w"
    and clk :: "'w \<Rightarrow> int"
    and rows :: "'w \<Rightarrow> 'd run_state list"
  assumes run_owns: "h_run (hs k) (r, w) = (res, (r', w')) \<Longrightarrow> touches k r r' \<and> emits rows (touches k r) w w'"
    and rollback_owns: "h_rollback (hs k) = Some f \<Longrightarrow> f reason (r, w) = (res', (r', w')) \<Longrightarrow>
      touches k r r' \<and> emits rows (touches k r) w w'"
    and persist_stores: "persist r w = (Inr (), w') \<Longrightarrow> rows w' = rows w @ [r]"
    and persist_fails: "persist r w = (Inl e, w') \<Longrightarrow> rows w' = rows w \<or> rows w' = rows w @ [r]"
begin

definition writes_ok :: "'d run_state \<Rightarrow> 'w \<Rightarrow> 'w \<Rightarrow> bool" where
  "writes_ok r0 = emits rows (\<lambda>x. run_ok x \<and> keeps_finished r0 x)"

definition triple ::
    "'d run_state \<Rightarrow> (('d, 'w) upg_state \<Rightarrow> bool) \<Rightarrow> ('d, 'w, 'a) upg \<Rightarrow> ('a \<Rightarrow> ('d, 'w) upg_state \<Rightarrow> bool) \<Rightarrow> bool" where
  "triple r0 P m Q \<longleftrightarrow>
     (\<forall>s. P s \<longrightarrow> (case m s of (res, s') \<Rightarrow>
        writes_ok r0 (snd s) (snd s') \<and> keeps_finished r0 (fst s') \<and> (case res of Inl e \<Rightarrow> True | Inr a \<Rightarrow> Q a s')))"

lemma tripleD:
  assumes "triple r0 P m Q" and "P s" and "m s = (res, s')"
  shows "writes_ok r0 (snd s) (snd s')" and "keeps_finished r0 (fst s')" and "res = Inr a \<Longrightarrow> Q a s'"
  using assms(1) [unfolded triple_def, rule_format, OF assms(2)] assms(3) by simp_all

lemma tripleI:
  assumes "\<And>s res s'. P s \<Longrightarrow> m s = (res, s') \<Longrightarrow>
    writes_ok r0 (snd s) (snd s') \<and> keeps_finished r0 (fst s') \<and> (\<forall>a. res = Inr a \<longrightarrow> Q a s')"
  shows "triple r0 P m Q"
  unfolding triple_def using assms by (auto split: prod.splits sum.splits)

lemma triple_bind:
  assumes "triple r0 P m Q" and "\<And>a. triple r0 (Q a) (f a) R"
  shows "triple r0 P (u_bind m f) R"
proof (rule tripleI)
  fix s res2 s2 assume P: "P s" and b: "u_bind m f s = (res2, s2)"
  obtain res s' where m: "m s = (res, s')" by (cases "m s")
  note 1 = tripleD [OF assms(1) P m]
  show "writes_ok r0 (snd s) (snd s2) \<and> keeps_finished r0 (fst s2) \<and> (\<forall>a. res2 = Inr a \<longrightarrow> R a s2)"
  proof (cases res)
    case (Inl e)
    with m b 1 show ?thesis by (auto simp: u_bind_def)
  next
    case (Inr a)
    have "Q a s'" using 1(3) [OF Inr] .
    moreover have "f a s' = (res2, s2)" using m b Inr by (simp add: u_bind_def)
    ultimately have 2: "writes_ok r0 (snd s') (snd s2) \<and> keeps_finished r0 (fst s2) \<and> (\<forall>a. res2 = Inr a \<longrightarrow> R a s2)"
      using tripleD [OF assms(2) [of a], of s' res2 s2] by simp
    with 1(1) have "writes_ok r0 (snd s) (snd s2)" unfolding writes_ok_def by (blast intro: emits_trans)
    with 2 show ?thesis by simp
  qed
qed

lemma triple_now:
  assumes "\<And>r t. P r \<Longrightarrow> Q (f t r) \<and> keeps_finished r0 (f t r)"
  shows "triple r0 (\<lambda>s. P (fst s)) (u_now c f) (\<lambda>_ s. Q (fst s))"
  using assms by (simp add: triple_def u_now_def writes_ok_def)

lemma triple_run:
  assumes "\<And>r. P r \<Longrightarrow> Q (f r) \<and> keeps_finished r0 (f r)"
  shows "triple r0 (\<lambda>s. P (fst s)) (u_run f) (\<lambda>_ s. Q (fst s))"
  using assms by (simp add: triple_def u_run_def writes_ok_def)

lemma triple_return:
  assumes "\<And>s. P s \<Longrightarrow> keeps_finished r0 (fst s)"
  shows "triple r0 P (u_return a) (\<lambda>b s. b = a \<and> P s)"
  using assms by (simp add: triple_def u_return_def writes_ok_def)

lemma triple_checkpoint:
  assumes "\<And>r. P r \<Longrightarrow> run_ok r \<and> keeps_finished r0 r"
  shows "triple r0 (\<lambda>s. P (fst s)) (checkpoint persist) (\<lambda>_ s. P (fst s) \<and> last (rows (snd s)) = fst s)"
proof (rule tripleI)
  fix s res s' assume P: "P (fst s)" and c: "checkpoint persist s = (res, s')"
  obtain w' where p: "persist (fst s) (snd s) = (res, w')" and s': "s' = (fst s, w')"
    using c by (auto simp: checkpoint_def split: prod.splits)
  then have "rows w' = rows (snd s) \<and> res \<noteq> Inr () \<or> rows w' = rows (snd s) @ [fst s]"
    using persist_stores persist_fails by (cases res) auto
  with s' P assms [OF P] show "writes_ok r0 (snd s) (snd s') \<and> keeps_finished r0 (fst s') \<and>
        (\<forall>a. res = Inr a \<longrightarrow> P (fst s') \<and> last (rows (snd s')) = fst s')"
    by (auto simp: writes_ok_def emits_def)
qed

lemma triple_try:
  assumes "\<And>s res s'. P s \<Longrightarrow> m s = (res, s') \<Longrightarrow> writes_ok r0 (snd s) (snd s') \<and> P' s'"
    and "\<And>e. triple r0 P' (g e) R" and "\<And>a. triple r0 P' (f a) R"
  shows "triple r0 P (u_try m g f) R"
proof (rule tripleI)
  fix s res2 s2 assume P: "P s" and b: "u_try m g f s = (res2, s2)"
  obtain res s' where m: "m s = (res, s')" by (cases "m s")
  have 1: "writes_ok r0 (snd s) (snd s')" "P' s'" using assms(1) [OF P m] by simp_all
  have 2: "writes_ok r0 (snd s') (snd s2) \<and> keeps_finished r0 (fst s2) \<and> (\<forall>a. res2 = Inr a \<longrightarrow> R a s2)"
  proof (cases res)
    case (Inl e)
    then have "g e s' = (res2, s2)" using m b by (simp add: u_try_def)
    from tripleD [OF assms(2) 1(2) this] show ?thesis by simp
  next
    case (Inr a)
    then have "f a s' = (res2, s2)" using m b by (simp add: u_try_def)
    from tripleD [OF assms(3) 1(2) this] show ?thesis by simp
  qed
  with 1(1) have "writes_ok r0 (snd s) (snd s2)" unfolding writes_ok_def by (blast intro: emits_trans)
  with 2 show "writes_ok r0 (snd s) (snd s2) \<and> keeps_finished r0 (fst s2) \<and> (\<forall>a. res2 = Inr a \<longrightarrow> R a s2)" by simp
qed

lemma touches_writes:
  assumes "in_step r0 k r" and "touches k r r' \<and> emits rows (touches k r) w w'"
  shows "writes_ok r0 w w' \<and> in_step r0 k r'"
proof -
  have "run_ok x \<and> keeps_finished r0 x" if "touches k r x" for x
    using in_step_touches [OF assms(1) that] by (simp add: in_step_ok) (simp add: in_step_def)
  with assms show ?thesis by (auto simp: writes_ok_def intro: emits_mono in_step_touches)
qed

lemma handler_owns:
  assumes "in_step r0 k (fst s)" and "h_run (hs k) s = (res, s')"
  shows "writes_ok r0 (snd s) (snd s') \<and> in_step r0 k (fst s')"
  using touches_writes [OF assms(1)] run_owns [of k "fst s" "snd s" res "fst s'" "snd s'"] assms(2) by simp

text \<open>What \<open>driveRun\<close> reports is what the row last written says.\<close>

definition settled :: "drive_result \<Rightarrow> ('d, 'w) upg_state \<Rightarrow> bool" where
  "settled x s \<longleftrightarrow>
     run_ok (fst s) \<and> last (rows (snd s)) = fst s \<and>
     (case x of DriveDone \<Rightarrow> rn_status (fst s) = RunDone
      | DriveFailed \<Rightarrow> rn_status (fst s) = RunFailed
      | DriveWaiting \<Rightarrow> rn_status (fst s) = RunRunning \<and> status_of (rn_step (fst s)) (fst s) = Waiting
      | DriveIdle \<Rightarrow> False)"

lemma triple_mono:
  assumes "triple r0 P m Q" and "\<And>s. P' s \<Longrightarrow> P s" and "\<And>a s. Q a s \<Longrightarrow> Q' a s"
  shows "triple r0 P' m Q'"
proof (rule tripleI)
  fix s res s' assume "P' s" and m: "m s = (res, s')"
  then have "P s" using assms(2) by blast
  from tripleD [OF assms(1) this m] show "writes_ok r0 (snd s) (snd s') \<and> keeps_finished r0 (fst s') \<and>
      (\<forall>a. res = Inr a \<longrightarrow> Q' a s')" using assms(3) by blast
qed

lemma triple_keeps: "triple r0 P m Q \<Longrightarrow> triple r0 P m (\<lambda>a s. Q a s \<and> keeps_finished r0 (fst s))"
  by (rule tripleI) (use tripleD [of r0 P m Q] in blast)

lemma triple_save:
  assumes "\<And>r. P r \<Longrightarrow> run_ok r \<and> keeps_finished r0 r"
    and "\<And>s. P (fst s) \<Longrightarrow> last (rows (snd s)) = fst s \<Longrightarrow> Q a s"
  shows "triple r0 (\<lambda>s. P (fst s)) (u_bind (checkpoint persist) (\<lambda>_. u_return a)) (\<lambda>b s. b = a \<and> Q a s)"
proof (rule tripleI)
  fix s res s' assume P: "P (fst s)" and b: "u_bind (checkpoint persist) (\<lambda>_. u_return a) s = (res, s')"
  obtain c s1 where c: "checkpoint persist s = (c, s1)" by (cases "checkpoint persist s")
  note * = tripleD [OF triple_checkpoint [of P r0] P c]
  have "writes_ok r0 (snd s) (snd s1)" "keeps_finished r0 (fst s1)" "c = Inr () \<Longrightarrow> P (fst s1) \<and> last (rows (snd s1)) = fst s1"
    using * assms(1) by blast+
  with b c assms(2) show "writes_ok r0 (snd s) (snd s') \<and> keeps_finished r0 (fst s') \<and> (\<forall>b. res = Inr b \<longrightarrow> b = a \<and> Q a s')"
    by (auto simp: u_bind_def u_return_def split: sum.splits)
qed

lemma in_step_keeps: "in_step r0 k r \<Longrightarrow> keeps_finished r0 r"
  by (simp add: in_step_def)

definition failing :: "'d run_state \<Rightarrow> step_key \<Rightarrow> 'd run_state \<Rightarrow> bool" where
  "failing r0 k r \<longleftrightarrow> in_step r0 k r \<and> (status_of k r = Failed \<or> status_of k r = RolledBack)"

lemma triple_rollback:
  "triple r0 (\<lambda>s. failing r0 k (fst s)) (try_rollback clk k (h_rollback (hs k)) reason) (\<lambda>_ s. failing r0 k (fst s))"
proof (cases "h_rollback (hs k)")
  case None
  have "triple r0 (\<lambda>s. failing r0 k (fst s)) (u_return ()) (\<lambda>b s. b = () \<and> failing r0 k (fst s))"
    by (rule triple_return) (unfold failing_def, blast intro: in_step_keeps)
  with None show ?thesis by (simp add: try_rollback_def)
next
  case (Some f)
  have "writes_ok r0 (snd s) (snd s') \<and> failing r0 k (fst s')"
    if "failing r0 k (fst s)" "f reason s = (res, s')" for s res s'
  proof -
    have t: "touches k (fst s) (fst s') \<and> emits rows (touches k (fst s)) (snd s) (snd s')"
      using rollback_owns [OF Some, of reason "fst s" "snd s" res "fst s'" "snd s'"] that(2) by simp
    with that(1) touches_writes [of r0 k "fst s"] touches_other show ?thesis
      by (metis failing_def)
  qed
  moreover have "triple r0 (\<lambda>s. failing r0 k (fst s)) (u_now clk (noteOn m)) (\<lambda>_ s. failing r0 k (fst s))" for m
    by (rule triple_now) (simp add: failing_def, simp add: in_step_def keeps_finished_def)
  moreover have "triple r0 (\<lambda>s. failing r0 k (fst s)) (u_now clk (rolled_back k d)) (\<lambda>_ s. failing r0 k (fst s))" for d
    by (rule triple_now) (unfold failing_def, use rolled_back_in_step rolled_back_status in_step_keeps in blast)
  ultimately have "triple r0 (\<lambda>s. failing r0 k (fst s)) (u_try (f reason)
      (\<lambda>e. u_now clk (noteOn (STEP_LABEL k @ '' ROLLBACK FAILED: '' @ e))) (\<lambda>d. u_now clk (rolled_back k d)))
      (\<lambda>_ s. failing r0 k (fst s))"
    by (rule triple_try [where P' = "\<lambda>s. failing r0 k (fst s)"])
  with Some show ?thesis by (simp add: try_rollback_def)
qed

lemma triple_after_throw:
  "triple r0 (\<lambda>s. in_step r0 k (fst s)) (after_throw persist clk k (hs k) reason) (\<lambda>x s. x = Some DriveFailed \<and> settled DriveFailed s)"
  unfolding after_throw_def
proof (rule triple_bind, rule triple_now [where Q = "failing r0 k"])
  show "failing r0 k (fail_step k reason t r) \<and> keeps_finished r0 (fail_step k reason t r)" if "in_step r0 k r" for r t
    using in_step_keeps [OF fail_step_in_step [OF that]] fail_step_in_step [OF that] fail_step_status [OF that]
    by (simp add: failing_def)
  let ?H = "\<lambda>r. run_ok r \<and> keeps_finished r0 r \<and> rn_status r = RunFailed"
  have "triple r0 (\<lambda>s. failing r0 k (fst s)) (u_now clk (halt_run k reason)) (\<lambda>_ s. ?H (fst s))"
    by (rule triple_now) (unfold failing_def, use halt_run_ok halt_run_status in blast)
  moreover have "triple r0 (\<lambda>s. ?H (fst s)) (u_bind (checkpoint persist) (\<lambda>_. u_return (Some DriveFailed)))
      (\<lambda>x s. x = Some DriveFailed \<and> settled DriveFailed s)"
    by (rule triple_save) (simp_all add: settled_def)
  note this = triple_bind [OF triple_rollback triple_bind [OF calculation this]]
  then show "triple r0 (\<lambda>s. failing r0 k (fst s))
      (u_bind (try_rollback clk k (h_rollback (hs k)) reason) (\<lambda>_. u_bind (u_now clk (halt_run k reason))
         (\<lambda>_. u_bind (checkpoint persist) (\<lambda>_. u_return (Some DriveFailed)))))
      (\<lambda>x s. x = Some DriveFailed \<and> settled DriveFailed s)"
    .
qed

definition turn_post :: "'d run_state \<Rightarrow> step_key \<Rightarrow> drive_result option \<Rightarrow> ('d, 'w) upg_state \<Rightarrow> bool" where
  "turn_post r0 k ro s \<longleftrightarrow>
     (case ro of None \<Rightarrow> at_step (Suc (step_index k)) (fst s) \<and> keeps_finished r0 (fst s)
      | Some x \<Rightarrow> settled x s)"

lemma triple_finish:
  assumes "is_finished q"
  shows "triple r0 (\<lambda>s. in_step r0 k (fst s)) (u_bind (u_now clk (finish_step k q d)) (\<lambda>_.
      u_bind (checkpoint persist) (\<lambda>_. u_return None))) (turn_post r0 k)"
proof (rule triple_bind)
  let ?F = "\<lambda>r. run_ok r \<and> keeps_finished r0 r \<and> at_step (Suc (step_index k)) r"
  show "triple r0 (\<lambda>s. in_step r0 k (fst s)) (u_now clk (finish_step k q d)) (\<lambda>_ s. ?F (fst s))"
    using finish_step_ok [of r0 k _ q d] assms by (intro triple_now) blast
  have "triple r0 (\<lambda>s. ?F (fst s)) (u_bind (checkpoint persist) (\<lambda>_. u_return None)) (\<lambda>b s. b = None \<and> turn_post r0 k None s)"
    by (rule triple_save) (simp_all add: turn_post_def)
  then show "triple r0 (\<lambda>s. ?F (fst s)) (u_bind (checkpoint persist) (\<lambda>_. u_return None)) (turn_post r0 k)" for a :: unit
    by (rule triple_mono) auto
qed

lemma triple_after_outcome: "triple r0 (\<lambda>s. in_step r0 k (fst s)) (after_outcome persist clk k out) (turn_post r0 k)"
proof (cases out)
  case (OutWait d)
  let ?W = "\<lambda>r. in_step r0 k r \<and> status_of k r = Waiting"
  have "?W (wait_step k d r) \<and> keeps_finished r0 (wait_step k d r)" if "in_step r0 k r" for r
    using wait_step_in_step [OF that] in_step_keeps [OF wait_step_in_step [OF that]] in_step_keys [OF that]
    by (simp add: wait_step_def status_of_set_step)
  then have "triple r0 (\<lambda>s. in_step r0 k (fst s)) (u_run (wait_step k d)) (\<lambda>_ s. ?W (fst s))" by (rule triple_run)
  moreover have "triple r0 (\<lambda>s. ?W (fst s)) (u_bind (checkpoint persist) (\<lambda>_. u_return (Some DriveWaiting)))
      (\<lambda>b s. b = Some DriveWaiting \<and> turn_post r0 k (Some DriveWaiting) s)"
  proof (rule triple_save)
    show "run_ok r \<and> keeps_finished r0 r" if "?W r" for r using that in_step_ok in_step_keeps by blast
    show "turn_post r0 k (Some DriveWaiting) s" if "?W (fst s)" "last (rows (snd s)) = fst s" for s
      using that in_step_ok [of r0 k "fst s"] by (auto simp: turn_post_def settled_def in_step_def at_step_def)
  qed
  then have "triple r0 (\<lambda>s. ?W (fst s)) (u_bind (checkpoint persist) (\<lambda>_. u_return (Some DriveWaiting))) (turn_post r0 k)"
    by (rule triple_mono) auto
  ultimately show ?thesis by (auto simp: OutWait intro: triple_bind)
qed (simp_all add: triple_finish is_finished_def)

lemma triple_drive_step:
  "triple r0 (\<lambda>s. at_step (step_index k) (fst s) \<and> keeps_finished r0 (fst s)) (drive_step hs persist clk k) (turn_post r0 k)"
proof (rule tripleI)
  fix s res s'
  assume P: "at_step (step_index k) (fst s) \<and> keeps_finished r0 (fst s)" and d: "drive_step hs persist clk k s = (res, s')"
  have e: "ensure_step k (fst s) = fst s" using P by (simp add: ensure_step_known at_step_def)
  show "writes_ok r0 (snd s) (snd s') \<and> keeps_finished r0 (fst s') \<and> (\<forall>a. res = Inr a \<longrightarrow> turn_post r0 k a s')"
  proof (cases "is_finished (status_of k (fst s))")
    case True
    with P d e at_step_skip show ?thesis by (auto simp: drive_step_def writes_ok_def turn_post_def)
  next
    case False
    let ?P = "\<lambda>r. at_step (step_index k) r \<and> keeps_finished r0 r \<and> \<not> is_finished (status_of k r)"
    let ?m = "u_bind (u_now clk (begin_step k)) (\<lambda>_. u_bind (checkpoint persist) (\<lambda>_.
        u_try (h_run (hs k)) (\<lambda>reason. after_throw persist clk k (hs k) reason) (after_outcome persist clk k)))"
    have 1: "triple r0 (\<lambda>s. ?P (fst s)) (u_now clk (begin_step k)) (\<lambda>_ s. in_step r0 k (fst s))"
      by (rule triple_now) (use begin_step_in_step in_step_keeps in blast)
    have 2: "triple r0 (\<lambda>s. in_step r0 k (fst s)) (checkpoint persist) (\<lambda>_ s. in_step r0 k (fst s) \<and> last (rows (snd s)) = fst s)"
      by (rule triple_checkpoint) (use in_step_ok in_step_keeps in blast)
    have "triple r0 (\<lambda>s. in_step r0 k (fst s)) (after_throw persist clk k (hs k) reason) (turn_post r0 k)" for reason
      by (rule triple_mono [OF triple_after_throw]) (auto simp: turn_post_def)
    then have 3: "triple r0 (\<lambda>s. in_step r0 k (fst s)) (u_try (h_run (hs k))
        (\<lambda>reason. after_throw persist clk k (hs k) reason) (after_outcome persist clk k)) (turn_post r0 k)"
      by (intro triple_try [where P' = "\<lambda>s. in_step r0 k (fst s)"] handler_owns triple_after_outcome)
    have "triple r0 (\<lambda>s. ?P (fst s)) ?m (turn_post r0 k)"
      by (rule triple_bind [OF 1], rule triple_mono [OF triple_bind [OF 2]], rule triple_mono [OF 3]) auto
    moreover have "?m s = (res, s')" using d e False by (simp add: drive_step_def Let_def)
    ultimately show ?thesis using tripleD [of r0 "\<lambda>s. ?P (fst s)" ?m "turn_post r0 k" s res s'] P False by blast
  qed
qed

lemma triple_drive_loop:
  "triple r0 (\<lambda>s. at_step n (fst s) \<and> keeps_finished r0 (fst s)) (drive_loop hs persist clk (drop n STEP_ORDER)) settled"
  if "n \<le> 6"
  using that
proof (induction "6 - n" arbitrary: n)
  case 0
  then have n: "n = 6" by simp
  have "triple r0 (\<lambda>s. at_step 6 (fst s) \<and> keeps_finished r0 (fst s)) (u_run complete_run)
      (\<lambda>_ s. run_ok (fst s) \<and> keeps_finished r0 (fst s) \<and> rn_status (fst s) = RunDone)"
    by (rule triple_run) (use complete_run_ok [of _ r0] in \<open>auto simp: complete_run_def\<close>)
  moreover have "triple r0 (\<lambda>s. run_ok (fst s) \<and> keeps_finished r0 (fst s) \<and> rn_status (fst s) = RunDone)
      (u_bind (checkpoint persist) (\<lambda>_. u_return DriveDone)) (\<lambda>b s. b = DriveDone \<and> settled DriveDone s)"
    by (rule triple_save) (simp_all add: settled_def)
  then have "triple r0 (\<lambda>s. run_ok (fst s) \<and> keeps_finished r0 (fst s) \<and> rn_status (fst s) = RunDone)
      (u_bind (checkpoint persist) (\<lambda>_. u_return DriveDone)) settled" by (rule triple_mono) auto
  ultimately show ?case by (simp add: n STEP_ORDER_def triple_bind)
next
  case (Suc m)
  then have "n < 6" by simp
  then obtain k where k: "step_index k = n" using step_of_index by blast
  have IH: "triple r0 (\<lambda>s. at_step (Suc n) (fst s) \<and> keeps_finished r0 (fst s)) (drive_loop hs persist clk (drop (Suc n) STEP_ORDER)) settled"
    using Suc.hyps(1) [of "Suc n"] Suc.hyps(2) \<open>n < 6\<close> by simp
  have "triple r0 (\<lambda>s. turn_post r0 k ro s \<and> keeps_finished r0 (fst s))
      (case ro of None \<Rightarrow> drive_loop hs persist clk (drop (Suc n) STEP_ORDER) | Some x \<Rightarrow> u_return x) settled" for ro
  proof (cases ro)
    case None
    then show ?thesis by (auto intro: triple_mono [OF IH] simp: turn_post_def k)
  next
    case (Some x)
    have "triple r0 (\<lambda>s. settled x s \<and> keeps_finished r0 (fst s)) (u_return x)
        (\<lambda>b s. b = x \<and> settled x s \<and> keeps_finished r0 (fst s))"
      by (rule triple_return) simp
    then show ?thesis by (auto simp: Some turn_post_def intro: triple_mono)
  qed
  then have "triple r0 (\<lambda>s. at_step (step_index k) (fst s) \<and> keeps_finished r0 (fst s))
      (u_bind (drive_step hs persist clk k) (\<lambda>ro. case ro of None \<Rightarrow> drive_loop hs persist clk (drop (Suc n) STEP_ORDER)
         | Some x \<Rightarrow> u_return x)) settled"
    by (rule triple_bind [OF triple_keeps [OF triple_drive_step]])
  then show ?case by (simp add: k drop_STEP_ORDER [of k, unfolded k])
qed

lemma drive_sound:
  assumes "run_ok r0" and "driveRun hs persist clk (r0, w) = (res, (r', w'))"
  shows "emits rows (\<lambda>x. run_ok x \<and> keeps_finished r0 x) w w'" and "keeps_finished r0 r'"
    and "res = Inr x \<Longrightarrow> x = DriveIdle \<and> rn_status r0 \<noteq> RunRunning \<and> w' = w \<or> settled x (r', w')"
proof -
  have "emits rows (\<lambda>x. run_ok x \<and> keeps_finished r0 x) w w' \<and> keeps_finished r0 r' \<and>
      (res = Inr x \<longrightarrow> x = DriveIdle \<and> rn_status r0 \<noteq> RunRunning \<and> w' = w \<or> settled x (r', w'))"
  proof (cases "rn_status r0 = RunRunning")
    case True
    let ?n = "step_index (rn_step r0)"
    have "at_step ?n (fst (r0, w)) \<and> keeps_finished r0 (fst (r0, w))" using run_ok_at_step assms(1) True by simp
    moreover have "drive_loop hs persist clk (drop ?n STEP_ORDER) (r0, w) = (res, (r', w'))"
      using assms(2) True by (simp add: driveRun_def)
    moreover have "?n \<le> 6" using step_index_less [of "rn_step r0"] by simp
    ultimately show ?thesis
      using tripleD [OF triple_drive_loop [of ?n r0], of "(r0, w)" res "(r', w')"] by (auto simp: writes_ok_def)
  next
    case False
    then show ?thesis using assms(2) by (auto simp: driveRun_def)
  qed
  then show "emits rows (\<lambda>x. run_ok x \<and> keeps_finished r0 x) w w'" "keeps_finished r0 r'"
    "res = Inr x \<Longrightarrow> x = DriveIdle \<and> rn_status r0 \<noteq> RunRunning \<and> w' = w \<or> settled x (r', w')" by blast+
qed

lemma drive_step_unused:
  assumes "at_step (step_index k) (fst s)" and "keeps_finished r0 (fst s)"
    and "\<not> is_finished (status_of k r0) \<Longrightarrow> hs' k = hs k"
  shows "drive_step hs' persist clk k s = drive_step hs persist clk k s"
proof (cases "is_finished (status_of k (fst s))")
  case True
  then show ?thesis using assms(1) by (simp add: drive_step_def ensure_step_known at_step_def)
next
  case False
  then have "hs' k = hs k" using assms(2,3) keeps_finished_status by blast
  then show ?thesis unfolding drive_step_def by (simp only:)
qed

lemma drive_loop_unused:
  assumes "n \<le> 6" and "at_step n (fst s)" and "keeps_finished r0 (fst s)"
    and "\<And>k. \<not> is_finished (status_of k r0) \<Longrightarrow> hs' k = hs k"
  shows "drive_loop hs' persist clk (drop n STEP_ORDER) s = drive_loop hs persist clk (drop n STEP_ORDER) s"
  using assms(1-3)
proof (induction "6 - n" arbitrary: n s)
  case 0
  then show ?case by (simp add: STEP_ORDER_def)
next
  case (Suc m)
  then have "n < 6" by simp
  then obtain k where k: "step_index k = n" using step_of_index by blast
  obtain res s' where d: "drive_step hs persist clk k s = (res, s')" by (cases "drive_step hs persist clk k s")
  have d': "drive_step hs' persist clk k s = (res, s')"
    using drive_step_unused [of k s r0 hs'] Suc.prems k assms(4) d by simp
  note post = tripleD [OF triple_drive_step [of r0 k] _ d]
  have "drive_loop hs' persist clk (drop (Suc n) STEP_ORDER) s' = drive_loop hs persist clk (drop (Suc n) STEP_ORDER) s'"
    if "res = Inr None"
    using Suc.hyps(1) [of "Suc n" s'] Suc.hyps(2) \<open>n < 6\<close> post(3) [OF _ that] Suc.prems(2,3) k
    by (simp add: turn_post_def)
  then show ?case using d d' by (auto simp: drop_STEP_ORDER [of k, unfolded k] u_bind_def split: sum.splits option.splits)
qed

lemma drive_ignores_finished:
  assumes "run_ok r0" and "\<And>k. \<not> is_finished (status_of k r0) \<Longrightarrow> hs' k = hs k"
  shows "driveRun hs' persist clk (r0, w) = driveRun hs persist clk (r0, w)"
proof (cases "rn_status r0 = RunRunning")
  case True
  then have "at_step (step_index (rn_step r0)) r0" using assms(1) by (rule run_ok_at_step [rotated])
  then show ?thesis
    using assms(2) drive_loop_unused [of "step_index (rn_step r0)" "(r0, w)" r0 hs'] step_index_less [of "rn_step r0"]
    by (simp add: driveRun_def)
qed (simp add: driveRun_def)

end

section \<open>Runs that go through\<close>

lemma drive_completes:
  assumes "\<And>k s. \<exists>d s'. h_run (hs k) s = (Inr (OutDone d), s') \<or> h_run (hs k) s = (Inr (OutSkipped d), s')"
    and "\<And>r w. fst (persist r w) = Inr ()" and "rn_status r = RunRunning"
  shows "\<exists>s'. driveRun hs persist clk (r, w) = (Inr DriveDone, s') \<and> rn_status (fst s') = RunDone"
proof -
  have c: "\<exists>s'. checkpoint persist s = (Inr (), s') \<and> fst s' = fst s" for s
    using assms(2) [of "fst s" "snd s"] by (cases "persist (fst s) (snd s)") (simp add: checkpoint_def)
  have f: "\<exists>s'. after_outcome persist clk k out s = (Inr None, s')" if "out = OutDone d \<or> out = OutSkipped d" for k out d s
  proof -
    have "\<exists>s'. u_bind (u_now clk g) (\<lambda>_. u_bind (checkpoint persist) (\<lambda>_. u_return None)) s = (Inr None, s')"
      for g :: "int \<Rightarrow> 'a run_state \<Rightarrow> 'a run_state"
      using c [of "(g (clk (snd s)) (fst s), snd s)"] by (auto simp: u_bind_def u_now_def u_return_def)
    with that show ?thesis by auto
  qed
  have "\<exists>s'. drive_step hs persist clk k s = (Inr None, s')" for k s
  proof -
    let ?s1 = "(ensure_step k (fst s), snd s)"
    obtain s2 where s2: "checkpoint persist (begin_step k (clk (snd s)) (fst ?s1), snd s) = (Inr (), s2)" using c by blast
    obtain d s3 where "h_run (hs k) s2 = (Inr (OutDone d), s3) \<or> h_run (hs k) s2 = (Inr (OutSkipped d), s3)"
      using assms(1) by blast
    then have "\<exists>s'. u_try (h_run (hs k)) (after_throw persist clk k (hs k)) (after_outcome persist clk k) s2 = (Inr None, s')"
      using f [of "OutDone d" d k s3] f [of "OutSkipped d" d k s3] by (auto simp: u_try_def simp del: after_outcome.simps)
    with s2 show ?thesis by (auto simp: drive_step_def Let_def u_bind_def u_now_def)
  qed
  then have "\<exists>s'. drive_loop hs persist clk ks s = (Inr DriveDone, s') \<and> rn_status (fst s') = RunDone" for ks s
  proof (induction ks arbitrary: s)
    case Nil
    obtain s2 where "checkpoint persist (complete_run (fst s), snd s) = (Inr (), s2)" "fst s2 = complete_run (fst s)"
      using c [of "(complete_run (fst s), snd s)"] by auto
    then show ?case by (simp add: u_bind_def u_run_def u_return_def complete_run_def)
  next
    case (Cons k ks)
    obtain s2 where "drive_step hs persist clk k s = (Inr None, s2)" using Cons.prems by blast
    with Cons.IH [OF Cons.prems, of s2] show ?case by (simp add: u_bind_def)
  qed
  then show ?thesis using assms(3) by (simp add: driveRun_def)
qed

lemma newRunState_ok: "run_ok (newRunState :: 'd run_state)"
proof -
  have "status_of k (newRunState :: 'd run_state) = Pending" for k
    by (cases k) (simp_all add: status_of_def find_step_def newRunState_def initialSteps_def STEP_ORDER_def new_step_def)
  then show ?thesis by (simp add: run_ok_def) (simp add: newRunState_def initialSteps_def new_step_def STEP_ORDER_def)
qed

lemma retryRun_ok:
  assumes "run_ok r" and "retryRun t r = Inr r'"
  shows "run_ok r' \<and> keeps_finished r r' \<and> rn_status r' = RunRunning \<and> rn_step r' = rn_step r \<and>
    (\<exists>x. find_step (rn_step r) r = Some x \<and>
       find_step (rn_step r) r' = Some (x\<lparr>st_status := Pending, st_error := None, st_finishedAt := None\<rparr>))"
proof -
  let ?k = "rn_step r" and ?f = "\<lambda>x. x\<lparr>st_status := Pending, st_error := None, st_finishedAt := None\<rparr>"
  have keys: "map st_key (rn_steps r) = STEP_ORDER" and failed: "rn_status r = RunFailed"
    using assms by (auto simp: run_ok_def retryRun_def split: if_splits)
  have st: "status_of ?k r = Failed \<or> status_of ?k r = RolledBack" using assms(1) failed by (simp add: run_ok_def)
  obtain x where x: "find_step ?k r = Some x" by (rule find_step_known [OF keys])
  have r': "r' = noteOn (''retrying from '' @ STEP_LABEL ?k) t ((set_step ?k ?f r)\<lparr>rn_status := RunRunning, rn_error := None\<rparr>)"
    using assms(2) failed by (simp add: retryRun_def ensure_step_known [OF keys])
  have fs: "find_step k r' = (if k = ?k then Some (?f x) else find_step k r)" for k
    by (simp add: r' find_step_set_step x)
  have ss: "status_of k r' = (if k = ?k then Pending else status_of k r)" for k by (simp add: status_of_def fs)
  have "map st_key (rn_steps r') = STEP_ORDER" using keys keys_set_step [of ?f ?k r] by (simp add: r')
  moreover have "keeps_finished r r'" using st by (auto simp: keeps_finished_def fs is_finished_def)
  ultimately show ?thesis using assms(1) x fs ss by (auto simp: run_ok_def r')
qed

end
