(* ===== verification/UpgradeSystem.thy ===== *)
theory UpgradeSystem
  imports UpgradePlan "HOL-Library.Code_Target_Nat" "HOL-Library.Code_Target_Int"
begin

text \<open>
  The decisions of the upgrade steps: the second half of
  \<^verbatim>\<open>packages/trpc/src/services/platform-upgrade.plan.ts\<close>. \<open>controllerStepDecision\<close> is what the
  controller step does now, \<open>planSystemUpdates\<close> which platform services get a new image, and the
  scripts and their answer are what a step asks the docker command line. \<^verbatim>\<open>localeCompare\<close> and the
  choice of a mirrored image are arguments. An exit code is read as a decimal integer.
\<close>

section \<open>Definitions\<close>

subsection \<open>Images\<close>

definition js_last_index :: "char \<Rightarrow> string \<Rightarrow> int" where
  "js_last_index c s =
     (if c \<in> set s then int (length s) - 1 - int (length (takeWhile (\<lambda>x. x \<noteq> c) (rev s))) else -1)"

text \<open>\<^verbatim>\<open>/^sha256:[a-f0-9]{64}$/\<close>.\<close>

definition is_digest :: "string \<Rightarrow> bool" where
  "is_digest d =
     (js_starts_with d ''sha256:'' \<and> length (drop 7 d) = 64 \<and>
      list_all (\<lambda>c. CHR ''0'' \<le> c \<and> c \<le> CHR ''9'' \<or> CHR ''a'' \<le> c \<and> c \<le> CHR ''f'') (drop 7 d))"

definition digestOf :: "string option \<Rightarrow> string option" where
  "digestOf img =
     (if \<not> truthy img then None
      else let i = the img; n = js_last_index (CHR ''@'') i
           in if n < 0 then None
              else let d = drop (nat n + 1) i in if is_digest d then Some d else None)"

definition cut_at :: "char \<Rightarrow> string \<Rightarrow> string" where
  "cut_at c s = takeWhile (\<lambda>x. x \<noteq> c) s"

definition repoOf :: "string \<Rightarrow> string \<Rightarrow> string" where
  "repoOf mirrorNamespace img =
     (let r0 = cut_at (CHR ''@'') img;
          slash = js_last_index (CHR ''/'') r0;
          colon = js_last_index (CHR '':'') r0;
          r1 = (if colon > slash then take (nat colon) r0 else r0);
          ns = ''/'' @ mirrorNamespace @ ''/'';
          r2 = (case js_index_of ns r1 of None \<Rightarrow> r1 | Some n \<Rightarrow> drop (n + length ns) r1);
          first = cut_at (CHR ''/'') r2;
          hasHost = (CHR ''/'' \<in> set r2 \<and>
                     (CHR ''.'' \<in> set first \<or> CHR '':'' \<in> set first \<or> first = ''localhost''))
      in if hasHost then r2
         else if CHR ''/'' \<in> set r2 then ''docker.io/'' @ r2 else ''docker.io/library/'' @ r2)"

definition SYSTEM_NAMESPACE :: string where "SYSTEM_NAMESPACE = ''swarmy-system''"

subsection \<open>The controller step\<close>

record controller_input =
  ci_target :: "string option"
  ci_liveImage :: "string option"
  ci_liveUpdateState :: "string option"
  ci_inventoryReady :: bool
  ci_dispatchedAt :: "int option"
  ci_processStartedAt :: int
  ci_now :: int
  ci_selfCommit :: "string option"
  ci_targetCommit :: "string option"
  ci_fromCommit :: "string option"
  ci_timeoutMs :: "int option"

datatype controller_decision =
    CdSkip string | CdDone string | CdDispatch | CdWait string | CdFail string

definition NEW_CONTROLLER_UNHEALTHY :: string where
  "NEW_CONTROLLER_UNHEALTHY =
     ''the new controller did not become healthy; Swarm rolled back to the previous build''"

definition restarted :: "controller_input \<Rightarrow> bool" where
  "restarted i = (case ci_dispatchedAt i of None \<Rightarrow> False | Some t \<Rightarrow> ci_processStartedAt i > t)"

definition commitMoved :: "controller_input \<Rightarrow> bool" where
  "commitMoved i =
     (truthy (ci_targetCommit i) \<and> ci_selfCommit i = ci_targetCommit i \<and> ci_fromCommit i \<noteq> ci_targetCommit i)"

definition controllerStepDecision :: "controller_input \<Rightarrow> controller_decision" where
  "controllerStepDecision i =
     (let timeout = opt_or (ci_timeoutMs i) (15 * 60000); live = digestOf (ci_liveImage i)
      in if \<not> truthy (ci_target i) then CdSkip ''this release carries no controller digest''
         else case ci_dispatchedAt i of
           None \<Rightarrow>
             if ci_liveImage i = None then
               (if \<not> ci_inventoryReady i then CdWait ''waiting for the cluster inventory''
                else CdSkip ''the controller does not run as a swarm service here (dev / external)'')
             else if live = ci_target i then CdDone ''already on the target build''
             else CdDispatch
         | Some t \<Rightarrow>
             if restarted i \<and> (live = ci_target i \<or> commitMoved i)
             then CdDone ''the new controller is up and resumed the run''
             else if ci_liveUpdateState i = Some ''rollback_started'' \<or>
                     ci_liveUpdateState i = Some ''rollback_completed''
             then CdFail NEW_CONTROLLER_UNHEALTHY
             else if restarted i \<and> ci_liveImage i \<noteq> None \<and> live \<noteq> ci_target i
             then CdFail NEW_CONTROLLER_UNHEALTHY
             else if restarted i \<and> ci_liveImage i = None
             then CdWait ''waiting for the cluster inventory after the restart''
             else if ci_now i - t > timeout
             then CdFail ''Swarm never replaced the controller (update did not start within 15 minutes)''
             else CdWait ''Swarm is replacing the controller; the new one resumes this run'')"

subsection \<open>The system services\<close>

record system_update =
  su_service :: string
  su_key :: string
  su_from :: string
  su_to :: string

definition SYSTEM_ORDER :: "string \<Rightarrow> nat option" where
  "SYSTEM_ORDER =
     map_of [(''dns'', 1), (''caddySwarmy'', 2), (''caddy'', 2), (''otelCollector'', 3), (''clickhouse'', 4)]"

definition SYSTEM_STEP_EXCLUDED :: "string list" where
  "SYSTEM_STEP_EXCLUDED = [''swarmy_controller'', ''swarmy-garage'']"

record manifest_component =
  mc_ref :: string
  mc_image :: string
  mc_digest :: "string option"

record live_service =
  ls_name :: string
  ls_image :: string
  ls_labels :: labels
  ls_updateStatus :: "string option"
  ls_desired :: "int option"
  ls_running :: int

definition add_component :: "string \<times> manifest_component \<Rightarrow> string jsmap \<Rightarrow> string jsmap" where
  "add_component kc byRepo =
     (if \<not> truthy (mc_digest (snd kc)) \<or> SYSTEM_ORDER (fst kc) = None then byRepo
      else AList.update (repoOf SYSTEM_NAMESPACE (mc_image (snd kc))) (fst kc)
             (AList.update (repoOf SYSTEM_NAMESPACE (mc_ref (snd kc))) (fst kc) byRepo))"

definition component_repos :: "manifest_component jsmap \<Rightarrow> string jsmap" where
  "component_repos components = fold add_component components []"

definition is_system :: "live_service \<Rightarrow> bool" where
  "is_system s =
     (js_starts_with (ls_name s) ''swarmy-'' \<or> lbl (ls_labels s) ''swarmy.system'' = Some ''true'' \<or>
      lbl (ls_labels s) ''com.docker.stack.namespace'' = Some ''swarmy-system'')"

definition plan_one ::
    "manifest_component jsmap \<Rightarrow> (string \<Rightarrow> manifest_component \<Rightarrow> string) \<Rightarrow> live_service \<Rightarrow> system_update option" where
  "plan_one components refFor s =
     (if ls_name s \<in> set SYSTEM_STEP_EXCLUDED \<or> \<not> is_system s then None
      else case map_of (component_repos components) (repoOf SYSTEM_NAMESPACE (ls_image s)) of
        None \<Rightarrow> None
      | Some key \<Rightarrow>
          (case map_of components key of
             None \<Rightarrow> None
           | Some c \<Rightarrow>
               if digestOf (Some (ls_image s)) = mc_digest c then None
               else Some \<lparr>su_service = ls_name s, su_key = key, su_from = ls_image s, su_to = refFor key c\<rparr>))"

definition update_order :: "(string \<Rightarrow> string \<Rightarrow> int) \<Rightarrow> system_update \<Rightarrow> system_update \<Rightarrow> int" where
  "update_order localeCompare =
     then_by (by_key (\<lambda>u. opt_or (SYSTEM_ORDER (su_key u)) 0))
       (\<lambda>a b. localeCompare (su_service a) (su_service b))"

definition planSystemUpdates ::
    "(string \<Rightarrow> string \<Rightarrow> int) \<Rightarrow> live_service list \<Rightarrow> manifest_component jsmap \<Rightarrow>
     (string \<Rightarrow> manifest_component \<Rightarrow> string) \<Rightarrow> system_update list" where
  "planSystemUpdates localeCompare services components refFor =
     js_sort (update_order localeCompare) (List.map_filter (plan_one components refFor) services)"

subsection \<open>Scripts for the docker command line\<close>

definition UPDATE_MARKER :: string where "UPDATE_MARKER = ''@@SWARMY-UPDATE@@''"

definition sq :: "string \<Rightarrow> string" where
  "sq s = [CHR 0x27] @ concat (map (\<lambda>c. if c = CHR 0x27 then [CHR 0x27, CHR 0x5C, CHR 0x27, CHR 0x27] else [c]) s)
     @ [CHR 0x27]"

definition state_line :: "string \<Rightarrow> string" where
  "state_line service =
     ''ST=$(docker service inspect '' @ sq service @ '' --format '' @
     sq ''{{if .UpdateStatus}}{{.UpdateStatus.State}}{{end}}'' @ '' 2>/dev/null)''"

definition echo_line :: string where
  "echo_line = ''echo \"'' @ UPDATE_MARKER @ '' $RC ${ST:-none}\"''"

definition serviceUpdateScript :: "string \<Rightarrow> string \<Rightarrow> bool \<Rightarrow> string option \<Rightarrow> string option \<Rightarrow> string" where
  "serviceUpdateScript service img detach monitor login =
     js_join [CHR 0x0A]
       ([''set -u''] @
        (if truthy login
         then [''if [ -n \"${SWARMY_REG_USER:-}\" ]; then printf '' @ sq ''%s'' @
               '' \"$SWARMY_REG_PASS\" | docker login '' @ sq (the login) @
               '' -u \"$SWARMY_REG_USER\" --password-stdin >/dev/null 2>&1 && AUTH=--with-registry-auth; fi'']
         else []) @
        [''docker service update --quiet '' @ (if detach then ''--detach'' else ''--detach=false'') @
         '' ${AUTH:-} --image '' @ sq img @ '' --update-failure-action rollback --update-monitor '' @
         opt_or monitor ''30s'' @ '' --update-parallelism 1 '' @ sq service @ ''; RC=$?'',
         state_line service, echo_line])"

definition serviceRollbackScript :: "string \<Rightarrow> string" where
  "serviceRollbackScript service =
     js_join [CHR 0x0A]
       [''set -u'', ''docker service rollback --quiet --detach=false '' @ sq service @ ''; RC=$?'',
        state_line service, echo_line]"

fun split_ws :: "string \<Rightarrow> string list" where
  "split_ws [] = [[]]"
| "split_ws (c # cs) =
     (if js_space c then [] # split_ws cs
      else case split_ws cs of [] \<Rightarrow> [[c]] | w # ws \<Rightarrow> (c # w) # ws)"

text \<open>\<^verbatim>\<open>line.trim().split(/\s+/)\<close> of a line that is not blank.\<close>

definition js_words :: "string \<Rightarrow> string list" where
  "js_words s = filter (\<lambda>w. w \<noteq> []) (split_ws s)"

definition read_code :: "string \<Rightarrow> int option" where
  "read_code s =
     (let neg = (s \<noteq> [] \<and> hd s = CHR ''-''); ds = (if neg then tl s else s)
      in if ds \<noteq> [] \<and> list_all (\<lambda>c. CHR ''0'' \<le> c \<and> c \<le> CHR ''9'') ds
         then Some ((if neg then -1 else 1) * int (foldl (\<lambda>n c. 10 * n + (of_char c - 48)) (0::nat) ds))
         else None)"

definition parseUpdateOutput :: "string \<Rightarrow> int option \<times> string" where
  "parseUpdateOutput output =
     (case find (\<lambda>l. js_starts_with l UPDATE_MARKER) (rev (js_split (CHR 0x0A) output)) of
        None \<Rightarrow> (Some (-1), ''unknown'')
      | Some line \<Rightarrow>
          (case js_words line of
             _ # rc # state # _ \<Rightarrow> (read_code rc, state)
           | [_, rc] \<Rightarrow> (read_code rc, ''none'')
           | _ \<Rightarrow> (Some (-1), ''none'')))"

definition updateLanded :: "int option \<times> string \<Rightarrow> bool" where
  "updateLanded r =
     (fst r = Some 0 \<and> \<not> js_starts_with (snd r) ''rollback'' \<and> snd r \<noteq> ''paused'')"

section \<open>The plan of the system services\<close>

text \<open>The services after the swarm has taken the updates of a plan.\<close>

definition apply_updates :: "system_update list \<Rightarrow> live_service list \<Rightarrow> live_service list" where
  "apply_updates ups =
     map (\<lambda>s. case find (\<lambda>u. su_service u = ls_name s) ups of None \<Rightarrow> s | Some u \<Rightarrow> s\<lparr>ls_image := su_to u\<rparr>)"

text \<open>
  What a choice of images owes the plan: the image it gives a component has the component's digest
  and is recognised as that component's. Upstream references and mirrored copies are such images.
\<close>

definition refs_match :: "manifest_component jsmap \<Rightarrow> (string \<Rightarrow> manifest_component \<Rightarrow> string) \<Rightarrow> bool" where
  "refs_match components refFor \<longleftrightarrow>
     list_all (\<lambda>(key, c). truthy (mc_digest c) \<and> SYSTEM_ORDER key \<noteq> None \<longrightarrow>
       digestOf (Some (refFor key c)) = mc_digest c \<and>
       map_of (component_repos components) (repoOf SYSTEM_NAMESPACE (refFor key c)) = Some key) components"

lemma component_repos_key:
  assumes "map_of (component_repos components) r = Some key"
  shows "\<exists>c. (key, c) \<in> set components \<and> truthy (mc_digest c) \<and> SYSTEM_ORDER key \<noteq> None"
proof -
  have "\<exists>c. (key, c) \<in> set cs \<and> truthy (mc_digest c) \<and> SYSTEM_ORDER key \<noteq> None"
    if "map_of (fold add_component cs m) r = Some key" "map_of m r \<noteq> Some key" for cs m
    using that
  proof (induction cs arbitrary: m)
    case (Cons kc cs)
    show ?case
    proof (cases "map_of (add_component kc m) r = Some key")
      case True
      with Cons.prems(2) show ?thesis
        by (cases kc) (auto simp: add_component_def update_conv' split: if_splits)
    next
      case False
      with Cons.IH [of "add_component kc m"] Cons.prems(1) show ?thesis by auto
    qed
  qed simp
  from this [of components "[]"] assms show ?thesis by (simp add: component_repos_def)
qed

lemma plan_one_Some:
  assumes "plan_one components refFor s = Some u" and "distinct (map fst components)" and "refs_match components refFor"
  shows "su_service u = ls_name s \<and> ls_name s \<notin> set SYSTEM_STEP_EXCLUDED \<and> is_system s \<and>
    (\<exists>c. map_of components (su_key u) = Some c \<and> digestOf (Some (su_to u)) = mc_digest c \<and>
       digestOf (Some (su_from u)) \<noteq> mc_digest c \<and>
       map_of (component_repos components) (repoOf SYSTEM_NAMESPACE (su_to u)) = Some (su_key u))"
proof -
  obtain key c where k: "map_of (component_repos components) (repoOf SYSTEM_NAMESPACE (ls_image s)) = Some key"
    "map_of components key = Some c" "digestOf (Some (ls_image s)) \<noteq> mc_digest c"
    "u = \<lparr>su_service = ls_name s, su_key = key, su_from = ls_image s, su_to = refFor key c\<rparr>"
    "ls_name s \<notin> set SYSTEM_STEP_EXCLUDED" "is_system s"
    using assms(1) by (auto simp: plan_one_def split: if_splits option.splits)
  obtain c' where "(key, c') \<in> set components" "truthy (mc_digest c')" "SYSTEM_ORDER key \<noteq> None"
    using component_repos_key [OF k(1)] by blast
  moreover have "c' = c" using calculation(1) k(2) assms(2) by (simp add: map_of_eq_Some_iff)
  ultimately show ?thesis using assms(3) k by (auto simp: refs_match_def list_all_iff)
qed

lemma in_plan:
  "u \<in> set (planSystemUpdates lc services components refFor) \<longleftrightarrow>
   (\<exists>s \<in> set services. plan_one components refFor s = Some u)"
  by (force simp: planSystemUpdates_def List.map_filter_def)


definition demo_services :: "live_service list" where
  "demo_services =
     map (\<lambda>n. \<lparr>ls_name = n, ls_image = ''swarmy/dns:1@sha256:'' @ replicate 64 (CHR ''a''), ls_labels = [],
                ls_updateStatus = None, ls_desired = Some 1, ls_running = 1\<rparr>) [''swarmy-dns'', ''swarmy-garage'']"

definition demo_components :: "manifest_component jsmap" where
  "demo_components =
     [(''dns'', \<lparr>mc_ref = ''swarmy/dns:latest'', mc_image = ''docker.io/swarmy/dns'',
                 mc_digest = Some (''sha256:'' @ replicate 64 (CHR ''b''))\<rparr>)]"

definition upstream :: "string \<Rightarrow> manifest_component \<Rightarrow> string" where
  "upstream key c = mc_image c @ ''@'' @ opt_or (mc_digest c) []"


end
