(* ===== verification/Versions.thy ===== *)
theory Versions
  imports Prelude
begin

text \<open>
  Releases (\<^verbatim>\<open>packages/core/src/platform-manifest.ts\<close>): versions and their precedence, which
  release a cluster may take, and the maintenance window. A version number is a natural number; the
  source reads it as a double, which is exact below \<open>2 ^ 53\<close>. An instant is its day of the week and
  its hour in UTC. The schema of the manifest and its generation in CI are not modelled.
\<close>

section \<open>Definitions\<close>

subsection \<open>Versions\<close>

definition dec_digit :: "char \<Rightarrow> bool" where
  "dec_digit c = (CHR ''0'' \<le> c \<and> c \<le> CHR ''9'')"

text \<open>\<^verbatim>\<open>/^\d+$/\<close>.\<close>

definition all_digits :: "string \<Rightarrow> bool" where
  "all_digits s = (s \<noteq> [] \<and> list_all dec_digit s)"

definition dec_number :: "string \<Rightarrow> nat" where
  "dec_number s = foldl (\<lambda>n c. 10 * n + (of_char c - 48)) 0 s"

text \<open>\<^verbatim>\<open>[0-9A-Za-z.-]\<close>.\<close>

definition tag_char :: "char \<Rightarrow> bool" where
  "tag_char c =
     (dec_digit c \<or> CHR ''A'' \<le> c \<and> c \<le> CHR ''Z'' \<or> CHR ''a'' \<le> c \<and> c \<le> CHR ''z'' \<or>
      c = CHR ''.'' \<or> c = CHR ''-'')"

definition is_tag :: "string \<Rightarrow> bool" where
  "is_tag s = (s \<noteq> [] \<and> list_all tag_char s)"

record semver =
  sv_major :: nat
  sv_minor :: nat
  sv_patch :: nat
  sv_pre :: "string list"

text \<open>The text before the first \<open>c\<close>, and the text after it when there is one.\<close>

definition cut_first :: "char \<Rightarrow> string \<Rightarrow> string \<times> string option" where
  "cut_first c s =
     (takeWhile (\<lambda>x. x \<noteq> c) s, if c \<in> set s then Some (tl (dropWhile (\<lambda>x. x \<noteq> c) s)) else None)"

text \<open>
  \<^verbatim>\<open>SEMVER\<close>: three numbers, an optional prerelease tag after the first hyphen and an optional build
  tag after the first plus sign; no number has either sign and no prerelease has a plus.
\<close>

definition SEMVER :: "string \<Rightarrow> semver option" where
  "SEMVER s =
     (case cut_first (CHR ''+'') s of
        (body, build) \<Rightarrow>
          (case cut_first (CHR ''-'') body of
             (nums, pre) \<Rightarrow>
               (case js_split (CHR ''.'') nums of
                  [a, b, c] \<Rightarrow>
                    if all_digits a \<and> all_digits b \<and> all_digits c \<and>
                       (case pre of None \<Rightarrow> True | Some p \<Rightarrow> is_tag p) \<and>
                       (case build of None \<Rightarrow> True | Some p \<Rightarrow> is_tag p)
                    then Some \<lparr>sv_major = dec_number a, sv_minor = dec_number b, sv_patch = dec_number c,
                               sv_pre = (case pre of None \<Rightarrow> [] | Some p \<Rightarrow> js_split (CHR ''.'') p)\<rparr>
                    else None
                | _ \<Rightarrow> None)))"

definition parseSemver :: "string \<Rightarrow> semver option" where
  "parseSemver v =
     (let t = js_trim v in SEMVER (if t \<noteq> [] \<and> hd t = CHR ''v'' then tl t else t))"

definition num_diff :: "nat \<Rightarrow> nat \<Rightarrow> int" where
  "num_diff a b = int a - int b"

definition str_cmp :: "string \<Rightarrow> string \<Rightarrow> int" where
  "str_cmp p q = (if p = q then 0 else if p < q then -1 else 1)"

definition pre_id_cmp :: "string \<Rightarrow> string \<Rightarrow> int" where
  "pre_id_cmp p q =
     (if all_digits p \<and> all_digits q \<and> dec_number p \<noteq> dec_number q then num_diff (dec_number p) (dec_number q)
      else if all_digits p \<noteq> all_digits q then (if all_digits p then -1 else 1)
      else str_cmp p q)"

fun pre_cmp :: "string list \<Rightarrow> string list \<Rightarrow> int" where
  "pre_cmp [] [] = 0"
| "pre_cmp [] (q # qs) = -1"
| "pre_cmp (p # ps) [] = 1"
| "pre_cmp (p # ps) (q # qs) = cmp_or (pre_id_cmp p q) (pre_cmp ps qs)"

definition semver_cmp :: "semver \<Rightarrow> semver \<Rightarrow> int" where
  "semver_cmp x y =
     cmp_or (num_diff (sv_major x) (sv_major y))
      (cmp_or (num_diff (sv_minor x) (sv_minor y))
        (cmp_or (num_diff (sv_patch x) (sv_patch y))
          (if sv_pre x = [] \<or> sv_pre y = [] then num_diff (length (sv_pre y)) (length (sv_pre x))
           else pre_cmp (sv_pre x) (sv_pre y))))"

definition compareVersions :: "string \<Rightarrow> string \<Rightarrow> int" where
  "compareVersions a b =
     (case (parseSemver a, parseSemver b) of
        (Some x, Some y) \<Rightarrow> semver_cmp x y
      | (Some x, None) \<Rightarrow> 1
      | (None, Some y) \<Rightarrow> -1
      | (None, None) \<Rightarrow> 0)"

definition isPatchUpgrade :: "string \<Rightarrow> string \<Rightarrow> bool" where
  "isPatchUpgrade frm to =
     (case (parseSemver frm, parseSemver to) of
        (Some a, Some b) \<Rightarrow>
          sv_pre b = [] \<and> sv_major a = sv_major b \<and> sv_minor a = sv_minor b \<and> compareVersions to frm > 0
      | _ \<Rightarrow> False)"

definition upgradeBlockReason :: "string \<Rightarrow> string \<Rightarrow> string \<Rightarrow> string option" where
  "upgradeBlockReason current version minUpgradeFrom =
     (if compareVersions version current \<le> 0
      then Some (''already on '' @ current @ '' (release is '' @ version @ '')'')
      else if compareVersions current minUpgradeFrom < 0
      then Some (version @ '' needs '' @ minUpgradeFrom @ '' or newer first - upgrade to an intermediate release'')
      else None)"

subsection \<open>Maintenance window\<close>

record maintenance_window =
  mw_days :: "int list"
  mw_startHour :: int
  mw_hours :: int

definition inMaintenanceWindow :: "maintenance_window \<Rightarrow> int \<Rightarrow> int \<Rightarrow> bool" where
  "inMaintenanceWindow w day hour =
     list_ex (\<lambda>d. let since = ((day - d + 7) mod 7) * 24 + hour - mw_startHour w
                  in since \<ge> 0 \<and> since < mw_hours w) (mw_days w)"

section \<open>Precedence\<close>

lemma js_comparator_of: "js_comparator c \<Longrightarrow> js_comparator (\<lambda>a b. c (f a) (f b))"
  unfolding js_comparator_def by blast

lemma num_diff_comparator: "js_comparator num_diff"
  by unfold_locales (simp_all add: num_diff_def)

lemma pre_id_eq: "pre_id_cmp p q = 0 \<longleftrightarrow> p = q"
  by (auto simp: pre_id_cmp_def str_cmp_def num_diff_def)

definition id_rank :: "string \<Rightarrow> nat \<times> nat" where
  "id_rank p = (if all_digits p then (0, dec_number p) else (1, 0))"

text \<open>An identifier of a prerelease: numbers by value before words by text, ties by text.\<close>

lemma pre_id_cmp_sign:
  "pre_id_cmp p q \<le> 0 \<longleftrightarrow> fst (id_rank p) < fst (id_rank q) \<or>
     fst (id_rank p) = fst (id_rank q) \<and> (snd (id_rank p) < snd (id_rank q) \<or>
       snd (id_rank p) = snd (id_rank q) \<and> p \<le> q)"
  "0 < pre_id_cmp p q \<longleftrightarrow> pre_id_cmp q p < 0"
  by (auto simp: pre_id_cmp_def id_rank_def str_cmp_def num_diff_def)

lemma pre_id_comparator: "js_comparator pre_id_cmp"
proof
  show "0 < pre_id_cmp a b \<longleftrightarrow> pre_id_cmp b a < 0" for a b by (rule pre_id_cmp_sign)
  show "pre_id_cmp a c \<le> 0" if "pre_id_cmp a b \<le> 0" "pre_id_cmp b c \<le> 0" for a b c
    using that unfolding pre_id_cmp_sign(1) by auto
qed

lemma pre_cmp_anti: "0 < pre_cmp p q \<longleftrightarrow> pre_cmp q p < 0"
proof (induction p q rule: pre_cmp.induct)
  case (4 p ps q qs)
  have "pre_id_cmp p q = 0 \<longleftrightarrow> pre_id_cmp q p = 0" by (auto simp: pre_id_eq)
  with 4 pre_id_cmp_sign(2) [of p q] show ?case by (auto simp: cmp_or_def)
qed simp_all

lemma pre_cmp_trans: "pre_cmp p q \<le> 0 \<Longrightarrow> pre_cmp q r \<le> 0 \<Longrightarrow> pre_cmp p r \<le> 0"
proof (induction p q arbitrary: r rule: pre_cmp.induct)
  case (1 r)
  then show ?case by (cases r) simp_all
next
  case (2 q qs r)
  then show ?case by (cases r) simp_all
next
  case (3 p ps r)
  then show ?case by simp
next
  case (4 p ps q qs r)
  show ?case
  proof (cases r)
    case Nil
    with 4 show ?thesis by simp
  next
    case (Cons x xs)
    have a: "pre_id_cmp p q < 0 \<or> p = q \<and> pre_cmp ps qs \<le> 0"
      and b: "pre_id_cmp q x < 0 \<or> q = x \<and> pre_cmp qs xs \<le> 0"
      using 4(2,3) Cons by (auto simp: cmp_or_le_0 pre_id_eq)
    have "pre_id_cmp p x < 0" if "pre_id_cmp p q < 0" "pre_id_cmp q x < 0"
    proof -
      have "pre_id_cmp p x \<le> 0"
        using js_comparator.cmp_trans [OF pre_id_comparator, of p q x] that by simp
      moreover have "p \<noteq> x" using that pre_id_cmp_sign(2) [of p q] by auto
      ultimately show ?thesis using pre_id_eq [of p x] by simp
    qed
    then have "pre_id_cmp p x < 0 \<or> p = x \<and> pre_cmp ps xs \<le> 0" using a b 4(1) by auto
    then show ?thesis by (auto simp: Cons cmp_or_le_0 pre_id_eq)
  qed
qed

lemma pre_comparator: "js_comparator pre_cmp"
  by unfold_locales (rule pre_cmp_anti, rule pre_cmp_trans)

definition tag_cmp :: "string list \<Rightarrow> string list \<Rightarrow> int" where
  "tag_cmp p q = (if p = [] \<or> q = [] then num_diff (length q) (length p) else pre_cmp p q)"

lemma tag_comparator: "js_comparator tag_cmp"
proof
  show "0 < tag_cmp a b \<longleftrightarrow> tag_cmp b a < 0" for a b
    by (simp add: tag_cmp_def num_diff_def pre_cmp_anti)
  show "tag_cmp a c \<le> 0" if "tag_cmp a b \<le> 0" "tag_cmp b c \<le> 0" for a b c
    using that pre_cmp_trans [of a b c] by (auto simp: tag_cmp_def num_diff_def split: if_splits)
qed

lemma semver_cmp_eq:
  "semver_cmp =
     then_by (\<lambda>x y. num_diff (sv_major x) (sv_major y))
      (then_by (\<lambda>x y. num_diff (sv_minor x) (sv_minor y))
       (then_by (\<lambda>x y. num_diff (sv_patch x) (sv_patch y)) (\<lambda>x y. tag_cmp (sv_pre x) (sv_pre y))))"
  by (intro ext) (simp add: semver_cmp_def then_by_def tag_cmp_def)

lemma semver_comparator: "js_comparator semver_cmp"
  unfolding semver_cmp_eq
  by (intro js_comparator_then_by js_comparator_of [OF num_diff_comparator] js_comparator_of [OF tag_comparator])

interpretation ver: js_comparator compareVersions
proof
  show "0 < compareVersions a b \<longleftrightarrow> compareVersions b a < 0" for a b
    using js_comparator.cmp_anti [OF semver_comparator] by (auto simp: compareVersions_def split: option.splits)
  show "compareVersions a c \<le> 0" if "compareVersions a b \<le> 0" "compareVersions b c \<le> 0" for a b c
    using that js_comparator.cmp_trans [OF semver_comparator]
    by (auto simp: compareVersions_def split: option.splits)
qed

section \<open>What an upgrade may do\<close>

lemma version_less_trans:
  assumes "compareVersions a b < 0" and "compareVersions b c < 0"
  shows "compareVersions a c < 0"
proof (rule ccontr)
  assume "\<not> compareVersions a c < 0"
  then have "compareVersions c a \<le> 0" using ver.cmp_anti [of c a] by simp
  then have "compareVersions c b \<le> 0" using ver.cmp_trans [of c a b] assms(1) by simp
  with assms(2) show False using ver.cmp_anti [of c b] by simp
qed

definition may_upgrade :: "string \<Rightarrow> string \<Rightarrow> bool" where
  "may_upgrade current version \<longleftrightarrow> (\<exists>least. upgradeBlockReason current version least = None)"

text \<open>
  C28. However many releases a cluster takes one after another, each accepted by
  \<^verbatim>\<open>upgradeBlockReason\<close>, it never returns to a version it has left: every later version is
  strictly newer by the precedence of versions, prereleases included.
\<close>

theorem upgrades_only_move_forward:
  assumes "may_upgrade\<^sup>+\<^sup>+ v v'"
  shows "compareVersions v v' < 0 \<and> v \<noteq> v'"
proof -
  have step: "compareVersions a b < 0" if "may_upgrade a b" for a b
    using that ver.cmp_anti [of b a] by (auto simp: may_upgrade_def upgradeBlockReason_def split: if_splits)
  from assms have "compareVersions v v' < 0"
    by (induction rule: tranclp_induct) (auto intro: step version_less_trans)
  moreover have "compareVersions v v = 0" by (rule ver.cmp_refl)
  ultimately show ?thesis by auto
qed

theorem upgrades_only_move_forward_witness:
  "compareVersions ''1.9.0-rc.2'' ''1.10.0'' < 0 \<and> ''1.9.0-rc.2'' \<noteq> ''1.10.0''"
proof (rule upgrades_only_move_forward)
  have "upgradeBlockReason ''1.9.0-rc.2'' ''1.9.0'' ''1.9.0-rc.1'' = None"
    "upgradeBlockReason ''1.9.0'' ''1.10.0'' ''1.9.0'' = None" by code_simp+
  then have "may_upgrade ''1.9.0-rc.2'' ''1.9.0''" "may_upgrade ''1.9.0'' ''1.10.0''"
    by (auto simp: may_upgrade_def)
  then show "may_upgrade\<^sup>+\<^sup>+ ''1.9.0-rc.2'' ''1.10.0''" by (rule tranclp.trancl_into_trancl [OF tranclp.r_into_trancl])
qed

lemma mod_two_turns:
  assumes "0 \<le> x" and "x < 336"
  shows "x mod 168 = (if x < 168 then x else x - (168::int))"
proof (cases "x < 168")
  case False
  then have "x mod 168 = (x - 168) mod 168" by simp
  with False assms show ?thesis by (simp del: minus_mod_self2 add: mod_pos_pos_trivial)
qed (use assms in simp)

text \<open>
  C30. The maintenance window is open exactly in the hours it lists: at an hour of the week that
  lies less than \<open>mw_hours\<close> after the opening hour on one of its days, counted round the end of
  the week, so a window that runs past midnight stays open on the next day and no other.
\<close>

theorem window_is_hours_of_week:
  assumes "0 \<le> day" "day < 7" "0 \<le> hour" "hour < 24" and "0 \<le> mw_startHour w" "mw_startHour w < 24"
    and "1 \<le> mw_hours w" "mw_hours w \<le> 12" and "list_all (\<lambda>d. 0 \<le> d \<and> d < 7) (mw_days w)"
  shows "inMaintenanceWindow w day hour \<longleftrightarrow>
    (\<exists>d h. d \<in> set (mw_days w) \<and> 0 \<le> h \<and> h < mw_hours w \<and>
      (24 * d + mw_startHour w + h) mod 168 = 24 * day + hour)"
proof -
  have key: "(let since = ((day - d + 7) mod 7) * 24 + hour - mw_startHour w in since \<ge> 0 \<and> since < mw_hours w) \<longleftrightarrow>
      (\<exists>h. 0 \<le> h \<and> h < mw_hours w \<and> (24 * d + mw_startHour w + h) mod 168 = 24 * day + hour)"
    if d: "0 \<le> d" "d < 7" for d
  proof -
    have m: "(day - d + 7) mod 7 = (if d \<le> day then day - d else day - d + 7)"
      using assms(1,2) d by presburger
    have w: "(24 * d + mw_startHour w + h) mod 168 =
        (if 24 * d + mw_startHour w + h < 168 then 24 * d + mw_startHour w + h else 24 * d + mw_startHour w + h - 168)"
      if "0 \<le> h" "h < mw_hours w" for h
      by (rule mod_two_turns) (use that d assms(5-8) in auto)
    let ?since = "((day - d + 7) mod 7) * 24 + hour - mw_startHour w"
    show ?thesis
    proof
      assume "let since = ?since in since \<ge> 0 \<and> since < mw_hours w"
      then have "0 \<le> ?since" "?since < mw_hours w" by (simp_all add: Let_def)
      then show "\<exists>h. 0 \<le> h \<and> h < mw_hours w \<and> (24 * d + mw_startHour w + h) mod 168 = 24 * day + hour"
        using w [of ?since] m assms(1-4) d by (intro exI [of _ ?since]) (auto split: if_splits)
    next
      assume "\<exists>h. 0 \<le> h \<and> h < mw_hours w \<and> (24 * d + mw_startHour w + h) mod 168 = 24 * day + hour"
      then obtain h where h: "0 \<le> h" "h < mw_hours w" "(24 * d + mw_startHour w + h) mod 168 = 24 * day + hour" by blast
      show "let since = ?since in since \<ge> 0 \<and> since < mw_hours w"
        using w [OF h(1,2)] h m assms d by (auto simp: Let_def split: if_splits)
    qed
  qed
  show ?thesis using assms(9) key by (auto simp: inMaintenanceWindow_def list_ex_iff list_all_iff)
qed

definition demo_window :: maintenance_window where
  "demo_window = \<lparr>mw_days = [0, 6], mw_startHour = 23, mw_hours = 3\<rparr>"

theorem window_is_hours_of_week_witness:
  "inMaintenanceWindow demo_window 0 1 \<longleftrightarrow>
    (\<exists>d h. d \<in> set (mw_days demo_window) \<and> 0 \<le> h \<and> h < mw_hours demo_window \<and>
      (24 * d + mw_startHour demo_window + h) mod 168 = 24 * 0 + 1)"
  by (rule window_is_hours_of_week) (simp_all add: demo_window_def)

end
