(* ===== verification/UpgradeService.thy ===== *)
theory UpgradeService
  imports UpgradeSystem Versions
begin

text \<open>
  The steps of a platform upgrade and the calls around them:
  \<^verbatim>\<open>packages/trpc/src/services/platform-upgrade.service.ts\<close>. What the source asks of the hub, the
  database, the registry, the agents and the clock is the argument \<open>up_env\<close>, over an external state
  \<open>'x\<close>; a call that may throw returns a sum. The row of the run is kept with its history
  (\<open>uw_rows\<close>, the last one is the row), so that a controller that stops between any two writes is a
  restart from one of them. A polling loop takes as fuel the polls that fit before its deadline and
  throws the error of the deadline when it runs out. Audit entries and views are left out, lists
  quoted in a message are joined with commas.
\<close>

named_theorems owns_intros \<open>calls that change only their own step\<close>

section \<open>Definitions\<close>

subsection \<open>Data and environment\<close>

record manifest =
  mf_version :: string
  mf_commit :: string
  mf_minUpgradeFrom :: string
  mf_components :: "manifest_component jsmap"

definition componentRef :: "manifest \<Rightarrow> string \<Rightarrow> string option" where
  "componentRef m key =
     (case map_of (mf_components m) key of
        None \<Rightarrow> None
      | Some c \<Rightarrow> if truthy (mc_digest c) then Some (mc_image c @ ''@'' @ the (mc_digest c)) else None)"

record agent_build =
  ab_version :: string
  ab_commit :: "string option"
  ab_packaging :: "string option"

definition isSameAgentBuild :: "agent_build \<Rightarrow> agent_build \<Rightarrow> bool" where
  "isSameAgentBuild build release =
     (ab_version build = ab_version release \<and>
      (\<not> truthy (ab_commit release) \<or> ab_commit build = ab_commit release))"

record engine_run =
  er_id :: string
  er_status :: string
  er_error :: "string option"
  er_to :: string
  er_from :: string

record inventory_node =
  in_manager :: bool
  in_ready :: bool
  in_unreachable :: bool

datatype node_progress = NodeDone | NodeUpgraded | NodeDispatched

record step_data =
  sd_unhealthyBefore :: "string list option"
  sd_backupSnapshotId :: "string option"
  sd_mirrored :: bool
  sd_dispatchedAt :: "int option"
  sd_ref :: "string option"
  sd_nodes :: "node_progress jsmap"
  sd_packaging :: "string jsmap"
  sd_updated :: "string list"
  sd_pending :: "system_update list"
  sd_engineRunId :: "string option"
  sd_to :: "string option"

definition no_data :: step_data where
  "no_data =
     \<lparr>sd_unhealthyBefore = None, sd_backupSnapshotId = None, sd_mirrored = False, sd_dispatchedAt = None,
      sd_ref = None, sd_nodes = [], sd_packaging = [], sd_updated = [], sd_pending = [],
      sd_engineRunId = None, sd_to = None\<rparr>"

record 'x up_env =
  env_now :: "'x \<Rightarrow> int"
  env_sleep :: "int \<Rightarrow> 'x \<Rightarrow> 'x"
  env_pollMs :: int
  env_processStartedAt :: int
  env_selfCommit :: string
  env_services :: "'x \<Rightarrow> live_service list"
  env_isOnline :: "'x \<Rightarrow> string \<Rightarrow> bool"
  env_managerNode :: "'x \<Rightarrow> string option"
  env_nodeInventory :: "'x \<Rightarrow> inventory_node list"
  env_stats :: "'x \<Rightarrow> string \<Rightarrow> (int option \<times> int option) option"
  env_agentBuild :: "'x \<Rightarrow> string \<Rightarrow> agent_build option"
  env_agentRelease :: "agent_build option"
  env_nodes :: "'x \<Rightarrow> (string + (string \<times> string) list) \<times> 'x"
  env_dbWrite :: "'x \<Rightarrow> (string + unit) \<times> 'x"
  env_backup :: "'x \<Rightarrow> (string + string) \<times> 'x"
  env_mirror :: "'x \<Rightarrow> (string + (nat \<times> nat \<times> string option)) \<times> 'x"
  env_upgradeAgent :: "string \<Rightarrow> string option \<Rightarrow> 'x \<Rightarrow> (string + unit) \<times> 'x"
  env_agentUpdate :: "string \<Rightarrow> string \<Rightarrow> string \<Rightarrow> 'x \<Rightarrow> (string + unit) \<times> 'x"
  env_registry :: "'x \<Rightarrow> (string + string option) \<times> 'x"
  env_resolver :: "'x \<Rightarrow> (string + (string \<Rightarrow> manifest_component \<Rightarrow> string)) \<times> 'x"
  env_runOnce :: "string \<Rightarrow> 'x \<Rightarrow> (string + string) \<times> 'x"
  env_engineAvailable :: "'x \<Rightarrow> (string + string option) \<times> 'x"
  env_engineStart :: "'x \<Rightarrow> (string + string) \<times> 'x"
  env_engineRead :: "'x \<Rightarrow> (string + engine_run option) \<times> 'x"
  env_saveManifest :: "'x \<Rightarrow> (string + unit) \<times> 'x"
  env_localeCompare :: "string \<Rightarrow> string \<Rightarrow> int"

text \<open>What the row of a run fixes: the two releases, the option, and whether its signature holds.\<close>

record run_plan =
  pl_target :: manifest
  pl_from :: manifest
  pl_skipBackup :: bool
  pl_unverified :: "string option"

record 'x up_world =
  uw_rows :: "step_data run_state list"
  uw_unhealthyBefore :: "string list"
  uw_ext :: 'x

type_synonym ('x, 'a) up = "(step_data, 'x up_world, 'a) upg"

definition CONTROLLER_SERVICE :: string where "CONTROLLER_SERVICE = ''swarmy_controller''"
definition MIN_FREE_BYTES :: int where "MIN_FREE_BYTES = 2 * 1024 ^ 3"
definition AGENT_TIMEOUT_MS :: int where "AGENT_TIMEOUT_MS = 6 * 60000"
definition ENGINE_TIMEOUT_MS :: int where "ENGINE_TIMEOUT_MS = 45 * 60000"
definition VERIFY_TIMEOUT_MS :: int where "VERIFY_TIMEOUT_MS = 5 * 60000"

subsection \<open>Calls\<close>

definition ext_call :: "('x \<Rightarrow> (string + 'a) \<times> 'x) \<Rightarrow> ('x, 'a) up" where
  "ext_call f s = (case f (uw_ext (snd s)) of (res, x) \<Rightarrow> (res, (fst s, (snd s)\<lparr>uw_ext := x\<rparr>)))"

definition ext_get :: "('x \<Rightarrow> 'a) \<Rightarrow> ('x, 'a) up" where
  "ext_get f s = (Inr (f (uw_ext (snd s))), s)"

definition ext_sleep :: "'x up_env \<Rightarrow> int \<Rightarrow> ('x, unit) up" where
  "ext_sleep env ms s = (Inr (), (fst s, (snd s)\<lparr>uw_ext := env_sleep env ms (uw_ext (snd s))\<rparr>))"

definition clock :: "'x up_env \<Rightarrow> 'x up_world \<Rightarrow> int" where
  "clock env w = env_now env (uw_ext w)"

definition say :: "'x up_env \<Rightarrow> string \<Rightarrow> ('x, unit) up" where
  "say env msg = u_now (clock env) (noteOn msg)"

definition persist :: "'x up_env \<Rightarrow> step_data run_state \<Rightarrow> 'x up_world \<Rightarrow> (string + unit) \<times> 'x up_world" where
  "persist env r w =
     (case env_dbWrite env (uw_ext w) of
        (Inl e, x) \<Rightarrow> (Inl e, w\<lparr>uw_ext := x\<rparr>)
      | (Inr _, x) \<Rightarrow> (Inr (), w\<lparr>uw_ext := x, uw_rows := uw_rows w @ [r]\<rparr>))"

definition data_in :: "step_key \<Rightarrow> step_data run_state \<Rightarrow> step_data" where
  "data_in k r = (case find_step k r of None \<Rightarrow> no_data | Some x \<Rightarrow> opt_or (st_data x) no_data)"

definition dataOf :: "step_key \<Rightarrow> ('x, step_data) up" where
  "dataOf k s = (Inr (data_in k (fst s)), s)"

definition upd_data :: "step_key \<Rightarrow> (step_data \<Rightarrow> step_data) \<Rightarrow> ('x, unit) up" where
  "upd_data k f = u_run (set_step k (\<lambda>x. x\<lparr>st_data := Some (f (opt_or (st_data x) no_data))\<rparr>))"

definition put_detail :: "step_key \<Rightarrow> string \<Rightarrow> ('x, unit) up" where
  "put_detail k d = u_run (set_step k (\<lambda>x. x\<lparr>st_detail := Some d\<rparr>))"

definition set_baseline :: "string list \<Rightarrow> ('x, unit) up" where
  "set_baseline b s = (Inr (), (fst s, (snd s)\<lparr>uw_unhealthyBefore := b\<rparr>))"

definition u_guard :: "bool \<Rightarrow> string \<Rightarrow> ('x, unit) up" where
  "u_guard b e = (if b then u_throw e else u_return ())"

definition poll_fuel :: "int \<Rightarrow> int \<Rightarrow> nat" where
  "poll_fuel timeout pause = nat (timeout div max 1 pause) + 2"

text \<open>
  \<^verbatim>\<open>for (;;)\<close> with a deadline: probe, give up when the deadline has passed, sleep.
\<close>

primrec poll ::
    "'x up_env \<Rightarrow> int \<Rightarrow> int \<Rightarrow> (('x, 'a option) up) \<Rightarrow> (step_data run_state \<times> 'x up_world \<Rightarrow> string) \<Rightarrow> nat \<Rightarrow> ('x, 'a) up" where
  "poll env deadline pause probe late 0 = (\<lambda>s. u_throw (late s) s)"
| "poll env deadline pause probe late (Suc n) =
     u_bind probe (\<lambda>o'. case o' of
        Some a \<Rightarrow> u_return a
      | None \<Rightarrow> (\<lambda>s. if clock env (snd s) > deadline then u_throw (late s) s
                     else u_bind (ext_sleep env pause) (\<lambda>_. poll env deadline pause probe late n) s))"

definition poll_until ::
    "'x up_env \<Rightarrow> int \<Rightarrow> int \<Rightarrow> (('x, 'a option) up) \<Rightarrow> (step_data run_state \<times> 'x up_world \<Rightarrow> string) \<Rightarrow> ('x, 'a) up" where
  "poll_until env timeout pause probe late s =
     poll env (clock env (snd s) + timeout) pause probe late (poll_fuel timeout pause) s"

definition dockerCli :: "'x up_env \<Rightarrow> string \<Rightarrow> ('x, (int option \<times> string) \<times> string) up" where
  "dockerCli env script =
     u_bind (ext_get (env_managerNode env)) (\<lambda>m.
       if m = None then u_throw ''no swarm manager is connected''
       else u_bind (ext_call (env_runOnce env script)) (\<lambda>output. u_return (parseUpdateOutput output, output)))"

subsection \<open>Health\<close>

definition unhealthySystemServices :: "live_service list \<Rightarrow> live_service list" where
  "unhealthySystemServices services =
     filter (\<lambda>s. (js_starts_with (ls_name s) ''swarmy-'' \<or> ls_name s = CONTROLLER_SERVICE) \<and>
       (case ls_desired s of None \<Rightarrow> False | Some d \<Rightarrow> ls_running s < d)) services"

definition show_int :: "int \<Rightarrow> string" where
  "show_int n = (if n < 0 then ''-'' else []) @ digits_of (nat \<bar>n\<bar>)"

definition verifyProblems :: "string list \<Rightarrow> live_service list \<Rightarrow> string list \<Rightarrow> string list \<times> string list" where
  "verifyProblems offlineNodes services baseline =
     (let bad = unhealthySystemServices services
      in (map (\<lambda>n. n @ '' offline'') offlineNodes @
            map (\<lambda>s. ls_name s @ '' '' @ show_int (ls_running s) @ ''/'' @ show_int (opt_or (ls_desired s) 0))
              (filter (\<lambda>s. ls_name s \<notin> set baseline) bad),
          map ls_name (filter (\<lambda>s. ls_name s \<in> set baseline) bad)))"

subsection \<open>Steps\<close>

definition pre_baseline :: "'x up_env \<Rightarrow> ('x, unit) up" where
  "pre_baseline env =
     u_bind (upd_data Preflight (\<lambda>d. d)) (\<lambda>_.
     u_bind (dataOf Preflight) (\<lambda>d.
     u_bind (case sd_unhealthyBefore d of
        Some b \<Rightarrow> u_return b
      | None \<Rightarrow>
          u_bind (ext_get (\<lambda>x. map ls_name (unhealthySystemServices (env_services env x)))) (\<lambda>b.
          u_bind (upd_data Preflight (\<lambda>d. d\<lparr>sd_unhealthyBefore := Some b\<rparr>)) (\<lambda>_.
          u_bind (if b = [] then u_return ()
                  else say env (''already unhealthy before the upgrade: '' @ js_join '', '' b)) (\<lambda>_.
          u_return b))))
      set_baseline))"

definition low_disk :: "'x up_env \<Rightarrow> 'x \<Rightarrow> string \<times> string \<Rightarrow> bool" where
  "low_disk env x n =
     (case env_stats env x (fst n) of
        Some (Some cap, Some used) \<Rightarrow> cap \<noteq> 0 \<and> cap - used < MIN_FREE_BYTES
      | _ \<Rightarrow> False)"

definition pre_checks :: "'x up_env \<Rightarrow> run_plan \<Rightarrow> ('x, nat) up" where
  "pre_checks env pl =
     u_bind (case pl_unverified pl of Some e \<Rightarrow> u_throw (''unverified release: '' @ e) | None \<Rightarrow> u_return ()) (\<lambda>_.
     u_bind (case upgradeBlockReason (mf_version (pl_from pl)) (mf_version (pl_target pl))
               (mf_minUpgradeFrom (pl_target pl)) of Some e \<Rightarrow> u_throw e | None \<Rightarrow> u_return ()) (\<lambda>_.
     u_bind (ext_call (env_nodes env)) (\<lambda>nodes.
     u_bind (u_guard (nodes = []) ''this cluster has no servers'') (\<lambda>_.
     u_bind (ext_get (\<lambda>x. filter (\<lambda>n. \<not> env_isOnline env x (fst n)) nodes)) (\<lambda>offline.
     u_bind (u_guard (offline \<noteq> []) (''server(s) offline: '' @ js_join '', '' (map snd offline) @
               '' - bring them back (or remove them) first'')) (\<lambda>_.
     u_bind (ext_get (\<lambda>x. filter in_manager (env_nodeInventory env x))) (\<lambda>managers.
     u_bind (u_guard (managers \<noteq> [] \<and>
               2 * length (filter (\<lambda>n. in_ready n \<and> \<not> in_unreachable n) managers) \<le> length managers)
               ''swarm quorum at risk'') (\<lambda>_.
     u_bind (ext_get (\<lambda>x. filter (low_disk env x) nodes)) (\<lambda>low.
     u_bind (u_guard (low \<noteq> []) (''less than 2 GiB free disk on: '' @ js_join '', '' (map snd low) @
               '' - images for the new release need room'')) (\<lambda>_.
     u_return (length nodes)))))))))))"

definition pre_backup :: "'x up_env \<Rightarrow> run_plan \<Rightarrow> ('x, unit) up" where
  "pre_backup env pl =
     u_bind (dataOf Preflight) (\<lambda>d.
       if truthy (sd_backupSnapshotId d) then u_return ()
       else
         u_bind (if pl_skipBackup pl then
                   u_bind (upd_data Preflight (\<lambda>d. d\<lparr>sd_backupSnapshotId := Some ''skipped''\<rparr>)) (\<lambda>_.
                   say env ''controller backup skipped (the admin chose to upgrade without one)'')
                 else
                   u_bind (say env ''taking a fresh controller backup'') (\<lambda>_.
                   u_bind (checkpoint (persist env)) (\<lambda>_.
                   u_try (ext_call (env_backup env))
                     (\<lambda>e. u_throw (''a fresh controller backup failed ('' @ e @ ''). Set one up in Settings, or start the upgrade without a backup.''))
                     (\<lambda>sid. u_bind (upd_data Preflight (\<lambda>d. d\<lparr>sd_backupSnapshotId := Some sid\<rparr>)) (\<lambda>_.
                            say env (''controller backup '' @ sid @ '' taken'')))))) (\<lambda>_.
         checkpoint (persist env)))"

definition pre_mirror :: "'x up_env \<Rightarrow> ('x, unit) up" where
  "pre_mirror env =
     u_bind (dataOf Preflight) (\<lambda>d.
       if sd_mirrored d then u_return ()
       else
         u_bind (u_try (ext_call (env_mirror env)) (\<lambda>e. u_return (0, 0, Some e)) u_return) (\<lambda>r.
         u_bind (upd_data Preflight (\<lambda>d. d\<lparr>sd_mirrored := True\<rparr>)) (\<lambda>_.
           say env (case r of (copied, failed, skipped) \<Rightarrow>
             if truthy skipped then ''images not pre-copied ('' @ the skipped @ ''); nodes pull them from upstream''
             else ''release images in the cluster registry: '' @ digits_of copied @ '' copied'' @
                  (if failed > 0 then '', '' @ digits_of failed @ '' failed (upstream fallback)'' else [])))))"

definition preflight :: "'x up_env \<Rightarrow> run_plan \<Rightarrow> ('x, step_outcome) up" where
  "preflight env pl =
     u_bind (pre_baseline env) (\<lambda>_.
     u_bind (pre_checks env pl) (\<lambda>n.
     u_bind (pre_backup env pl) (\<lambda>_.
     u_bind (pre_mirror env) (\<lambda>_.
     u_bind (dataOf Preflight) (\<lambda>d.
       u_return (OutDone (Some (digits_of n @ '' server(s) online, quorum ok, backup '' @
         (if sd_backupSnapshotId d = Some ''skipped'' then ''skipped'' else ''taken''))))))))) "

definition controller_view :: "'x up_env \<Rightarrow> run_plan \<Rightarrow> step_data \<Rightarrow> 'x \<Rightarrow> controller_input" where
  "controller_view env pl d x =
     (let svc = find (\<lambda>s. ls_name s = CONTROLLER_SERVICE) (env_services env x)
      in \<lparr>ci_target = Option.bind (map_of (mf_components (pl_target pl)) ''controller'') mc_digest,
          ci_liveImage = map_option ls_image svc,
          ci_liveUpdateState = Option.bind svc ls_updateStatus,
          ci_inventoryReady = (env_managerNode env x \<noteq> None),
          ci_dispatchedAt = sd_dispatchedAt d,
          ci_processStartedAt = env_processStartedAt env,
          ci_now = env_now env x,
          ci_selfCommit = Some (env_selfCommit env),
          ci_targetCommit = Some (mf_commit (pl_target pl)),
          ci_fromCommit = Some (mf_commit (pl_from pl)),
          ci_timeoutMs = None\<rparr>)"

definition dispatch_controller :: "'x up_env \<Rightarrow> run_plan \<Rightarrow> ('x, step_outcome) up" where
  "dispatch_controller env pl =
     (let ref = componentRef (pl_target pl) ''controller''
      in u_bind (\<lambda>s. upd_data Controller (\<lambda>d. d\<lparr>sd_dispatchedAt := Some (clock env (snd s)), sd_ref := ref\<rparr>) s) (\<lambda>_.
         u_bind (say env (''replacing the controller with '' @ opt_or ref ''null'' @ '' (it restarts itself, then resumes this run)'')) (\<lambda>_.
         u_bind (checkpoint (persist env)) (\<lambda>_.
         u_bind (ext_call (env_registry env)) (\<lambda>host.
         u_bind (dockerCli env (serviceUpdateScript CONTROLLER_SERVICE (opt_or ref []) True (Some ''90s'') host)) (\<lambda>r.
           if fst (fst r) \<noteq> Some 0 then
             u_bind (upd_data Controller (\<lambda>d. d\<lparr>sd_dispatchedAt := None\<rparr>)) (\<lambda>_.
             u_throw (''Swarm refused the controller update: '' @ js_trim (snd r)))
           else u_return (OutWait (Some ''Swarm is replacing the controller; the new one resumes this run''))))))))"

definition controller_step :: "'x up_env \<Rightarrow> run_plan \<Rightarrow> ('x, step_outcome) up" where
  "controller_step env pl =
     u_bind (upd_data Controller (\<lambda>d. d)) (\<lambda>_.
     u_bind (dataOf Controller) (\<lambda>d.
     u_bind (ext_get (\<lambda>x. controllerStepDecision (controller_view env pl d x))) (\<lambda>decision.
       case decision of
         CdSkip t \<Rightarrow> u_return (OutSkipped (Some t))
       | CdDone t \<Rightarrow> u_return (OutDone (Some t))
       | CdWait t \<Rightarrow> u_return (OutWait (Some t))
       | CdFail t \<Rightarrow> u_throw t
       | CdDispatch \<Rightarrow> dispatch_controller env pl)))"

text \<open>One turn of the loop over the servers: \<open>True\<close> when its agent was moved.\<close>

definition agent_back :: "'x up_env \<Rightarrow> agent_build \<Rightarrow> string \<Rightarrow> 'x \<Rightarrow> bool" where
  "agent_back env release n x =
     (env_isOnline env x n \<and>
      (case env_agentBuild env x n of None \<Rightarrow> False | Some b \<Rightarrow> isSameAgentBuild b release))"

definition set_node :: "string \<Rightarrow> node_progress \<Rightarrow> ('x, unit) up" where
  "set_node n p = upd_data Agents (\<lambda>d. d\<lparr>sd_nodes := AList.update n p (sd_nodes d)\<rparr>)"

definition send_agent :: "'x up_env \<Rightarrow> string option \<Rightarrow> string \<times> string \<Rightarrow> agent_build option \<Rightarrow> ('x, unit) up" where
  "send_agent env img n build =
     u_bind (ext_get (\<lambda>x. env_isOnline env x (fst n))) (\<lambda>online.
     u_bind (u_guard (\<not> online) (snd n @ '' went offline before its agent could be upgraded'')) (\<lambda>_.
     u_bind (upd_data Agents (\<lambda>d. d\<lparr>sd_packaging := AList.update (fst n)
               (opt_or (Option.bind build ab_packaging) ''container'') (sd_packaging d)\<rparr>)) (\<lambda>_.
     u_bind (put_detail Agents (snd n @ '': upgrading the agent'')) (\<lambda>_.
     u_bind (ext_call (env_upgradeAgent env (fst n) img)) (\<lambda>_.
     u_bind (set_node (fst n) NodeDispatched) (\<lambda>_.
     u_bind (say env (snd n @ '': agent update sent'')) (\<lambda>_.
     checkpoint (persist env))))))))"

definition upgrade_node :: "'x up_env \<Rightarrow> agent_build \<Rightarrow> string option \<Rightarrow> string \<times> string \<Rightarrow> ('x, bool) up" where
  "upgrade_node env release img n =
     u_bind (dataOf Agents) (\<lambda>d.
     u_bind (ext_get (\<lambda>x. env_agentBuild env x (fst n))) (\<lambda>build.
       let p = map_of (sd_nodes d) (fst n)
       in if p = Some NodeDone \<or> p = Some NodeUpgraded then u_return False
          else if p \<noteq> Some NodeDispatched \<and>
                  (case build of None \<Rightarrow> False | Some b \<Rightarrow> isSameAgentBuild b release)
          then u_bind (set_node (fst n) NodeDone) (\<lambda>_. u_return False)
          else
            u_bind (if p = Some NodeDispatched then u_return () else send_agent env img n build) (\<lambda>_.
            u_bind (poll_until env AGENT_TIMEOUT_MS (env_pollMs env)
                      (ext_get (\<lambda>x. if agent_back env release (fst n) x then Some () else None))
                      (\<lambda>_. snd n @ '': the agent did not come back on '' @ ab_version release @ '' within 6 minutes'')) (\<lambda>_.
            u_bind (set_node (fst n) NodeUpgraded) (\<lambda>_.
            u_bind (say env (snd n @ '': agent back on '' @ ab_version release)) (\<lambda>_.
            u_bind (checkpoint (persist env)) (\<lambda>_. u_return True)))))))"

primrec upgrade_nodes ::
    "'x up_env \<Rightarrow> agent_build \<Rightarrow> string option \<Rightarrow> (string \<times> string) list \<Rightarrow> nat \<Rightarrow> ('x, nat) up" where
  "upgrade_nodes env release img [] moved = u_return moved"
| "upgrade_nodes env release img (n # ns) moved =
     u_bind (upgrade_node env release img n)
       (\<lambda>b. upgrade_nodes env release img ns (if b then moved + 1 else moved))"

definition agents_step :: "'x up_env \<Rightarrow> run_plan \<Rightarrow> ('x, step_outcome) up" where
  "agents_step env pl =
     u_bind (upd_data Agents (\<lambda>d. d)) (\<lambda>_.
       case env_agentRelease env of
         None \<Rightarrow> u_return (OutSkipped (Some ''this controller carries no agent release (binaries not built)''))
       | Some release \<Rightarrow>
           u_bind (ext_call (env_nodes env)) (\<lambda>nodes.
           u_bind (upgrade_nodes env release (componentRef (pl_target pl) ''agent'') nodes 0) (\<lambda>moved.
           u_return (OutDone (Some (if moved > 0 then digits_of moved @ '' agent(s) upgraded, one at a time''
                                    else ''every agent already on this build''))))))"

primrec agents_back :: "'x up_env \<Rightarrow> run_plan \<Rightarrow> string \<Rightarrow> string list \<Rightarrow> nat \<Rightarrow> ('x, nat) up" where
  "agents_back env pl prev [] n = u_return n"
| "agents_back env pl prev (i # ids) n =
     u_bind (dataOf Agents) (\<lambda>d.
     u_bind (ext_get (\<lambda>x. env_isOnline env x i)) (\<lambda>online.
       if opt_or (map_of (sd_packaging d) i) ''container'' \<noteq> ''container'' \<or> \<not> online
       then agents_back env pl prev ids n
       else u_try (ext_call (env_agentUpdate env i (mf_version (pl_from pl)) prev))
              (\<lambda>_. agents_back env pl prev ids n) (\<lambda>_. agents_back env pl prev ids (n + 1))))"

definition agentsRollback :: "'x up_env \<Rightarrow> run_plan \<Rightarrow> ('x, string option) up" where
  "agentsRollback env pl =
     u_bind (upd_data Agents (\<lambda>d. d)) (\<lambda>_.
     u_bind (dataOf Agents) (\<lambda>d.
       let ids = map fst (filter (\<lambda>np. snd np = NodeUpgraded \<or> snd np = NodeDispatched) (sd_nodes d))
       in if ids = [] then u_return (Some ''no agent was changed'')
          else case componentRef (pl_from pl) ''agent'' of
            None \<Rightarrow> u_return (Some ''agents stay on the new build (the previous release has no agent digest to return to)'')
          | Some prev \<Rightarrow>
              u_bind (agents_back env pl prev ids 0) (\<lambda>n.
              u_return (Some (digits_of n @ '' container agent(s) sent back to '' @ mf_version (pl_from pl) @
                ''; host-binary agents keep the new (backward-compatible) build'')))))"

primrec roll_services :: "'x up_env \<Rightarrow> string option \<Rightarrow> system_update list \<Rightarrow> ('x, unit) up" where
  "roll_services env host [] = u_return ()"
| "roll_services env host (u # us) =
     u_bind (put_detail System (su_service u @ '': rolling to '' @ cut_at (CHR ''@'') (su_to u))) (\<lambda>_.
     u_bind (checkpoint (persist env)) (\<lambda>_.
     u_bind (dockerCli env (serviceUpdateScript (su_service u) (su_to u) False None host)) (\<lambda>r.
       if \<not> updateLanded (fst r) then
         u_throw (su_service u @ '' did not come up healthy on the new image (Swarm: '' @ snd (fst r) @
           ''); it was rolled back to its previous image'')
       else
         u_bind (upd_data System (\<lambda>d. d\<lparr>sd_updated := sd_updated d @ [su_service u]\<rparr>)) (\<lambda>_.
         u_bind (say env (su_service u @ '': healthy on '' @ su_to u)) (\<lambda>_.
         u_bind (checkpoint (persist env)) (\<lambda>_. roll_services env host us))))))"

definition system_step :: "'x up_env \<Rightarrow> run_plan \<Rightarrow> ('x, step_outcome) up" where
  "system_step env pl =
     u_bind (upd_data System (\<lambda>d. d)) (\<lambda>_.
     u_bind (ext_call (env_resolver env)) (\<lambda>resolve.
     u_bind (ext_get (env_services env)) (\<lambda>live.
     u_bind (dataOf System) (\<lambda>d.
       let pending = filter (\<lambda>u. su_service u \<notin> set (sd_updated d))
             (planSystemUpdates (env_localeCompare env) live (mf_components (pl_target pl)) resolve)
       in u_bind (upd_data System (\<lambda>d. d\<lparr>sd_pending := pending\<rparr>)) (\<lambda>_.
          if pending = [] \<and> sd_updated d = []
          then u_return (OutDone (Some ''every system service already runs this release''))
          else
            u_bind (ext_call (env_registry env)) (\<lambda>host.
            u_bind (roll_services env host pending) (\<lambda>_.
            u_bind (dataOf System) (\<lambda>d.
            u_return (OutDone (Some (digits_of (length (sd_updated d)) @ '' system service(s) upgraded'')))))))))))"

primrec restore_services :: "'x up_env \<Rightarrow> string list \<Rightarrow> string list \<Rightarrow> ('x, string list) up" where
  "restore_services env [] bk = u_return bk"
| "restore_services env (svc # svcs) bk =
     u_try (dockerCli env (serviceRollbackScript svc))
       (\<lambda>_. restore_services env svcs bk)
       (\<lambda>r. restore_services env svcs (if fst (fst r) = Some 0 then bk @ [svc] else bk))"

definition systemRollback :: "'x up_env \<Rightarrow> ('x, string option) up" where
  "systemRollback env =
     u_bind (upd_data System (\<lambda>d. d)) (\<lambda>_.
     u_bind (dataOf System) (\<lambda>d.
     u_bind (restore_services env (rev (sd_updated d)) []) (\<lambda>back.
     u_return (Some (if back = [] then ''nothing else to restore''
                     else ''restored the previous image on '' @ js_join '', '' back)))))"

definition engine_probe :: "'x up_env \<Rightarrow> string \<Rightarrow> ('x, step_outcome option) up" where
  "engine_probe env runId =
     u_bind (ext_call (env_engineRead env)) (\<lambda>ro.
       case ro of
         None \<Rightarrow> u_throw ''the Garage engine upgrade run disappeared''
       | Some r \<Rightarrow>
           if er_id r \<noteq> runId then u_throw ''the Garage engine upgrade run disappeared''
           else
             u_bind (put_detail Engines (''object storage: '' @ er_status r)) (\<lambda>_.
             if er_status r = ''done'' then u_return (Some (OutDone (Some (''object storage on '' @ er_to r))))
             else if er_status r = ''rolled-back''
             then u_throw (''the Garage upgrade was rolled back ('' @ opt_or (er_error r) ''unknown'' @
                    ''); the store is back on '' @ er_from r)
             else if er_status r = ''failed''
             then u_throw (''the Garage upgrade failed: '' @ opt_or (er_error r) ''unknown'' @
                    '' - its metadata backup is intact on every member'')
             else u_return None))"

definition engines_step :: "'x up_env \<Rightarrow> ('x, step_outcome) up" where
  "engines_step env =
     u_bind (upd_data Engines (\<lambda>d. d)) (\<lambda>_.
     u_bind (dataOf Engines) (\<lambda>d.
       u_bind (if truthy (sd_engineRunId d) then u_return (sd_engineRunId d)
               else
                 u_bind (ext_call (env_engineAvailable env)) (\<lambda>to.
                   if \<not> truthy to then u_return None
                   else
                     u_bind (say env (''object storage: starting the Garage migration to '' @ the to @ '' (brief pause, snapshot first)'')) (\<lambda>_.
                     u_bind (ext_call (env_engineStart env)) (\<lambda>i.
                     u_bind (upd_data Engines (\<lambda>d. d\<lparr>sd_engineRunId := Some i, sd_to := to\<rparr>)) (\<lambda>_.
                     u_bind (checkpoint (persist env)) (\<lambda>_. u_return (Some i))))))) (\<lambda>io.
         case io of
           None \<Rightarrow> u_return (OutSkipped (Some ''no engine migration applies (object storage is current or off)''))
         | Some i \<Rightarrow> poll_until env ENGINE_TIMEOUT_MS (env_pollMs env * 2) (engine_probe env i)
                       (\<lambda>_. ''the Garage upgrade did not settle within 45 minutes''))))"

definition cluster_problems :: "'x up_env \<Rightarrow> (string \<times> string) list \<Rightarrow> 'x up_world \<Rightarrow> string list \<times> string list" where
  "cluster_problems env nodes w =
     verifyProblems (map snd (filter (\<lambda>n. \<not> env_isOnline env (uw_ext w) (fst n)) nodes))
       (env_services env (uw_ext w)) (uw_unhealthyBefore w)"

definition verify_step :: "'x up_env \<Rightarrow> run_plan \<Rightarrow> ('x, step_outcome) up" where
  "verify_step env pl =
     u_bind (ext_call (env_nodes env)) (\<lambda>nodes.
     u_bind (poll_until env VERIFY_TIMEOUT_MS (env_pollMs env * 2)
        (\<lambda>s. (Inr (case cluster_problems env nodes (snd s) of
                (problems, pre) \<Rightarrow> if problems = [] then Some pre else None), s))
        (\<lambda>s. ''the cluster did not settle: '' @ js_join '', '' (fst (cluster_problems env nodes (snd s))))) (\<lambda>pre.
     u_bind (ext_call (env_saveManifest env)) (\<lambda>_.
     u_bind (say env (''the cluster runs '' @ mf_version (pl_target pl))) (\<lambda>_.
     u_bind (if pre = [] then u_return ()
             else say env (''still unhealthy, as before the upgrade: '' @ js_join '', '' pre)) (\<lambda>_.
     u_return (OutDone (Some (digits_of (length nodes) @ '' server(s) online, system services converged'' @
       (if pre = [] then [] else '' ('' @ digits_of (length pre) @ '' were already unhealthy before the upgrade)'')))))))))"

fun buildHandlers :: "'x up_env \<Rightarrow> run_plan \<Rightarrow> step_key \<Rightarrow> (step_data, 'x up_world) step_handler" where
  "buildHandlers env pl Preflight = \<lparr>h_run = preflight env pl, h_rollback = None\<rparr>"
| "buildHandlers env pl Controller = \<lparr>h_run = controller_step env pl, h_rollback = None\<rparr>"
| "buildHandlers env pl Agents =
     \<lparr>h_run = agents_step env pl, h_rollback = Some (\<lambda>_. agentsRollback env pl)\<rparr>"
| "buildHandlers env pl System =
     \<lparr>h_run = system_step env pl, h_rollback = Some (\<lambda>_. systemRollback env)\<rparr>"
| "buildHandlers env pl Engines = \<lparr>h_run = engines_step env, h_rollback = None\<rparr>"
| "buildHandlers env pl Verify = \<lparr>h_run = verify_step env pl, h_rollback = None\<rparr>"

subsection \<open>Driving and the API\<close>

text \<open>
  A drive of the row: the baseline of unhealthy services is read from it first. One drive runs at a
  time, which the set \<^verbatim>\<open>driving\<close> ensures.
\<close>

definition drivePlatformUpgrade ::
    "'x up_env \<Rightarrow> run_plan \<Rightarrow> 'x up_world \<Rightarrow> (string + drive_result) \<times> (step_data, 'x up_world) upg_state" where
  "drivePlatformUpgrade env pl w =
     (let r = last (uw_rows w)
      in if uw_rows w = [] \<or> rn_status r \<noteq> RunRunning then (Inr DriveIdle, (r, w))
         else driveRun (buildHandlers env pl) (persist env) (clock env)
           (r, w\<lparr>uw_unhealthyBefore := opt_or (sd_unhealthyBefore (data_in Preflight r)) []\<rparr>))"

definition startPlatformUpgrade ::
    "run_plan \<Rightarrow> string option \<Rightarrow> bool \<Rightarrow> string + step_data run_state" where
  "startPlatformUpgrade pl wanted active =
     (case pl_unverified pl of
        Some e \<Rightarrow> Inl (''unverified release: '' @ e @ '' - Upgrade is disabled'')
      | None \<Rightarrow>
          if truthy wanted \<and> wanted \<noteq> Some (mf_version (pl_target pl))
          then Inl (''the available release is '' @ mf_version (pl_target pl) @ '', not '' @ the wanted @ '' - refresh and try again'')
          else case upgradeBlockReason (mf_version (pl_from pl)) (mf_version (pl_target pl)) (mf_minUpgradeFrom (pl_target pl)) of
            Some e \<Rightarrow> Inl e
          | None \<Rightarrow> if active then Inl ''a platform upgrade is already running'' else Inr newRunState)"

definition retryPlatformUpgrade :: "bool \<Rightarrow> int \<Rightarrow> step_data run_state \<Rightarrow> string + step_data run_state" where
  "retryPlatformUpgrade active t r =
     (if active then Inl ''another platform upgrade is running'' else retryRun t r)"

definition cancelPlatformUpgrade :: "step_data run_state \<Rightarrow> string + step_data run_state" where
  "cancelPlatformUpgrade r =
     (if rn_status r \<noteq> RunFailed then Inl ''only a failed run can be dismissed''
      else Inr (r\<lparr>rn_status := RunCancelled\<rparr>))"

end
