(* ===== verification/UpgradeSafety.thy ===== *)
theory UpgradeSafety
  imports UpgradeService
begin

text \<open>
  The upgrade steps meet the contract of the engine, so a run survives a controller that stops at
  any point: \<open>owns k m\<close> says that the call \<open>m\<close> changes of the run only step \<open>k\<close>'s data and detail and
  the log, in every row it writes on the way too. Each handler is shown to own its step by rules on
  its calls; the interpretation of \<open>step_engine\<close> then gives the properties of whole runs.
\<close>

section \<open>Calls that own their step\<close>

definition owns :: "step_key \<Rightarrow> ('x, 'a) up \<Rightarrow> bool" where
  "owns k m \<longleftrightarrow>
     (\<forall>r w res r' w'. m (r, w) = (res, (r', w')) \<longrightarrow> touches k r r' \<and> emits uw_rows (touches k r) w w')"

lemma touches_refl [simp]: "touches k r r"
  by (simp add: touches_def)

lemma touches_trans:
  assumes "touches k a b" and "touches k b c"
  shows "touches k a c"
  using assms by (simp add: touches_def)

lemma ownsI:
  assumes "\<And>r w res r' w'. m (r, w) = (res, (r', w')) \<Longrightarrow> touches k r r' \<and> emits uw_rows (touches k r) w w'"
  shows "owns k m"
  using assms by (simp add: owns_def)

lemma ownsD: "owns k m \<Longrightarrow> m (r, w) = (res, (r', w')) \<Longrightarrow> touches k r r' \<and> emits uw_rows (touches k r) w w'"
  by (simp add: owns_def)

lemma touches_chain:
  assumes "touches k r r1 \<and> emits uw_rows (touches k r) w w1" and "touches k r1 r2 \<and> emits uw_rows (touches k r1) w1 w2"
  shows "touches k r r2 \<and> emits uw_rows (touches k r) w w2"
proof -
  have "emits uw_rows (touches k r) w1 w2"
    by (rule emits_mono) (use assms touches_trans in blast)+
  with assms show ?thesis using touches_trans emits_trans by metis
qed

lemma owns_try [owns_intros]:
  assumes "owns k m" and "\<And>e. owns k (g e)" and "\<And>a. owns k (f a)"
  shows "owns k (u_try m g f)"
proof (rule ownsI)
  fix r w res r' w' assume b: "u_try m g f (r, w) = (res, (r', w'))"
  obtain res1 r1 w1 where m: "m (r, w) = (res1, (r1, w1))" by (metis prod.collapse)
  note 1 = ownsD [OF assms(1) m]
  show "touches k r r' \<and> emits uw_rows (touches k r) w w'"
  proof (cases res1)
    case (Inl e)
    with b m have "g e (r1, w1) = (res, (r', w'))" by (simp add: u_try_def)
    from touches_chain [OF 1 ownsD [OF assms(2) this]] show ?thesis .
  next
    case (Inr a)
    with b m have "f a (r1, w1) = (res, (r', w'))" by (simp add: u_try_def)
    from touches_chain [OF 1 ownsD [OF assms(3) this]] show ?thesis .
  qed
qed

lemma owns_throw [owns_intros]: "owns k (u_throw e)"
  by (rule ownsI) (simp add: u_throw_def)

lemma owns_return [owns_intros]: "owns k (u_return a)"
  by (rule ownsI) (simp add: u_return_def)

lemma u_bind_try: "u_bind m f = u_try m u_throw f"
  by (intro ext) (simp add: u_bind_def u_try_def u_throw_def split: sum.splits prod.splits)

lemma owns_bind [owns_intros]: "owns k m \<Longrightarrow> (\<And>a. owns k (f a)) \<Longrightarrow> owns k (u_bind m f)"
  unfolding u_bind_try by (intro owns_try owns_throw)

lemma owns_ext_call [owns_intros]: "owns k (ext_call f)"
  by (rule ownsI) (auto simp: ext_call_def emits_def split: prod.splits)

lemma owns_ext_get [owns_intros]: "owns k (ext_get f)"
  by (rule ownsI) (simp add: ext_get_def)

lemma owns_sleep [owns_intros]: "owns k (ext_sleep env ms)"
  by (rule ownsI) (auto simp: ext_sleep_def emits_def)

lemma owns_say [owns_intros]: "owns k (say env msg)"
  by (rule ownsI) (auto simp: say_def u_now_def touches_def)

lemma owns_data_of [owns_intros]: "owns k (dataOf k')"
  by (rule ownsI) (simp add: dataOf_def)

lemma owns_baseline [owns_intros]: "owns k (set_baseline b)"
  by (rule ownsI) (auto simp: set_baseline_def emits_def)

lemma owns_guard [owns_intros]: "owns k (u_guard b e)"
  by (simp add: u_guard_def owns_throw owns_return)

lemma touches_set_step:
  assumes "\<And>x. st_key (f x) = st_key x" and "\<And>x. st_status (f x) = st_status x"
  shows "touches k r (set_step k f r)"
  by (auto simp: touches_def keys_set_step find_step_set_step assms status_of_def split: option.splits)

lemma owns_upd_data [owns_intros]: "owns k (upd_data k f)"
  by (rule ownsI) (auto simp: upd_data_def u_run_def intro: touches_set_step)

lemma owns_upd_data_at [owns_intros]: "owns k (\<lambda>s. upd_data k (f s) s)"
  by (rule ownsI) (auto simp: upd_data_def u_run_def intro: touches_set_step)

lemma owns_put_detail [owns_intros]: "owns k (put_detail k d)"
  by (rule ownsI) (auto simp: put_detail_def u_run_def intro: touches_set_step)

lemma owns_checkpoint [owns_intros]: "owns k (checkpoint (persist env))"
  by (rule ownsI) (auto simp: checkpoint_def persist_def emits_def split: prod.splits sum.splits)

lemma owns_poll [owns_intros]:
  assumes "owns k probe"
  shows "owns k (poll env deadline pause probe late n)"
proof (induction n)
  case 0
  show ?case by (rule ownsI) (simp add: u_throw_def)
next
  case (Suc n)
  have "owns k (\<lambda>s. if clock env (snd s) > deadline then u_throw (late s) s
      else u_bind (ext_sleep env pause) (\<lambda>_. poll env deadline pause probe late n) s)"
    using ownsD [OF owns_bind [OF owns_sleep, OF Suc.IH]]
    by (intro ownsI) (auto simp: u_throw_def split: if_splits)
  then show ?case using assms by (auto intro!: owns_intros split: option.split)
qed

lemma owns_poll_until [owns_intros]:
  assumes "owns k probe"
  shows "owns k (poll_until env timeout pause probe late)"
  using ownsD [OF owns_poll [OF assms]] unfolding poll_until_def by (blast intro: ownsI)

lemma owns_if [owns_intros]: "(b \<Longrightarrow> owns k m) \<Longrightarrow> (\<not> b \<Longrightarrow> owns k n) \<Longrightarrow> owns k (if b then m else n)"
  by simp

lemma owns_option [owns_intros]:
  "(x = None \<Longrightarrow> owns k m) \<Longrightarrow> (\<And>a. x = Some a \<Longrightarrow> owns k (f a)) \<Longrightarrow> owns k (case x of None \<Rightarrow> m | Some a \<Rightarrow> f a)"
  by (cases x) simp_all

lemma owns_let [owns_intros]: "owns k (f a) \<Longrightarrow> owns k (let x = a in f x)"
  by (simp add: Let_def)

lemma owns_docker [owns_intros]: "owns k (dockerCli env script)"
  unfolding dockerCli_def by (intro owns_intros)

section \<open>The handlers own their steps\<close>

lemma owns_preflight: "owns Preflight (preflight env pl)"
  unfolding preflight_def pre_baseline_def pre_checks_def pre_backup_def pre_mirror_def by (intro owns_intros)

lemma owns_controller: "owns Controller (controller_step env pl)"
proof -
  have "owns Controller (dispatch_controller env pl)" unfolding dispatch_controller_def by (intro owns_intros)
  then have "owns Controller (case d of CdSkip t \<Rightarrow> u_return (OutSkipped (Some t)) | CdDone t \<Rightarrow> u_return (OutDone (Some t))
      | CdWait t \<Rightarrow> u_return (OutWait (Some t)) | CdFail t \<Rightarrow> u_throw t | CdDispatch \<Rightarrow> dispatch_controller env pl)" for d
    by (cases d) (simp_all add: owns_return owns_throw)
  then show ?thesis unfolding controller_step_def by (intro owns_intros)
qed

lemma owns_agents: "owns Agents (agents_step env pl)"
proof -
  have "owns Agents (upgrade_node env release img n)" for release img n
    unfolding upgrade_node_def set_node_def send_agent_def by (intro owns_intros)
  then have "owns Agents (upgrade_nodes env release img ns m)" for release img ns m
    by (induction ns arbitrary: m) (auto intro!: owns_bind owns_return)
  then show ?thesis unfolding agents_step_def by (intro owns_intros)
qed

lemma owns_agents_rollback: "owns Agents (agentsRollback env pl)"
proof -
  have "owns Agents (agents_back env pl prev ids n)" for prev ids n
    by (induction ids arbitrary: n) (auto intro!: owns_intros)
  then show ?thesis unfolding agentsRollback_def by (intro owns_intros)
qed

lemma owns_system: "owns System (system_step env pl)"
proof -
  have "owns System (roll_services env host us)" for host us
    by (induction us) (simp_all add: owns_return, intro owns_intros)
  then show ?thesis unfolding system_step_def by (intro owns_intros)
qed

lemma owns_system_rollback: "owns System (systemRollback env)"
proof -
  have "owns System (restore_services env svcs b)" for svcs b
    by (induction svcs arbitrary: b) (auto intro!: owns_intros)
  then show ?thesis unfolding systemRollback_def by (intro owns_intros)
qed

lemma owns_engines: "owns Engines (engines_step env)"
  unfolding engines_step_def engine_probe_def by (intro owns_intros)

lemma owns_verify: "owns Verify (verify_step env pl)"
  unfolding verify_step_def by (intro owns_intros) (auto intro!: ownsI)

lemmas handlers_own =
  owns_preflight owns_controller owns_agents owns_agents_rollback owns_system owns_system_rollback
  owns_engines owns_verify

interpretation upg: step_engine "buildHandlers env pl" "persist env" "clock env" uw_rows for env :: "'x up_env" and pl
proof
  fix k r w res r' w'
  have "owns k (h_run (buildHandlers env pl k))" by (cases k) (simp_all add: handlers_own)
  then show "h_run (buildHandlers env pl k) (r, w) = (res, (r', w')) \<Longrightarrow> touches k r r' \<and> emits uw_rows (touches k r) w w'"
    by (rule ownsD)
next
  fix k f reason r w and res' :: "string + string option" and r' w'
  assume f: "h_rollback (buildHandlers env pl k) = Some f"
  then have "owns k (f reason)" by (cases k) (auto simp: handlers_own)
  then show "f reason (r, w) = (res', (r', w')) \<Longrightarrow> touches k r r' \<and> emits uw_rows (touches k r) w w'" by (rule ownsD)
next
  fix r w w'
  show "persist env r w = (Inr (), w') \<Longrightarrow> uw_rows w' = uw_rows w @ [r]"
    by (auto simp: persist_def split: prod.splits sum.splits)
next
  fix r w e w'
  show "persist env r w = (Inl e, w') \<Longrightarrow> uw_rows w' = uw_rows w \<or> uw_rows w' = uw_rows w @ [r]"
    by (auto simp: persist_def split: prod.splits sum.splits)
qed

section \<open>Polling ends\<close>

lemma poll_more_fuel:
  assumes sleep: "\<And>ms x. env_now env x + ms \<le> env_now env (env_sleep env ms x)"
    and probe: "\<And>s res s'. probe s = (res, s') \<Longrightarrow> clock env (snd s) \<le> clock env (snd s')"
    and pause: "1 \<le> pause"
  shows "deadline - clock env (snd s) < int n * pause \<Longrightarrow> Suc n \<le> m \<Longrightarrow>
    poll env deadline pause probe late m s = poll env deadline pause probe late (Suc n) s"
proof (induction n arbitrary: s m)
  case 0
  obtain m' where m: "m = Suc m'" using 0(2) by (cases m) auto
  obtain res s1 where p: "probe s = (res, s1)" by (cases "probe s")
  have "clock env (snd s1) > deadline" using probe [OF p] 0(1) by simp
  with p show ?case by (auto simp: m u_bind_def split: sum.splits option.splits)
next
  case (Suc n)
  obtain m' where m: "m = Suc m'" "Suc n \<le> m'" using Suc.prems(2) by (cases m) auto
  obtain res s1 where p: "probe s = (res, s1)" by (cases "probe s")
  define s2 where "s2 = (fst s1, (snd s1)\<lparr>uw_ext := env_sleep env pause (uw_ext (snd s1))\<rparr>)"
  have "clock env (snd s1) + pause \<le> clock env (snd s2)" using sleep by (simp add: s2_def clock_def)
  then have "deadline - clock env (snd s2) < int n * pause"
    using probe [OF p] Suc.prems(1) by (simp add: algebra_simps)
  then have IH: "poll env deadline pause probe late m' s2 = poll env deadline pause probe late (Suc n) s2"
    by (rule Suc.IH [OF _ m(2)])
  have e: "ext_sleep env pause s1 = (Inr (), s2)" by (simp add: ext_sleep_def s2_def)
  have "poll env deadline pause probe late (Suc i) s =
      (case res of Inl x \<Rightarrow> (Inl x, s1) | Inr (Some a) \<Rightarrow> (Inr a, s1) | Inr None \<Rightarrow>
        if clock env (snd s1) > deadline then u_throw (late s1) s1 else poll env deadline pause probe late i s2)" for i
    using p e by (auto simp: u_bind_def u_return_def simp del: poll.simps(1) split: sum.splits option.splits)
  with IH show ?case unfolding m(1) by presburger
qed

text \<open>
  C27. A polling loop of an upgrade step ends: with a clock that moves on by at least the pause in
  every sleep, the number of polls that the model allows is never the reason for a result, since
  any larger number gives the same one; the loop returns, or throws what its probe throws, or
  throws that the deadline has passed.
\<close>

theorem polling_ends_by_deadline:
  assumes "\<And>ms x. env_now env x + ms \<le> env_now env (env_sleep env ms x)"
    and "\<And>s res s'. probe s = (res, s') \<Longrightarrow> clock env (snd s) \<le> clock env (snd s')"
    and "1 \<le> pause" and "poll_fuel timeout pause \<le> n"
  shows "poll env (clock env (snd s) + timeout) pause probe late n s = poll_until env timeout pause probe late s"
proof -
  let ?k = "nat (timeout div pause) + 1"
  have "timeout < (timeout div pause + 1) * pause"
  proof -
    have "timeout = pause * (timeout div pause) + timeout mod pause" by simp
    moreover have "timeout mod pause < pause" using assms(3) by (intro pos_mod_bound) simp
    moreover have "(timeout div pause + 1) * pause = pause * (timeout div pause) + pause" by (simp add: algebra_simps)
    ultimately show ?thesis by linarith
  qed
  also have "\<dots> \<le> int ?k * pause" using assms(3) by (intro mult_right_mono) simp_all
  finally have "clock env (snd s) + timeout - clock env (snd s) < int ?k * pause" by simp
  moreover have "Suc ?k \<le> n" using assms(3,4) by (simp add: poll_fuel_def max_def)
  ultimately have "poll env (clock env (snd s) + timeout) pause probe late n s =
      poll env (clock env (snd s) + timeout) pause probe late (Suc ?k) s"
    by (intro poll_more_fuel) (use assms(1-3) in \<open>simp_all\<close>)
  moreover have "Suc ?k = poll_fuel timeout pause" using assms(3) by (simp add: poll_fuel_def max_def)
  ultimately show ?thesis by (simp only: poll_until_def)
qed

end
