(* ===== verification/UpgradeRuns.thy ===== *)
theory UpgradeRuns
  imports UpgradeSafety "HOL-Library.Code_Target_Nat" "HOL-Library.Code_Target_Int"
begin

text \<open>
  Whole upgrades: the row of a run under any sequence of drives (each of which may stop at any of
  its writes), retries and dismissals, and what becomes of a step that failed.
\<close>

section \<open>A small cluster\<close>

text \<open>One server and one platform service, on which the witnesses run.\<close>

record demo_cluster =
  dc_services :: "live_service list"
  dc_manager :: "string option"
  dc_now :: int

definition digest_text :: "char \<Rightarrow> string" where
  "digest_text c = ''sha256:'' @ replicate 64 c"

definition demo_service :: "string \<Rightarrow> string \<Rightarrow> live_service" where
  "demo_service n img =
     \<lparr>ls_name = n, ls_image = img, ls_labels = [], ls_updateStatus = None, ls_desired = Some 1, ls_running = 1\<rparr>"

definition old_image :: "string \<Rightarrow> string" where
  "old_image n = ''docker.io/swarmy/'' @ n @ ''@'' @ digest_text (CHR ''a'')"

definition new_image :: "string \<Rightarrow> string" where
  "new_image n = ''docker.io/swarmy/'' @ n @ ''@'' @ digest_text (CHR ''b'')"

definition demo_component :: "string \<Rightarrow> manifest_component" where
  "demo_component n =
     \<lparr>mc_ref = ''docker.io/swarmy/'' @ n, mc_image = ''docker.io/swarmy/'' @ n, mc_digest = Some (digest_text (CHR ''b''))\<rparr>"

definition demo_manifest :: "string \<Rightarrow> manifest" where
  "demo_manifest v =
     \<lparr>mf_version = v, mf_commit = [], mf_minUpgradeFrom = ''0.0.0'',
      mf_components = [(''controller'', demo_component ''controller''), (''dns'', demo_component ''dns'')]\<rparr>"

definition set_image :: "string \<Rightarrow> string \<Rightarrow> demo_cluster \<Rightarrow> demo_cluster" where
  "set_image n img x =
     x\<lparr>dc_services := map (\<lambda>s. if ls_name s = n then s\<lparr>ls_image := img\<rparr> else s) (dc_services x)\<rparr>"

text \<open>A docker command line that restores the old image of the name server when asked to roll back.\<close>

definition demo_docker :: "string \<Rightarrow> demo_cluster \<Rightarrow> (string + string) \<times> demo_cluster" where
  "demo_docker script x =
     (if script = serviceRollbackScript ''swarmy-dns''
      then (Inr (UPDATE_MARKER @ '' 0 rollback_completed''), set_image ''swarmy-dns'' (old_image ''dns'') x)
      else (Inl ''unknown command'', x))"

definition ok_call :: "'a \<Rightarrow> 'x \<Rightarrow> (string + 'a) \<times> 'x" where
  "ok_call a x = (Inr a, x)"

definition demo_env :: "demo_cluster up_env" where
  "demo_env =
     \<lparr>env_now = dc_now, env_sleep = (\<lambda>ms x. x\<lparr>dc_now := dc_now x + ms\<rparr>), env_pollMs = 5000,
      env_processStartedAt = 0, env_selfCommit = [], env_services = dc_services,
      env_isOnline = (\<lambda>_ _. True), env_managerNode = dc_manager,
      env_nodeInventory = (\<lambda>_. [\<lparr>in_manager = True, in_ready = True, in_unreachable = False\<rparr>]),
      env_stats = (\<lambda>_ _. None), env_agentBuild = (\<lambda>_ _. None), env_agentRelease = None,
      env_nodes = ok_call [(''n1'', ''alpha'')], env_dbWrite = ok_call (), env_backup = ok_call ''snap-1'',
      env_mirror = ok_call (0, 0, None), env_upgradeAgent = (\<lambda>_ _. ok_call ()),
      env_agentUpdate = (\<lambda>_ _ _. ok_call ()), env_registry = ok_call None,
      env_resolver = ok_call (\<lambda>k c. mc_image c @ ''@'' @ opt_or (mc_digest c) []),
      env_runOnce = demo_docker, env_engineAvailable = ok_call None, env_engineStart = ok_call [],
      env_engineRead = ok_call None, env_saveManifest = ok_call (),
      env_localeCompare = (\<lambda>a b. if a < b then -1 else if b < a then 1 else 0)\<rparr>"

definition demo_plan :: run_plan where
  "demo_plan =
     \<lparr>pl_target = demo_manifest ''1.1.0'', pl_from = demo_manifest ''1.0.0'', pl_skipBackup = False,
      pl_unverified = None\<rparr>"

definition demo_world :: "demo_cluster up_world" where
  "demo_world =
     \<lparr>uw_rows = [newRunState], uw_unhealthyBefore = [],
      uw_ext = \<lparr>dc_services = [demo_service ''swarmy-dns'' (old_image ''dns'')], dc_manager = None, dc_now = 100\<rparr>\<rparr>"

text \<open>
  A controller that stops right after preflight is recorded, and the drive that resumes its row: the
  controller step then waits for the inventory.
\<close>

definition stopped_world :: "demo_cluster up_world" where
  "stopped_world =
     (let w = snd (snd (drivePlatformUpgrade demo_env demo_plan demo_world)) in w\<lparr>uw_rows := take 5 (uw_rows w)\<rparr>)"

definition resumed_world :: "demo_cluster up_world" where
  "resumed_world = snd (snd (drivePlatformUpgrade demo_env demo_plan stopped_world))"

section \<open>The row of a run\<close>

inductive upg_step :: "'x up_env set \<Rightarrow> run_plan \<Rightarrow> step_data run_state \<Rightarrow> step_data run_state \<Rightarrow> bool"
  for E pl where
  stopped: "env \<in> E \<Longrightarrow> uw_rows w \<noteq> [] \<Longrightarrow> drivePlatformUpgrade env pl w = (res, (r', w')) \<Longrightarrow>
    x \<in> set (drop (length (uw_rows w)) (uw_rows w')) \<Longrightarrow> upg_step E pl (last (uw_rows w)) x"
| retried: "retryPlatformUpgrade active t r = Inr r' \<Longrightarrow> upg_step E pl r r'"
| dismissed: "cancelPlatformUpgrade r = Inr r' \<Longrightarrow> upg_step E pl r r'"

inductive_cases upg_stepE: "upg_step E pl r r'"

lemma drive_rows:
  assumes "run_ok (last (uw_rows w))" and "uw_rows w \<noteq> []" and "drivePlatformUpgrade env pl w = (res, (r', w'))"
    and "x \<in> set (drop (length (uw_rows w)) (uw_rows w'))"
  shows "run_ok x \<and> keeps_finished (last (uw_rows w)) x"
proof (cases "rn_status (last (uw_rows w)) = RunRunning")
  case True
  let ?r = "last (uw_rows w)"
  let ?w = "w\<lparr>uw_unhealthyBefore := opt_or (sd_unhealthyBefore (data_in Preflight ?r)) []\<rparr>"
  have "driveRun (buildHandlers env pl) (persist env) (clock env) (?r, ?w) = (res, (r', w'))"
    using assms(2,3) True by (simp add: drivePlatformUpgrade_def Let_def)
  from upg.drive_sound(1) [OF assms(1) this] show ?thesis using assms(4) by (auto simp: emits_def list_all_iff)
next
  case False
  with assms(2-4) show ?thesis by (simp add: drivePlatformUpgrade_def)
qed

lemma upg_step_ok:
  assumes "upg_step E pl r r'" and "run_ok r"
  shows "run_ok r' \<and> keeps_finished r r'"
  using assms(1)
proof cases
  case (stopped env w res r'' w')
  then show ?thesis using drive_rows assms(2) by blast
next
  case (retried active t)
  then have "retryRun t r = Inr r'" by (simp add: retryPlatformUpgrade_def split: if_splits)
  from retryRun_ok [OF assms(2) this] show ?thesis by simp
next
  case dismissed
  then show ?thesis using assms(2)
    by (auto simp: cancelPlatformUpgrade_def run_ok_def keeps_finished_def split: if_splits)
qed

lemma upg_steps_ok:
  assumes "(upg_step E pl)\<^sup>*\<^sup>* r r'" and "run_ok r"
  shows "run_ok r' \<and> keeps_finished r r'"
  using assms(1)
proof induction
  case base
  show ?case using assms(2) by simp
next
  case (step y z)
  then show ?case using upg_step_ok keeps_finished_trans by blast
qed

text \<open>
  C7. An upgrade is crash-safe. Let the controller stop at any write of a drive and start again, in
  any release of it, any number of times, with retries of failed steps in between: a step that the
  row records as finished keeps its whole record in every later row, and a step is never entered
  before all steps before it are finished. In particular nothing runs out of order, and no work
  that was recorded is forgotten.
\<close>

theorem finished_steps_survive:
  assumes "(upg_step E pl)\<^sup>*\<^sup>* newRunState r" and "(upg_step E pl)\<^sup>*\<^sup>* r r'"
  shows "(is_finished (status_of k r) \<longrightarrow> find_step k r' = find_step k r) \<and>
    (status_of k r' \<noteq> Pending \<and> step_index j < step_index k \<longrightarrow> is_finished (status_of j r'))"
proof -
  have "run_ok r" using upg_steps_ok [OF assms(1) newRunState_ok] by simp
  then have *: "run_ok r'" "keeps_finished r r'" using upg_steps_ok [OF assms(2)] by simp_all
  have "is_finished (status_of j r')" if "status_of k r' \<noteq> Pending" "step_index j < step_index k"
  proof -
    have "\<not> step_index (rn_step r') < step_index k" using *(1) that(1) by (auto simp: run_ok_def)
    with that(2) *(1) show ?thesis by (simp add: run_ok_def)
  qed
  with *(2) show ?thesis by (simp add: keeps_finished_def)
qed

lemma demo_evaluation:
  "let w = snd (snd (drivePlatformUpgrade demo_env demo_plan demo_world));
       w1 = w\<lparr>uw_rows := take 5 (uw_rows w)\<rparr>;
       w2 = snd (snd (drivePlatformUpgrade demo_env demo_plan w1))
   in length (uw_rows w) = 7 \<and> is_finished (status_of Preflight (uw_rows w ! 4)) \<and>
      length (uw_rows w2) = 7 \<and> status_of Controller (last (uw_rows w2)) = Waiting"
  by code_simp

lemma last_take_5: "4 < length xs \<Longrightarrow> last (take 5 xs) = xs ! 4"
  using take_Suc_conv_app_nth [of 4 xs] by (simp add: eval_nat_numeral)

lemma demo_rows:
  "length (uw_rows (snd (snd (drivePlatformUpgrade demo_env demo_plan demo_world)))) = 7"
  "is_finished (status_of Preflight (last (uw_rows stopped_world)))" "length (uw_rows stopped_world) = 5"
  "length (uw_rows resumed_world) = 7" "status_of Controller (last (uw_rows resumed_world)) = Waiting"
  using demo_evaluation
  by (simp_all add: stopped_world_def resumed_world_def Let_def last_take_5)

lemma last_in_drop: "n < length xs \<Longrightarrow> last xs \<in> set (drop n xs)"
  by (metis drop_eq_Nil2 last_drop last_in_set not_le)

lemma demo_reached:
  "upg_step {demo_env} demo_plan newRunState (last (uw_rows stopped_world))"
  "upg_step {demo_env} demo_plan (last (uw_rows stopped_world)) (last (uw_rows resumed_world))"
proof -
  let ?w = "snd (snd (drivePlatformUpgrade demo_env demo_plan demo_world))"
  have "last (uw_rows stopped_world) = uw_rows ?w ! 4"
    using demo_rows(1) by (simp add: stopped_world_def Let_def last_take_5)
  moreover have "uw_rows ?w ! 4 \<in> set (drop 1 (uw_rows ?w))"
    using nth_mem [of 3 "drop 1 (uw_rows ?w)"] demo_rows(1) by simp
  ultimately show "upg_step {demo_env} demo_plan newRunState (last (uw_rows stopped_world))"
    using upg_step.stopped [of demo_env "{demo_env}" demo_world demo_plan
        "fst (drivePlatformUpgrade demo_env demo_plan demo_world)"
        "fst (snd (drivePlatformUpgrade demo_env demo_plan demo_world))" ?w "last (uw_rows stopped_world)"]
    by (simp add: demo_world_def)
  have "last (uw_rows resumed_world) \<in> set (drop (length (uw_rows stopped_world)) (uw_rows resumed_world))"
    by (rule last_in_drop) (simp add: demo_rows)
  moreover have "uw_rows stopped_world \<noteq> []" using demo_rows(3) by force
  ultimately show "upg_step {demo_env} demo_plan (last (uw_rows stopped_world)) (last (uw_rows resumed_world))"
    using upg_step.stopped [of demo_env "{demo_env}" stopped_world demo_plan
        "fst (drivePlatformUpgrade demo_env demo_plan stopped_world)"
        "fst (snd (drivePlatformUpgrade demo_env demo_plan stopped_world))" resumed_world "last (uw_rows resumed_world)"]
    by (auto simp: resumed_world_def)
qed

lemma demo_runs:
  "(upg_step {demo_env} demo_plan)\<^sup>*\<^sup>* newRunState (last (uw_rows stopped_world))"
  "(upg_step {demo_env} demo_plan)\<^sup>*\<^sup>* (last (uw_rows stopped_world)) (last (uw_rows resumed_world))"
  using demo_reached by blast+

theorem finished_steps_survive_witness:
  "find_step Preflight (last (uw_rows resumed_world)) = find_step Preflight (last (uw_rows stopped_world)) \<and>
   is_finished (status_of Preflight (last (uw_rows resumed_world)))"
proof -
  note * = finished_steps_survive [OF demo_runs]
  have "find_step Preflight (last (uw_rows resumed_world)) = find_step Preflight (last (uw_rows stopped_world))"
    using * [of Preflight Preflight] demo_rows(2) by blast
  moreover have "is_finished (status_of Preflight (last (uw_rows resumed_world)))"
    using * [of Controller Preflight] demo_rows(5) by simp
  ultimately show ?thesis by simp
qed

text \<open>
  A finished step is never run again: resuming a row of a run gives the same result, the same
  rows and the same effects whatever the handlers of its finished steps would do.
\<close>

theorem finished_steps_not_called:
  assumes "(upg_step E pl)\<^sup>*\<^sup>* newRunState r" and "\<And>k. \<not> is_finished (status_of k r) \<Longrightarrow> hs k = buildHandlers env pl k"
  shows "driveRun hs (persist env) (clock env) (r, w) = driveRun (buildHandlers env pl) (persist env) (clock env) (r, w)"
proof -
  have "run_ok r" using upg_steps_ok [OF assms(1) newRunState_ok] by simp
  then show ?thesis using assms(2) by (rule upg.drive_ignores_finished)
qed

definition broken_handlers :: "step_key \<Rightarrow> (step_data, demo_cluster up_world) step_handler" where
  "broken_handlers = (buildHandlers demo_env demo_plan)(Preflight := \<lparr>h_run = u_throw ''never called'', h_rollback = None\<rparr>)"

theorem finished_steps_not_called_witness:
  "driveRun broken_handlers (persist demo_env) (clock demo_env) (last (uw_rows stopped_world), stopped_world) =
   driveRun (buildHandlers demo_env demo_plan) (persist demo_env) (clock demo_env) (last (uw_rows stopped_world), stopped_world)"
proof (rule finished_steps_not_called [OF demo_runs(1)])
  show "broken_handlers k = buildHandlers demo_env demo_plan k" if "\<not> is_finished (status_of k (last (uw_rows stopped_world)))" for k
    using that demo_rows(2) by (auto simp: broken_handlers_def)
qed

section \<open>Retrying a failed step\<close>

lemma retry_keeps_data:
  assumes "run_ok r" and "retryRun t r = Inr r'" and "rn_step r = k"
  shows "data_in k r' = data_in k r \<and> find_step k r' \<noteq> None"
  using retryRun_ok [OF assms(1,2)] assms(3) by (auto simp: data_in_def)

lemma data_in_upd:
  assumes "find_step k r \<noteq> None"
  shows "data_in k (set_step k (\<lambda>x. x\<lparr>st_data := Some (f (opt_or (st_data x) no_data))\<rparr>) r) = f (data_in k r)"
  using assms by (auto simp: data_in_def find_step_set_step opt_or_def)

lemma run_upd_data:
  assumes "find_step k r \<noteq> None"
  obtains r' where "upd_data k f (r, w) = (Inr (), (r', w))" "data_in k r' = f (data_in k r)" "find_step k r' \<noteq> None"
  using assms data_in_upd [OF assms, of f] that
  by (auto simp: upd_data_def u_run_def find_step_set_step)

text \<open>
  C29. A controller step that failed because Swarm put the old controller back cannot be retried:
  the step keeps the time of its dispatch, so as long as the cluster looks the same the retried
  step fails again at once, with the same reason, and never asks Swarm for the update again.
\<close>

theorem controller_retry_fails_again:
  assumes "run_ok r" and "rn_step r = Controller" and "retryPlatformUpgrade active t r = Inr r'"
    and "controllerStepDecision (controller_view env pl (data_in Controller r) (uw_ext w)) = CdFail e"
  shows "\<exists>r''. controller_step env pl (r', w) = (Inl e, (r'', w)) \<and> data_in Controller r'' = data_in Controller r"
proof -
  have "retryRun t r = Inr r'" using assms(3) by (simp add: retryPlatformUpgrade_def split: if_splits)
  then have d: "data_in Controller r' = data_in Controller r" "find_step Controller r' \<noteq> None"
    using retry_keeps_data [OF assms(1) _ assms(2)] by simp_all
  obtain r'' where u: "upd_data Controller (\<lambda>d. d) (r', w) = (Inr (), (r'', w))" "data_in Controller r'' = data_in Controller r'"
    by (rule run_upd_data [OF d(2), of "\<lambda>d. d" w])
  then have "controller_step env pl (r', w) = (Inl e, (r'', w))"
    using assms(4) d(1) by (simp add: controller_step_def u_bind_def dataOf_def ext_get_def u_throw_def)
  with u(2) d(1) show ?thesis by (intro exI [of _ r'']) simp
qed

definition failed_step :: "step_key \<Rightarrow> step_data \<Rightarrow> step_data run_state" where
  "failed_step k d =
     newRunState\<lparr>rn_status := RunFailed, rn_step := k,
       rn_steps := map (\<lambda>x. if step_index (st_key x) < step_index k then x\<lparr>st_status := Done\<rparr>
                            else if st_key x = k then x\<lparr>st_status := RolledBack, st_data := Some d\<rparr> else x) initialSteps\<rparr>"

lemma find_failed_step:
  "find_step j (failed_step k d) =
     Some ((if step_index j < step_index k then (new_step j)\<lparr>st_status := Done\<rparr>
            else if j = k then (new_step j)\<lparr>st_status := RolledBack, st_data := Some d\<rparr> else new_step j))"
  by (cases j; cases k) (simp_all add: failed_step_def find_step_def initialSteps_def STEP_ORDER_def new_step_def)

lemma failed_step_ok: "run_ok (failed_step k d)"
proof -
  have "map st_key (rn_steps (failed_step k d)) = STEP_ORDER"
    by (simp add: failed_step_def initialSteps_def STEP_ORDER_def new_step_def)
  moreover have "rn_status (failed_step k d) = RunFailed" "rn_step (failed_step k d) = k"
    by (simp_all add: failed_step_def)
  ultimately show ?thesis
    by (auto simp: run_ok_def status_of_def find_failed_step is_finished_def new_step_def)
qed

lemma retry_failed_step: "\<exists>r. retryPlatformUpgrade False t (failed_step k d) = Inr r"
  by (simp add: retryPlatformUpgrade_def retryRun_def failed_step_def)

definition dispatched_data :: step_data where
  "dispatched_data = no_data\<lparr>sd_dispatchedAt := Some (-10)\<rparr>"

definition old_controller_world :: "demo_cluster up_world" where
  "old_controller_world =
     demo_world\<lparr>uw_ext := (uw_ext demo_world)
       \<lparr>dc_services := [demo_service CONTROLLER_SERVICE (old_image ''controller'')], dc_manager := Some ''n1''\<rparr>\<rparr>"

theorem controller_retry_fails_again_witness:
  "\<exists>r' r''. retryPlatformUpgrade False 200 (failed_step Controller dispatched_data) = Inr r' \<and>
     controller_step demo_env demo_plan (r', old_controller_world) =
       (Inl NEW_CONTROLLER_UNHEALTHY, (r'', old_controller_world))"
proof -
  obtain r' where r': "retryPlatformUpgrade False 200 (failed_step Controller dispatched_data) = Inr r'"
    using retry_failed_step by blast
  have "controllerStepDecision (controller_view demo_env demo_plan dispatched_data (uw_ext old_controller_world)) =
      CdFail NEW_CONTROLLER_UNHEALTHY" by code_simp
  moreover have "data_in Controller (failed_step Controller dispatched_data) = dispatched_data"
    by (simp add: data_in_def find_failed_step opt_or_def)
  ultimately show ?thesis
    using controller_retry_fails_again [OF failed_step_ok _ r', of demo_env demo_plan old_controller_world] r'
    by (auto simp: failed_step_def)
qed

lemma data_in_set_step:
  assumes "\<And>x. st_key (f x) = st_key x" and "\<And>x. st_data (f x) = st_data x"
  shows "data_in j (set_step k f r) = data_in j r"
  by (auto simp: data_in_def find_step_set_step assms split: option.splits)

lemma data_in_fields [simp]:
  "data_in j (r\<lparr>rn_status := a\<rparr>) = data_in j r" "data_in j (r\<lparr>rn_error := e\<rparr>) = data_in j r"
  "data_in j (noteOn m t r) = data_in j r"
  by (simp_all add: data_in_def)

lemma failure_keeps_data:
  "data_in j (rolled_back k d t r) = data_in j r" "data_in j (halt_run k e t r) = data_in j r"
  "data_in j (fail_step k e t r) = data_in j r"
  by (simp_all add: rolled_back_def halt_run_def fail_step_def data_in_set_step)

lemma dockerCli_run: "dockerCli env script (r, w) = (res, s') \<Longrightarrow> fst s' = r"
  by (auto simp: dockerCli_def u_bind_def ext_get_def ext_call_def u_return_def u_throw_def split: if_splits sum.splits prod.splits)

lemma restore_services_run: "restore_services env svcs b (r, w) = (res, s') \<Longrightarrow> fst s' = r"
proof (induction svcs arbitrary: b w)
  case (Cons svc svcs)
  obtain res1 r1 w1 where d: "dockerCli env (serviceRollbackScript svc) (r, w) = (res1, (r1, w1))" by (metis prod.collapse)
  with dockerCli_run [OF d] Cons.IH Cons.prems show ?case by (auto simp: u_try_def split: sum.splits)
qed (auto simp: u_return_def)

lemma systemRollback_data:
  assumes "systemRollback env (r, w) = (Inr m, (r1, w1))" and "find_step System r \<noteq> None"
  shows "data_in System r1 = data_in System r"
proof -
  obtain r2 where u: "upd_data System (\<lambda>d. d) (r, w) = (Inr (), (r2, w))" "data_in System r2 = data_in System r"
    by (rule run_upd_data [OF assms(2), of "\<lambda>d. d" w])
  obtain res s2 where "restore_services env (rev (sd_updated (data_in System r2))) [] (r2, w) = (res, s2)"
    by (metis prod.collapse)
  with restore_services_run [OF this] u assms(1) show ?thesis
    by (auto simp: systemRollback_def u_bind_def dataOf_def u_return_def split: sum.splits)
qed

text \<open>
  C26. After a failed system step its rollback puts the previous image back on the services it had
  already moved, but they stay listed as updated. When the step is retried and those are the only
  services that are not on the release, the step reports that it is done without having asked for a
  single update: the run goes on and can finish with services on the old release.
\<close>

theorem retry_skips_rolled_back_services:
  assumes "run_ok (halt_run System e t2 (rolled_back System m t1 r1))"
    and "rn_step r1 = System" and "find_step System r0 \<noteq> None"
    and "systemRollback env (r0, w0) = (Inr m, (r1, w1))"
    and "retryPlatformUpgrade active t (halt_run System e t2 (rolled_back System m t1 r1)) = Inr r"
    and "sd_updated (data_in System r0) \<noteq> []"
    and "env_resolver env (uw_ext w1) = (Inr resolve, uw_ext w1)" and "env_registry env (uw_ext w1) = (Inr host, uw_ext w1)"
    and "set (map su_service (planSystemUpdates (env_localeCompare env) (env_services env (uw_ext w1))
           (mf_components (pl_target pl)) resolve)) \<subseteq> set (sd_updated (data_in System r0))"
  shows "\<exists>d r'. system_step env pl (r, w1) = (Inr (OutDone d), (r', w1))"
proof -
  let ?h = "halt_run System e t2 (rolled_back System m t1 r1)"
  have "retryRun t ?h = Inr r" using assms(5) by (simp add: retryPlatformUpgrade_def split: if_splits)
  moreover have "rn_step ?h = System" using assms(2) by (simp add: halt_run_def rolled_back_def)
  ultimately have r: "data_in System r = data_in System ?h" "find_step System r \<noteq> None"
    using retry_keeps_data [OF assms(1)] by simp_all
  then have upd: "data_in System r = data_in System r0"
    using systemRollback_data [OF assms(4,3)] by (simp add: failure_keeps_data)
  let ?plan = "planSystemUpdates (env_localeCompare env) (env_services env (uw_ext w1)) (mf_components (pl_target pl)) resolve"
  have none: "filter (\<lambda>u. su_service u \<notin> set (sd_updated (data_in System r0))) ?plan = []"
    using assms(9) by (auto simp: filter_empty_conv)
  obtain r2 where u: "upd_data System (\<lambda>d. d) (r, w1) = (Inr (), (r2, w1))" "data_in System r2 = data_in System r0" "find_step System r2 \<noteq> None"
    using run_upd_data [OF r(2), of "\<lambda>d. d" w1] upd by metis
  obtain r3 where v: "upd_data System (\<lambda>d. d\<lparr>sd_pending := []\<rparr>) (r2, w1) = (Inr (), (r3, w1))"
    by (rule run_upd_data [OF u(3)])
  show ?thesis
    using u v none assms(6-8)
    by (simp add: system_step_def u_bind_def ext_call_def ext_get_def dataOf_def u_return_def Let_def)
qed

text \<open>The name server was moved to the new image before the step failed on another service.\<close>

definition moved_row :: "step_data run_state" where
  "moved_row = (failed_step System (no_data\<lparr>sd_updated := [''swarmy-dns'']\<rparr>))\<lparr>rn_status := RunRunning\<rparr>"

definition moved_world :: "demo_cluster up_world" where
  "moved_world =
     demo_world\<lparr>uw_ext := (uw_ext demo_world)
       \<lparr>dc_services := [demo_service ''swarmy-dns'' (new_image ''dns'')], dc_manager := Some ''n1''\<rparr>\<rparr>"

lemma moved_rollback:
  obtains m r1 w1 where "systemRollback demo_env (moved_row, moved_world) = (Inr m, (r1, w1))"
    "dc_services (uw_ext w1) = [demo_service ''swarmy-dns'' (old_image ''dns'')]"
proof -
  have "case systemRollback demo_env (moved_row, moved_world) of (res, (r1, w1)) \<Rightarrow>
      (case res of Inl _ \<Rightarrow> False | Inr m \<Rightarrow> dc_services (uw_ext w1) = [demo_service ''swarmy-dns'' (old_image ''dns'')])"
    by code_simp
  then show thesis using that by (auto split: prod.splits sum.splits)
qed

lemma moved_row_in_step: "in_step moved_row System moved_row"
proof -
  have "run_ok (failed_step System (no_data\<lparr>sd_updated := [''swarmy-dns'']\<rparr>))" by (rule failed_step_ok)
  then show ?thesis
    by (auto simp: in_step_def at_step_def run_ok_def moved_row_def keeps_finished_def status_of_def
        find_failed_step is_finished_def) (simp_all add: failed_step_def)
qed

lemma demo_plan_names:
  "su_service ` set (planSystemUpdates (env_localeCompare demo_env) [demo_service ''swarmy-dns'' (old_image ''dns'')]
     (mf_components (pl_target demo_plan)) (\<lambda>k c. mc_image c @ ''@'' @ opt_or (mc_digest c) [])) = {''swarmy-dns''}"
proof -
  have "map su_service (planSystemUpdates (env_localeCompare demo_env) [demo_service ''swarmy-dns'' (old_image ''dns'')]
     (mf_components (pl_target demo_plan)) (\<lambda>k c. mc_image c @ ''@'' @ opt_or (mc_digest c) [])) = [''swarmy-dns'']"
    by code_simp
  from arg_cong [OF this, of set] show ?thesis by simp
qed

theorem retry_skips_rolled_back_services_witness:
  "\<exists>r w d r'. dc_services (uw_ext w) = [demo_service ''swarmy-dns'' (old_image ''dns'')] \<and>
     system_step demo_env demo_plan (r, w) = (Inr (OutDone d), (r', w))"
proof -
  obtain m r1 w1 where rb: "systemRollback demo_env (moved_row, moved_world) = (Inr m, (r1, w1))"
    and old: "dc_services (uw_ext w1) = [demo_service ''swarmy-dns'' (old_image ''dns'')]"
    by (rule moved_rollback)
  have "touches System moved_row r1" using ownsD [OF owns_system_rollback rb] by simp
  then have i: "in_step moved_row System r1" by (rule in_step_touches [OF moved_row_in_step])
  let ?h = "halt_run System ''x'' 300 (rolled_back System m 300 r1)"
  have ok: "run_ok ?h"
    using halt_run_ok [OF rolled_back_in_step [OF i]] rolled_back_status [OF i] by blast
  have "rn_status ?h = RunFailed" by simp
  then obtain r where r: "retryPlatformUpgrade False 400 ?h = Inr r"
    by (auto simp: retryPlatformUpgrade_def retryRun_def)
  have "data_in System moved_row = no_data\<lparr>sd_updated := [''swarmy-dns'']\<rparr>" "find_step System moved_row \<noteq> None"
    by (simp_all add: moved_row_def data_in_def find_failed_step opt_or_def)
  then have "\<exists>d r'. system_step demo_env demo_plan (r, w1) = (Inr (OutDone d), (r', w1))"
    using i demo_plan_names old
    by (intro retry_skips_rolled_back_services [OF ok _ _ rb r,
          where resolve = "\<lambda>k c. mc_image c @ ''@'' @ opt_or (mc_digest c) []" and host = None])
      (simp_all add: in_step_def, simp_all add: demo_env_def ok_call_def)
  with old show ?thesis by blast
qed

theorem polling_ends_by_deadline_witness:
  "poll demo_env (clock demo_env (snd (moved_row, moved_world)) + 60000) 5000
     (ext_get (\<lambda>x. if dc_now x > 20000 then Some () else None)) (\<lambda>_. ''late'') 99 (moved_row, moved_world) =
   poll_until demo_env 60000 5000
     (ext_get (\<lambda>x. if dc_now x > 20000 then Some () else None)) (\<lambda>_. ''late'') (moved_row, moved_world)"
  by (rule polling_ends_by_deadline) (auto simp: demo_env_def ext_get_def poll_fuel_def)

end
