(* ===== verification/StoreLayout.thy ===== *)
theory StoreLayout
  imports KvCodec
begin

text \<open>
  The pure half of the object-store reconcile worker,
  \<^verbatim>\<open>apps/api/src/workers/storage-reconcile.core.ts\<close>: reading the answers of Garage's admin
  API, finding out which Garage node runs on which server, and planning the cluster layout. A plain
  object that is used as a dictionary is its list of entries; \<open>own_order\<close> is the order in which
  \<^verbatim>\<open>Object.entries\<close> lists them. Numbers are rationals and \<open>num_text nf\<close> is their text, as in
  \<open>KvCodec\<close>. The hash of a plan is an argument. The shell scripts are not modelled, their output is.
\<close>

section \<open>Definitions\<close>

definition STORE_SERVICE_NAME :: string where "STORE_SERVICE_NAME = ''swarmy-garage''"
definition GARAGE_RPC_PORT :: string where "GARAGE_RPC_PORT = ''3901''"
definition TASK_MARKER :: string where "TASK_MARKER = ''__SWARMY_TASK__:''"
definition STATUS_MARKER :: string where "STATUS_MARKER = ''__SWARMY_STATUS__:''"
definition STORAGE_STATS_LABEL :: string where "STORAGE_STATS_LABEL = ''swarmy.storage.stats''"
definition DEFAULT_CAPACITY_GB :: rat where "DEFAULT_CAPACITY_GB = 100"

subsection \<open>Reading what the scripts print\<close>

text \<open>\<^verbatim>\<open>s.split(sep)\<close> with a separator of several characters; \<open>acc\<close> is the piece read so far.\<close>

function split_str :: "string \<Rightarrow> string \<Rightarrow> string \<Rightarrow> string list" where
  "split_str sep acc s =
     (if sep \<noteq> [] \<and> js_starts_with s sep then rev acc # split_str sep [] (drop (length sep) s)
      else case s of [] \<Rightarrow> [rev acc] | c # cs \<Rightarrow> split_str sep (c # acc) cs)"
  by pat_completeness auto
termination
proof (relation "measure (\<lambda>(sep, acc, s). length s)")
  fix sep acc s :: string
  assume "sep \<noteq> [] \<and> js_starts_with s sep"
  then show "((sep, [], drop (length sep) s), sep, acc, s) \<in> measure (\<lambda>(sep, acc, s). length s)"
    by (cases s) (auto simp: js_starts_with_def)
qed auto

declare split_str.simps [simp del]

text \<open>\<^verbatim>\<open>/^(\d{1,3}\.){3}\d{1,3}$/\<close>.\<close>

definition IPV4 :: "string \<Rightarrow> bool" where
  "IPV4 s =
     (let ps = js_split (CHR ''.'') s
      in length ps = 4 \<and> list_all (\<lambda>p. list_all is_digit p \<and> 1 \<le> length p \<and> length p \<le> 3) ps)"

text \<open>Everything before and after the first line break.\<close>

definition first_line :: "string \<Rightarrow> string" where
  "first_line s = takeWhile (\<lambda>c. c \<noteq> CHR 0x0A) s"

definition rest_lines :: "string \<Rightarrow> string" where
  "rest_lines s = drop (Suc (length (first_line s))) s"

fun nonempty :: "string option \<Rightarrow> string option" where
  "nonempty (Some s) = (if s = [] then None else Some s)"
| "nonempty None = None"

fun first_node :: "(string \<times> json) list \<Rightarrow> string option" where
  "first_node [] = None"
| "first_node ((i, v) # kvs) =
     (case nonempty (as_str (jget v ''nodeId'')) of
        Some n \<Rightarrow> Some n
      | None \<Rightarrow> if i \<noteq> [] then Some i else first_node kvs)"

text \<open>
  An object spread or iterated: an array or a string lists its elements under their indices, any
  other value that is not an object lists nothing.
\<close>

fun entries_of :: "json \<Rightarrow> (string \<times> json) list" where
  "entries_of (JObj kvs) = own_order kvs"
| "entries_of (JArr xs) = zip (map digits_of [0..<length xs]) xs"
| "entries_of (JStr s) = zip (map digits_of [0..<length s]) (map (\<lambda>c. JStr [c]) s)"
| "entries_of _ = []"

fun typeof_object :: "json \<Rightarrow> bool" where
  "typeof_object (JObj _) = True"
| "typeof_object (JArr _) = True"
| "typeof_object _ = False"

definition selfNodeId :: "json \<Rightarrow> string option" where
  "selfNodeId body =
     (case nonempty (as_str (jget body ''node'')) of
        Some n \<Rightarrow> Some n
      | None \<Rightarrow>
          (case jget body ''success'' of
             None \<Rightarrow> None
           | Some s \<Rightarrow> if typeof_object s then first_node (entries_of s) else None))"

record probed_task =
  pt_ip :: string
  pt_garageNodeId :: string

definition probe_chunk :: "js_num \<Rightarrow> string \<Rightarrow> probed_task list \<Rightarrow> probed_task list" where
  "probe_chunk nf chunk tasks =
     (let ip = js_trim (first_line chunk)
      in if \<not> IPV4 ip \<or> ip \<in> pt_ip ` set tasks then tasks
         else case Option.bind (json_parse nf (js_trim (rest_lines chunk))) selfNodeId of
             None \<Rightarrow> tasks
           | Some node \<Rightarrow> tasks @ [\<lparr>pt_ip = ip, pt_garageNodeId = node\<rparr>])"

definition parseTaskProbe :: "js_num \<Rightarrow> string \<Rightarrow> probed_task list" where
  "parseTaskProbe nf out =
     js_sort (by_key pt_ip) (fold (probe_chunk nf) (tl (split_str TASK_MARKER [] out)) [])"

definition peer_of :: "probed_task \<Rightarrow> string" where
  "peer_of t = pt_garageNodeId t @ ''@'' @ pt_ip t @ '':'' @ GARAGE_RPC_PORT"

definition planConnects :: "probed_task list \<Rightarrow> (string \<times> string list) list" where
  "planConnects tasks =
     (if length tasks < 2 then []
      else map (\<lambda>t. (pt_ip t, map peer_of (filter (\<lambda>u. pt_ip u \<noteq> pt_ip t) tasks))) tasks)"

text \<open>\<^verbatim>\<open>Number.parseInt(s.trim(), 10)\<close>, with 0 for \<^verbatim>\<open>NaN\<close>.\<close>

definition parseAdminOutput :: "string \<Rightarrow> int \<times> string" where
  "parseAdminOutput out =
     (case js_index_of STATUS_MARKER out of
        None \<Rightarrow> (0, js_trim out)
      | Some i \<Rightarrow>
          let rest = drop (i + length STATUS_MARKER) out;
              w = js_trim (first_line rest);
              neg = (w \<noteq> [] \<and> hd w = CHR ''-'');
              ds = takeWhile is_digit (if neg \<or> w \<noteq> [] \<and> hd w = CHR ''+'' then tl w else w);
              n = (if ds = [] then 0 else if neg then - int (dec_value ds) else int (dec_value ds))
          in (n, if CHR 0x0A \<in> set rest then js_trim (rest_lines rest) else []))"

subsection \<open>Garage's answers\<close>

text \<open>A role that a status names: its zone and its capacity.\<close>

record garage_node =
  gn_id :: string
  gn_hostname :: "string option"
  gn_isUp :: bool
  gn_draining :: bool
  gn_role :: "(string \<times> rat option) option"
  gn_dataAvailable :: "rat option"
  gn_dataTotal :: "rat option"

record garage_status =
  gs_node :: "string option"
  gs_layoutVersion :: "rat option"
  gs_nodes :: "garage_node list"

text \<open>\<^verbatim>\<open>Boolean(v)\<close>.\<close>

fun json_truthy :: "json option \<Rightarrow> bool" where
  "json_truthy None = False"
| "json_truthy (Some JNull) = False"
| "json_truthy (Some (JBool b)) = b"
| "json_truthy (Some (JNum r)) = (r \<noteq> 0)"
| "json_truthy (Some (JStr s)) = (s \<noteq> [])"
| "json_truthy (Some v) = True"

fun elems_of :: "json option \<Rightarrow> json list" where
  "elems_of (Some (JArr xs)) = xs"
| "elems_of _ = []"

definition jget2 :: "json option \<Rightarrow> string \<Rightarrow> json option" where
  "jget2 v k = Option.bind v (\<lambda>j. jget j k)"

definition parse_node :: "json \<Rightarrow> garage_node list" where
  "parse_node v =
     (case nonempty (as_str (jget v ''id'')) of
        None \<Rightarrow> []
      | Some i \<Rightarrow>
          let role = jget v ''role''; part = jget v ''dataPartition''
          in [\<lparr>gn_id = i,
               gn_hostname = nonempty (as_str (jget v ''hostname'')),
               gn_isUp = json_truthy (jget v ''isUp''),
               gn_draining = json_truthy (jget v ''draining''),
               gn_role = map_option (\<lambda>z. (z, as_num (jget2 role ''capacity''))) (as_str (jget2 role ''zone'')),
               gn_dataAvailable = as_num (jget2 part ''available''),
               gn_dataTotal = as_num (jget2 part ''total'')\<rparr>])"

definition parseGarageStatus :: "json \<Rightarrow> garage_status" where
  "parseGarageStatus raw =
     \<lparr>gs_node = nonempty (as_str (jget raw ''node'')),
      gs_layoutVersion = as_num (jget raw ''layoutVersion''),
      gs_nodes = concat (map parse_node (elems_of (jget raw ''nodes'')))\<rparr>"

record layout_role =
  lr_id :: string
  lr_zone :: string
  lr_capacity :: "rat option"

datatype layout_change =
    ChRemove (ch_id: string)
  | ChSet (ch_id: string) (ch_zone: string) (ch_capacity: rat) (ch_tags: "string list")

record garage_layout =
  gl_version :: rat
  gl_roles :: "layout_role list"
  gl_staged :: "layout_change list"

definition parse_role :: "json \<Rightarrow> layout_role list" where
  "parse_role v =
     (case (as_str (jget v ''id''), as_str (jget v ''zone'')) of
        (Some i, Some z) \<Rightarrow> [\<lparr>lr_id = i, lr_zone = z, lr_capacity = as_num (jget v ''capacity'')\<rparr>]
      | _ \<Rightarrow> [])"

definition parse_change :: "json \<Rightarrow> layout_change list" where
  "parse_change v =
     (case as_str (jget v ''id'') of
        None \<Rightarrow> []
      | Some i \<Rightarrow>
          if as_bool (jget v ''remove'') = Some True then [ChRemove i]
          else (case (as_str (jget v ''zone''), as_num (jget v ''capacity'')) of
                  (Some z, Some c) \<Rightarrow>
                    [ChSet i z c (List.map_filter (\<lambda>t. as_str (Some t)) (elems_of (jget v ''tags'')))]
                | _ \<Rightarrow> []))"

definition parseGarageLayout :: "json \<Rightarrow> garage_layout option" where
  "parseGarageLayout raw =
     (if \<not> is_obj raw then None
      else map_option (\<lambda>v. \<lparr>gl_version = v,
                            gl_roles = concat (map parse_role (elems_of (jget raw ''roles''))),
                            gl_staged = concat (map parse_change (elems_of (jget raw ''stagedRoleChanges'')))\<rparr>)
             (as_num (jget raw ''version'')))"

record garage_health =
  gh_status :: string
  gh_knownNodes :: rat
  gh_connectedNodes :: rat
  gh_storageNodes :: rat
  gh_storageNodesOk :: rat
  gh_partitions :: rat
  gh_partitionsQuorum :: rat
  gh_partitionsAllOk :: rat

definition parseGarageHealth :: "json \<Rightarrow> garage_health option" where
  "parseGarageHealth raw =
     map_option (\<lambda>s.
       (let n = (\<lambda>k. opt_or (as_num (jget raw k)) 0)
        in \<lparr>gh_status = s,
            gh_knownNodes = n ''knownNodes'',
            gh_connectedNodes = n ''connectedNodes'',
            gh_storageNodes = n ''storageNodes'',
            gh_storageNodesOk = opt_or (as_num (jget raw ''storageNodesOk'')) (n ''storageNodesUp''),
            gh_partitions = n ''partitions'',
            gh_partitionsQuorum = n ''partitionsQuorum'',
            gh_partitionsAllOk = n ''partitionsAllOk''\<rparr>))
       (as_str (jget raw ''status''))"

text \<open>Whether the members have to be introduced to each other again.\<close>

definition needsRpcBootstrap :: "nat \<Rightarrow> garage_health option \<Rightarrow> bool" where
  "needsRpcBootstrap memberCount health =
     (2 \<le> memberCount \<and>
      (case health of None \<Rightarrow> True | Some h \<Rightarrow> gh_connectedNodes h < of_nat memberCount))"

definition bootstrapDuringEngineUpgrade :: "json option \<Rightarrow> bool" where
  "bootstrapDuringEngineUpgrade u =
     (jget2 u ''status'' = Some (JStr ''running'') \<and> jget2 u ''step'' = Some (JStr ''verify''))"

subsection \<open>Which Garage node runs on which server\<close>

definition NODE_PREFIX :: string where "NODE_PREFIX = ''node-''"

definition zoneFor :: "string \<Rightarrow> string" where
  "zoneFor swarmyNodeId = NODE_PREFIX @ swarmyNodeId"

text \<open>One claim: nothing happens when either side is taken.\<close>

definition claim :: "string \<times> string \<Rightarrow> string jsmap \<Rightarrow> string jsmap" where
  "claim p out =
     (if fst p \<in> fst ` set out \<or> snd p \<in> snd ` set out then out else out @ [p])"

definition known_claims :: "garage_node list \<Rightarrow> string jsmap \<Rightarrow> string jsmap" where
  "known_claims gs known = filter (\<lambda>p. snd p \<in> gn_id ` set gs) (own_order known)"

definition zone_claims :: "garage_node list \<Rightarrow> string jsmap" where
  "zone_claims gs =
     List.map_filter (\<lambda>g. case gn_role g of
         None \<Rightarrow> None
       | Some (z, _) \<Rightarrow>
           if js_starts_with z NODE_PREFIX then Some (drop (length NODE_PREFIX) z, gn_id g) else None) gs"

definition host_claims :: "garage_node list \<Rightarrow> (string \<times> string) list \<Rightarrow> string jsmap" where
  "host_claims gs hosts =
     (let byHostname = map_of (rev (List.map_filter (\<lambda>g. map_option (\<lambda>h. (h, g)) (gn_hostname g)) gs))
      in List.map_filter (\<lambda>(nodeId, cid). map_option (\<lambda>g. (nodeId, gn_id g)) (byHostname cid)) hosts)"

text \<open>\<open>hosts\<close> pairs a server with the short id of its store container.\<close>

definition matchGarageNodes ::
  "garage_node list \<Rightarrow> (string \<times> string) list \<Rightarrow> string jsmap \<Rightarrow> string jsmap" where
  "matchGarageNodes gs hosts known =
     (let out = fold claim (known_claims gs known @ zone_claims gs @ host_claims gs hosts) [];
          unmatchedGarage = filter (\<lambda>g. gn_id g \<notin> snd ` set out) gs;
          unmatchedHosts = filter (\<lambda>h. fst h \<notin> fst ` set out) hosts
      in if length unmatchedGarage = 1 \<and> length unmatchedHosts = 1
         then claim (fst (hd unmatchedHosts), gn_id (hd unmatchedGarage)) out
         else out)"

subsection \<open>The recorded mapping\<close>

text \<open>\<^verbatim>\<open>{ ...v }\<close> for an object that is not an array, else the empty object.\<close>

definition obj_or_empty :: "json option \<Rightarrow> (string \<times> json) list" where
  "obj_or_empty v = (case v of Some (JObj kvs) \<Rightarrow> own_order kvs | _ \<Rightarrow> [])"

definition merge_one ::
  "rat \<Rightarrow> string \<times> string \<Rightarrow> bool \<times> (string \<times> json) list \<Rightarrow> bool \<times> (string \<times> json) list" where
  "merge_one defaultCapacityGb p acc =
     (let nodeId = fst p; g = snd p; cur = map_of (snd acc) nodeId
      in if jget2 cur ''garageNodeId'' = Some (JStr g) then acc
         else let capacity = (case jget2 cur ''capacityGb'' of
                                None \<Rightarrow> JNum defaultCapacityGb
                              | Some JNull \<Rightarrow> JNum defaultCapacityGb
                              | Some v \<Rightarrow> v);
                  spread = (case cur of None \<Rightarrow> [] | Some v \<Rightarrow> entries_of v)
              in (True, AList.update nodeId
                    (JObj (AList.update ''capacityGb'' capacity
                       (AList.update ''garageNodeId'' (JStr g) spread))) (snd acc)))"

definition mergeNodeMapping :: "json \<Rightarrow> string jsmap \<Rightarrow> rat \<Rightarrow> bool \<times> (string \<times> json) list" where
  "mergeNodeMapping layoutJson mapping defaultCapacityGb =
     (let base = obj_or_empty (Some layoutJson);
          nodes = obj_or_empty (map_of base ''nodes'');
          merged = fold (merge_one defaultCapacityGb) (own_order mapping) (False, nodes)
      in (fst merged, AList.update ''nodes'' (JObj (snd merged)) base))"

subsection \<open>The layout\<close>

record desired_member =
  dm_nodeId :: string
  dm_garageNodeId :: "string option"
  dm_capacityGb :: rat

record layout_plan =
  lp_stage :: "layout_change list"
  lp_applyVersion :: "rat option"
  lp_incompleteMapping :: bool

fun changeKey :: "js_num \<Rightarrow> layout_change \<Rightarrow> string" where
  "changeKey nf (ChRemove i) = i @ ''|remove''"
| "changeKey nf (ChSet i z c tags) =
     i @ ''|'' @ z @ ''|'' @ num_text nf c @ ''|'' @ js_join '','' (js_sort (by_key (\<lambda>t. t)) tags)"

definition desired_role :: "string \<Rightarrow> desired_member \<Rightarrow> layout_change option" where
  "desired_role orgId m =
     map_option (\<lambda>g. ChSet g (zoneFor (dm_nodeId m)) (dm_capacityGb m * 1000000000) [''org:'' @ orgId])
       (nonempty (dm_garageNodeId m))"

definition roles_by_id :: "layout_role list \<Rightarrow> string \<Rightarrow> layout_role option" where
  "roles_by_id roles = map_of (rev (map (\<lambda>r. (lr_id r, r)) roles))"

text \<open>Whether the applied layout lacks the change.\<close>

definition role_differs :: "layout_role list \<Rightarrow> layout_change \<Rightarrow> bool" where
  "role_differs roles d =
     (case roles_by_id roles (ch_id d) of
        None \<Rightarrow> True
      | Some cur \<Rightarrow> lr_zone cur \<noteq> ch_zone d \<or> lr_capacity cur \<noteq> Some (ch_capacity d))"

definition needed_changes :: "layout_change list \<Rightarrow> bool \<Rightarrow> layout_role list \<Rightarrow> layout_change list" where
  "needed_changes desiredRoles incompleteMapping roles =
     (let joins = filter (role_differs roles) desiredRoles;
          leaves = (if incompleteMapping then []
                    else map (\<lambda>r. ChRemove (lr_id r))
                           (filter (\<lambda>r. lr_id r \<notin> ch_id ` set desiredRoles) roles))
      in js_sort (by_key ch_id) (joins @ leaves))"

definition planLayout ::
  "js_num \<Rightarrow> string \<Rightarrow> desired_member list \<Rightarrow> garage_layout \<Rightarrow> layout_plan" where
  "planLayout nf orgId desired layout =
     (let desiredRoles = List.map_filter (desired_role orgId) desired;
          incompleteMapping = (length desiredRoles \<noteq> length desired);
          needed = needed_changes desiredRoles incompleteMapping (gl_roles layout);
          stagedKeys = changeKey nf ` set (gl_staged layout)
      in \<lparr>lp_stage = filter (\<lambda>ch. changeKey nf ch \<notin> stagedKeys) needed,
          lp_applyVersion = (if needed \<noteq> [] then Some (gl_version layout + 1) else None),
          lp_incompleteMapping = incompleteMapping\<rparr>)"

definition planSignature :: "js_num \<Rightarrow> (string \<Rightarrow> string) \<Rightarrow> layout_plan \<Rightarrow> rat \<Rightarrow> string" where
  "planSignature nf sha plan layoutVersion =
     take 16 (sha (num_text nf layoutVersion @ [CHR 0x0A] @
       js_join '';'' (map (changeKey nf) (lp_stage plan)) @ [CHR 0x0A] @
       (case lp_applyVersion plan of None \<Rightarrow> [] | Some v \<Rightarrow> num_text nf v)))"

subsection \<open>Backoff and capacity\<close>

definition backoffTicks :: "nat \<Rightarrow> nat" where
  "backoffTicks consecutiveFailures =
     (if consecutiveFailures = 0 then 0 else min (2 ^ (consecutiveFailures - 1)) 8)"

definition garageCapacityGb :: "rat option \<Rightarrow> rat" where
  "garageCapacityGb fsTotalBytes =
     (case fsTotalBytes of
        None \<Rightarrow> DEFAULT_CAPACITY_GB
      | Some b \<Rightarrow> if b \<le> 0 then DEFAULT_CAPACITY_GB
                  else max 1 (of_int (floor (b * (8 / 10) / 1000000000))))"

end
