(* ===== verification/StorePlan.thy ===== *)
theory StorePlan
  imports StoreLayout KvRoundTrip
begin

text \<open>
  What the planning of \<open>StoreLayout\<close> guarantees: the match of Garage nodes with servers is one to
  one, every probed task is introduced to every other, only differences are staged, and the layout
  converges. Garage's two calls, staging and applying a layout, are arguments; \<open>garage_laws\<close>
  states what its documentation says they do.
\<close>

section \<open>Definitions\<close>

text \<open>A Garage id is at most one server's, and a server has at most one.\<close>

definition one_to_one :: "('a \<times> 'b) list \<Rightarrow> bool" where
  "one_to_one m = (distinct (map fst m) \<and> distinct (map snd m))"

text \<open>The zone and capacity that a layout gives a Garage node, and the change staged for it.\<close>

definition role_at :: "garage_layout \<Rightarrow> string \<Rightarrow> (string \<times> rat option) option" where
  "role_at L i = map_option (\<lambda>r. (lr_zone r, lr_capacity r)) (roles_by_id (gl_roles L) i)"

definition change_for :: "layout_change list \<Rightarrow> string \<Rightarrow> layout_change option" where
  "change_for cs i = find (\<lambda>c. ch_id c = i) cs"

fun role_after :: "layout_change option \<Rightarrow> (string \<times> rat option) option \<Rightarrow> (string \<times> rat option) option" where
  "role_after None r = r"
| "role_after (Some (ChRemove _)) r = None"
| "role_after (Some (ChSet _ z c _)) r = Some (z, Some c)"

text \<open>
  Staging merges changes into those staged before, by node. Applying, which must name the version
  after the present one, carries out every staged change and leaves none.
\<close>

definition garage_laws ::
  "(garage_layout \<Rightarrow> layout_change list \<Rightarrow> garage_layout) \<Rightarrow> (garage_layout \<Rightarrow> rat \<Rightarrow> garage_layout option) \<Rightarrow> bool" where
  "garage_laws stage apply_v \<longleftrightarrow>
     (\<forall>L cs. distinct (map ch_id cs) \<longrightarrow>
        gl_version (stage L cs) = gl_version L \<and> gl_roles (stage L cs) = gl_roles L \<and>
        (\<forall>i. change_for (gl_staged (stage L cs)) i =
           (case change_for cs i of None \<Rightarrow> change_for (gl_staged L) i | Some c \<Rightarrow> Some c))) \<and>
     (\<forall>L. distinct (map lr_id (gl_roles L)) \<longrightarrow>
        (\<exists>L'. apply_v L (gl_version L + 1) = Some L' \<and> gl_version L' = gl_version L + 1 \<and> gl_staged L' = [] \<and>
           distinct (map lr_id (gl_roles L')) \<and>
           (\<forall>i. role_at L' i = role_after (change_for (gl_staged L) i) (role_at L i))))"

text \<open>What one tick of the worker does to the layout when both calls succeed.\<close>

definition layout_round ::
  "js_num \<Rightarrow> string \<Rightarrow> desired_member list \<Rightarrow> (garage_layout \<Rightarrow> layout_change list \<Rightarrow> garage_layout) \<Rightarrow>
   (garage_layout \<Rightarrow> rat \<Rightarrow> garage_layout option) \<Rightarrow> garage_layout \<Rightarrow> garage_layout" where
  "layout_round nf orgId desired stage apply_v L =
     (let p = planLayout nf orgId desired L;
          L1 = (if lp_stage p = [] then L else stage L (lp_stage p))
      in case lp_applyVersion p of None \<Rightarrow> L1 | Some v \<Rightarrow> opt_or (apply_v L1 v) L1)"

text \<open>Every member's Garage node is known, and no two members have the same.\<close>

definition members_known :: "desired_member list \<Rightarrow> bool" where
  "members_known desired =
     (list_all (\<lambda>m. nonempty (dm_garageNodeId m) \<noteq> None) desired \<and>
      distinct (map (\<lambda>m. the (dm_garageNodeId m)) desired))"

definition desired_at :: "string \<Rightarrow> desired_member list \<Rightarrow> string \<Rightarrow> (string \<times> rat option) option" where
  "desired_at orgId desired i =
     role_after (change_for (List.map_filter (desired_role orgId) desired) i) None"

section \<open>Matching\<close>

lemma claim_one_to_one: "one_to_one out \<Longrightarrow> one_to_one (claim p out)"
  by (auto simp: claim_def one_to_one_def)

lemma fold_claim_one_to_one: "one_to_one out \<Longrightarrow> one_to_one (fold claim ps out)"
  by (induction ps arbitrary: out) (simp_all add: claim_one_to_one)

lemma set_claim_mono: "set out \<subseteq> set (claim p out)"
  by (auto simp: claim_def)

lemma claim_range: "snd ` set (claim p out) \<subseteq> insert (snd p) (snd ` set out)"
  by (auto simp: claim_def)

lemma hd_filter_in: "filter P xs \<noteq> [] \<Longrightarrow> hd (filter P xs) \<in> set xs"
  by (metis filter_is_subset hd_in_set subsetD)

lemma set_fold_claim_mono: "set out \<subseteq> set (fold claim ps out)"
proof (induction ps arbitrary: out)
  case (Cons p ps)
  from set_claim_mono [of out p] Cons [of "claim p out"] show ?case by auto
qed simp

lemma set_fold_claim_upper: "set (fold claim ps out) \<subseteq> set ps \<union> set out"
proof (induction ps arbitrary: out)
  case (Cons p ps)
  have "set (claim p out) \<subseteq> insert p (set out)" by (auto simp: claim_def)
  with Cons [of "claim p out"] show ?case by auto
qed simp

text \<open>Claims that do not contradict each other are all kept.\<close>

lemma fold_claim_all:
  "one_to_one (out @ ps) \<Longrightarrow> fold claim ps out = out @ ps"
proof (induction ps arbitrary: out)
  case (Cons p ps)
  then have "claim p out = out @ [p]" by (auto simp: claim_def one_to_one_def)
  moreover have "fold claim ps (out @ [p]) = (out @ [p]) @ ps" using Cons by simp
  ultimately show ?case by simp
qed simp

lemma set_map_filter_claims: "set (List.map_filter f xs) = {y. \<exists>x \<in> set xs. f x = Some y}"
  by (induction xs) (auto simp: List.map_filter_simps split: option.splits)

lemma claims_exist:
  assumes "p \<in> set (known_claims gs known @ zone_claims gs @ host_claims gs hosts)"
  shows "snd p \<in> gn_id ` set gs"
proof -
  have "snd p \<in> gn_id ` set gs" if "p \<in> set (host_claims gs hosts)"
  proof -
    let ?hs = "rev (List.map_filter (\<lambda>g. map_option (\<lambda>h. (h, g)) (gn_hostname g)) gs)"
    from that obtain h g where "map_of ?hs h = Some g" "p = (fst p, gn_id g)"
      unfolding host_claims_def Let_def set_map_filter_claims by auto
    then have "(h, g) \<in> set ?hs" "snd p = gn_id g" by (auto dest: map_of_SomeD) (metis snd_conv)
    then show ?thesis by (auto simp: set_map_filter_claims)
  qed
  moreover have "snd p \<in> gn_id ` set gs" if "p \<in> set (zone_claims gs)"
    using that by (auto simp: zone_claims_def set_map_filter_claims split: option.splits if_splits)
  moreover have "snd p \<in> gn_id ` set gs" if "p \<in> set (known_claims gs known)"
    using that by (simp add: known_claims_def)
  ultimately show ?thesis using assms by auto
qed

lemma match_extends_fold:
  "set (fold claim (known_claims gs known @ zone_claims gs @ host_claims gs hosts) []) \<subseteq>
   set (matchGarageNodes gs hosts known)"
  unfolding matchGarageNodes_def Let_def using set_claim_mono by auto

text \<open>
  Whatever Garage, the containers and the record say, the match is one to one and names only Garage
  nodes that the status lists: no Garage node is taken for two servers, so no server is given the
  zone and the capacity of another.
\<close>

lemma match_one_to_one:
  "one_to_one (matchGarageNodes gs hosts known) \<and> snd ` set (matchGarageNodes gs hosts known) \<subseteq> gn_id ` set gs"
proof -
  let ?c = "known_claims gs known @ zone_claims gs @ host_claims gs hosts"
  let ?o = "fold claim ?c []"
  have o: "one_to_one ?o" by (rule fold_claim_one_to_one) (simp add: one_to_one_def)
  have s: "snd ` set ?o \<subseteq> gn_id ` set gs"
  proof (rule image_subsetI)
    fix p
    assume "p \<in> set ?o"
    then have "p \<in> set ?c" using set_fold_claim_upper [of ?c "[]"] by auto
    then show "snd p \<in> gn_id ` set gs" by (rule claims_exist)
  qed
  let ?g = "filter (\<lambda>g. gn_id g \<notin> snd ` set ?o) gs"
  let ?h = "filter (\<lambda>h. fst h \<notin> fst ` set ?o) hosts"
  have m: "matchGarageNodes gs hosts known =
      (if length ?g = 1 \<and> length ?h = 1 then claim (fst (hd ?h), gn_id (hd ?g)) ?o else ?o)"
    by (simp only: matchGarageNodes_def Let_def)
  show ?thesis
  proof (cases "length ?g = 1 \<and> length ?h = 1")
    case True
    then have "?g \<noteq> []" by (metis list.size(3) zero_neq_one)
    then have "gn_id (hd ?g) \<in> gn_id ` set gs" by (rule imageI [OF hd_filter_in])
    then have "snd ` set (claim (fst (hd ?h), gn_id (hd ?g)) ?o) \<subseteq> gn_id ` set gs"
      by (intro subset_trans [OF claim_range] insert_subsetI s) (simp only: snd_conv)
    with o show ?thesis unfolding m if_P [OF True] by (blast intro: claim_one_to_one)
  next
    case False
    from o s show ?thesis unfolding m if_not_P [OF False] by blast
  qed
qed

text \<open>A recorded id is kept as long as Garage knows the node.\<close>

lemma match_keeps_known:
  assumes "one_to_one known" and "(n, g) \<in> set known" and "g \<in> gn_id ` set gs"
  shows "(n, g) \<in> set (matchGarageNodes gs hosts known)"
proof -
  let ?k = "known_claims gs known"
  have "distinct (map f (own_order known)) = distinct (map f known)" for f :: "string \<times> string \<Rightarrow> string"
    by (metis mset_eq_imp_distinct_iff mset_map mset_own_order)
  with assms(1) have "one_to_one ([] @ ?k)"
    by (auto simp: one_to_one_def known_claims_def intro: distinct_map_filter)
  then have "fold claim ?k [] = ?k" using fold_claim_all by fastforce
  moreover have "(n, g) \<in> set ?k" using assms by (simp add: known_claims_def)
  ultimately have "(n, g) \<in> set (fold claim (?k @ zone_claims gs @ host_claims gs hosts) [])"
    using set_fold_claim_mono [of ?k "zone_claims gs @ host_claims gs hosts"] by auto
  then show ?thesis using match_extends_fold by blast
qed

section \<open>Introducing the members\<close>

lemma filter_key_single:
  "t \<in> set ts \<Longrightarrow> distinct (map f ts) \<Longrightarrow> filter (\<lambda>u. f u = f t) ts = [t]"
  by (induction ts) (auto simp: filter_empty_conv image_iff)

lemma probe_chunk_ips: "distinct (map pt_ip tasks) \<Longrightarrow> distinct (map pt_ip (probe_chunk nf chunk tasks))"
  by (auto simp: probe_chunk_def Let_def split: option.splits)

lemma parseTaskProbe_ips: "distinct (map pt_ip (parseTaskProbe nf out))"
proof -
  have "distinct (map pt_ip (fold (probe_chunk nf) cs ts))" if "distinct (map pt_ip ts)" for cs ts
    using that by (induction cs arbitrary: ts) (simp_all add: probe_chunk_ips)
  then show ?thesis by (simp add: parseTaskProbe_def)
qed

text \<open>
  The tasks are introduced to each other in full: of two different tasks that were probed, each is
  told to connect to the other, and none is told to connect to its own address.
\<close>

theorem probed_tasks_meet:
  assumes "t \<in> set (parseTaskProbe nf out)" and "u \<in> set (parseTaskProbe nf out)" and "t \<noteq> u"
  shows "\<exists>peers. (pt_ip t, peers) \<in> set (planConnects (parseTaskProbe nf out)) \<and> peer_of u \<in> set peers \<and>
           length peers = length (parseTaskProbe nf out) - 1"
proof -
  let ?ts = "parseTaskProbe nf out"
  let ?ps = "filter (\<lambda>u. pt_ip u \<noteq> pt_ip t) ?ts"
  have d: "distinct (map pt_ip ?ts)" by (rule parseTaskProbe_ips)
  with assms have ne: "pt_ip u \<noteq> pt_ip t" by (metis distinct_map inj_on_contraD)
  have "2 \<le> length ?ts"
    using assms by (metis One_nat_def Suc_1 card_2_iff card_length card_mono empty_subsetI finite_set
        insert_subset le_trans)
  moreover have "length ?ps = length ?ts - 1"
  proof -
    have "filter (\<lambda>u. pt_ip u = pt_ip t) ?ts = [t]" by (rule filter_key_single [OF assms(1) d])
    then have "length (filter (\<lambda>u. \<not> pt_ip u \<noteq> pt_ip t) ?ts) = 1" by simp
    with sum_length_filter_compl [of "\<lambda>u. pt_ip u \<noteq> pt_ip t" ?ts] show ?thesis by simp
  qed
  ultimately show ?thesis using assms ne by (auto simp: planConnects_def)
qed

section \<open>Planning the layout\<close>

lemma mem_map_filter [simp]: "y \<in> set (List.map_filter f xs) \<longleftrightarrow> (\<exists>x \<in> set xs. f x = Some y)"
  by (simp add: set_map_filter_claims)

lemma desired_role_id: "desired_role orgId m = Some d \<Longrightarrow> dm_garageNodeId m = Some (ch_id d) \<and> ch_id d \<noteq> []"
  by (cases "dm_garageNodeId m") (auto simp: desired_role_def split: if_splits)

lemma desired_role_set: "desired_role orgId m = Some d \<Longrightarrow> \<exists>g z c t. d = ChSet g z c t"
  by (auto simp: desired_role_def)

lemma length_map_filter_eq: "length (List.map_filter f xs) = length xs \<longleftrightarrow> (\<forall>x \<in> set xs. f x \<noteq> None)"
proof (induction xs)
  case (Cons x xs)
  have "length (List.map_filter f xs) \<le> length xs"
    by (simp add: List.map_filter_def)
  with Cons show ?case by (auto simp: List.map_filter_simps split: option.splits)
qed (simp add: List.map_filter_simps)

lemma roles_by_id_None [simp]: "roles_by_id roles i = None \<longleftrightarrow> i \<notin> lr_id ` set roles"
  by (auto simp: roles_by_id_def map_of_eq_None_iff image_image)

lemma roles_by_id_SomeD: "roles_by_id roles i = Some r \<Longrightarrow> r \<in> set roles \<and> lr_id r = i"
  by (auto simp: roles_by_id_def dest: map_of_SomeD)

text \<open>
  A plan stages differences only. A join or an update is the role of a member that the applied layout
  does not give it; a removal is of a node that holds a role and is no member's, and only when every
  member's Garage node is known: a node that was merely not identified in this tick is never staged
  for removal.
\<close>

theorem only_differences_are_staged:
  assumes "c \<in> set (lp_stage (planLayout nf orgId desired L))"
  shows "case c of
     ChRemove g \<Rightarrow> role_at L g \<noteq> None \<and> (\<forall>m \<in> set desired. truthy (dm_garageNodeId m) \<and> dm_garageNodeId m \<noteq> Some g)
   | ChSet g z b tags \<Rightarrow> role_at L g \<noteq> Some (z, Some b) \<and>
       (\<exists>m \<in> set desired. dm_garageNodeId m = Some g \<and> z = zoneFor (dm_nodeId m) \<and> b = dm_capacityGb m * 1000000000)"
proof -
  let ?d = "List.map_filter (desired_role orgId) desired"
  consider (join) "c \<in> set ?d" "role_differs (gl_roles L) c"
    | (leave) r where "length ?d = length desired" "r \<in> set (gl_roles L)" "lr_id r \<notin> ch_id ` set ?d" "c = ChRemove (lr_id r)"
    using assms by (auto simp: planLayout_def needed_changes_def Let_def simp del: mem_map_filter split: if_splits)
  then show ?thesis
  proof cases
    case join
    then obtain m where m: "m \<in> set desired" "desired_role orgId m = Some c" by auto
    then obtain g where "nonempty (dm_garageNodeId m) = Some g"
      and c: "c = ChSet g (zoneFor (dm_nodeId m)) (dm_capacityGb m * 1000000000) [''org:'' @ orgId]"
      by (auto simp: desired_role_def)
    then have "dm_garageNodeId m = Some g" by (cases "dm_garageNodeId m") (auto split: if_splits)
    with join(2) m(1) c show ?thesis
      by (auto simp: role_differs_def role_at_def dest: roles_by_id_SomeD split: option.splits)
  next
    case leave
    have all: "\<exists>g. nonempty (dm_garageNodeId m) = Some g \<and> g \<noteq> lr_id r \<and> dm_garageNodeId m = Some g" if "m \<in> set desired" for m
    proof -
      from leave(1) that obtain d where d: "desired_role orgId m = Some d" by (auto simp: length_map_filter_eq)
      with leave(3) that have "ch_id d \<noteq> lr_id r" by force
      with desired_role_id [OF d] show ?thesis by auto
    qed
    have "roles_by_id (gl_roles L) (lr_id r) \<noteq> None" using leave(2) by simp
    with all leave(4) show ?thesis by (fastforce simp: role_at_def truthy_def split: if_splits)
  qed
qed

section \<open>Convergence\<close>

lemma members_known_roles:
  assumes "members_known desired"
  shows "map ch_id (List.map_filter (desired_role orgId) desired) = map (\<lambda>m. the (dm_garageNodeId m)) desired"
    and "length (List.map_filter (desired_role orgId) desired) = length desired"
    and "distinct (map ch_id (List.map_filter (desired_role orgId) desired))"
proof -
  have "\<forall>m \<in> set desired. \<exists>g. g \<noteq> [] \<and> dm_garageNodeId m = Some g"
  proof
    fix m assume "m \<in> set desired"
    then have "nonempty (dm_garageNodeId m) \<noteq> None" using assms by (simp add: members_known_def list_all_iff)
    then show "\<exists>g. g \<noteq> [] \<and> dm_garageNodeId m = Some g"
      by (cases "dm_garageNodeId m") (auto split: if_splits)
  qed
  then show 1: "map ch_id (List.map_filter (desired_role orgId) desired) = map (\<lambda>m. the (dm_garageNodeId m)) desired"
    by (induction desired) (auto simp: List.map_filter_simps desired_role_def)
  then show "length (List.map_filter (desired_role orgId) desired) = length desired" by (rule map_eq_imp_length_eq)
  from 1 assms show "distinct (map ch_id (List.map_filter (desired_role orgId) desired))"
    by (simp add: members_known_def)
qed

lemma change_for_Some:
  "distinct (map ch_id cs) \<Longrightarrow> change_for cs i = Some c \<longleftrightarrow> c \<in> set cs \<and> ch_id c = i"
  by (induction cs) (auto simp: change_for_def)

lemma change_for_None: "change_for cs i = None \<longleftrightarrow> i \<notin> ch_id ` set cs"
  by (auto simp: change_for_def find_None_iff)

lemma change_for_Nil [simp]: "change_for [] i = None"
  by (simp add: change_for_def)

text \<open>A list of joins with one entry per node, as the desired roles of known members are.\<close>

definition joins_only :: "layout_change list \<Rightarrow> bool" where
  "joins_only D = (distinct (map ch_id D) \<and> (\<forall>d \<in> set D. \<exists>g z c t. d = ChSet g z c t))"

lemma set_needed:
  "c \<in> set (needed_changes D False roles) \<longleftrightarrow> c \<in> set D \<and> role_differs roles c \<or>
     (\<exists>r \<in> set roles. lr_id r \<notin> ch_id ` set D \<and> c = ChRemove (lr_id r))"
  by (auto simp: needed_changes_def)

lemma distinct_needed:
  assumes "distinct (map ch_id D)" and "distinct (map lr_id roles)"
  shows "distinct (map ch_id (needed_changes D False roles))"
proof -
  have "distinct (map ch_id (filter (role_differs roles) D))" by (rule distinct_map_filter [OF assms(1)])
  moreover have "distinct (map lr_id (filter (\<lambda>r. lr_id r \<notin> ch_id ` set D) roles))"
    by (rule distinct_map_filter [OF assms(2)])
  ultimately show ?thesis
    by (auto simp: needed_changes_def comp_def) (metis imageI)
qed

text \<open>Carrying out what is needed gives every node the role that is desired.\<close>

lemma needed_reaches_desired:
  assumes D: "joins_only D" and r: "distinct (map lr_id (gl_roles L))"
  shows "role_after (change_for (needed_changes D False (gl_roles L)) i) (role_at L i) = role_after (change_for D i) None"
proof -
  let ?n = "needed_changes D False (gl_roles L)"
  have di: "distinct (map ch_id D)" using D by (simp add: joins_only_def)
  note cn = change_for_Some [OF distinct_needed [OF di r], of i]
  note cd = change_for_Some [OF di, of i]
  show ?thesis
  proof (cases "change_for D i")
    case (Some d)
    then have d: "d \<in> set D" "ch_id d = i" using cd by auto
    then obtain z c t where dz: "d = ChSet i z c t" using D by (auto simp: joins_only_def)
    show ?thesis
    proof (cases "role_differs (gl_roles L) d")
      case True
      with d cn have "change_for ?n i = Some d" by (simp add: set_needed)
      with Some dz show ?thesis by simp
    next
      case False
      have "change_for ?n i = None"
      proof (rule ccontr)
        assume "change_for ?n i \<noteq> None"
        then obtain e where "e \<in> set ?n" "ch_id e = i" using cn by auto
        then have "e \<in> set D \<and> role_differs (gl_roles L) e"
          using imageI [OF d(1), of ch_id] d(2) by (auto simp: set_needed)
        moreover from this \<open>ch_id e = i\<close> have "change_for D i = Some e" using cd by blast
        ultimately show False using Some False by simp
      qed
      with False Some dz show ?thesis by (auto simp: role_differs_def role_at_def split: option.splits)
    qed
  next
    case None
    then have nd: "i \<notin> ch_id ` set D" by (simp only: change_for_None not_False_eq_True)
    show ?thesis
    proof (cases "i \<in> lr_id ` set (gl_roles L)")
      case True
      with nd cn have "change_for ?n i = Some (ChRemove i)" by (auto simp: set_needed)
      with None show ?thesis by simp
    next
      case False
      with nd have "i \<notin> ch_id ` set ?n" by (auto simp: set_needed)
      with None False show ?thesis by (simp add: role_at_def change_for_None [THEN iffD2])
    qed
  qed
qed

lemma nothing_needed:
  assumes D: "joins_only D" and r: "distinct (map lr_id (gl_roles L))"
  shows "needed_changes D False (gl_roles L) = [] \<longleftrightarrow> (\<forall>i. role_at L i = role_after (change_for D i) None)"
proof
  assume "needed_changes D False (gl_roles L) = []"
  then show "\<forall>i. role_at L i = role_after (change_for D i) None"
    using needed_reaches_desired [OF D r] by simp
next
  assume a: "\<forall>i. role_at L i = role_after (change_for D i) None"
  have di: "distinct (map ch_id D)" using D by (simp add: joins_only_def)
  have "\<not> role_differs (gl_roles L) d" if d: "d \<in> set D" for d
  proof -
    from d have "change_for D (ch_id d) = Some d" using change_for_Some [OF di] by blast
    moreover obtain g z c t where "d = ChSet g z c t" using d D by (auto simp: joins_only_def)
    ultimately show ?thesis using spec [OF a, of "ch_id d"] by (auto simp: role_at_def role_differs_def)
  qed
  moreover have "lr_id x \<in> ch_id ` set D" if x: "x \<in> set (gl_roles L)" for x
  proof (rule ccontr)
    assume "lr_id x \<notin> ch_id ` set D"
    then have "change_for D (lr_id x) = None" by (simp only: change_for_None not_False_eq_True)
    then have "role_at L (lr_id x) = None" using a by simp
    with x show False by (simp add: role_at_def)
  qed
  ultimately have "c \<notin> set (needed_changes D False (gl_roles L))" for c by (auto simp: set_needed)
  then show "needed_changes D False (gl_roles L) = []" by (metis list.set_intros(1) neq_Nil_conv)
qed

lemma members_known_joins:
  assumes "members_known desired"
  shows "joins_only (List.map_filter (desired_role orgId) desired)"
  using members_known_roles(3) [OF assms, of orgId] by (auto simp: joins_only_def dest: desired_role_set)

lemma planLayout_known:
  assumes "members_known desired"
  shows "planLayout nf orgId desired L =
    (let n = needed_changes (List.map_filter (desired_role orgId) desired) False (gl_roles L)
     in \<lparr>lp_stage = filter (\<lambda>ch. changeKey nf ch \<notin> changeKey nf ` set (gl_staged L)) n,
         lp_applyVersion = (if n \<noteq> [] then Some (gl_version L + 1) else None), lp_incompleteMapping = False\<rparr>)"
  using members_known_roles(2) [OF assms, of orgId] by (simp add: planLayout_def Let_def)

text \<open>A round that has something to do leaves nothing staged and moves to the next version.\<close>

lemma round_applies:
  assumes laws: "garage_laws stage apply_v" and d: "distinct (map lr_id (gl_roles L))"
    and p: "lp_applyVersion (planLayout nf orgId desired L) \<noteq> None"
    and ds: "distinct (map ch_id (lp_stage (planLayout nf orgId desired L)))"
  shows "gl_staged (layout_round nf orgId desired stage apply_v L) = []"
    and "gl_version (layout_round nf orgId desired stage apply_v L) = gl_version L + 1"
    and "distinct (map lr_id (gl_roles (layout_round nf orgId desired stage apply_v L)))"
    and "role_at (layout_round nf orgId desired stage apply_v L) i =
      role_after (case change_for (lp_stage (planLayout nf orgId desired L)) i of
          None \<Rightarrow> change_for (gl_staged L) i | Some c \<Rightarrow> Some c) (role_at L i)"
proof -
  let ?p = "planLayout nf orgId desired L"
  let ?L = "if lp_stage ?p = [] then L else stage L (lp_stage ?p)"
  have v: "lp_applyVersion ?p = Some (gl_version L + 1)"
    using p by (simp add: planLayout_def Let_def split: if_splits)
  have L1: "gl_version ?L = gl_version L" "gl_roles ?L = gl_roles L"
    "change_for (gl_staged ?L) i = (case change_for (lp_stage ?p) i of
          None \<Rightarrow> change_for (gl_staged L) i | Some c \<Rightarrow> Some c)" for i
    using laws ds by (auto simp: garage_laws_def)
  moreover have "role_at ?L i = role_at L i" for i by (simp only: role_at_def L1(2))
  moreover obtain L' where "apply_v ?L (gl_version ?L + 1) = Some L'" "gl_version L' = gl_version ?L + 1"
    "gl_staged L' = []" "distinct (map lr_id (gl_roles L'))"
    "\<forall>i. role_at L' i = role_after (change_for (gl_staged ?L) i) (role_at ?L i)"
    using laws d unfolding garage_laws_def L1(2) [symmetric] by blast
  moreover from this have "layout_round nf orgId desired stage apply_v L = L'"
    using v L1(1) by (simp add: layout_round_def Let_def opt_or_def)
  ultimately show "gl_staged (layout_round nf orgId desired stage apply_v L) = []"
    and "gl_version (layout_round nf orgId desired stage apply_v L) = gl_version L + 1"
    and "distinct (map lr_id (gl_roles (layout_round nf orgId desired stage apply_v L)))"
    and "role_at (layout_round nf orgId desired stage apply_v L) i =
      role_after (case change_for (lp_stage ?p) i of
          None \<Rightarrow> change_for (gl_staged L) i | Some c \<Rightarrow> Some c) (role_at L i)"
    by metis+
qed

lemma round_idle:
  assumes "lp_stage (planLayout nf orgId desired L) = []" and "lp_applyVersion (planLayout nf orgId desired L) = None"
  shows "layout_round nf orgId desired stage apply_v L = L"
  using assms by (simp add: layout_round_def)

lemma clean_round_converges:
  assumes laws: "garage_laws stage apply_v" and d: "distinct (map lr_id (gl_roles L))"
    and k: "members_known desired" and s: "gl_staged L = []"
  shows "role_at (layout_round nf orgId desired stage apply_v L) i = desired_at orgId desired i"
    and "distinct (map lr_id (gl_roles (layout_round nf orgId desired stage apply_v L)))"
proof -
  let ?D = "List.map_filter (desired_role orgId) desired"
  let ?n = "needed_changes ?D False (gl_roles L)"
  note D = members_known_joins [OF k, of orgId]
  note p = planLayout_known [OF k, of nf orgId L, unfolded Let_def s, simplified]
  have "role_at (layout_round nf orgId desired stage apply_v L) i = desired_at orgId desired i \<and>
      distinct (map lr_id (gl_roles (layout_round nf orgId desired stage apply_v L)))"
  proof (cases "?n = []")
    case True
    then have "layout_round nf orgId desired stage apply_v L = L" by (intro round_idle) (simp_all add: p)
    with True d nothing_needed [OF D d] show ?thesis by (simp add: desired_at_def)
  next
    case False
    have "distinct (map ch_id (lp_stage (planLayout nf orgId desired L)))"
      using distinct_needed [OF _ d, of ?D] D by (simp add: p joins_only_def)
    from round_applies [OF laws d _ this] False s needed_reaches_desired [OF D d, of i]
    show ?thesis by (auto simp: p desired_at_def split: option.splits)
  qed
  then show "role_at (layout_round nf orgId desired stage apply_v L) i = desired_at orgId desired i"
    and "distinct (map lr_id (gl_roles (layout_round nf orgId desired stage apply_v L)))" by blast+
qed

text \<open>An object store that keeps its layout as Garage's documentation describes.\<close>

definition demo_stage :: "garage_layout \<Rightarrow> layout_change list \<Rightarrow> garage_layout" where
  "demo_stage L cs = L\<lparr>gl_staged := cs @ gl_staged L\<rparr>"

definition demo_apply :: "garage_layout \<Rightarrow> rat \<Rightarrow> garage_layout option" where
  "demo_apply L v =
     (if v \<noteq> gl_version L + 1 then None
      else Some \<lparr>gl_version = v,
        gl_roles = List.map_filter (\<lambda>i. map_option (\<lambda>(z, c). \<lparr>lr_id = i, lr_zone = z, lr_capacity = c\<rparr>)
            (role_after (change_for (gl_staged L) i) (role_at L i)))
          (remdups (map lr_id (gl_roles L) @ map ch_id (gl_staged L))),
        gl_staged = []\<rparr>)"

lemma roles_by_id_map_filter:
  assumes "distinct is"
  shows "map_option (\<lambda>r. (lr_zone r, lr_capacity r))
      (roles_by_id (List.map_filter (\<lambda>i. map_option (\<lambda>(z, c). \<lparr>lr_id = i, lr_zone = z, lr_capacity = c\<rparr>) (f i)) is) i)
    = (if i \<in> set is then f i else None)"
    (is "map_option _ (roles_by_id ?rs i) = _")
proof -
  have d: "distinct (map lr_id ?rs)" using assms
    by (induction "is") (auto simp: List.map_filter_simps split: option.splits)
  have "roles_by_id ?rs i = Some r \<longleftrightarrow> r \<in> set ?rs \<and> lr_id r = i" for r
    using d by (auto simp: roles_by_id_def distinct_map map_of_eq_Some_iff comp_def inj_on_def
        simp del: mem_map_filter)
  note at = this
  show ?thesis
  proof (cases "i \<in> set is \<and> f i \<noteq> None")
    case True
    then obtain z c where "i \<in> set is" "f i = Some (z, c)" by auto
    then have "roles_by_id ?rs i = Some \<lparr>lr_id = i, lr_zone = z, lr_capacity = c\<rparr>"
      unfolding at by force
    with \<open>f i = Some (z, c)\<close> True show ?thesis by simp
  next
    case False
    then have "i \<notin> lr_id ` set ?rs" by auto
    then have "roles_by_id ?rs i = None" by (simp only: roles_by_id_None not_False_eq_True)
    moreover from False have "(if i \<in> set is then f i else None) = None" by (cases "f i") auto
    ultimately show ?thesis by (simp only: option.map)
  qed
qed

lemma change_for_append: "change_for (cs @ ds) i = (case change_for cs i of None \<Rightarrow> change_for ds i | Some c \<Rightarrow> Some c)"
  by (induction cs) (auto simp: change_for_def)

lemma demo_garage_laws: "garage_laws demo_stage demo_apply"
proof -
  have "\<exists>L'. demo_apply L (gl_version L + 1) = Some L' \<and> gl_version L' = gl_version L + 1 \<and> gl_staged L' = [] \<and>
      distinct (map lr_id (gl_roles L')) \<and>
      (\<forall>i. role_at L' i = role_after (change_for (gl_staged L) i) (role_at L i))" for L
  proof -
    let ?is = "remdups (map lr_id (gl_roles L) @ map ch_id (gl_staged L))"
    let ?f = "\<lambda>i. role_after (change_for (gl_staged L) i) (role_at L i)"
    have "distinct (map lr_id (List.map_filter (\<lambda>i. map_option (\<lambda>(z, c). \<lparr>lr_id = i, lr_zone = z, lr_capacity = c\<rparr>) (?f i)) is))"
      if "distinct is" for "is"
      using that by (induction "is") (auto simp: List.map_filter_simps split: option.splits)
    moreover have "?f i = None" if "i \<notin> set ?is" for i
    proof -
      have "change_for (gl_staged L) i = None" "role_at L i = None"
        using that by (auto simp: change_for_None role_at_def)
      then show ?thesis by simp
    qed
    ultimately show ?thesis
      using roles_by_id_map_filter [of ?is ?f] distinct_remdups
      by (auto simp: demo_apply_def role_at_def [of "\<lparr>gl_version = _, gl_roles = _, gl_staged = _\<rparr>"] simp del: remdups.simps)
  qed
  then show ?thesis
    by (auto simp: garage_laws_def demo_stage_def change_for_append split: option.splits)
qed

text \<open>
  C15. The layout converges. When every member's Garage node is known and no two have the same, two rounds
  of staging and applying, each naming the version it found plus one, give every Garage node exactly
  the role that is desired and take the role from every other node, whatever was staged before; the
  plan is then empty and stays so.
\<close>

theorem layout_converges:
  assumes "garage_laws stage apply_v" and "distinct (map lr_id (gl_roles L))" and "members_known desired"
  shows "(\<forall>i. role_at (layout_round nf orgId desired stage apply_v (layout_round nf orgId desired stage apply_v L)) i
             = desired_at orgId desired i) \<and>
         planLayout nf orgId desired (layout_round nf orgId desired stage apply_v (layout_round nf orgId desired stage apply_v L))
           = \<lparr>lp_stage = [], lp_applyVersion = None, lp_incompleteMapping = False\<rparr>"
proof -
  let ?D = "List.map_filter (desired_role orgId) desired"
  let ?r = "layout_round nf orgId desired stage apply_v"
  note D = members_known_joins [OF assms(3), of orgId]
  note p = planLayout_known [OF assms(3), of nf orgId, unfolded Let_def]
  have "(\<forall>i. role_at (?r (?r L)) i = desired_at orgId desired i) \<and> distinct (map lr_id (gl_roles (?r (?r L))))"
  proof (cases "needed_changes ?D False (gl_roles L) = []")
    case True
    then have "?r L = L" by (intro round_idle) (simp_all add: p)
    with True assms(2) nothing_needed [OF D assms(2)] show ?thesis by (simp add: desired_at_def)
  next
    case False
    have "distinct (map ch_id (lp_stage (planLayout nf orgId desired L)))"
      using distinct_needed [OF _ assms(2), of ?D] D by (auto simp: p joins_only_def intro: distinct_map_filter)
    then have "gl_staged (?r L) = []" "distinct (map lr_id (gl_roles (?r L)))"
      using False by (auto intro!: round_applies [OF assms(1,2)] simp: p)
    with clean_round_converges [OF assms(1) _ assms(3)] show ?thesis by blast
  qed
  moreover from this have "needed_changes ?D False (gl_roles (?r (?r L))) = []"
    using nothing_needed [OF D, of "?r (?r L)"] by (simp add: desired_at_def)
  ultimately show ?thesis by (simp add: p)
qed

definition demo_layout :: garage_layout where
  "demo_layout = \<lparr>gl_version = 3,
     gl_roles = [\<lparr>lr_id = ''g1'', lr_zone = ''node-n1'', lr_capacity = Some 100000000000\<rparr>,
                 \<lparr>lr_id = ''g2'', lr_zone = ''node-n2'', lr_capacity = Some 100000000000\<rparr>],
     gl_staged = [ChRemove ''g2'']\<rparr>"

definition demo_members :: "string option \<Rightarrow> desired_member list" where
  "demo_members g2 =
     [\<lparr>dm_nodeId = ''n1'', dm_garageNodeId = Some ''g1'', dm_capacityGb = 100\<rparr>,
      \<lparr>dm_nodeId = ''n2'', dm_garageNodeId = g2, dm_capacityGb = 100\<rparr>,
      \<lparr>dm_nodeId = ''n3'', dm_garageNodeId = Some ''g3'', dm_capacityGb = 100\<rparr>]"

theorem layout_converges_witness:
  "planLayout demo_num ''o1'' (demo_members (Some ''g2''))
     (layout_round demo_num ''o1'' (demo_members (Some ''g2'')) demo_stage demo_apply
       (layout_round demo_num ''o1'' (demo_members (Some ''g2'')) demo_stage demo_apply demo_layout))
   = \<lparr>lp_stage = [], lp_applyVersion = None, lp_incompleteMapping = False\<rparr>"
  by (rule conjunct2 [OF layout_converges [OF demo_garage_laws]])
    (simp_all add: demo_layout_def demo_members_def members_known_def)



text \<open>The other two need a concrete input as well.\<close>

theorem only_differences_are_staged_witness:
  "role_at demo_layout ''g3'' \<noteq> Some (''node-n3'', Some 100000000000)"
proof -
  have "ChSet ''g3'' ''node-n3'' 100000000000 [''org:o1''] \<in>
      set (lp_stage (planLayout demo_num ''o1'' (demo_members None) demo_layout))"
    by (simp add: planLayout_def demo_members_def demo_layout_def List.map_filter_simps desired_role_def zoneFor_def
        NODE_PREFIX_def needed_changes_def role_differs_def roles_by_id_def js_sort.simps Let_def)
  from only_differences_are_staged [OF this] show ?thesis by simp
qed

end
