(* ===== verification/StoreReconcile.thy ===== *)
theory StoreReconcile
  imports StorePlan
begin

text \<open>
  The object-store reconcile worker, \<^verbatim>\<open>apps/api/src/workers/storage-reconcile.ts\<close>, with the
  stats stamp of its pure half. What a tick reads (Garage's answers, the live services, containers and
  node stats, whether a call succeeds) is the record \<open>store_env\<close>: an answer of \<^verbatim>\<open>garageAdmin\<close> is
  \<open>None\<close> when it throws, else the parsed body, \<open>JNull\<close> where the text does not parse. What it asks
  others to do is a list of effects, a call that fails included. The memory it keeps of an org between
  ticks is \<open>org_state\<close>. Recorded Garage ids are strings; another type in their place reads as absent.
\<close>

section \<open>Definitions\<close>

subsection \<open>The stats stamp\<close>

record node_stats =
  ns_garageNodeId :: string
  ns_nodeId :: "string option"
  ns_up :: bool
  ns_draining :: bool
  ns_dataAvailable :: "rat option"
  ns_dataTotal :: "rat option"

record storage_stats =
  ss_at :: string
  ss_layoutVersion :: "rat option"
  ss_health :: "garage_health option"
  ss_nodes :: "node_stats list"

definition stats_of_node :: "string jsmap \<Rightarrow> garage_node \<Rightarrow> node_stats" where
  "stats_of_node mapping g =
     \<lparr>ns_garageNodeId = gn_id g,
      ns_nodeId = map_of (rev (map (\<lambda>(n, i). (i, n)) (own_order mapping))) (gn_id g),
      ns_up = gn_isUp g, ns_draining = gn_draining g,
      ns_dataAvailable = gn_dataAvailable g, ns_dataTotal = gn_dataTotal g\<rparr>"

definition buildStats ::
  "garage_status \<Rightarrow> garage_health option \<Rightarrow> string jsmap \<Rightarrow> string \<Rightarrow> storage_stats" where
  "buildStats status health mapping at_time =
     \<lparr>ss_at = at_time, ss_layoutVersion = gs_layoutVersion status, ss_health = health,
      ss_nodes = js_sort (\<lambda>a b. if ns_garageNodeId a < ns_garageNodeId b then -1 else 1)
        (map (stats_of_node mapping) (gs_nodes status))\<rparr>"

text \<open>The stamp as the value \<^verbatim>\<open>JSON.stringify\<close> is given.\<close>

definition jnullable :: "('a \<Rightarrow> json) \<Rightarrow> 'a option \<Rightarrow> json" where
  "jnullable f v = (case v of None \<Rightarrow> JNull | Some x \<Rightarrow> f x)"

definition healthJson :: "garage_health \<Rightarrow> json" where
  "healthJson h = JObj [(''status'', JStr (gh_status h)), (''knownNodes'', JNum (gh_knownNodes h)),
     (''connectedNodes'', JNum (gh_connectedNodes h)), (''storageNodes'', JNum (gh_storageNodes h)),
     (''storageNodesOk'', JNum (gh_storageNodesOk h)), (''partitions'', JNum (gh_partitions h)),
     (''partitionsQuorum'', JNum (gh_partitionsQuorum h)), (''partitionsAllOk'', JNum (gh_partitionsAllOk h))]"

definition nodeJson :: "node_stats \<Rightarrow> json" where
  "nodeJson n = JObj [(''garageNodeId'', JStr (ns_garageNodeId n)), (''nodeId'', jnullable JStr (ns_nodeId n)),
     (''up'', JBool (ns_up n)), (''draining'', JBool (ns_draining n)),
     (''dataAvailableBytes'', jnullable JNum (ns_dataAvailable n)), (''dataTotalBytes'', jnullable JNum (ns_dataTotal n))]"

definition statsFields :: "storage_stats \<Rightarrow> (string \<times> json) list" where
  "statsFields s = [(''layoutVersion'', jnullable JNum (ss_layoutVersion s)),
     (''health'', jnullable healthJson (ss_health s)), (''nodes'', JArr (map nodeJson (ss_nodes s)))]"

definition statsJson :: "storage_stats \<Rightarrow> json" where
  "statsJson s = JObj ((''at'', JStr (ss_at s)) # statsFields s)"

text \<open>\<^verbatim>\<open>({ at: _at, ...rest }) => rest\<close>; taking \<^verbatim>\<open>null\<close> apart throws.\<close>

definition strip_at :: "json \<Rightarrow> json option" where
  "strip_at v = (if v = JNull then None else Some (JObj (filter (\<lambda>kv. fst kv \<noteq> ''at'') (entries_of v))))"

definition statsChanged :: "js_num \<Rightarrow> string option \<Rightarrow> storage_stats \<Rightarrow> bool" where
  "statsChanged nf prevLabelValue new =
     (if \<not> truthy prevLabelValue then True
      else case Option.bind (json_parse nf (the prevLabelValue)) strip_at of
          None \<Rightarrow> True
        | Some prev \<Rightarrow> map_option (json_stringify nf) (strip_at (statsJson new)) \<noteq> Some (json_stringify nf prev))"

subsection \<open>Discovery\<close>

record container_info =
  co_id :: string
  co_serviceId :: "string option"
  co_labels :: labels
  co_state :: string

definition SWARM_SERVICE_ID_LABEL :: string where
  "SWARM_SERVICE_ID_LABEL = ''com.docker.swarm.service.id''"

text \<open>Services are pairs of a name and an id.\<close>

definition storeContainerHosts ::
  "(string \<times> string) list \<Rightarrow> (string \<Rightarrow> container_info list) \<Rightarrow> string list \<Rightarrow> (string \<times> string) list" where
  "storeContainerHosts services latestContainers memberIds =
     (case find (\<lambda>s. fst s = STORE_SERVICE_NAME) services of
        None \<Rightarrow> []
      | Some svc \<Rightarrow> List.map_filter (\<lambda>nodeId.
          map_option (\<lambda>c. (nodeId, take 12 (co_id c)))
            (find (\<lambda>c. (case co_serviceId c of Some i \<Rightarrow> Some i | None \<Rightarrow> lbl (co_labels c) SWARM_SERVICE_ID_LABEL)
                         = Some (snd svc) \<and> co_state c = ''running'') (latestContainers nodeId))) memberIds)"

text \<open>The recorded nodes, and the ids among them; a record that is \<^verbatim>\<open>null\<close> throws.\<close>

definition recorded_nodes :: "json \<Rightarrow> (string \<times> json) list" where
  "recorded_nodes row = obj_or_empty (map_of (snd (mergeNodeMapping row [] DEFAULT_CAPACITY_GB)) ''nodes'')"

definition known_ids :: "(string \<times> json) list \<Rightarrow> string jsmap" where
  "known_ids recorded =
     List.map_filter (\<lambda>(n, r). map_option (Pair n) (nonempty (as_str (jget r ''garageNodeId'')))) recorded"

definition knownNodes :: "(string \<times> json) list \<Rightarrow> string jsmap option" where
  "knownNodes recorded = (if JNull \<in> snd ` set recorded then None else Some (known_ids recorded))"

text \<open>The mapping of a tick, whether the row has to be written, and the row then.\<close>

definition discover ::
  "garage_node list \<Rightarrow> (string \<times> string) list \<Rightarrow> json \<Rightarrow> (string jsmap \<times> bool \<times> json) option" where
  "discover gs hosts row =
     map_option (\<lambda>known.
       let mapping = matchGarageNodes gs hosts known;
           merge = mergeNodeMapping row mapping DEFAULT_CAPACITY_GB
       in (mapping, fst merge, JObj (snd merge)))
     (knownNodes (recorded_nodes row))"

subsection \<open>A tick for one org\<close>

record org_state =
  os_failures :: nat
  os_skipUntilTick :: nat
  os_lastPlanSig :: "string option"
  os_planAttempts :: nat

definition fresh_state :: org_state where
  "fresh_state = \<lparr>os_failures = 0, os_skipUntilTick = 0, os_lastPlanSig = None, os_planAttempts = 0\<rparr>"

datatype store_effect =
    EConnect string "string list"
  | EWriteRow json
  | EStage "layout_change list"
  | EApply rat
  | EStats string
  | EAlert bool
  | EKeyGc

record store_env =
  se_hasToken :: bool
  se_tokenDecrypts :: bool
  se_members :: "string list"
  se_row :: json
  se_hasManager :: bool
  se_health :: "json option"
  se_healthAfter :: "json option"
  se_probe :: "string option"
  se_status :: "json option"
  se_layout :: "json option"
  se_hosts :: "(string \<times> string) list"
  se_rowWritten :: bool
  se_fsTotal :: "string \<Rightarrow> rat option"
  se_stageOk :: bool
  se_applyOk :: bool
  se_service :: "labels option"
  se_managerLater :: bool
  se_now :: string

definition bootstrapRpcMesh :: "js_num \<Rightarrow> string option \<Rightarrow> store_effect list" where
  "bootstrapRpcMesh nf probe =
     (case probe of None \<Rightarrow> []
      | Some out \<Rightarrow> map (\<lambda>(ip, peers). EConnect ip peers) (planConnects (parseTaskProbe nf out)))"

definition desired_members :: "store_env \<Rightarrow> string jsmap \<Rightarrow> desired_member list" where
  "desired_members env mapping =
     map (\<lambda>nodeId.
       \<lparr>dm_nodeId = nodeId,
        dm_garageNodeId = nonempty (map_of mapping nodeId),
        dm_capacityGb =
          (if se_fsTotal env nodeId \<notin> {None, Some 0} then garageCapacityGb (se_fsTotal env nodeId)
           else opt_or (as_num (jget2 (map_of (recorded_nodes (se_row env)) nodeId) ''capacityGb'')) DEFAULT_CAPACITY_GB)\<rparr>)
     (se_members env)"

text \<open>Every part of a tick gives the state, the effects and whether it came to its end without a throw.\<close>

definition layout_phase ::
  "js_num \<Rightarrow> (string \<Rightarrow> string) \<Rightarrow> store_env \<Rightarrow> nat \<Rightarrow> layout_plan \<Rightarrow> garage_layout \<Rightarrow> org_state \<Rightarrow>
   org_state \<times> store_effect list \<times> bool" where
  "layout_phase nf sha env tick plan layout st =
     (if lp_stage plan \<noteq> [] \<or> lp_applyVersion plan \<noteq> None then
        (let sig = planSignature nf sha plan (gl_version layout);
             st' = (if os_lastPlanSig st = Some sig
                    then st\<lparr>os_planAttempts := os_planAttempts st + 1,
                            os_skipUntilTick := tick + backoffTicks (os_planAttempts st + 1)\<rparr>
                    else st\<lparr>os_lastPlanSig := Some sig, os_planAttempts := 1\<rparr>);
             staging = (if lp_stage plan \<noteq> [] then [EStage (lp_stage plan)] else []);
             applying = (case lp_applyVersion plan of None \<Rightarrow> [] | Some v \<Rightarrow> [EApply v])
         in if os_skipUntilTick st' \<le> tick then
              (if staging \<noteq> [] \<and> \<not> se_stageOk env then (st', staging, False)
               else (st', staging @ applying, applying = [] \<or> se_applyOk env))
            else (st', [], True))
      else (st\<lparr>os_lastPlanSig := None, os_planAttempts := 0\<rparr>, [], True))"

definition stamp_effects :: "js_num \<Rightarrow> store_env \<Rightarrow> storage_stats \<Rightarrow> store_effect list" where
  "stamp_effects nf env stats =
     (case se_service env of
        None \<Rightarrow> []
      | Some l \<Rightarrow> if statsChanged nf (lbl l STORAGE_STATS_LABEL) stats \<and> se_managerLater env
                  then [EStats (json_stringify nf (statsJson stats))] else [])"

definition final_effects :: "nat \<Rightarrow> garage_health option \<Rightarrow> store_effect list" where
  "final_effects tick health =
     (case health of
        None \<Rightarrow> []
      | Some h \<Rightarrow> if gh_status h \<noteq> ''healthy'' then [EAlert (gh_status h = ''unavailable'')] else []) @
     (if tick mod 20 = 2 then [EKeyGc] else [])"

text \<open>The health a tick works with, after introducing the members to each other where that is needed.\<close>

definition read_health :: "js_num \<Rightarrow> store_env \<Rightarrow> garage_health option option \<times> store_effect list" where
  "read_health nf env =
     (case map_option parseGarageHealth (se_health env) of
        None \<Rightarrow> (None, [])
      | Some h \<Rightarrow>
          if needsRpcBootstrap (length (se_members env)) h
          then (map_option parseGarageHealth (se_healthAfter env), bootstrapRpcMesh nf (se_probe env))
          else (Some h, []))"

text \<open>What the tick plans for the layout it read, \<open>None\<close> when it does not come that far.\<close>

definition env_plan :: "js_num \<Rightarrow> string \<Rightarrow> store_env \<Rightarrow> (layout_plan \<times> garage_layout) option" where
  "env_plan nf orgId env =
     (case (se_status env, Option.bind (se_layout env) parseGarageLayout) of
        (Some status, Some layout) \<Rightarrow>
          map_option (\<lambda>(mapping, _). (planLayout nf orgId (desired_members env mapping) layout, layout))
            (discover (gs_nodes (parseGarageStatus status)) (se_hosts env) (se_row env))
      | _ \<Rightarrow> None)"

definition reconcile_body ::
  "js_num \<Rightarrow> (string \<Rightarrow> string) \<Rightarrow> string \<Rightarrow> store_env \<Rightarrow> nat \<Rightarrow> org_state \<Rightarrow>
   org_state \<times> store_effect list \<times> bool" where
  "reconcile_body nf sha orgId env tick st =
     (if \<not> se_tokenDecrypts env then (st, [], False)
      else case read_health nf env of
          (None, effs) \<Rightarrow> (st, effs, False)
        | (Some health, effs) \<Rightarrow>
            (case (se_status env, se_layout env) of
               (Some rawStatus, Some rawLayout) \<Rightarrow>
                 (let status = parseGarageStatus rawStatus
                  in case discover (gs_nodes status) (se_hosts env) (se_row env) of
                       None \<Rightarrow> (st, effs, False)
                     | Some (mapping, changed, row) \<Rightarrow>
                         let written = (if changed then [EWriteRow row] else [])
                         in if changed \<and> \<not> se_rowWritten env then (st, effs @ written, False)
                            else let (st', out, ok) =
                                   (case parseGarageLayout rawLayout of
                                      None \<Rightarrow> (st, [], True)
                                    | Some layout \<Rightarrow>
                                        layout_phase nf sha env tick
                                          (planLayout nf orgId (desired_members env mapping) layout) layout st)
                                 in if \<not> ok then (st', effs @ written @ out, False)
                                    else (st', effs @ written @ out @
                                           stamp_effects nf env (buildStats status health mapping (se_now env)) @
                                           final_effects tick health, True))
             | _ \<Rightarrow> (st, effs, False)))"

definition reconcileOrg ::
  "js_num \<Rightarrow> (string \<Rightarrow> string) \<Rightarrow> string \<Rightarrow> store_env \<Rightarrow> nat \<Rightarrow> org_state \<Rightarrow> org_state \<times> store_effect list" where
  "reconcileOrg nf sha orgId env tick st =
     (if tick < os_skipUntilTick st \<or> \<not> se_hasToken env \<or> \<not> se_hasManager env then (st, [])
      else let (st', effs, ok) = reconcile_body nf sha orgId env tick st
           in (if ok then st'\<lparr>os_failures := 0\<rparr>
               else st'\<lparr>os_failures := os_failures st' + 1,
                        os_skipUntilTick := tick + backoffTicks (os_failures st' + 1)\<rparr>, effs))"

text \<open>Consecutive ticks of one org, with what each of them did.\<close>

fun reconcile_run ::
  "js_num \<Rightarrow> (string \<Rightarrow> string) \<Rightarrow> string \<Rightarrow> store_env list \<Rightarrow> nat \<Rightarrow> org_state \<Rightarrow> org_state \<times> store_effect list list" where
  "reconcile_run nf sha orgId [] tick st = (st, [])"
| "reconcile_run nf sha orgId (e # es) tick st =
     (let (st1, out) = reconcileOrg nf sha orgId e tick st;
          (st2, outs) = reconcile_run nf sha orgId es (tick + 1) st1
      in (st2, out # outs))"

subsection \<open>A tick for all orgs\<close>

definition engineUpgradeRunning :: "json option \<Rightarrow> bool" where
  "engineUpgradeRunning u = (jget2 u ''status'' = Some (JStr ''running''))"

definition bootstrapOnly :: "js_num \<Rightarrow> store_env \<Rightarrow> store_effect list" where
  "bootstrapOnly nf env =
     (if \<not> se_hasManager env \<or> \<not> se_hasToken env \<or> \<not> se_tokenDecrypts env then []
      else if needsRpcBootstrap (length (se_members env)) (Option.bind (se_health env) parseGarageHealth)
      then bootstrapRpcMesh nf (se_probe env) else [])"

datatype tick_effect =
    TResumeUpgrade string
  | TConverge string
  | TStore string store_effect

text \<open>A row: the org, its engine upgrade, whether its store is enabled, and what its tick reads.\<close>

record store_row =
  sr_org :: string
  sr_enabled :: bool
  sr_engineUpgrade :: "json option"
  sr_env :: store_env

definition stateFor :: "(string \<times> org_state) list \<Rightarrow> string \<Rightarrow> org_state" where
  "stateFor states orgId = opt_or (map_of states orgId) fresh_state"

definition tick_row ::
  "js_num \<Rightarrow> (string \<Rightarrow> string) \<Rightarrow> nat \<Rightarrow> store_row \<Rightarrow> (string \<times> org_state) list \<times> tick_effect list \<Rightarrow>
   (string \<times> org_state) list \<times> tick_effect list" where
  "tick_row nf sha tick row acc =
     (let org = sr_org row; (states, effs) = acc
      in if engineUpgradeRunning (sr_engineUpgrade row)
         then (states, effs @ TResumeUpgrade org #
                 (if bootstrapDuringEngineUpgrade (sr_engineUpgrade row)
                  then map (TStore org) (bootstrapOnly nf (sr_env row)) else []))
         else let (st', out) = reconcileOrg nf sha org (sr_env row) tick (stateFor states org)
              in (AList.update org st' states, effs @ TConverge org # map (TStore org) out))"

definition storage_tick ::
  "js_num \<Rightarrow> (string \<Rightarrow> string) \<Rightarrow> store_row list \<Rightarrow> nat \<Rightarrow> (string \<times> org_state) list \<Rightarrow>
   (string \<times> org_state) list \<times> tick_effect list" where
  "storage_tick nf sha rows tick states =
     fold (tick_row nf sha tick) (filter sr_enabled rows) (states, [])"

end
