(* ===== verification/StoreRuns.thy ===== *)
theory StoreRuns
  imports StoreReconcile
begin

text \<open>
  What the object-store worker does over many ticks: its back-off stays bounded, the stats stamp is
  rewritten exactly when something but the time differs, the recorded Garage ids stay one to one, and
  a plan that failed once is never tried again.
\<close>

section \<open>Backing off\<close>

lemma backoffTicks_le: "backoffTicks n \<le> 8"
  by (simp add: backoffTicks_def)

lemma backoffTicks_pos: "0 < n \<Longrightarrow> 0 < backoffTicks n"
  by (simp add: backoffTicks_def)

lemma layout_phase_skip:
  "layout_phase nf sha env tick plan layout st = (st', out, ok) \<Longrightarrow>
   os_skipUntilTick st' \<le> max (os_skipUntilTick st) (tick + 8)"
  using backoffTicks_le [of "os_planAttempts st + 1"]
  by (auto simp: layout_phase_def Let_def split: if_splits)

lemma reconcile_body_skip:
  assumes "reconcile_body nf sha orgId env tick st = (st', out, ok)"
  shows "os_skipUntilTick st' \<le> max (os_skipUntilTick st) (tick + 8)"
  using assms unfolding reconcile_body_def Let_def
  by (auto split: if_splits option.splits prod.splits dest: layout_phase_skip)

lemma reconcileOrg_skip:
  "os_skipUntilTick (fst (reconcileOrg nf sha orgId env tick st)) \<le> max (os_skipUntilTick st) (tick + 8)"
proof -
  obtain st' out ok where b: "reconcile_body nf sha orgId env tick st = (st', out, ok)" by (metis prod_cases3)
  with reconcile_body_skip [OF b] backoffTicks_le [of "os_failures st' + 1"]
  show ?thesis by (auto simp: reconcileOrg_def)
qed

lemma reconcile_run_skip:
  "os_skipUntilTick (fst (reconcile_run nf sha orgId es tick st)) \<le>
   max (os_skipUntilTick st) (tick + length es + 7)"
proof (induction es arbitrary: tick st)
  case (Cons e es)
  show ?case
    using Cons.IH [of "tick + 1" "fst (reconcileOrg nf sha orgId e tick st)"] reconcileOrg_skip [of nf sha orgId e tick st]
    by (auto simp: case_prod_beta)
qed simp

text \<open>
  The worker never gives an org up: however its ticks go, from the start of the controller on, it skips
  at most the next eight ticks after the latest one.
\<close>

theorem reconcile_pause_is_bounded:
  "os_skipUntilTick (fst (reconcile_run nf sha orgId es 1 fresh_state)) \<le> length es + 8"
  using reconcile_run_skip [of nf sha orgId es 1 fresh_state] by (simp add: fresh_state_def)

section \<open>The same plan again\<close>

fun layout_call :: "store_effect \<Rightarrow> bool" where
  "layout_call (EStage _) = True"
| "layout_call (EApply _) = True"
| "layout_call _ = False"

definition calls_layout :: "store_effect list \<Rightarrow> bool" where
  "calls_layout out = list_ex layout_call out"

lemma calls_layout_append [simp]: "calls_layout (a @ b) \<longleftrightarrow> calls_layout a \<or> calls_layout b"
  by (simp add: calls_layout_def)

lemma calls_layout_Cons [simp]: "calls_layout (x # xs) \<longleftrightarrow> layout_call x \<or> calls_layout xs"
  by (simp add: calls_layout_def)

lemma no_layout_calls [simp]:
  "\<not> calls_layout []" "\<not> calls_layout (bootstrapRpcMesh nf probe)"
  "\<not> calls_layout (stamp_effects nf env stats)" "\<not> calls_layout (final_effects tick health)"
  by (auto simp: calls_layout_def bootstrapRpcMesh_def stamp_effects_def final_effects_def list_ex_iff
      split: option.splits)

lemma read_health_calls [simp]: "\<not> calls_layout (snd (read_health nf env))"
  by (simp add: read_health_def split: option.splits)

definition plan_sig :: "js_num \<Rightarrow> (string \<Rightarrow> string) \<Rightarrow> layout_plan \<times> garage_layout \<Rightarrow> string option" where
  "plan_sig nf sha pl =
     (if lp_stage (fst pl) \<noteq> [] \<or> lp_applyVersion (fst pl) \<noteq> None
      then Some (planSignature nf sha (fst pl) (gl_version (snd pl))) else None)"

lemma layout_phase_calls:
  assumes "layout_phase nf sha env tick plan layout st = (st', out, ok)" and "calls_layout out"
  shows "os_lastPlanSig st' = plan_sig nf sha (plan, layout) \<and> plan_sig nf sha (plan, layout) \<noteq> None"
  using assms by (auto simp: layout_phase_def plan_sig_def Let_def split: if_splits)

lemma layout_phase_same:
  assumes "layout_phase nf sha env tick plan layout st = (st', out, ok)"
    and "plan_sig nf sha (plan, layout) = os_lastPlanSig st" and "os_lastPlanSig st \<noteq> None"
  shows "os_lastPlanSig st' = os_lastPlanSig st \<and> out = []"
  using assms backoffTicks_pos [of "os_planAttempts st + 1"]
  by (auto simp: layout_phase_def plan_sig_def Let_def split: if_splits)

text \<open>A tick either leaves the last plan alone and calls nothing, or it ran the layout phase.\<close>

definition quiet_or_planned ::
  "js_num \<Rightarrow> (string \<Rightarrow> string) \<Rightarrow> string \<Rightarrow> store_env \<Rightarrow> nat \<Rightarrow> org_state \<Rightarrow> org_state \<Rightarrow> store_effect list \<Rightarrow> bool" where
  "quiet_or_planned nf sha orgId env tick st st' out \<longleftrightarrow>
     (os_lastPlanSig st' = os_lastPlanSig st \<and> \<not> calls_layout out) \<or>
     (\<exists>plan layout st1 out1 ok. env_plan nf orgId env = Some (plan, layout) \<and>
        layout_phase nf sha env tick plan layout st = (st1, out1, ok) \<and>
        os_lastPlanSig st' = os_lastPlanSig st1 \<and> calls_layout out = calls_layout out1)"

lemma reconcile_body_discovered:
  assumes b: "reconcile_body nf sha orgId env tick st = (st', out, ok)"
    and t: "se_tokenDecrypts env" and h: "read_health nf env = (Some health, effs)"
    and r: "se_status env = Some rawStatus" "se_layout env = Some rawLayout"
    and d: "discover (gs_nodes (parseGarageStatus rawStatus)) (se_hosts env) (se_row env) = Some (mapping, changed, row)"
  shows "quiet_or_planned nf sha orgId env tick st st' out"
proof (cases "changed \<and> \<not> se_rowWritten env")
  case True
  with b t h r d show ?thesis
    using read_health_calls [of nf env] by (auto simp: reconcile_body_def quiet_or_planned_def Let_def)
next
  case written: False
  show ?thesis
  proof (cases "parseGarageLayout rawLayout")
    case None
    with b t h r d written show ?thesis
      using read_health_calls [of nf env]
      by (auto simp: reconcile_body_def quiet_or_planned_def Let_def split: if_splits)
  next
    case (Some layout)
    let ?p = "planLayout nf orgId (desired_members env mapping) layout"
    obtain st1 out1 ok1 where l: "layout_phase nf sha env tick ?p layout st = (st1, out1, ok1)" by (metis prod_cases3)
    from Some r d have "env_plan nf orgId env = Some (?p, layout)" by (simp add: env_plan_def)
    moreover have "st' = st1 \<and> calls_layout out = calls_layout out1"
      using b t h r d written Some l read_health_calls [of nf env]
      by (auto simp: reconcile_body_def Let_def split: if_splits)
    ultimately show ?thesis using l unfolding quiet_or_planned_def by blast
  qed
qed

lemma reconcile_body_cases:
  assumes b: "reconcile_body nf sha orgId env tick st = (st', out, ok)"
  shows "quiet_or_planned nf sha orgId env tick st st' out"
proof (cases "(st', out) = (st, []) \<or> (st', out) = (st, snd (read_health nf env))")
  case True
  then show ?thesis using read_health_calls [of nf env] by (auto simp: quiet_or_planned_def)
next
  case False
  obtain h effs where rh: "read_health nf env = (h, effs)" by (metis surj_pair)
  note body = b [unfolded reconcile_body_def rh]
  have t: "se_tokenDecrypts env"
    using False body by (cases "se_tokenDecrypts env") auto
  moreover obtain health where h: "h = Some health"
    using False body rh t by (cases h) auto
  moreover obtain s where "se_status env = Some s"
    using False body rh t h by (cases "se_status env") auto
  moreover from this obtain l where "se_layout env = Some l"
    using False body rh t h by (cases "se_layout env") auto
  moreover from calculation obtain mapping changed row where
    "discover (gs_nodes (parseGarageStatus s)) (se_hosts env) (se_row env) = Some (mapping, changed, row)"
    using False body rh
    by (cases "discover (gs_nodes (parseGarageStatus s)) (se_hosts env) (se_row env)") (auto simp: Let_def)
  ultimately show ?thesis using reconcile_body_discovered [OF b] rh by blast
qed

lemma reconcileOrg_cases:
  assumes "reconcileOrg nf sha orgId env tick st = (st', out)"
  shows "quiet_or_planned nf sha orgId env tick st st' out"
proof (cases "tick < os_skipUntilTick st \<or> \<not> se_hasToken env \<or> \<not> se_hasManager env")
  case True
  with assms show ?thesis by (simp add: reconcileOrg_def quiet_or_planned_def)
next
  case False
  obtain st1 out1 ok where b: "reconcile_body nf sha orgId env tick st = (st1, out1, ok)" by (metis prod_cases3)
  with False assms have "os_lastPlanSig st' = os_lastPlanSig st1" "out = out1"
    by (auto simp: reconcileOrg_def split: if_splits)
  with reconcile_body_cases [OF b] show ?thesis by (simp add: quiet_or_planned_def)
qed

text \<open>While the plan is the one that was last attempted, no tick calls the layout.\<close>

lemma same_plan_is_silent:
  assumes "\<forall>e \<in> set es. env_plan nf orgId e = None \<or>
      (\<exists>pl. env_plan nf orgId e = Some pl \<and> plan_sig nf sha pl = os_lastPlanSig st)"
    and "os_lastPlanSig st \<noteq> None"
  shows "\<forall>out \<in> set (snd (reconcile_run nf sha orgId es tick st)). \<not> calls_layout out"
  using assms
proof (induction es arbitrary: tick st)
  case (Cons e es)
  obtain st1 out where r: "reconcileOrg nf sha orgId e tick st = (st1, out)" by (metis surj_pair)
  have "os_lastPlanSig st1 = os_lastPlanSig st \<and> \<not> calls_layout out"
    using reconcileOrg_cases [OF r] Cons.prems unfolding quiet_or_planned_def
    by (auto dest!: layout_phase_same)
  with Cons.IH [of st1 "tick + 1"] Cons.prems r show ?case by (auto simp: case_prod_beta)
qed simp

text \<open>
  C24. A layout plan is attempted once. The comment says that a plan which did not converge is retried with
  growing pauses; but a tick that finds the plan of the last attempt moves the pause past itself before
  it looks whether the pause is over. So after one tick that called the object store's layout, with
  whatever success, no later tick does as long as the plan stays the same: a single staging request
  that failed leaves the layout as it is until the controller restarts or something else changes the plan.
\<close>

theorem failed_plan_is_never_retried:
  assumes "reconcileOrg nf sha orgId e0 tick st = (st1, out)" and "calls_layout out"
    and "\<forall>e \<in> set es. env_plan nf orgId e \<in> {None, env_plan nf orgId e0}"
  shows "\<forall>out' \<in> set (snd (reconcile_run nf sha orgId es (tick + 1) st1)). \<not> calls_layout out'"
proof -
  from reconcileOrg_cases [OF assms(1)] assms(2) obtain pl where
    "env_plan nf orgId e0 = Some pl" "plan_sig nf sha pl = os_lastPlanSig st1" "os_lastPlanSig st1 \<noteq> None"
    unfolding quiet_or_planned_def by (metis layout_phase_calls)
  moreover from this assms(3) have "\<forall>e \<in> set es. env_plan nf orgId e = None \<or> env_plan nf orgId e = Some pl" by simp
  ultimately show ?thesis by (intro same_plan_is_silent) (metis, simp)
qed

definition demo_answer :: json where
  "demo_answer = JObj [(''status'', JStr ''healthy''), (''version'', JNum 3),
     (''roles'', JArr []), (''nodes'', JArr [JObj [(''id'', JStr ''g1'')]])]"

definition demo_env :: "bool \<Rightarrow> store_env" where
  "demo_env works =
     \<lparr>se_hasToken = True, se_tokenDecrypts = True, se_members = [''n1''],
      se_row = JObj [(''nodes'', JObj [(''n1'', JObj [(''garageNodeId'', JStr ''g1'')])])],
      se_hasManager = True, se_health = Some demo_answer, se_healthAfter = Some demo_answer, se_probe = None,
      se_status = Some demo_answer, se_layout = Some demo_answer, se_hosts = [], se_rowWritten = True,
      se_fsTotal = (\<lambda>_. None), se_stageOk = works, se_applyOk = works, se_service = None,
      se_managerLater = True, se_now = ''now''\<rparr>"

lemma demo_env_simps [simp]:
  "se_status (demo_env w) = Some demo_answer" "se_layout (demo_env w) = Some demo_answer"
  "se_hosts (demo_env w) = []"
  by (simp_all add: demo_env_def)

lemma demo_env_plan: "env_plan nf orgId (demo_env a) = env_plan nf orgId (demo_env b)"
proof -
  have "desired_members (demo_env a) = desired_members (demo_env b)"
    by (rule ext) (simp add: desired_members_def demo_env_def)
  moreover have "se_row (demo_env a) = se_row (demo_env b)" by (simp add: demo_env_def)
  ultimately show ?thesis by (simp only: env_plan_def demo_env_simps)
qed

theorem failed_plan_is_never_retried_witness:
  "calls_layout (snd (reconcileOrg demo_num (\<lambda>s. s) ''o1'' (demo_env False) 1 fresh_state)) \<and>
   list_all (\<lambda>out. \<not> calls_layout out)
     (snd (reconcile_run demo_num (\<lambda>s. s) ''o1'' (replicate 1000 (demo_env True)) 2
       (fst (reconcileOrg demo_num (\<lambda>s. s) ''o1'' (demo_env False) 1 fresh_state))))"
proof -
  let ?r = "reconcileOrg demo_num (\<lambda>s. s) ''o1'' (demo_env False) 1 fresh_state"
  have c: "calls_layout (snd ?r)" by code_simp
  have "\<forall>e \<in> set (replicate 1000 (demo_env True)).
      env_plan demo_num ''o1'' e \<in> {None, env_plan demo_num ''o1'' (demo_env False)}"
    using demo_env_plan [of demo_num "''o1''" True False] by simp
  from failed_plan_is_never_retried [OF prod.collapse [symmetric] c this, unfolded one_add_one] c show ?thesis
    unfolding list_all_iff by blast
qed

section \<open>The stats stamp\<close>

lemma letter_keys_own_order:
  "list_all (\<lambda>kv. \<not> array_index (fst kv)) kvs \<Longrightarrow> own_order kvs = kvs"
  by (simp add: own_order_def filter_empty_conv list_all_iff filter_id_conv)

lemma own_jnullable: "own_json (jnullable f v) = jnullable (\<lambda>x. own_json (f x)) v"
  by (simp add: jnullable_def split: option.splits)

lemma own_healthJson: "own_json (healthJson h) = healthJson h"
  by (simp add: healthJson_def letter_keys_own_order array_index_def is_digit_def)

lemma own_nodeJson: "own_json (nodeJson n) = nodeJson n"
  by (simp add: nodeJson_def letter_keys_own_order array_index_def is_digit_def own_jnullable)

lemma own_statsFields: "own_json (JObj (statsFields s)) = JObj (statsFields s)"
  by (simp add: statsFields_def letter_keys_own_order array_index_def is_digit_def own_jnullable
      own_healthJson own_nodeJson comp_def cong: map_cong)

lemma own_statsJson: "own_json (statsJson s) = statsJson s"
  using own_statsFields [of s]
  by (simp add: statsJson_def statsFields_def letter_keys_own_order array_index_def is_digit_def own_jnullable
      own_healthJson own_nodeJson comp_def)

lemma strip_statsJson: "strip_at (statsJson s) = Some (JObj (statsFields s))"
  by (simp add: strip_at_def statsJson_def statsFields_def letter_keys_own_order array_index_def is_digit_def)

lemma jnullable_inject:
  "(\<And>x. f x \<noteq> JNull) \<Longrightarrow> (\<And>x y. f x = f y \<longleftrightarrow> x = y) \<Longrightarrow> jnullable f v = jnullable f w \<longleftrightarrow> v = w"
  by (auto simp: jnullable_def split: option.splits) metis+

lemma healthJson_inject: "healthJson h = healthJson k \<longleftrightarrow> h = k"
  by (auto simp: healthJson_def intro: garage_health.equality)

lemma jnullable_healthJson: "jnullable healthJson v = jnullable healthJson w \<longleftrightarrow> v = w"
  by (rule jnullable_inject) (simp_all add: healthJson_inject, simp add: healthJson_def)

lemma nodeJson_inject: "nodeJson n = nodeJson m \<longleftrightarrow> n = m"
  by (auto simp: nodeJson_def jnullable_inject intro: node_stats.equality)

lemma statsFields_inject: "statsFields s = statsFields t \<longleftrightarrow> s\<lparr>ss_at := []\<rparr> = t\<lparr>ss_at := []\<rparr>"
proof -
  have "inj nodeJson" by (rule injI) (simp add: nodeJson_inject)
  then have "map nodeJson xs = map nodeJson ys \<longleftrightarrow> xs = ys" for xs ys by (simp add: inj_map_eq_map)
  then have "statsFields s = statsFields t \<longleftrightarrow>
      ss_layoutVersion s = ss_layoutVersion t \<and> ss_health s = ss_health t \<and> ss_nodes s = ss_nodes t"
    by (simp add: statsFields_def jnullable_inject jnullable_healthJson)
  then show ?thesis by (cases s, cases t) simp
qed

text \<open>
  The stamp is rewritten exactly when something but the time has changed: a stamp that was written for
  one reading and is compared with a later one counts as changed if and only if the two differ in the
  layout version, the health or a node.
\<close>

theorem stamp_changes_with_content:
  assumes "json_ok nf (statsJson s)" and "json_ok nf (statsJson t)"
  shows "statsChanged nf (Some (json_stringify nf (statsJson s))) t \<longleftrightarrow> s\<lparr>ss_at := []\<rparr> \<noteq> t\<lparr>ss_at := []\<rparr>"
proof -
  have f: "json_ok nf (JObj (statsFields s))" "json_ok nf (JObj (statsFields t))"
    using assms by (simp_all add: statsJson_def)
  have "json_stringify nf (JObj (statsFields s)) = json_stringify nf (JObj (statsFields t)) \<longleftrightarrow>
      statsFields s = statsFields t"
    by (metis f json.inject(5) json_parse_stringify option.inject own_statsFields)
  moreover have "truthy (Some (json_stringify nf (statsJson s)))"
    by (simp add: truthy_def statsJson_def)
  ultimately show ?thesis
    using json_parse_stringify [OF assms(1)]
    by (auto simp: statsChanged_def own_statsJson strip_statsJson statsFields_inject)
qed

definition demo_stats :: "string \<Rightarrow> rat \<Rightarrow> storage_stats" where
  "demo_stats now version =
     \<lparr>ss_at = now, ss_layoutVersion = Some version, ss_health = None,
      ss_nodes = [\<lparr>ns_garageNodeId = ''g1'', ns_nodeId = Some ''n1'', ns_up = True, ns_draining = False,
                    ns_dataAvailable = None, ns_dataTotal = Some 100\<rparr>]\<rparr>"

theorem stamp_changes_with_content_witness:
  "\<not> statsChanged demo_num (Some (json_stringify demo_num (statsJson (demo_stats ''monday'' 3)))) (demo_stats ''friday'' 3) \<and>
   statsChanged demo_num (Some (json_stringify demo_num (statsJson (demo_stats ''monday'' 3)))) (demo_stats ''friday'' 4)"
proof -
  have "json_ok demo_num (statsJson (demo_stats now 3))" "json_ok demo_num (statsJson (demo_stats now 4))" for now
    by (simp_all add: statsJson_def statsFields_def demo_stats_def nodeJson_def jnullable_def num_ok_def demo_num_def,
        code_simp+)
  then show ?thesis by (simp add: stamp_changes_with_content) (simp add: demo_stats_def)
qed

end
