(* ===== verification/StoreDiscovery.thy ===== *)
theory StoreDiscovery
  imports StoreReconcile
begin

text \<open>
  The Garage ids that the worker records for the servers of an org: however the object store and the
  containers look from tick to tick, no two servers are ever recorded with the same Garage node, and a
  recorded id stays while Garage knows the node.
\<close>

section \<open>Definitions\<close>

definition id_of :: "json \<Rightarrow> string option" where
  "id_of r = nonempty (as_str (jget r ''garageNodeId''))"

text \<open>What the status of one tick and its containers show.\<close>

type_synonym sighting = "garage_node list \<times> (string \<times> string) list"

fun discover_run :: "sighting list \<Rightarrow> json \<Rightarrow> json" where
  "discover_run [] row = row"
| "discover_run ((gs, hosts) # obs) row =
     discover_run obs (case discover gs hosts row of None \<Rightarrow> row | Some (_, _, row') \<Rightarrow> row')"

text \<open>
  A row as the worker writes it: no object lists a key twice, no record is \<^verbatim>\<open>null\<close>, and no two
  servers have the same id.
\<close>

definition nodes_in :: "json \<Rightarrow> (string \<times> json) list" where
  "nodes_in row = obj_or_empty (map_of (obj_or_empty (Some row)) ''nodes'')"

definition row_ok :: "json \<Rightarrow> bool" where
  "row_ok row =
     (distinct (map fst (obj_or_empty (Some row))) \<and> distinct (map fst (nodes_in row)) \<and>
      JNull \<notin> snd ` set (nodes_in row) \<and> one_to_one (known_ids (nodes_in row)))"

section \<open>Lemmas\<close>

lemma distinct_obj_own [simp]: "distinct (map fst (own_order kvs)) \<longleftrightarrow> distinct (map fst kvs)"
  by (rule distinct_own_order)

lemma map_of_own_order: "distinct (map fst kvs) \<Longrightarrow> map_of (own_order kvs) = map_of kvs"
  by (metis distinct_own_order map_of_inject_set set_own_order)

lemma obj_or_empty_update_nodes:
  assumes "distinct (map fst base)"
  shows "map_of (obj_or_empty (Some (JObj (AList.update k v base)))) k = Some v"
    and "distinct (map fst (obj_or_empty (Some (JObj (AList.update k v base)))))"
  using assms by (simp_all add: obj_or_empty_def map_of_own_order distinct_update update_conv')

lemma nodes_in_update:
  "distinct (map fst base) \<Longrightarrow> nodes_in (JObj (AList.update ''nodes'' (JObj m) base)) = own_order m"
  by (simp only: nodes_in_def obj_or_empty_update_nodes(1)) (simp add: obj_or_empty_def)

lemma mergeNodeMapping_nodes:
  "mergeNodeMapping row mapping d =
     (let m = fold (merge_one d) (own_order mapping) (False, nodes_in row)
      in (fst m, AList.update ''nodes'' (JObj (snd m)) (obj_or_empty (Some row))))"
  by (simp add: mergeNodeMapping_def nodes_in_def Let_def)

lemma own_order_Nil [simp]: "own_order [] = []"
  by (simp add: own_order_def)

lemma recorded_nodes_eq:
  "distinct (map fst (obj_or_empty (Some row))) \<Longrightarrow> recorded_nodes row = own_order (nodes_in row)"
  by (simp add: recorded_nodes_def mergeNodeMapping_nodes update_conv' obj_or_empty_def)

lemma set_known_ids: "(n, g) \<in> set (known_ids rs) \<longleftrightarrow> (\<exists>r. (n, r) \<in> set rs \<and> id_of r = Some g)"
  by (force simp: known_ids_def id_of_def)

lemma distinct_fst_known_ids: "distinct (map fst rs) \<Longrightarrow> distinct (map fst (known_ids rs))"
  by (induction rs) (force simp: known_ids_def List.map_filter_simps split: option.splits)+

lemma one_to_one_iff:
  assumes "distinct (map fst m)"
  shows "one_to_one m \<longleftrightarrow> (\<forall>n n' g. (n, g) \<in> set m \<longrightarrow> (n', g) \<in> set m \<longrightarrow> n = n')"
proof -
  have "inj_on snd (set m) \<longleftrightarrow> (\<forall>n n' g. (n, g) \<in> set m \<longrightarrow> (n', g) \<in> set m \<longrightarrow> n = n')"
    unfolding inj_on_def by (metis prod.collapse prod.inject snd_conv)
  with assms show ?thesis by (auto simp: one_to_one_def distinct_map)
qed

lemma one_to_one_set:
  assumes "set m = set m'" and "distinct (map fst m)" and "distinct (map fst m')"
  shows "one_to_one m = one_to_one m'"
  using assms by (simp add: one_to_one_iff)

lemma known_ids_own_order:
  assumes "distinct (map fst rs)"
  shows "set (known_ids (own_order rs)) = set (known_ids rs)" and "one_to_one (known_ids (own_order rs)) = one_to_one (known_ids rs)"
proof -
  show s: "set (known_ids (own_order rs)) = set (known_ids rs)" by (auto simp: set_known_ids)
  show "one_to_one (known_ids (own_order rs)) = one_to_one (known_ids rs)"
    by (rule one_to_one_set [OF s]) (simp_all add: distinct_fst_known_ids assms)
qed

text \<open>One step of a merge gives the server its id and leaves the others alone.\<close>

lemma merge_one_step:
  assumes "distinct (map fst (snd acc))" and "g \<noteq> []"
  shows "distinct (map fst (snd (merge_one d (n, g) acc)))"
    and "(\<exists>r. map_of (snd (merge_one d (n, g) acc)) n = Some r \<and> id_of r = Some g \<and> r \<noteq> JNull)"
    and "n' \<noteq> n \<Longrightarrow> map_of (snd (merge_one d (n, g) acc)) n' = map_of (snd acc) n'"
proof -
  let ?cur = "map_of (snd acc) n"
  have u: "distinct (map fst (AList.update n v (snd acc)))" for v using assms(1) by (rule distinct_update)
  have same: "\<exists>r. ?cur = Some r \<and> id_of r = Some g \<and> r \<noteq> JNull" if "jget2 ?cur ''garageNodeId'' = Some (JStr g)"
    using that assms(2) by (cases ?cur) (auto simp: jget2_def id_of_def)
  show "distinct (map fst (snd (merge_one d (n, g) acc)))"
    using assms(1) u by (simp add: merge_one_def Let_def)
  show "\<exists>r. map_of (snd (merge_one d (n, g) acc)) n = Some r \<and> id_of r = Some g \<and> r \<noteq> JNull"
    using same assms(2) by (auto simp: merge_one_def Let_def update_conv' id_of_def)
  show "n' \<noteq> n \<Longrightarrow> map_of (snd (merge_one d (n, g) acc)) n' = map_of (snd acc) n'"
    by (simp add: merge_one_def Let_def update_conv')
qed

lemma merge_fold:
  assumes "distinct (map fst ps)" and "distinct (map fst (snd acc))" and "[] \<notin> snd ` set ps"
  shows "distinct (map fst (snd (fold (merge_one d) ps acc))) \<and>
    (\<forall>n g. (n, g) \<in> set ps \<longrightarrow>
       (\<exists>r. map_of (snd (fold (merge_one d) ps acc)) n = Some r \<and> id_of r = Some g \<and> r \<noteq> JNull)) \<and>
    (\<forall>n. n \<notin> fst ` set ps \<longrightarrow> map_of (snd (fold (merge_one d) ps acc)) n = map_of (snd acc) n)"
  using assms
proof (induction ps arbitrary: acc)
  case (Cons p ps)
  obtain k i where p: "p = (k, i)" by (metis surj_pair)
  let ?a = "merge_one d p acc"
  have st: "distinct (map fst (snd ?a))" "\<exists>r. map_of (snd ?a) k = Some r \<and> id_of r = Some i \<and> r \<noteq> JNull"
    "n \<noteq> k \<Longrightarrow> map_of (snd ?a) n = map_of (snd acc) n" for n
    using merge_one_step [where acc = acc and g = i and n = k and d = d] Cons.prems by (auto simp: p)
  have ps: "distinct (map fst ps)" "[] \<notin> snd ` set ps" "k \<notin> fst ` set ps" using Cons.prems p by auto
  note IH = Cons.IH [OF ps(1) st(1) ps(2)]
  have "\<exists>r. map_of (snd (fold (merge_one d) (p # ps) acc)) n = Some r \<and> id_of r = Some g \<and> r \<noteq> JNull"
    if "(n, g) \<in> set (p # ps)" for n g
  proof (cases "n = k")
    case True
    with that ps(3) p have "g = i" by force
    with True st(2) IH ps(3) show ?thesis by simp
  next
    case False
    with that p have "(n, g) \<in> set ps" by simp
    with IH show ?thesis by (simp del: map_of_eq_Some_iff)
  qed
  moreover have "map_of (snd (fold (merge_one d) (p # ps) acc)) n = map_of (snd acc) n"
    if "n \<notin> fst ` set (p # ps)" for n
    using that IH st(3) [of n] p by simp
  ultimately show ?case using IH by simp
qed simp

text \<open>What a tick records: the mapping, and for the other servers what was recorded before.\<close>

lemma merged_ids:
  assumes ok: "row_ok row" and m: "one_to_one mapping" "[] \<notin> snd ` set mapping"
    and row': "row' = JObj (snd (mergeNodeMapping row mapping d))"
  shows "distinct (map fst (obj_or_empty (Some row')))" and "distinct (map fst (nodes_in row'))"
    and "JNull \<notin> snd ` set (nodes_in row')"
    and "(n, g) \<in> set (known_ids (nodes_in row')) \<longleftrightarrow>
      (n, g) \<in> set mapping \<or> n \<notin> fst ` set mapping \<and> (n, g) \<in> set (known_ids (nodes_in row))"
proof -
  let ?f = "fold (merge_one d) (own_order mapping) (False, nodes_in row)"
  have base: "distinct (map fst (obj_or_empty (Some row)))" and dn: "distinct (map fst (nodes_in row))"
    and nn: "JNull \<notin> snd ` set (nodes_in row)" using ok by (simp_all add: row_ok_def)
  have dm: "distinct (map fst mapping)" using m(1) by (simp add: one_to_one_def)
  from row' have r: "row' = JObj (AList.update ''nodes'' (JObj (snd ?f)) (obj_or_empty (Some row)))"
    by (simp add: mergeNodeMapping_nodes Let_def)
  have n': "nodes_in row' = own_order (snd ?f)" unfolding r by (rule nodes_in_update [OF base])
  have d': "distinct (map fst (obj_or_empty (Some row')))" unfolding r by (rule obj_or_empty_update_nodes [OF base])
  show "distinct (map fst (obj_or_empty (Some row')))" by (rule d')
  have mf: "distinct (map fst (snd ?f))"
    "\<And>k i. (k, i) \<in> set mapping \<Longrightarrow> \<exists>r. map_of (snd ?f) k = Some r \<and> id_of r = Some i \<and> r \<noteq> JNull"
    "\<And>k. k \<notin> fst ` set mapping \<Longrightarrow> map_of (snd ?f) k = map_of (nodes_in row) k"
    using merge_fold [of "own_order mapping" "(False, nodes_in row)" d] dm dn m(2)
    by (simp_all del: map_of_eq_Some_iff)
  show "distinct (map fst (nodes_in row'))" using mf(1) by (simp add: n')
  have at: "(k, x) \<in> set (nodes_in row') \<longleftrightarrow> map_of (snd ?f) k = Some x" for k x
    using mf(1) by (simp add: n')
  have old: "(k, x) \<in> set (nodes_in row) \<longleftrightarrow> map_of (nodes_in row) k = Some x" for k x
    using dn by simp
  have "x \<noteq> JNull" if x: "(k, x) \<in> set (nodes_in row')" for k x
  proof (cases "k \<in> fst ` set mapping")
    case True
    then obtain i where "(k, i) \<in> set mapping" by auto
    with mf(2) x show ?thesis unfolding at by fastforce
  next
    case False
    with mf(3) x nn show ?thesis unfolding at by (metis image_eqI old snd_conv)
  qed
  then show "JNull \<notin> snd ` set (nodes_in row')" by (metis imageE prod.collapse)
  show "(n, g) \<in> set (known_ids (nodes_in row')) \<longleftrightarrow>
      (n, g) \<in> set mapping \<or> n \<notin> fst ` set mapping \<and> (n, g) \<in> set (known_ids (nodes_in row))"
  proof (cases "n \<in> fst ` set mapping")
    case True
    then obtain i where i: "(n, i) \<in> set mapping" by auto
    then have "(n, g) \<in> set mapping \<longleftrightarrow> g = i" using dm by (auto dest: eq_key_imp_eq_value)
    with mf(2) [OF i] True show ?thesis unfolding set_known_ids at by auto
  next
    case False
    then have "(n, g) \<notin> set mapping" by force
    with mf(3) [OF False] False show ?thesis unfolding set_known_ids at old by simp
  qed
qed

lemma discover_keeps_ids:
  assumes ok: "row_ok row" and gs: "[] \<notin> gn_id ` set gs" and d: "discover gs hosts row = Some (mapping, changed, row')"
  shows "row_ok row'"
    and "(n, g) \<in> set (known_ids (nodes_in row)) \<Longrightarrow> g \<in> gn_id ` set gs \<Longrightarrow> (n, g) \<in> set (known_ids (nodes_in row'))"
proof -
  let ?k = "known_ids (recorded_nodes row)"
  have rn: "recorded_nodes row = own_order (nodes_in row)" using ok by (simp add: recorded_nodes_eq row_ok_def)
  have dn: "distinct (map fst (nodes_in row))" using ok by (simp add: row_ok_def)
  have k: "one_to_one ?k" "set ?k = set (known_ids (nodes_in row))"
    using ok known_ids_own_order [OF dn] by (simp_all add: rn row_ok_def)
  from d have m: "mapping = matchGarageNodes gs hosts ?k"
    and r: "row' = JObj (snd (mergeNodeMapping row mapping DEFAULT_CAPACITY_GB))"
    by (auto simp: discover_def knownNodes_def Let_def split: if_splits)
  have mm: "one_to_one mapping" "snd ` set mapping \<subseteq> gn_id ` set gs"
    using match_one_to_one [of gs hosts ?k] by (simp_all add: m)
  with gs have ne: "[] \<notin> snd ` set mapping" by blast
  note ids = merged_ids [OF ok mm(1) ne r]
  have keep: "(n, g) \<in> set mapping" if "(n, g) \<in> set (known_ids (nodes_in row))" "g \<in> gn_id ` set gs" for n g
    using match_keeps_known [OF k(1)] that by (simp add: m k(2))
  have "n = n'" if "(n, g) \<in> set (known_ids (nodes_in row'))" "(n', g) \<in> set (known_ids (nodes_in row'))" for n n' g
  proof -
    have inj: "a = b" if "one_to_one xs" "(a, g) \<in> set xs" "(b, g) \<in> set xs" for a b and xs :: "string jsmap"
    proof -
      have "distinct (map fst xs)" using that(1) by (simp add: one_to_one_def)
      from one_to_one_iff [OF this] that show ?thesis by blast
    qed
    have in_gs: "g \<in> gn_id ` set gs" if "(a, g) \<in> set mapping" for a using that mm(2) by force
    have mixed: False
      if "(a, g) \<in> set mapping" "b \<notin> fst ` set mapping" "(b, g) \<in> set (known_ids (nodes_in row))" for a b
      using keep [OF that(3) in_gs [OF that(1)]] that(2) by force
    from ok have ok1: "one_to_one (known_ids (nodes_in row))" by (simp add: row_ok_def)
    show ?thesis
    proof (cases "n \<in> fst ` set mapping")
      case True
      with that mixed show ?thesis unfolding ids(4) by (metis inj [OF mm(1)])
    next
      case False
      then have "(n, g) \<notin> set mapping" by force
      with False that mixed show ?thesis unfolding ids(4) by (metis inj [OF ok1])
    qed
  qed
  then show "row_ok row'"
    using ids(1-3) one_to_one_iff [OF distinct_fst_known_ids [OF ids(2)]] by (auto simp: row_ok_def)
  show "(n, g) \<in> set (known_ids (nodes_in row')) "
    if "(n, g) \<in> set (known_ids (nodes_in row))" "g \<in> gn_id ` set gs"
    using keep that ids(4) by blast
qed

text \<open>
  C19. The record of Garage ids is an invariant. Whatever the object store and the containers show in any
  number of ticks, no two servers are ever recorded with the same Garage node; and a recorded id is
  kept as long as Garage lists the node.
\<close>

theorem recorded_ids_stay_one_to_one:
  assumes "row_ok row" and "\<forall>(gs, hosts) \<in> set obs. [] \<notin> gn_id ` set gs"
  shows "one_to_one (known_ids (nodes_in (discover_run obs row))) \<and>
    (\<forall>(n, g) \<in> set (known_ids (nodes_in row)).
       (\<forall>(gs, hosts) \<in> set obs. g \<in> gn_id ` set gs) \<longrightarrow>
       (n, g) \<in> set (known_ids (nodes_in (discover_run obs row))))"
  using assms
proof (induction obs arbitrary: row)
  case Nil
  then show ?case by (auto simp: row_ok_def)
next
  case (Cons ob obs)
  obtain gs hosts where o: "ob = (gs, hosts)" by (metis surj_pair)
  show ?case
  proof (cases "discover gs hosts row")
    case None
    with Cons.IH [of row] Cons.prems show ?thesis by (auto simp: o)
  next
    case (Some t)
    obtain mapping changed row' where t: "t = (mapping, changed, row')" by (metis prod_cases3)
    have g: "[] \<notin> gn_id ` set gs" using Cons.prems(2) by (simp add: o)
    note keep = discover_keeps_ids [OF Cons.prems(1) g Some [unfolded t]]
    from Cons.IH [OF keep(1)] Cons.prems(2) Some t keep(2) show ?thesis by (fastforce simp: o)
  qed
qed

definition demo_node :: "string \<Rightarrow> string option \<Rightarrow> (string \<times> rat option) option \<Rightarrow> garage_node" where
  "demo_node i host role = \<lparr>gn_id = i, gn_hostname = host, gn_isUp = True, gn_draining = False, gn_role = role,
     gn_dataAvailable = None, gn_dataTotal = None\<rparr>"

definition demo_sightings :: "sighting list" where
  "demo_sightings =
     [([demo_node ''g1'' None (Some (''node-n9'', None)), demo_node ''g2'' (Some ''c2'') None], [(''n2'', ''c2''), (''n3'', ''c2'')]),
      ([demo_node ''g1'' None None, demo_node ''g2'' None None, demo_node ''g3'' None None], [(''n3'', ''c3'')])]"

definition demo_row :: json where
  "demo_row = JObj [(''nodes'', JObj [(''n1'', JObj [(''capacityGb'', JNum 20), (''garageNodeId'', JStr ''g1'')])])]"

theorem recorded_ids_stay_one_to_one_witness:
  "one_to_one (known_ids (nodes_in (discover_run demo_sightings demo_row))) \<and>
   known_ids (nodes_in (discover_run demo_sightings demo_row)) = [(''n1'', ''g1''), (''n2'', ''g2''), (''n3'', ''g3'')]"
proof
  have "row_ok demo_row" by code_simp
  moreover have "\<forall>(gs, hosts) \<in> set demo_sightings. [] \<notin> gn_id ` set gs"
    by (simp add: demo_sightings_def demo_node_def)
  ultimately show "one_to_one (known_ids (nodes_in (discover_run demo_sightings demo_row)))"
    by (rule conjunct1 [OF recorded_ids_stay_one_to_one])
  show "known_ids (nodes_in (discover_run demo_sightings demo_row)) = [(''n1'', ''g1''), (''n2'', ''g2''), (''n3'', ''g3'')]"
    by code_simp
qed

end
