(* ===== verification/GarageAdmin.thy ===== *)
theory GarageAdmin
  imports KvCodec
begin

text \<open>
  Garage's admin API in both generations behind one call shape,
  \<^verbatim>\<open>packages/trpc/src/services/garage-admin.ts\<close>: a call is written in the vocabulary of v1 and
  translated for the engine that the store runs. A throw is \<open>None\<close>.
\<close>

section \<open>Definitions\<close>

datatype garage_major = G1 | G2

definition LEGACY_GARAGE_IMAGE :: string where
  "LEGACY_GARAGE_IMAGE = ''dxflrs/garage:v1.0.1''"

text \<open>\<^verbatim>\<open>/^v?(\d+)\./\<close> on the tag: the digits before the first dot.\<close>

definition tag_major :: "string \<Rightarrow> nat option" where
  "tag_major tag =
     (let t = (if tag \<noteq> [] \<and> hd tag = CHR ''v'' then tl tag else tag);
          ds = takeWhile is_digit t
      in if ds \<noteq> [] \<and> js_starts_with (drop (length ds) t) ''.'' then Some (dec_value ds) else None)"

definition garageMajorOf :: "string option \<Rightarrow> garage_major" where
  "garageMajorOf img =
     (let tag = last (js_split (CHR '':'') (hd (js_split (CHR ''@'') (opt_or img LEGACY_GARAGE_IMAGE))))
      in case tag_major tag of None \<Rightarrow> G1 | Some n \<Rightarrow> if 2 \<le> n then G2 else G1)"

datatype http_method = GET | POST | PUT | DELETE

record garage_call =
  gc_method :: http_method
  gc_path :: string
  gc_body :: "string option"

definition split_path :: "string \<Rightarrow> string \<times> string" where
  "split_path path =
     (takeWhile (\<lambda>c. c \<noteq> CHR ''?'') path, drop (Suc (length (takeWhile (\<lambda>c. c \<noteq> CHR ''?'') path))) path)"

definition hasParam :: "string \<Rightarrow> string \<Rightarrow> bool" where
  "hasParam query name =
     list_ex (\<lambda>kv. kv = name \<or> js_starts_with kv (name @ ''='')) (js_split (CHR ''&'') query)"

definition request :: "http_method \<Rightarrow> string \<Rightarrow> string option \<Rightarrow> garage_call" where
  "request m path body = \<lparr>gc_method = m, gc_path = path, gc_body = (if truthy body then body else None)\<rparr>"

definition v2_route :: "garage_call \<Rightarrow> string \<Rightarrow> string \<Rightarrow> garage_call option" where
  "v2_route call route query =
     (let q = (if query = [] then [] else CHR ''?'' # query);
          body = gc_body call;
          m = gc_method call
      in if m = GET \<and> route = ''/bucket'' then
           Some (if hasParam query ''list'' then request GET ''/v2/ListBuckets'' body
                 else request GET (''/v2/GetBucketInfo'' @ q) body)
         else if m = POST \<and> route = ''/bucket'' then Some (request POST ''/v2/CreateBucket'' body)
         else if m = DELETE \<and> route = ''/bucket'' then Some (request POST (''/v2/DeleteBucket'' @ q) body)
         else if m = PUT \<and> route = ''/bucket'' then Some (request POST (''/v2/UpdateBucket'' @ q) body)
         else if m = POST \<and> route = ''/bucket/allow'' then Some (request POST ''/v2/AllowBucketKey'' body)
         else if m = POST \<and> route = ''/bucket/deny'' then Some (request POST ''/v2/DenyBucketKey'' body)
         else if m = GET \<and> route = ''/key'' then
           Some (if hasParam query ''list'' then request GET ''/v2/ListKeys'' body
                 else request GET (''/v2/GetKeyInfo'' @ q) body)
         else if m = POST \<and> route = ''/key'' then Some (request POST ''/v2/CreateKey'' body)
         else if m = DELETE \<and> route = ''/key'' then Some (request POST (''/v2/DeleteKey'' @ q) body)
         else if m = GET \<and> route = ''/status'' then Some (request GET ''/v2/GetClusterStatus'' body)
         else if m = GET \<and> route = ''/health'' then Some (request GET ''/v2/GetClusterHealth'' body)
         else if m = GET \<and> route = ''/layout'' then Some (request GET ''/v2/GetClusterLayout'' body)
         else if m = POST \<and> route = ''/layout'' then
           Some (request POST ''/v2/UpdateClusterLayout''
             (Some (if truthy body then ''{\"roles\":'' @ the body @ ''}'' else ''{\"roles\":[]}'')))
         else if m = POST \<and> route = ''/layout/apply'' then Some (request POST ''/v2/ApplyClusterLayout'' body)
         else if m = POST \<and> route = ''/connect'' then Some (request POST ''/v2/ConnectClusterNodes'' body)
         else None)"

definition toGarageRequest :: "garage_call \<Rightarrow> garage_major \<Rightarrow> garage_call option" where
  "toGarageRequest call major =
     (case major of
        G1 \<Rightarrow> Some (request (gc_method call) (''/v1'' @ gc_path call) (gc_body call))
      | G2 \<Rightarrow> (let (route, query) = split_path (gc_path call) in v2_route call route query))"

definition bucketInfoUrlPrefix :: "string \<Rightarrow> garage_major \<Rightarrow> string" where
  "bucketInfoUrlPrefix adminRoot major =
     (case major of G2 \<Rightarrow> adminRoot @ ''/v2/GetBucketInfo?id='' | G1 \<Rightarrow> adminRoot @ ''/v1/bucket?id='')"

section \<open>Lemmas\<close>

text \<open>A translated call goes to the engine's own generation, on v2 only by GET or POST.\<close>

lemma v2_requests:
  assumes "toGarageRequest call G2 = Some r"
  shows "js_starts_with (gc_path r) ''/v2/'' \<and> (gc_method r = GET \<or> gc_method r = POST) \<and>
    (gc_method r = GET \<longleftrightarrow> gc_method call = GET)"
  using assms
  by (auto simp: toGarageRequest_def v2_route_def request_def Let_def case_prod_beta js_starts_with_def
      split: if_splits)

lemma v1_requests: "toGarageRequest call G1 = Some r \<Longrightarrow> gc_path r = ''/v1'' @ gc_path call \<and> gc_method r = gc_method call"
  by (auto simp: toGarageRequest_def request_def)

text \<open>The calls of the reconcile worker are translated for either generation.\<close>

definition worker_calls :: "string option \<Rightarrow> garage_call list" where
  "worker_calls body =
     map (\<lambda>(m, p). \<lparr>gc_method = m, gc_path = p, gc_body = body\<rparr>)
       [(GET, ''/health''), (GET, ''/status''), (GET, ''/layout''), (POST, ''/layout''), (POST, ''/layout/apply''), (POST, ''/connect'')]"

lemma worker_calls_translate: "call \<in> set (worker_calls body) \<Longrightarrow> toGarageRequest call major \<noteq> None"
  by (cases major) (auto simp: worker_calls_def toGarageRequest_def v2_route_def split_path_def)

end
