(* ===== verification/NetPolicy.thy ===== *)
theory NetPolicy
  imports KvCodec
begin

text \<open>
  Which overlay network is for whom: \<^verbatim>\<open>packages/core/src/network-policy.ts\<close>, the wall that
  \<^verbatim>\<open>packages/trpc/src/services/admission-gate.ts\<close> puts before every deploy a user makes, the
  part of the agent's deploy that turns a spec into network attachments
  (\<^verbatim>\<open>packages/core/src/docker.ts\<close>, \<^verbatim>\<open>apps/agent/src/executor.ts\<close>), and the pairing of apps
  (\<^verbatim>\<open>packages/trpc/src/services/stack-links.service.ts\<close>, \<^verbatim>\<open>service-patch.ts\<close>). A violation is
  its rule and its service, the sentence is left out. An absent list of networks, labels or specs is
  the empty one.
\<close>

section \<open>Definitions\<close>

definition SHARED_PLATFORM_NETWORK :: string where "SHARED_PLATFORM_NETWORK = ''swarmy''"
definition SWARMY_CONTROL_NETWORK :: string where "SWARMY_CONTROL_NETWORK = ''swarmy-control''"
definition SWARMY_INTEGRATIONS_NETWORK :: string where "SWARMY_INTEGRATIONS_NETWORK = ''swarmy-integrations''"
definition LINK_NETWORK_PREFIX :: string where "LINK_NETWORK_PREFIX = ''swarmy-link-''"
definition LINKS_LABEL :: string where "LINKS_LABEL = ''swarmy.links''"
definition OVERLAY_MTU_OPTION :: string where "OVERLAY_MTU_OPTION = ''com.docker.network.driver.mtu''"
definition OVERLAY_ENCRYPTED_OPTION :: string where "OVERLAY_ENCRYPTED_OPTION = ''encrypted''"

definition PLATFORM_SHARED_NETWORKS :: "string list" where
  "PLATFORM_SHARED_NETWORKS = [SHARED_PLATFORM_NETWORK, SWARMY_INTEGRATIONS_NETWORK]"

definition PLATFORM_PRIVATE_NETWORKS :: "string list" where
  "PLATFORM_PRIVATE_NETWORKS = [SWARMY_CONTROL_NETWORK]"

definition isPlatformNetwork :: "string \<Rightarrow> bool" where
  "isPlatformNetwork name = (name \<in> set PLATFORM_SHARED_NETWORKS \<or> name \<in> set PLATFORM_PRIVATE_NETWORKS)"

subsection \<open>The size of a frame\<close>

definition VXLAN_OVERHEAD :: int where "VXLAN_OVERHEAD = 50"
definition IPSEC_OVERHEAD :: int where "IPSEC_OVERHEAD = 60"

definition meshLinkMtu :: "string option \<Rightarrow> int option" where
  "meshLinkMtu driver =
     (if js_lower (opt_or driver ''none'') \<in> {''netbird'', ''headscale''} then Some 1280 else None)"

definition overlayMtuFor :: "int option \<Rightarrow> bool \<Rightarrow> int option" where
  "overlayMtuFor linkMtu encrypted =
     (case linkMtu of
        None \<Rightarrow> None
      | Some m \<Rightarrow> if m = 0 then None
                  else Some (m - VXLAN_OVERHEAD - (if encrypted then IPSEC_OVERHEAD else 0)))"

definition show_mtu :: "int \<Rightarrow> string" where
  "show_mtu n = (if n < 0 then CHR ''-'' # digits_of (nat (- n)) else digits_of (nat n))"

text \<open>\<^verbatim>\<open>Object.assign(out, extra)\<close>.\<close>

definition js_assign :: "'v jsmap \<Rightarrow> 'v jsmap \<Rightarrow> 'v jsmap" where
  "js_assign out extra = fold (\<lambda>(k, v) m. AList.update k v m) (own_order extra) out"

definition overlayDriverOptions ::
  "string option \<Rightarrow> bool \<Rightarrow> bool \<Rightarrow> string jsmap option \<Rightarrow> string jsmap option" where
  "overlayDriverOptions meshDriver meshEnabled encrypted extra =
     (let ex = opt_or extra [];
          enc = (if encrypted then [(OVERLAY_ENCRYPTED_OPTION, [])] else []);
          mtu = (if meshEnabled
                 then overlayMtuFor (meshLinkMtu meshDriver)
                        (encrypted \<or> map_of ex OVERLAY_ENCRYPTED_OPTION \<noteq> None)
                 else None);
          out = js_assign (case mtu of
                    None \<Rightarrow> enc
                  | Some m \<Rightarrow> if m = 0 then enc else AList.update OVERLAY_MTU_OPTION (show_mtu m) enc) ex
      in if out = [] then None else Some out)"

text \<open>What the agent adds when the options set none; a network is its name and its driver options.\<close>

definition withInheritedMtu ::
  "string jsmap option \<Rightarrow> (string \<times> string jsmap) list \<Rightarrow> string jsmap option" where
  "withInheritedMtu options nets =
     (if truthy (Option.bind options (\<lambda>l. map_of l OVERLAY_MTU_OPTION)) then options
      else let mtu_of = (\<lambda>template. Option.bind (find (\<lambda>n. fst n = template) nets) (\<lambda>n. map_of (snd n) OVERLAY_MTU_OPTION));
               mtu = str_or (mtu_of SWARMY_CONTROL_NETWORK) (mtu_of SHARED_PLATFORM_NETWORK)
           in if truthy mtu then Some (AList.update OVERLAY_MTU_OPTION (the mtu) (opt_or options [])) else options)"

subsection \<open>Connected apps\<close>

definition fnv_h1 :: "32 word \<Rightarrow> char \<Rightarrow> 32 word" where
  "fnv_h1 h c = (h XOR of_char c) * 0x01000193"

definition fnv_h2 :: "32 word \<Rightarrow> char \<Rightarrow> 32 word" where
  "fnv_h2 h c = (h XOR of_char c) * (0x01000193 XOR 0x2f)"

definition hex8 :: "32 word \<Rightarrow> string" where
  "hex8 w = pad_start 8 (CHR ''0'') (hex_of (unat w))"

definition fnv64hex :: "string \<Rightarrow> string" where
  "fnv64hex s =
     hex8 (foldl fnv_h1 0x811c9dc5 s) @ hex8 (foldl fnv_h2 (0x01000193 XOR 0x5bd1e995) s)"

definition linkPair :: "string \<Rightarrow> string \<Rightarrow> string \<times> string" where
  "linkPair a b = (if a \<le> b then (a, b) else (b, a))"

definition link_text :: "string \<Rightarrow> string \<Rightarrow> string \<Rightarrow> string" where
  "link_text orgId a b =
     (let (x, y) = linkPair a b in orgId @ [CHR 0x00] @ x @ [CHR 0x00] @ y)"

definition linkNetworkName :: "string \<Rightarrow> string \<Rightarrow> string \<Rightarrow> string" where
  "linkNetworkName orgId a b = LINK_NETWORK_PREFIX @ fnv64hex (link_text orgId a b)"

definition linkAlias :: "string \<Rightarrow> string \<Rightarrow> string" where
  "linkAlias app shortService = shortService @ ''.'' @ app"

definition parseLinksLabel :: "string option \<Rightarrow> string list" where
  "parseLinksLabel v =
     js_sort (by_key (\<lambda>s. s)) (js_dedup (filter (\<lambda>s. s \<noteq> []) (map js_trim (js_split (CHR '','') (opt_or v [])))))"

definition renderLinksLabel :: "string list \<Rightarrow> string" where
  "renderLinksLabel peers =
     js_join '','' (js_sort (by_key (\<lambda>s. s)) (filter (\<lambda>s. s \<noteq> []) (js_dedup peers)))"

subsection \<open>The wall\<close>

record net_spec =
  sp_name :: "string option"
  sp_labels :: labels
  sp_networks :: "string list"
  sp_aliases :: "(string \<times> string list) list option"

datatype wall_rule = RControlPlane | RPlatformAlias | RReservedName | RSystemLabel | RManagedLabel

type_synonym violation = "wall_rule \<times> string"

definition isReservedServiceName :: "string \<Rightarrow> bool" where
  "isReservedServiceName name =
     (js_starts_with name ''swarmy-'' \<or> js_starts_with name ''swarmy_'' \<or> name = ''swarmy'')"

definition shown_name :: "net_spec \<Rightarrow> string" where
  "shown_name spec = opt_or (sp_name spec) ''(unnamed)''"

definition spec_isolation :: "net_spec \<Rightarrow> violation list" where
  "spec_isolation spec =
     (if truthy (sp_name spec) \<and> isReservedServiceName (the (sp_name spec))
      then [(RReservedName, shown_name spec)] else []) @
     concat (map (\<lambda>net. if net \<in> set PLATFORM_PRIVATE_NETWORKS then [(RControlPlane, shown_name spec)] else [])
       (sp_networks spec)) @
     concat (map (\<lambda>(net, aliases). if net \<in> set PLATFORM_SHARED_NETWORKS \<and> aliases \<noteq> []
                                   then [(RPlatformAlias, shown_name spec)] else [])
       (own_order (opt_or (sp_aliases spec) [])))"

definition networkIsolationViolations :: "net_spec list \<Rightarrow> violation list" where
  "networkIsolationViolations specs = concat (map spec_isolation specs)"

definition SYSTEM_LABEL :: string where "SYSTEM_LABEL = ''swarmy.system''"

text \<open>The families of managed data: their pre and the label of a service swarmy created.\<close>

definition MANAGED_DATA_OWNER_LABELS :: "(string \<times> string) list" where
  "MANAGED_DATA_OWNER_LABELS =
     [(''swarmy.db.'', ''swarmy.db.cluster''), (''swarmy.cache.'', ''swarmy.cache.cluster''),
      (''swarmy.search.'', ''swarmy.search.cluster''), (''swarmy.vector.'', ''swarmy.vector.name'')]"

definition isManagedDataService :: "labels \<Rightarrow> bool" where
  "isManagedDataService l = list_ex (\<lambda>(pre, k). truthy (lbl l k)) MANAGED_DATA_OWNER_LABELS"

definition current_label :: "labels option \<Rightarrow> string \<Rightarrow> string option" where
  "current_label current k = Option.bind current (\<lambda>l. lbl l k)"

definition family_bad :: "labels \<Rightarrow> labels option \<Rightarrow> string \<times> string \<Rightarrow> string list" where
  "family_bad l current fam =
     (let keys = filter (\<lambda>k. js_starts_with k (fst fam)) (map fst (own_order l))
      in if truthy (current_label current (snd fam)) then []
         else filter (\<lambda>k. current_label current k \<noteq> lbl l k) keys)"

definition spec_labels :: "(string \<Rightarrow> labels option) \<Rightarrow> net_spec \<Rightarrow> violation list" where
  "spec_labels live spec =
     (let l = sp_labels spec;
          current = (if truthy (sp_name spec) then live (the (sp_name spec)) else None)
      in (if lbl l SYSTEM_LABEL \<noteq> None \<and> current_label current SYSTEM_LABEL \<noteq> lbl l SYSTEM_LABEL
          then [(RSystemLabel, shown_name spec)] else []) @
         concat (map (\<lambda>fam. if family_bad l current fam \<noteq> [] then [(RManagedLabel, shown_name spec)] else [])
           MANAGED_DATA_OWNER_LABELS))"

definition reservedLabelViolations :: "net_spec list \<Rightarrow> (string \<Rightarrow> labels option) \<Rightarrow> violation list" where
  "reservedLabelViolations specs live = concat (map (spec_labels live) specs)"

text \<open>\<^verbatim>\<open>enforceAdmission\<close> up to its policies: what no override lets through.\<close>

definition admission_wall :: "net_spec list \<Rightarrow> (string \<Rightarrow> labels option) \<Rightarrow> violation list" where
  "admission_wall specs live = networkIsolationViolations specs @ reservedLabelViolations specs live"

definition stripPlatformAliases :: "net_spec \<Rightarrow> net_spec" where
  "stripPlatformAliases spec =
     (case sp_aliases spec of
        None \<Rightarrow> spec
      | Some al \<Rightarrow> spec\<lparr>sp_aliases := Some (filter (\<lambda>(net, _). \<not> isPlatformNetwork net) (own_order al))\<rparr>)"

subsection \<open>What the agent attaches\<close>

text \<open>Names and ids of the networks of the swarm; \<open>None\<close> where the list cannot be read.\<close>

type_synonym networks = "(string \<times> string) list"

record attachment =
  at_target :: string
  at_aliases :: "string list option"

definition resolve_network :: "networks \<Rightarrow> string \<Rightarrow> string" where
  "resolve_network nets n =
     opt_or (map_of (rev (filter (\<lambda>(name, i). name \<noteq> [] \<and> i \<noteq> []) nets)) n) n"

definition resolveSpecNetworks :: "networks option \<Rightarrow> net_spec \<Rightarrow> net_spec" where
  "resolveSpecNetworks listed input =
     (let spec = stripPlatformAliases input
      in case (sp_networks spec, listed) of
           ([], _) \<Rightarrow> spec
         | (_, None) \<Rightarrow> spec
         | (ns, Some nets) \<Rightarrow>
             spec\<lparr>sp_networks := map (resolve_network nets) ns,
                  sp_aliases := map_option (\<lambda>al.
                    fold (\<lambda>(n, a) m. AList.update n a m)
                      (map (\<lambda>(n, a). (resolve_network nets n, a)) (own_order al)) []) (sp_aliases spec)\<rparr>)"

definition spec_attachments :: "net_spec \<Rightarrow> attachment list" where
  "spec_attachments spec =
     map (\<lambda>n. \<lparr>at_target = n,
               at_aliases = (case Option.bind (sp_aliases spec) (\<lambda>al. map_of al n) of
                               None \<Rightarrow> None
                             | Some a \<Rightarrow> if a = [] then None else Some a)\<rparr>)
       (sp_networks spec)"

definition has_aliases :: "attachment \<Rightarrow> bool" where
  "has_aliases a = (case at_aliases a of None \<Rightarrow> False | Some l \<Rightarrow> l \<noteq> [])"

definition carryNetworkAliases :: "attachment list \<Rightarrow> net_spec \<Rightarrow> attachment list \<Rightarrow> attachment list" where
  "carryNetworkAliases atts spec live =
     (if sp_aliases spec \<noteq> None \<or> live = [] then atts
      else let byTarget = map_of (rev (List.map_filter (\<lambda>a. if at_target a \<noteq> [] \<and> has_aliases a
                                         then Some (at_target a, the (at_aliases a)) else None) live))
           in map (\<lambda>a. case (if at_target a = [] then None else byTarget (at_target a)) of
                         None \<Rightarrow> a
                       | Some al \<Rightarrow> if has_aliases a then a else a\<lparr>at_aliases := Some al\<rparr>) atts)"

definition dropAliasesOnTargets :: "attachment list \<Rightarrow> string set \<Rightarrow> attachment list" where
  "dropAliasesOnTargets atts targets =
     map (\<lambda>a. if at_target a \<noteq> [] \<and> at_target a \<in> targets then a\<lparr>at_aliases := None\<rparr> else a) atts"

definition platformNetworkIds :: "networks option \<Rightarrow> string set" where
  "platformNetworkIds listed =
     (case listed of
        None \<Rightarrow> {}
      | Some nets \<Rightarrow> snd ` set (filter (\<lambda>(name, i). name \<noteq> [] \<and> isPlatformNetwork name \<and> i \<noteq> []) nets))"

text \<open>
  The networks of a service the agent creates (no live one) or updates. The list of networks is read
  once for the spec and, on an update, once more for the platform's ids.
\<close>

definition deployed_networks ::
  "networks option \<Rightarrow> networks option \<Rightarrow> net_spec \<Rightarrow> attachment list option \<Rightarrow> attachment list" where
  "deployed_networks listed listedAgain spec existing =
     (let atts = spec_attachments (resolveSpecNetworks listed spec)
      in case existing of
           None \<Rightarrow> atts
         | Some live \<Rightarrow> dropAliasesOnTargets (carryNetworkAliases atts spec live) (platformNetworkIds listedAgain))"

subsection \<open>Pairing apps\<close>

definition SYSTEM_STACK_LABEL :: string where "SYSTEM_STACK_LABEL = ''swarmy.system''"

definition MANAGED_MEMBER_LABELS :: "string list" where
  "MANAGED_MEMBER_LABELS =
     [''swarmy.db.cluster'', ''swarmy.cache.cluster'', ''swarmy.search.engine'', ''swarmy.vector.name'']"

definition isLinkableService :: "labels \<Rightarrow> bool" where
  "isLinkableService l =
     (lbl l SYSTEM_STACK_LABEL \<noteq> Some ''true'' \<and> list_all (\<lambda>k. lbl l k = None) MANAGED_MEMBER_LABELS)"

definition shortName :: "string \<Rightarrow> string \<Rightarrow> string" where
  "shortName stack service =
     (if js_starts_with service (stack @ ''_'') then drop (length stack + 1) service else service)"

text \<open>A live service: its name, its labels, and its networks with their aliases.\<close>

record live_app =
  la_name :: string
  la_labels :: labels
  la_networks :: "(string \<times> string list) list"

text \<open>
  A service spec with the aspects a patch can name; \<open>sv_rest\<close> stands for the others (mounts, command,
  placement, resources and so on), which every patch carries.
\<close>

record svc_ref =
  rf_source :: string
  rf_target :: "string option"

record 'r svc_spec = net_spec +
  sv_image :: string
  sv_env :: "string jsmap"
  sv_secrets :: "svc_ref list"
  sv_configs :: "svc_ref list"
  sv_rest :: 'r

text \<open>A name matcher, list or predicate, is a predicate; \<open>None\<close> where the field is absent.\<close>

record 'r service_patch =
  pa_image :: "string option"
  pa_removeEnv :: "(string \<Rightarrow> bool) option"
  pa_setEnv :: "string jsmap option"
  pa_removeLabels :: "string list"
  pa_setLabels :: "labels option"
  pa_removeSecrets :: "(string \<Rightarrow> bool) option"
  pa_addSecrets :: "svc_ref list"
  pa_removeConfigs :: "(string \<Rightarrow> bool) option"
  pa_addConfigs :: "svc_ref list"
  pa_removeNetworks :: "string list"
  pa_addNetworks :: "string list"
  pa_transform :: "('r svc_spec \<Rightarrow> 'r svc_spec) option"

definition no_patch :: "'r service_patch" where
  "no_patch = \<lparr>pa_image = None, pa_removeEnv = None, pa_setEnv = None, pa_removeLabels = [], pa_setLabels = None,
     pa_removeSecrets = None, pa_addSecrets = [], pa_removeConfigs = None, pa_addConfigs = [],
     pa_removeNetworks = [], pa_addNetworks = [], pa_transform = None\<rparr>"

definition matcher :: "(string \<Rightarrow> bool) option \<Rightarrow> string \<Rightarrow> bool" where
  "matcher m = opt_or m (\<lambda>_. False)"

definition patchRefs :: "svc_ref list \<Rightarrow> (string \<Rightarrow> bool) option \<Rightarrow> svc_ref list \<Rightarrow> svc_ref list" where
  "patchRefs live removed add =
     (if removed = None \<and> add = [] then live
      else filter (\<lambda>r. \<not> matcher removed (rf_source r) \<and> rf_source r \<notin> rf_source ` set add) live @ add)"

definition patch_env :: "string jsmap \<Rightarrow> 'r service_patch \<Rightarrow> string jsmap" where
  "patch_env env p =
     (if pa_removeEnv p \<noteq> None \<or> pa_setEnv p \<noteq> None
      then js_assign (filter (\<lambda>kv. \<not> matcher (pa_removeEnv p) (fst kv)) (own_order env)) (opt_or (pa_setEnv p) [])
      else env)"

definition patch_labels :: "labels \<Rightarrow> 'r service_patch \<Rightarrow> labels" where
  "patch_labels l p =
     (if pa_removeLabels p \<noteq> [] \<or> pa_setLabels p \<noteq> None
      then js_assign (filter (\<lambda>kv. fst kv \<notin> set (pa_removeLabels p)) l) (opt_or (pa_setLabels p) [])
      else l)"

definition patch_networks :: "string list \<Rightarrow> 'r service_patch \<Rightarrow> string list" where
  "patch_networks ns p =
     (if pa_removeNetworks p \<noteq> [] \<or> pa_addNetworks p \<noteq> []
      then js_dedup (filter (\<lambda>n. n \<notin> set (pa_removeNetworks p)) ns @ pa_addNetworks p)
      else ns)"

definition applyServicePatch :: "'r svc_spec \<Rightarrow> 'r service_patch \<Rightarrow> 'r svc_spec" where
  "applyServicePatch base p =
     (let out = base\<lparr>
          sv_image := (if truthy (pa_image p) then the (pa_image p) else sv_image base),
          sv_env := patch_env (sv_env base) p,
          sp_labels := patch_labels (sp_labels base) p,
          sv_secrets := patchRefs (sv_secrets base) (pa_removeSecrets p) (pa_addSecrets p),
          sv_configs := patchRefs (sv_configs base) (pa_removeConfigs p) (pa_addConfigs p),
          sp_networks := patch_networks (sp_networks base) p\<rparr>
      in case pa_transform p of None \<Rightarrow> out | Some f \<Rightarrow> f out)"

definition linkPatch :: "string \<Rightarrow> string \<Rightarrow> live_app \<Rightarrow> string list \<Rightarrow> 'r service_patch" where
  "linkPatch orgId stack svc peers =
     (let want = js_dedup peers;
          current = parseLinksLabel (lbl (la_labels svc) LINKS_LABEL);
          add = map (linkNetworkName orgId stack) want;
          removed = map (linkNetworkName orgId stack) (filter (\<lambda>p. p \<notin> set want) current);
          al = linkAlias stack (shortName stack (la_name svc));
          label = renderLinksLabel want;
          aliases = fold (\<lambda>net m. AList.update net [al] m) add
            (fold (\<lambda>(n, a) m. AList.update n a m)
              (filter (\<lambda>(n, a). a \<noteq> [] \<and> n \<notin> set removed) (la_networks svc)) [])
      in no_patch\<lparr>
          pa_setLabels := (if label = [] then None else Some [(LINKS_LABEL, label)]),
          pa_removeLabels := (if label = [] then [LINKS_LABEL] else []),
          pa_addNetworks := add, pa_removeNetworks := removed,
          pa_transform := Some (\<lambda>spec. spec\<lparr>sp_aliases := Some aliases\<rparr>)\<rparr>)"

definition carryLinks :: "string \<Rightarrow> string \<Rightarrow> string list \<Rightarrow> net_spec \<Rightarrow> net_spec" where
  "carryLinks orgId stack peers spec =
     (if peers = [] \<or> \<not> isLinkableService (sp_labels spec) then spec
      else let nets = map (linkNetworkName orgId stack) peers;
               al = linkAlias stack (shortName stack (opt_or (sp_name spec) []))
           in spec\<lparr>sp_labels := AList.update LINKS_LABEL (renderLinksLabel peers) (sp_labels spec),
                   sp_networks := js_dedup (sp_networks spec @ nets),
                   sp_aliases := Some (fold (\<lambda>n m. AList.update n [al] m) nets (opt_or (sp_aliases spec) []))\<rparr>)"

definition stackPeers :: "labels list \<Rightarrow> string list" where
  "stackPeers services =
     js_sort (by_key (\<lambda>s. s)) (js_dedup (concat (map (\<lambda>l. parseLinksLabel (lbl l LINKS_LABEL)) services)))"

text \<open>\<^verbatim>\<open>applyPeers\<close>: the services whose label does not list the peers already, each with its patch.\<close>

definition applyPeers ::
  "string \<Rightarrow> string \<Rightarrow> live_app list \<Rightarrow> (string list \<Rightarrow> string list) \<Rightarrow> (string \<times> 'r service_patch) list" where
  "applyPeers orgId stack svcs mutate =
     (let peers = mutate (stackPeers (map la_labels svcs))
      in List.map_filter (\<lambda>svc.
           if renderLinksLabel (parseLinksLabel (lbl (la_labels svc) LINKS_LABEL)) = renderLinksLabel peers then None
           else Some (la_name svc, linkPatch orgId stack svc peers))
         (filter (\<lambda>svc. isLinkableService (la_labels svc)) svcs))"

text \<open>Connecting and disconnecting a pair: the patches of both sides.\<close>

definition connect_patches ::
  "string \<Rightarrow> string \<times> live_app list \<Rightarrow> string \<times> live_app list \<Rightarrow> (string \<times> 'r service_patch) list" where
  "connect_patches orgId a b =
     applyPeers orgId (fst a) (snd a) (js_set_add (fst b)) @ applyPeers orgId (fst b) (snd b) (js_set_add (fst a))"

definition disconnect_patches ::
  "string \<Rightarrow> string \<times> live_app list \<Rightarrow> string \<times> live_app list \<Rightarrow> (string \<times> 'r service_patch) list" where
  "disconnect_patches orgId a b =
     applyPeers orgId (fst a) (snd a) (removeAll (fst b)) @ applyPeers orgId (fst b) (snd b) (removeAll (fst a))"

section \<open>Lemmas\<close>

lemma update_keys: "fst ` set (AList.update k v m) = insert k (fst ` set m)"
  by (induction m) auto

lemma fold_update_keys: "fst ` set (fold (\<lambda>(n, a) m. AList.update n a m) kvs m) = fst ` set kvs \<union> fst ` set m"
  by (induction kvs arbitrary: m) (simp_all add: update_keys case_prod_beta)

lemma own_order_one [simp]: "own_order [p] = [p]"
  by (auto simp: own_order_def)

end
