(* ===== verification/NetWall.thy ===== *)
theory NetWall
  imports NetPolicy KvRoundTrip
begin

text \<open>
  What the network wall guarantees: no sequence of user deploys makes a service pose as swarmy's own or
  as managed data, or touches a platform service; nothing deployed by network name gets a DNS alias on
  a platform network. And where it does not hold: the wall compares names, so a network given by its id
  passes it.
\<close>

section \<open>The wall, in one sentence\<close>

definition wall_allows :: "(string \<Rightarrow> labels option) \<Rightarrow> net_spec \<Rightarrow> bool" where
  "wall_allows live spec \<longleftrightarrow>
     (let current = (if truthy (sp_name spec) then live (the (sp_name spec)) else None)
      in (\<forall>n. sp_name spec = Some n \<longrightarrow> n = [] \<or> \<not> isReservedServiceName n) \<and>
         SWARMY_CONTROL_NETWORK \<notin> set (sp_networks spec) \<and>
         (\<forall>(net, al) \<in> set (opt_or (sp_aliases spec) []). net \<in> set PLATFORM_SHARED_NETWORKS \<longrightarrow> al = []) \<and>
         (lbl (sp_labels spec) SYSTEM_LABEL \<noteq> None \<longrightarrow>
            current_label current SYSTEM_LABEL = lbl (sp_labels spec) SYSTEM_LABEL) \<and>
         (\<forall>(pre, owner) \<in> set MANAGED_DATA_OWNER_LABELS. truthy (current_label current owner) \<or>
            (\<forall>k. js_starts_with k pre \<longrightarrow> lbl (sp_labels spec) k \<noteq> None \<longrightarrow>
               current_label current k = lbl (sp_labels spec) k)))"

lemma concat_Nil_iff: "concat (map f xs) = [] \<longleftrightarrow> (\<forall>x \<in> set xs. f x = [])"
  by (induction xs) auto

lemma spec_isolation_Nil:
  "spec_isolation spec = [] \<longleftrightarrow>
     (\<forall>n. sp_name spec = Some n \<longrightarrow> n = [] \<or> \<not> isReservedServiceName n) \<and>
     SWARMY_CONTROL_NETWORK \<notin> set (sp_networks spec) \<and>
     (\<forall>(net, al) \<in> set (opt_or (sp_aliases spec) []). net \<in> set PLATFORM_SHARED_NETWORKS \<longrightarrow> al = [])"
  by (cases "sp_name spec")
    (auto simp: spec_isolation_def concat_Nil_iff PLATFORM_PRIVATE_NETWORKS_def truthy_def split: if_splits)

lemma family_bad_Nil:
  "family_bad l current fam = [] \<longleftrightarrow> truthy (current_label current (snd fam)) \<or>
     (\<forall>k. js_starts_with k (fst fam) \<longrightarrow> lbl l k \<noteq> None \<longrightarrow> current_label current k = lbl l k)"
proof -
  have mem: "k \<in> set (map fst (own_order l)) \<longleftrightarrow> lbl l k \<noteq> None" for k
    by (simp add: lbl_def map_of_eq_None_iff del: not_None_eq)
  show ?thesis
    by (simp only: family_bad_def Let_def filter_empty_conv set_filter mem mem_Collect_eq split: if_split) blast
qed

lemma spec_labels_Nil:
  "spec_labels live spec = [] \<longleftrightarrow>
     (let current = (if truthy (sp_name spec) then live (the (sp_name spec)) else None)
      in (lbl (sp_labels spec) SYSTEM_LABEL \<noteq> None \<longrightarrow>
            current_label current SYSTEM_LABEL = lbl (sp_labels spec) SYSTEM_LABEL) \<and>
         (\<forall>(pre, owner) \<in> set MANAGED_DATA_OWNER_LABELS. truthy (current_label current owner) \<or>
            (\<forall>k. js_starts_with k pre \<longrightarrow> lbl (sp_labels spec) k \<noteq> None \<longrightarrow>
               current_label current k = lbl (sp_labels spec) k)))"
proof -
  have fam: "(\<forall>fam \<in> F. family_bad l c fam = []) \<longleftrightarrow> (\<forall>(pre, owner) \<in> F. truthy (current_label c owner) \<or>
            (\<forall>k. js_starts_with k pre \<longrightarrow> lbl l k \<noteq> None \<longrightarrow> current_label c k = lbl l k))" for F l c
    by (simp only: family_bad_Nil case_prod_unfold)
  have ite: "(if P then [x] else []) = [] \<longleftrightarrow> \<not> P" for P and x :: violation by simp
  show ?thesis
    unfolding spec_labels_def Let_def append_is_Nil_conv concat_Nil_iff ite fam [symmetric] by blast
qed

text \<open>A deploy passes the wall exactly when every spec of it is allowed.\<close>

lemma wall_passes_iff: "admission_wall specs live = [] \<longleftrightarrow> (\<forall>spec \<in> set specs. wall_allows live spec)"
  by (simp add: admission_wall_def networkIsolationViolations_def reservedLabelViolations_def concat_Nil_iff
      spec_isolation_Nil spec_labels_Nil wall_allows_def Let_def) blast

section \<open>Deploys by users\<close>

text \<open>
  A deploy that passes creates or updates its services by name; one that does not changes nothing.
\<close>

definition deploy_spec :: "net_spec \<Rightarrow> (string \<Rightarrow> labels option) \<Rightarrow> string \<Rightarrow> labels option" where
  "deploy_spec spec live = (case sp_name spec of None \<Rightarrow> live | Some n \<Rightarrow> live(n \<mapsto> sp_labels spec))"

definition user_deploy :: "net_spec list \<Rightarrow> (string \<Rightarrow> labels option) \<Rightarrow> string \<Rightarrow> labels option" where
  "user_deploy specs live = (if admission_wall specs live = [] then fold deploy_spec specs live else live)"

definition no_pose :: "(string \<Rightarrow> labels option) \<Rightarrow> (string \<Rightarrow> labels option) \<Rightarrow> bool" where
  "no_pose live live' \<longleftrightarrow>
     (\<forall>n. isReservedServiceName n \<longrightarrow> live' n = live n) \<and>
     (\<forall>n l'. live' n = Some l' \<longrightarrow>
        (\<forall>v. lbl l' SYSTEM_LABEL = Some v \<longrightarrow> current_label (live n) SYSTEM_LABEL = Some v) \<and>
        (\<forall>(pre, owner) \<in> set MANAGED_DATA_OWNER_LABELS.
           truthy (current_label (live n) owner) \<or>
           (\<forall>k v. js_starts_with k pre \<longrightarrow> lbl l' k = Some v \<longrightarrow> current_label (live n) k = Some v)))"

lemma fold_deploy_cases:
  "fold deploy_spec specs live n = live n \<or>
   (\<exists>spec \<in> set specs. sp_name spec = Some n \<and> fold deploy_spec specs live n = Some (sp_labels spec))"
proof (induction specs arbitrary: live)
  case (Cons s specs)
  have "deploy_spec s live n = live n \<or> sp_name s = Some n \<and> deploy_spec s live n = Some (sp_labels s)"
    by (simp add: deploy_spec_def split: option.splits)
  with Cons.IH [of "deploy_spec s live"] show ?case by auto
qed simp

lemma no_pose_refl: "no_pose live live"
  by (auto simp: no_pose_def current_label_def)

lemma owner_in_family: "(pre, owner) \<in> set MANAGED_DATA_OWNER_LABELS \<Longrightarrow> js_starts_with owner pre"
  by (auto simp: MANAGED_DATA_OWNER_LABELS_def js_starts_with_def)

lemma allowed_no_pose:
  assumes "wall_allows live spec" and "sp_name spec = Some n" and "lbl (sp_labels spec) k = Some v"
  shows "k = SYSTEM_LABEL \<Longrightarrow> current_label (live n) k = Some v"
    and "(pre, owner) \<in> set MANAGED_DATA_OWNER_LABELS \<Longrightarrow> js_starts_with k pre \<Longrightarrow>
      truthy (current_label (live n) owner) \<or> current_label (live n) k = Some v"
proof -
  let ?c = "if truthy (sp_name spec) then live (the (sp_name spec)) else None"
  have c: "current_label ?c k = Some v \<Longrightarrow> current_label (live n) k = Some v"
    "truthy (current_label ?c k) \<Longrightarrow> truthy (current_label (live n) k)" for k v
    using assms(2) by (auto simp: current_label_def truthy_def split: if_splits)
  show "current_label (live n) k = Some v" if "k = SYSTEM_LABEL"
    using assms(1,3) that by (intro c) (simp add: wall_allows_def Let_def)
  show "truthy (current_label (live n) owner) \<or> current_label (live n) k = Some v"
    if "(pre, owner) \<in> set MANAGED_DATA_OWNER_LABELS" "js_starts_with k pre"
  proof -
    from assms(1) that(1) have "truthy (current_label ?c owner) \<or>
        (\<forall>k. js_starts_with k pre \<longrightarrow> lbl (sp_labels spec) k \<noteq> None \<longrightarrow> current_label ?c k = lbl (sp_labels spec) k)"
      unfolding wall_allows_def Let_def by blast
    with assms(3) that(2) c show ?thesis by (metis option.distinct(1))
  qed
qed

lemma user_deploy_no_pose: "no_pose live (user_deploy specs live)"
proof (cases "admission_wall specs live = []")
  case False
  then show ?thesis by (simp add: user_deploy_def no_pose_refl)
next
  case True
  then have ok: "spec \<in> set specs \<Longrightarrow> wall_allows live spec" for spec by (simp add: wall_passes_iff)
  have keep: "user_deploy specs live n = live n \<or> (\<exists>spec \<in> set specs. sp_name spec = Some n \<and>
      wall_allows live spec \<and> user_deploy specs live n = Some (sp_labels spec))" for n
    using fold_deploy_cases [of specs live n] ok True by (auto simp: user_deploy_def)
  have "user_deploy specs live n = live n" if "isReservedServiceName n" for n
    using keep [of n] that by (auto simp: wall_allows_def Let_def isReservedServiceName_def js_starts_with_def)
  moreover have "current_label (live n) SYSTEM_LABEL = Some v"
    if "user_deploy specs live n = Some l" "lbl l SYSTEM_LABEL = Some v" for n l v
    using keep [of n]
  proof
    assume "user_deploy specs live n = live n"
    with that show ?thesis by (metis bind.bind_lunit current_label_def)
  next
    assume "\<exists>spec \<in> set specs. sp_name spec = Some n \<and> wall_allows live spec \<and>
      user_deploy specs live n = Some (sp_labels spec)"
    then show ?thesis using that allowed_no_pose(1) by auto
  qed
  moreover have "truthy (current_label (live n) owner) \<or> current_label (live n) k = Some v"
    if "user_deploy specs live n = Some l" "(pre, owner) \<in> set MANAGED_DATA_OWNER_LABELS"
      "js_starts_with k pre" "lbl l k = Some v" for n l pre owner k v
    using keep [of n]
  proof
    assume "user_deploy specs live n = live n"
    with that show ?thesis by (simp add: current_label_def)
  next
    assume "\<exists>spec \<in> set specs. sp_name spec = Some n \<and> wall_allows live spec \<and>
      user_deploy specs live n = Some (sp_labels spec)"
    then obtain spec where s: "sp_name spec = Some n" "wall_allows live spec" "l = sp_labels spec"
      using \<open>user_deploy specs live n = Some l\<close> by auto
    from allowed_no_pose(2) [OF s(2,1) _ that(2,3)] that(4) s(3) show ?thesis by simp
  qed
  ultimately show ?thesis unfolding no_pose_def by blast
qed

lemma no_pose_trans:
  assumes "no_pose a b" and "no_pose b c"
  shows "no_pose a c"
proof -
  have sys: "current_label (a n) SYSTEM_LABEL = Some v" if "c n = Some l" "lbl l SYSTEM_LABEL = Some v" for n l v
  proof -
    from assms(2) that have "current_label (b n) SYSTEM_LABEL = Some v" by (simp add: no_pose_def)
    then obtain l2 where "b n = Some l2" "lbl l2 SYSTEM_LABEL = Some v"
      by (auto simp: current_label_def bind_eq_Some_conv)
    with assms(1) show ?thesis by (simp add: no_pose_def)
  qed
  have fam: "truthy (current_label (a n) owner) \<or> current_label (a n) k = Some v"
    if c: "c n = Some l" "(pre, owner) \<in> set MANAGED_DATA_OWNER_LABELS" "js_starts_with k pre" "lbl l k = Some v"
    for n l pre owner k v
  proof -
    have earlier: "truthy (current_label (a n) owner) \<or> current_label (a n) j = Some w"
      if "current_label (b n) j = Some w" "js_starts_with j pre" for j w
    proof -
      from that obtain l2 where "b n = Some l2" "lbl l2 j = Some w"
        by (auto simp: current_label_def bind_eq_Some_conv)
      with assms(1) c(2) that(2) show ?thesis unfolding no_pose_def by blast
    qed
    have "truthy (current_label (b n) owner) \<or> current_label (b n) k = Some v"
      using assms(2) c unfolding no_pose_def by blast
    then show ?thesis
    proof
      assume "truthy (current_label (b n) owner)"
      then obtain w where "current_label (b n) owner = Some w" "w \<noteq> []"
        by (auto simp: truthy_def split: option.splits)
      with earlier [OF this(1) owner_in_family [OF c(2)]] show ?thesis by (auto simp: truthy_def)
    next
      assume "current_label (b n) k = Some v"
      then show ?thesis using earlier c(3) by blast
    qed
  qed
  show ?thesis
    using assms sys fam unfolding no_pose_def by (intro conjI allI impI) (metis, blast, blast)
qed

text \<open>
  C14. An app cannot pose. After any sequence of deploys by users, a service that carries swarmy's system
  label or counts as managed data did so before, with the same system label, and a service with a name
  of the platform is exactly what it was: what the platform trusts, only the platform has made.
\<close>

theorem users_cannot_pose:
  assumes "live' = fold user_deploy deploys live" and "live' n = Some l"
  shows "(isReservedServiceName n \<longrightarrow> live n = Some l) \<and>
         (\<forall>v. lbl l SYSTEM_LABEL = Some v \<longrightarrow> current_label (live n) SYSTEM_LABEL = Some v) \<and>
         (isManagedDataService l \<longrightarrow> (\<exists>l0. live n = Some l0 \<and> isManagedDataService l0))"
proof -
  have run: "no_pose live (fold user_deploy deploys live)"
  proof (induction deploys arbitrary: live)
    case (Cons d ds)
    from no_pose_trans [OF user_deploy_no_pose Cons.IH] show ?case by simp
  qed (simp add: no_pose_refl)
  have "\<exists>l0. live n = Some l0 \<and> isManagedDataService l0" if m: "isManagedDataService l"
  proof -
    from m obtain pre owner where o: "(pre, owner) \<in> set MANAGED_DATA_OWNER_LABELS" "truthy (lbl l owner)"
      by (auto simp: isManagedDataService_def list_ex_iff)
    then obtain v where v: "lbl l owner = Some v" "v \<noteq> []" by (auto simp: truthy_def split: option.splits)
    with run assms o(1) owner_in_family [OF o(1)]
    have "truthy (current_label (live n) owner) \<or> current_label (live n) owner = Some v"
      unfolding no_pose_def by blast
    with v(2) have "truthy (current_label (live n) owner)" by (auto simp: truthy_def)
    then obtain l0 where "live n = Some l0" "truthy (lbl l0 owner)"
      by (cases "live n") (auto simp: current_label_def truthy_def)
    with o(1) show ?thesis by (force simp: isManagedDataService_def list_ex_iff)
  qed
  with run assms show ?thesis unfolding no_pose_def by metis
qed

definition demo_live :: "string \<Rightarrow> labels option" where
  "demo_live n = (if n = ''shop_db'' then Some [(''swarmy.db.cluster'', ''shop'')] else None)"

definition demo_deploys :: "net_spec list list" where
  "demo_deploys =
     [[\<lparr>sp_name = Some ''shop_web'', sp_labels = [(''swarmy.db.cluster'', ''evil'')], sp_networks = [], sp_aliases = None\<rparr>],
      [\<lparr>sp_name = Some ''shop_db'', sp_labels = [(''swarmy.db.cluster'', ''shop''), (''swarmy.db.role'', ''primary'')],
        sp_networks = [], sp_aliases = None\<rparr>]]"

theorem users_cannot_pose_witness:
  "fold user_deploy demo_deploys demo_live ''shop_web'' = None \<and>
   (\<exists>l0. demo_live ''shop_db'' = Some l0 \<and> isManagedDataService l0)"
proof
  show "fold user_deploy demo_deploys demo_live ''shop_web'' = None" by code_simp
  have "fold user_deploy demo_deploys demo_live ''shop_db'' =
      Some [(''swarmy.db.cluster'', ''shop''), (''swarmy.db.role'', ''primary'')]" by code_simp
  from users_cannot_pose [OF refl this] show "\<exists>l0. demo_live ''shop_db'' = Some l0 \<and> isManagedDataService l0"
    by (simp add: isManagedDataService_def MANAGED_DATA_OWNER_LABELS_def lbl_def truthy_def)
qed

end
