(* ===== verification/NetAttach.thy ===== *)
theory NetAttach
  imports NetPolicy KvRoundTrip
begin

text \<open>
  Network attachments and overlays: aliases on platform networks, the size of an encapsulated frame,
  and the private overlays that connect two apps.
\<close>

section \<open>Attachments\<close>

definition networks_ok :: "networks \<Rightarrow> bool" where
  "networks_ok nets =
     (distinct (map fst nets) \<and> distinct (map snd nets) \<and> list_all (\<lambda>(name, i). name \<noteq> [] \<and> i \<noteq> []) nets)"

definition by_name :: "networks \<Rightarrow> net_spec \<Rightarrow> bool" where
  "by_name nets spec =
     (set (sp_networks spec) \<inter> snd ` set nets = {} \<and> fst ` set (opt_or (sp_aliases spec) []) \<inter> snd ` set nets = {})"

lemma resolve_network_ok:
  assumes "networks_ok nets"
  shows "resolve_network nets n = (case map_of nets n of None \<Rightarrow> n | Some i \<Rightarrow> i)"
proof -
  have "filter (\<lambda>(name, i). name \<noteq> [] \<and> i \<noteq> []) nets = nets"
    using assms by (auto simp: networks_ok_def list_all_iff filter_id_conv)
  moreover have "map_of (rev nets) = map_of nets"
    using assms by (intro map_of_inject_set [THEN iffD2]) (auto simp: networks_ok_def rev_map [symmetric])
  ultimately show ?thesis by (simp add: resolve_network_def opt_or_def)
qed

lemma resolve_to_id:
  assumes "networks_ok nets" and "resolve_network nets k = i" and "(name, i) \<in> set nets" and "k \<notin> snd ` set nets"
  shows "k = name"
proof -
  from assms(2) have "map_of nets k = Some i"
    using assms(3,4) by (auto simp: resolve_network_ok [OF assms(1)] split: option.splits) force
  then have "(k, i) \<in> set nets" by (rule map_of_SomeD)
  with assms(1,3) inj_onD [of snd "set nets" "(k, i)" "(name, i)"] show ?thesis
    unfolding networks_ok_def distinct_map by auto
qed

lemma drop_no_alias:
  "a \<in> set (dropAliasesOnTargets atts ids) \<Longrightarrow> at_target a \<in> ids \<Longrightarrow> [] \<notin> ids \<Longrightarrow> \<not> has_aliases a"
  by (auto simp: dropAliasesOnTargets_def has_aliases_def split: if_splits)

lemma created_no_alias:
  assumes ok: "networks_ok nets" "by_name nets spec" and i: "(name, i) \<in> set nets" "isPlatformNetwork name"
    and a: "a \<in> set (spec_attachments (resolveSpecNetworks (Some nets) spec))" "at_target a = i"
  shows "\<not> has_aliases a"
proof (rule ccontr)
  assume "\<not> \<not> has_aliases a"
  then obtain al where al: "sp_aliases (resolveSpecNetworks (Some nets) spec) = Some al" "map_of al i \<noteq> None"
    using a by (auto simp: spec_attachments_def has_aliases_def bind_eq_Some_conv split: option.splits if_splits)
  have ne: "sp_networks spec \<noteq> []"
    using a(1) by (auto simp: spec_attachments_def resolveSpecNetworks_def stripPlatformAliases_def split: option.splits)
  then obtain n ns where ns: "sp_networks spec = n # ns" by (cases "sp_networks spec") auto
  from al(1) ns obtain al0 where al0: "sp_aliases spec = Some al0"
    and al_eq: "al = fold (\<lambda>(n, a) m. AList.update n a m)
        (map (\<lambda>(n, a). (resolve_network nets n, a)) (own_order (filter (\<lambda>(net, _). \<not> isPlatformNetwork net) (own_order al0)))) []"
    by (cases "sp_aliases spec") (auto simp: resolveSpecNetworks_def stripPlatformAliases_def)
  from al(2) have "i \<in> fst ` set al" by (auto simp: map_of_eq_None_iff)
  then obtain k where k: "k \<in> fst ` set al0" "\<not> isPlatformNetwork k" "resolve_network nets k = i"
    unfolding al_eq fold_update_keys by force
  from k(1) al0 ok(2) have "k \<notin> snd ` set nets" by (auto simp: by_name_def opt_or_def)
  from resolve_to_id [OF ok(1) k(3) i(1) this] k(2) i(2) show False by simp
qed


definition demo_networks :: networks where
  "demo_networks = [(''swarmy'', ''id1''), (''swarmy-control'', ''id2''), (''shop_default'', ''id3'')]"

definition demo_spec :: "string list \<Rightarrow> (string \<times> string list) list option \<Rightarrow> net_spec" where
  "demo_spec ns al = \<lparr>sp_name = Some ''shop_web'', sp_labels = [], sp_networks = ns, sp_aliases = al\<rparr>"


text \<open>
  C25. The wall compares names only. A spec that gives the private control-plane network and the shared one
  by their ids, with an alias on the latter, passes it whatever the live services are; and the agent,
  which passes on what it cannot resolve, creates the service on both networks, alias included.
\<close>

theorem network_id_passes_the_wall:
  assumes "isPlatformNetwork control = False" and "isPlatformNetwork shared = False"
    and "resolve_network nets control = control" and "resolve_network nets shared = shared"
    and "shared \<noteq> control" and "\<not> isReservedServiceName n" and "al \<noteq> []"
    and "spec = \<lparr>sp_name = Some n, sp_labels = [], sp_networks = [control, shared], sp_aliases = Some [(shared, al)]\<rparr>"
  shows "admission_wall [spec] live = [] \<and>
    deployed_networks (Some nets) listedAgain spec None =
      [\<lparr>at_target = control, at_aliases = None\<rparr>, \<lparr>at_target = shared, at_aliases = Some al\<rparr>]"
proof
  have o: "own_order [p] = [p]" for p :: "string \<times> string list" by (auto simp: own_order_def)
  have fb: "family_bad [] c fam = []" for c fam by (simp add: family_bad_def own_order_def)
  show "admission_wall [spec] live = []"
    using assms
    by (simp add: admission_wall_def networkIsolationViolations_def reservedLabelViolations_def spec_isolation_def
        spec_labels_def isPlatformNetwork_def o fb lbl_def opt_or_def Let_def)
  show "deployed_networks (Some nets) listedAgain spec None =
      [\<lparr>at_target = control, at_aliases = None\<rparr>, \<lparr>at_target = shared, at_aliases = Some al\<rparr>]"
    using assms
    by (simp add: deployed_networks_def resolveSpecNetworks_def stripPlatformAliases_def spec_attachments_def o opt_or_def)
qed

theorem network_id_passes_the_wall_witness:
  "admission_wall [demo_spec [''id2'', ''id1''] (Some [(''id1'', [''postgres''])])] (\<lambda>_. None) = [] \<and>
   deployed_networks (Some demo_networks) (Some demo_networks)
     (demo_spec [''id2'', ''id1''] (Some [(''id1'', [''postgres''])])) None =
   [\<lparr>at_target = ''id2'', at_aliases = None\<rparr>, \<lparr>at_target = ''id1'', at_aliases = Some [''postgres'']\<rparr>]"
proof (rule network_id_passes_the_wall)
  show "isPlatformNetwork ''id2'' = False" "isPlatformNetwork ''id1'' = False" by code_simp+
  show "resolve_network demo_networks ''id2'' = ''id2''" "resolve_network demo_networks ''id1'' = ''id1''"
    by code_simp+
  show "\<not> isReservedServiceName ''shop_web''" by code_simp
qed (simp_all add: demo_spec_def)

section \<open>Frames\<close>

lemma js_assign_other: "k \<notin> fst ` set extra \<Longrightarrow> map_of (js_assign out extra) k = map_of out k"
proof -
  have "map_of (fold (\<lambda>(k, v) m. AList.update k v m) kvs m) k = map_of m k" if "k \<notin> fst ` set kvs" for kvs m
    using that by (induction kvs arbitrary: m) (auto simp: update_conv')
  from this [of "own_order extra" out] show "k \<notin> fst ` set extra \<Longrightarrow> map_of (js_assign out extra) k = map_of out k"
    by (simp add: js_assign_def)
qed

lemma js_assign_keys: "fst ` set (js_assign out extra) = fst ` set out \<union> fst ` set extra"
  by (auto simp: js_assign_def fold_update_keys)



end
