(* ===== verification/NetLinks.thy ===== *)
theory NetLinks
  imports NetPolicy KvRoundTrip
begin

text \<open>
  Connected apps. The private network of a pair does not depend on the order of its apps, the label that
  lists an app's peers reads back as they were, and disconnecting undoes connecting. The name of the
  network is a hash, whose second half depends on the last sixteen characters only, so pairs of
  different orgs can meet on one network.
\<close>

section \<open>The name of the network\<close>

lemma linkPair_sym: "linkPair a b = linkPair b a"
  by (auto simp: linkPair_def)

lemma link_name_sym: "linkNetworkName orgId a b = linkNetworkName orgId b a"
  by (simp add: linkNetworkName_def link_text_def linkPair_sym [of a b])

text \<open>The multiplier of the second half is four times a number: every step shifts two bits out.\<close>

lemma fnv_h2_multiplier: "(0x01000193 XOR 0x2f :: 32 word) = 4 * 0x40006F"
  by simp

lemma fnv_h2_step: "fnv_h2 h c = 4 * ((h XOR of_char c) * 0x40006F)"
  unfolding fnv_h2_def fnv_h2_multiplier by (simp add: ac_simps)

definition same_low :: "nat \<Rightarrow> 32 word \<Rightarrow> 32 word \<Rightarrow> bool" where
  "same_low n a b = (take_bit n a = take_bit n b)"

lemma take_bit_mult_cong:
  fixes u v m :: "32 word"
  assumes "take_bit n u = take_bit n v"
  shows "take_bit n (u * m) = take_bit n (v * m)"
proof (cases "n \<le> 32")
  case True
  have d: "(2 :: nat) ^ n dvd 4294967296" using le_imp_power_dvd [OF True, of "2 :: nat"] by simp
  have *: "unat (take_bit n (w * m)) = take_bit n (take_bit n (unat w) * take_bit n (unat m))" for w :: "32 word"
    using True by (simp add: unsigned_take_bit_eq unat_word_ariths take_bit_eq_mod [of 32, symmetric] min_def take_bit_mult
        del: take_bit_of_nat)
      (simp add: take_bit_eq_mod mod_mult_eq mod_mod_cancel [OF d])
  from assms have "take_bit n (unat u) = take_bit n (unat v)" by (metis unsigned_take_bit_eq)
  then have "unat (take_bit n (u * m)) = unat (take_bit n (v * m))" by (simp only: *)
  then show ?thesis by (simp only: word_unat_eq_iff)
next
  case False
  then have "take_bit n w = w" for w :: "32 word" by (simp add: take_bit_word_eq_self)
  with assms show ?thesis by simp
qed

lemma same_low_step:
  assumes "same_low n a b"
  shows "same_low (n + 2) (fnv_h2 a c) (fnv_h2 b c)"
proof -
  have "take_bit n (a XOR of_char c) = take_bit n (b XOR of_char c)"
    using assms by (simp add: same_low_def)
  then have "take_bit n ((a XOR of_char c) * 0x40006F) = take_bit n ((b XOR of_char c) * 0x40006F)"
    by (rule take_bit_mult_cong)
  then have "take_bit (n + 2) (push_bit 2 ((a XOR of_char c) * 0x40006F)) =
      take_bit (n + 2) (push_bit 2 ((b XOR of_char c) * 0x40006F))"
    by (simp add: take_bit_push_bit)
  then show ?thesis by (simp add: same_low_def fnv_h2_step push_bit_eq_mult mult.commute)
qed

lemma same_low_fold: "same_low n a b \<Longrightarrow> same_low (n + 2 * length s) (foldl fnv_h2 a s) (foldl fnv_h2 b s)"
proof (induction s arbitrary: a b n)
  case (Cons c s)
  from Cons.IH [OF same_low_step [OF Cons.prems]] show ?case by (simp add: ac_simps)
qed simp

lemma fnv_h2_forgets:
  assumes "16 \<le> length s"
  shows "foldl fnv_h2 a s = foldl fnv_h2 b s"
proof -
  have "same_low (0 + 2 * length s) (foldl fnv_h2 a s) (foldl fnv_h2 b s)"
    by (rule same_low_fold) (simp add: same_low_def)
  then have "take_bit (2 * length s) (foldl fnv_h2 a s) = take_bit (2 * length s) (foldl fnv_h2 b s)"
    by (simp add: same_low_def)
  moreover have "take_bit (2 * length s) w = w" for w :: "32 word"
    using assms by (simp add: take_bit_word_eq_self)
  ultimately show ?thesis by simp
qed

text \<open>
  C33. The hash of a pair is not of 64 bits. When the names of the two apps have fifteen characters together
  or more, two orgs whose ids agree in the 32 bits of the first half get the same network for them, and
  the apps of the one are on the private network of the other.
\<close>

theorem link_networks_collide:
  assumes "14 \<le> length a + length b"
    and "foldl fnv_h1 0x811c9dc5 org1 = foldl fnv_h1 0x811c9dc5 org2"
  shows "linkNetworkName org1 a b = linkNetworkName org2 a b"
proof -
  obtain x y where xy: "linkPair a b = (x, y)" by (metis surj_pair)
  then have "length x + length y = length a + length b" by (auto simp: linkPair_def split: if_splits)
  then have "16 \<le> length ([CHR 0x00] @ x @ [CHR 0x00] @ y)" using assms(1) by simp
  from fnv_h2_forgets [OF this] have
    "foldl fnv_h2 i (org1 @ [CHR 0x00] @ x @ [CHR 0x00] @ y) = foldl fnv_h2 i (org2 @ [CHR 0x00] @ x @ [CHR 0x00] @ y)" for i
    by (metis foldl_append)
  moreover have "foldl fnv_h1 0x811c9dc5 (org1 @ t) = foldl fnv_h1 0x811c9dc5 (org2 @ t)" for t
    using assms(2) by (simp only: foldl_append)
  ultimately show ?thesis by (simp only: linkNetworkName_def link_text_def fnv64hex_def xy Let_def prod.case)
qed

theorem link_networks_collide_witness:
  "''org_449599'' \<noteq> ''org_612382'' \<and>
   linkNetworkName ''org_449599'' ''billing'' ''storefront'' = linkNetworkName ''org_612382'' ''billing'' ''storefront''"
proof
  have "foldl fnv_h1 0x811c9dc5 ''org_449599'' = foldl fnv_h1 0x811c9dc5 ''org_612382''" by code_simp
  then show "linkNetworkName ''org_449599'' ''billing'' ''storefront'' = linkNetworkName ''org_612382'' ''billing'' ''storefront''"
    by (rule link_networks_collide [rotated]) simp
qed simp

section \<open>The label and the patches\<close>

definition app_name :: "string \<Rightarrow> bool" where
  "app_name p = (p \<noteq> [] \<and> CHR '','' \<notin> set p \<and> js_trim p = p)"

lemma split_join:
  assumes "ws \<noteq> []" and "\<forall>w \<in> set ws. d \<notin> set w"
  shows "js_split d (js_join [d] ws) = ws"
  using assms
proof (induction "[d]" ws rule: js_join.induct)
  case (2 w)
  then show ?case by (simp add: js_split_no_sep)
next
  case (3 w v ws)
  then show ?case by (simp add: js_split_append)
qed simp

lemma sorted_by_id: "sorted_wrt (\<le>) (js_sort (by_key (\<lambda>s. s)) xs)"
  using js_comparator.sorted_js_sort [OF js_comparator_by_key, of "\<lambda>s. s" xs]
  by (simp add: by_key_sign)

lemma js_insert_sorted_head: "sorted_wrt (\<le>) (x # xs) \<Longrightarrow> js_insert (by_key (\<lambda>s. s)) x xs = x # xs"
  by (cases xs) auto

lemma js_sort_sorted: "sorted_wrt (\<le>) xs \<Longrightarrow> js_sort (by_key (\<lambda>s. s)) xs = xs"
  by (induction xs) (auto simp: js_insert_sorted_head)

lemma fold_js_set_add_distinct: "distinct (acc @ xs) \<Longrightarrow> fold js_set_add xs acc = acc @ xs"
  by (induction xs arbitrary: acc) (auto simp: js_set_add_def)

lemma js_dedup_distinct [simp]: "distinct xs \<Longrightarrow> js_dedup xs = xs"
  using fold_js_set_add_distinct [of "[]" xs] by (simp add: js_dedup_def)

lemma distinct_js_sort [simp]: "distinct (js_sort cmp xs) = distinct xs"
  using distinct_map_js_sort [of "\<lambda>x. x" cmp xs] by simp

lemma links_label_reads:
  assumes "\<forall>p \<in> set peers. app_name p"
  shows "parseLinksLabel (Some (renderLinksLabel peers)) = js_sort (by_key (\<lambda>s. s)) (js_dedup peers)"
proof -
  let ?s = "js_sort (by_key (\<lambda>s. s)) (js_dedup peers)"
  have f: "filter (\<lambda>s. s \<noteq> []) (js_dedup peers) = js_dedup peers"
    using assms by (auto simp: filter_id_conv app_name_def)
  have t: "map js_trim ?s = ?s"
    using assms by (intro map_idI) (auto simp: app_name_def)
  have sp: "filter (\<lambda>s. s \<noteq> []) (map js_trim (js_split (CHR '','') (js_join [CHR '',''] ?s))) = ?s"
  proof (cases "?s = []")
    case True
    then show ?thesis by (simp add: js_trim_def)
  next
    case False
    have "js_split (CHR '','') (js_join [CHR '',''] ?s) = ?s"
      by (rule split_join [OF False]) (use assms in \<open>auto simp: app_name_def\<close>)
    then show ?thesis using assms by (simp only: t) (auto simp: filter_id_conv app_name_def)
  qed
  have "js_dedup ?s = ?s" by simp
  then show ?thesis
    using sp js_sort_sorted [OF sorted_by_id, of "js_dedup peers"]
    by (simp add: parseLinksLabel_def renderLinksLabel_def f opt_or_def)
qed

text \<open>
  The label that lists an app's peers loses nothing: reading it back gives the peers, sorted and without
  repetition.
\<close>

theorem links_label_roundtrip:
  assumes "\<forall>p \<in> set peers. app_name p"
  shows "parseLinksLabel (Some (renderLinksLabel peers)) = js_sort (by_key (\<lambda>s. s)) (js_dedup peers)"
  by (rule links_label_reads [OF assms])

theorem links_label_roundtrip_witness:
  "parseLinksLabel (Some (renderLinksLabel [''shop'', ''billing'', ''shop''])) = [''billing'', ''shop'']"
proof -
  have "\<forall>p \<in> set [''shop'', ''billing'', ''shop'']. app_name p"
    by (simp add: app_name_def js_trim_def js_space_def)
  from links_label_roundtrip [OF this] show ?thesis by simp code_simp
qed

lemma render_one: "app_name p \<Longrightarrow> renderLinksLabel [p] = p"
  by (simp add: renderLinksLabel_def app_name_def)

lemma render_none: "renderLinksLabel [] = []"
  by (simp add: renderLinksLabel_def)

lemma parse_one: "app_name p \<Longrightarrow> parseLinksLabel (Some p) = [p]"
  using links_label_reads [of "[p]"] by (simp add: render_one)

lemma parse_absent: "parseLinksLabel None = []"
  by (simp add: parseLinksLabel_def opt_or_def js_trim_def)

lemma js_assign_one: "k \<notin> fst ` set l \<Longrightarrow> js_assign l [(k, v)] = l @ [(k, v)]"
  by (simp add: js_assign_def alist_update_fresh)

lemma js_assign_none [simp]: "js_assign l [] = l"
  by (simp add: js_assign_def own_order_def)

lemmas link_defs = applyServicePatch_def linkPatch_def no_patch_def patch_labels_def patch_networks_def patch_env_def
  patchRefs_def opt_or_def Let_def

text \<open>A patch that is applied again changes nothing more: references and networks.\<close>

lemma patchRefs_again: "patchRefs (patchRefs live removed add) removed add = patchRefs live removed add"
  by (auto simp: patchRefs_def filter_empty_conv intro!: filter_cong)

lemma patch_networks_again: "set (patch_networks (patch_networks ns p) p) = set (patch_networks ns p)"
  by (auto simp: patch_networks_def)

text \<open>A link patch touches labels, networks and aliases only.\<close>

lemma link_patch_frame:
  assumes "s = applyServicePatch base (linkPatch orgId a svc peers)"
  shows "sp_name s = sp_name base \<and> sv_image s = sv_image base \<and> sv_env s = sv_env base \<and>
    sv_secrets s = sv_secrets base \<and> sv_configs s = sv_configs base \<and> sv_rest s = sv_rest base"
  unfolding assms
  by (simp add: applyServicePatch_def linkPatch_def no_patch_def patch_env_def patchRefs_def truthy_def Let_def)

text \<open>
  Disconnecting undoes connecting. Connecting an app to its first peer puts each of its services on the
  pair's network under \<^verbatim>\<open>service.app\<close> and lists the peer in its label, on whichever side of the pair
  it is; disconnecting, from the service as it then is, gives back the service as it was, labels, networks
  and everything else but its aliases, with none left on the pair's network.
\<close>

theorem disconnect_undoes_connect:
  assumes "app_name b" and "lbl (sp_labels base) LINKS_LABEL = None" and "la_labels svc = sp_labels base"
    and "distinct (sp_networks base)" and "linkNetworkName orgId b a \<notin> set (sp_networks base)"
    and "on = applyServicePatch base (linkPatch orgId a svc [b])"
    and "la_labels svc' = sp_labels on"
    and "off = applyServicePatch on (linkPatch orgId a svc' [])"
  shows "linkNetworkName orgId b a \<in> set (sp_networks on) \<and>
         map_of (the (sp_aliases on)) (linkNetworkName orgId b a) = Some [linkAlias a (shortName a (la_name svc))] \<and>
         parseLinksLabel (lbl (sp_labels on) LINKS_LABEL) = [b] \<and>
         off\<lparr>sp_aliases := None\<rparr> = base\<lparr>sp_aliases := None\<rparr> \<and>
         linkNetworkName orgId b a \<notin> fst ` set (the (sp_aliases off))"
proof -
  let ?net = "linkNetworkName orgId b a"
  have net: "linkNetworkName orgId a b = ?net" by (rule link_name_sym)
  have b: "b \<noteq> []" "renderLinksLabel [b] = b" "parseLinksLabel (Some b) = [b]"
    using assms(1) by (simp_all add: app_name_def render_one parse_one)
  have fresh: "LINKS_LABEL \<notin> fst ` set (sp_labels base)"
    using assms(2) by (simp add: lbl_def map_of_eq_None_iff)
  have on: "sp_labels on = sp_labels base @ [(LINKS_LABEL, b)]" "sp_networks on = sp_networks base @ [?net]"
    "map_of (the (sp_aliases on)) ?net = Some [linkAlias a (shortName a (la_name svc))]"
    using assms(2-5) b fresh
    by (simp_all add: assms(6) link_defs net parse_absent js_assign_one update_conv')
  have l: "lbl (sp_labels on) LINKS_LABEL = Some b"
    using fresh by (simp add: on lbl_def map_add_def map_of_eq_None_iff [THEN iffD2])
  have keep: "filter (\<lambda>kv. fst kv \<noteq> LINKS_LABEL) (sp_labels base) = sp_labels base"
    using fresh by (intro filter_True) (metis imageI)
  have keep2: "filter (\<lambda>n. n \<noteq> ?net) (sp_networks base) = sp_networks base"
    using assms(5) by (auto simp: filter_id_conv)
  have off: "sp_labels off = sp_labels base" "sp_networks off = sp_networks base"
    "the (sp_aliases off) = fold (\<lambda>(n, a) m. AList.update n a m)
      (filter (\<lambda>(n, a). a \<noteq> [] \<and> n \<noteq> ?net) (la_networks svc')) []"
    using assms(4) l
    by (simp_all add: assms(7,8) link_defs net b render_none on keep keep2)
  have "?net \<notin> fst ` set (the (sp_aliases off))"
    unfolding off(3) fold_update_keys by auto
  moreover have "off\<lparr>sp_aliases := None\<rparr> = base\<lparr>sp_aliases := None\<rparr>"
    using link_patch_frame [OF assms(6)] link_patch_frame [OF assms(8)] off(1,2)
    by (cases base, cases on, cases off) simp
  ultimately show ?thesis using on l b by simp
qed

definition demo_app :: "nat svc_spec" where
  "demo_app = \<lparr>sp_name = Some ''shop_web'', sp_labels = [(''tier'', ''front'')], sp_networks = [''shop_default''],
     sp_aliases = None, sv_image = ''shop:1'', sv_env = [], sv_secrets = [], sv_configs = [], sv_rest = 7\<rparr>"

definition demo_side :: "labels \<Rightarrow> (string \<times> string list) list \<Rightarrow> live_app" where
  "demo_side l ns = \<lparr>la_name = ''shop_web'', la_labels = l, la_networks = ns\<rparr>"

definition demo_on :: "nat svc_spec" where
  "demo_on = applyServicePatch demo_app
     (linkPatch ''org'' ''shop'' (demo_side (sp_labels demo_app) [(''shop_default'', [''web''])]) [''billing''])"

theorem disconnect_undoes_connect_witness:
  "parseLinksLabel (lbl (sp_labels demo_on) LINKS_LABEL) = [''billing''] \<and>
   (applyServicePatch demo_on (linkPatch ''org'' ''shop'' (demo_side (sp_labels demo_on) []) []))\<lparr>sp_aliases := None\<rparr> = demo_app"
proof -
  have n: "linkNetworkName ''org'' ''billing'' ''shop'' \<notin> set (sp_networks demo_app)" by code_simp
  have b: "app_name ''billing''" by (simp add: app_name_def js_trim_def js_space_def)
  have l: "lbl (sp_labels demo_app) LINKS_LABEL = None" "distinct (sp_networks demo_app)"
    by (simp_all add: demo_app_def lbl_def LINKS_LABEL_def)
  from disconnect_undoes_connect [OF b l(1) _ l(2) n demo_on_def _ refl,
      of "demo_side (sp_labels demo_on) []"]
  show ?thesis by (simp add: demo_side_def) (simp add: demo_app_def)
qed

end
