(* ===== verification/Spec2Isabelle.thy ===== *)
theory Spec2Isabelle
  imports LeaseSafety BootSelect Failover DbStorage DnsAnswer DecommissionPlan KvLimits KvBackup UpgradeRuns
    StoreRuns StoreDiscovery GarageAdmin NetWall NetAttach NetLinks
begin

text \<open>
  A verification library for swarmy, a control plane that runs applications and databases on a
  Docker swarm. It models the parts whose mistakes lose data or split the control plane, function
  by function, and proves what they promise.

  \<^bold>\<open>The program and the theories.\<close>

  \<^item> The \<^emph>\<open>controller lease\<close>. Exactly one controller may write the control database. The
    right to write is a lease, a label on the controller's own swarm service, written by manager
    agents with a version-checked update. \<open>Lease\<close> models
    \<^verbatim>\<open>packages/core/src/protocol/controllerService.ts\<close> (the record, its label, what an agent
    decides), \<^verbatim>\<open>apps/api/src/controller-store/lease.ts\<close> (what the controller decides) and the
    agent's handler \<^verbatim>\<open>apps/agent/src/handlers/controller-service.ts\<close>. \<open>Supervisor\<close> models
    the class in \<^verbatim>\<open>supervisor.ts\<close>: its fields are a record, each method is cut at its awaits,
    and a suspended call is part of the state. \<open>LeaseSystem\<close> runs any number of supervisors
    against the agents, the calls in flight and the label; \<open>LeaseSafety\<close> proves its invariant
    and from it that two controllers never lead at once.
  \<^item> The \<^emph>\<open>boot\<close> of a controller (\<open>BootSelect\<close>; \<^verbatim>\<open>restore-select.ts\<close>, \<^verbatim>\<open>replica.ts\<close>,
    \<^verbatim>\<open>boot.ts\<close>): whether the local database, the replica or a bundle is used. A data file is
    never thrown away and an empty store is started only when there is nothing to lose.
  \<^item> \<^emph>\<open>Managed Postgres\<close>. \<open>Failover\<close> models \<^verbatim>\<open>packages/core/src/manageddb-failover.ts\<close> and
    the promotion tick of \<^verbatim>\<open>apps/api/src/workers/manageddb-reconcile.ts\<close> with the worker's
    per-cluster state over a run of ticks: what is promoted without a human has replayed what the
    primary had last flushed. \<open>DbStorage\<close> models \<^verbatim>\<open>packages/core/src/manageddb-storage.ts\<close> and
    the storage plan of \<^verbatim>\<open>manageddb-reconcile.core.ts\<close>.
  \<^item> \<^emph>\<open>Server disks\<close> (\<open>Disks\<close>; \<^verbatim>\<open>packages/core/src/disk-inventory.ts\<close>): a disk is formatted
    only when it is provably empty.
  \<^item> \<^emph>\<open>DNS\<close>. \<open>DnsSteer\<close> (\<^verbatim>\<open>packages/dns/src/steer.ts\<close>, \<^verbatim>\<open>geoip.ts\<close>) ranks endpoints by
    health and distance; \<open>DnsAnswer\<close> (\<^verbatim>\<open>answer.ts\<close>) is the authoritative resolution.
  \<^item> \<^emph>\<open>Retiring a server\<close>. \<open>Picker\<close> and \<open>Decommission\<close> model
    \<^verbatim>\<open>packages/trpc/src/services/node-decommission.plan.ts\<close>: the class that chooses destinations
    and the planner with its sections; \<open>DecommissionPlan\<close> proves that a plan that can run leaves
    no data behind, places it where there is room, backs it up first and keeps the managers.
  \<^item> The \<^emph>\<open>document store\<close> (\<^verbatim>\<open>packages/core/src/swarm-kv.ts\<close>): the configuration the
    reconcilers converge to, kept as versioned Docker configs in the swarm's raft store.
    \<open>KvCodec\<close> has the names, the fingerprint, base64 and the stable JSON text, \<open>KvRoundTrip\<close>
    their round trips. \<open>SwarmKv\<close> is the class itself: its fields a record, its methods functions
    on it, and a background refresh a job in the state. \<open>KvCoherence\<close> states what the store
    promises (\<open>doc_in\<close> is the document the swarm holds, \<open>update_spec\<close> what an update does to it,
    \<open>kv_inv\<close> when a cache agrees with the swarm); \<open>KvStore\<close> proves the law of each operation
    from the contract of a driver; \<open>KvSystem\<close> gives the in-memory driver that contract and from it
    the refinement of a map, the cache invariant over any run, and what deletes and races do;
    \<open>KvLimits\<close> has the budget, refusal and success of writes, \<open>KvBackup\<close> export and import and
    three behaviours in which a write or a delete does not keep its promise.
  \<^item> The \<^emph>\<open>platform upgrade\<close>, which replaces the controller that runs it. \<open>Versions\<close> has the
    precedence of releases and the maintenance window (\<^verbatim>\<open>packages/core/src/platform-manifest.ts\<close>),
    \<open>UpgradePlan\<close> the step engine with its persisted run, rollback and retry and \<open>UpgradeSystem\<close> the
    decisions and plans of the steps (\<^verbatim>\<open>packages/trpc/src/services/platform-upgrade.plan.ts\<close>),
    \<open>UpgradeService\<close> the six steps and the calls around them
    (\<^verbatim>\<open>packages/trpc/src/services/platform-upgrade.service.ts\<close>). \<open>UpgradeSafety\<close> shows that every
    step keeps the engine's contract; \<open>UpgradeRuns\<close> that a run survives a stop at any write, and
    two ways in which a retry does not do what it promises.
  \<^item> The \<^emph>\<open>object store\<close>, a Garage cluster that a worker keeps in shape. \<open>StoreLayout\<close> is the
    pure half (\<^verbatim>\<open>apps/api/src/workers/storage-reconcile.core.ts\<close>): reading Garage's answers,
    finding out which Garage node runs on which server, and the two-step plan of the cluster layout.
    \<open>StoreReconcile\<close> is the worker (\<^verbatim>\<open>storage-reconcile.ts\<close>): what a tick reads is a record,
    what it asks for a list of effects, and the memory it keeps of an org a record that the next tick
    takes. \<open>GarageAdmin\<close> translates calls between the generations of the admin API
    (\<^verbatim>\<open>packages/trpc/src/services/garage-admin.ts\<close>). \<open>StorePlan\<close> shows that the match is one to
    one, that only differences are staged and that the layout converges, for any pair of Garage calls
    that do what their documentation says (\<open>garage_laws\<close>); \<open>StoreDiscovery\<close> that the recorded ids
    stay one to one over any number of ticks; \<open>StoreRuns\<close> the bounded pauses, the stamp, and that a
    plan which failed is never tried again.
  \<^item> The \<^emph>\<open>network wall\<close>. \<open>NetPolicy\<close> models \<^verbatim>\<open>packages/core/src/network-policy.ts\<close>, the
    refusal in \<^verbatim>\<open>packages/trpc/src/services/admission-gate.ts\<close> that nobody can override, how the
    agent turns a spec into network attachments (\<^verbatim>\<open>packages/core/src/docker.ts\<close>,
    \<^verbatim>\<open>apps/agent/src/executor.ts\<close>), and connecting apps (\<^verbatim>\<open>stack-links.service.ts\<close>,
    \<^verbatim>\<open>service-patch.ts\<close>). \<open>NetWall\<close> shows that no sequence of user deploys makes a service pose
    as the platform's or as managed data; \<open>NetAttach\<close> that nothing deployed by network name gets an
    alias on a platform network, that frames fit through the mesh, and that a network given by its id
    passes the wall; \<open>NetLinks\<close> that disconnecting undoes connecting and that the networks of two
    orgs can have one name.
  \<^item> \<open>Prelude\<close> holds the JavaScript the code uses (sorting with a comparator, insertion-ordered
    maps and sets, string operations), \<open>Json\<close> parsed JSON values.

  \<^bold>\<open>How the code is rendered.\<close> A class or object is a record, a tagged union a datatype, a
  method a function on the record; what a function throws or returns early with is a value. Label
  sets and \<^verbatim>\<open>Map\<close>s are association lists, which keep the insertion order. What the code asks of
  Docker, the object store, the clock or another package is an argument; what it asks them to
  change is in the result. \<^verbatim>\<open>localeCompare\<close> is an argument assumed to be a consistent comparator
  where that matters. Strings are lists of bytes. Numbers are integers or rationals except where
  the width matters: an LSN is rounded to 53 bits as a double is (\<open>Failover.rnd53\<close>), the
  fingerprint of a document is a 32-bit word (\<open>KvCodec.fnv1a\<close>).

  \<^bold>\<open>Interfaces.\<close> \<open>Prelude.js_comparator\<close> states when a comparator makes sorting meaningful; the
  comparators of steering, moves, failover and placement interpret it or are proved to satisfy it.
  \<open>Lease.lease_cell\<close> is the compare-and-swap cell the lease needs, interpreted by the agent's
  decision. \<open>Picker.data_chooser\<close> is what the planner needs of a destination chooser, interpreted
  by \<open>pick\<close>. \<open>DecommissionPlan.draft_invariant\<close> carries an invariant through the planner,
  interpreted by the order of the kinds, the ledger of bytes and the backups. \<open>KvStore.kv_store\<close>
  is what a swarm driver promises (list, read and create), \<open>kv_removing\<close> adds removal and
  \<open>kv_up\<close> that the swarm answers; the in-memory driver interprets them.
  \<open>UpgradePlan.step_engine\<close> is what the step engine needs of its handlers and of the database,
  interpreted by the six steps in any environment.

  \<^bold>\<open>Fuel and termination.\<close> \<open>DnsAnswer.answerQuery\<close> takes fuel because the code has no bound on
  CNAME following; \<open>acyclic_zone_answers\<close> says how much is enough and
  \<open>cname_loop_never_answers\<close> that no amount is enough on a loop. \<open>DnsAnswer.txtStrings\<close> takes the
  length of its input as fuel, which \<open>txt_strings_carry_value\<close> shows to be enough on UTF-8 text.
  \<open>KvCodec.json_parse\<close> takes twice the length of the text, which \<open>stable_json_roundtrip\<close> shows to
  be enough for every text the store writes; \<open>SwarmKv.update_loop\<close> recurses on the retries left, as
  the code bounds them. A polling loop of an upgrade step (\<open>UpgradeService.poll\<close>) takes the polls that
  fit before its deadline, which \<open>polling_ends_by_deadline\<close> shows to be enough. Everything else terminates by its definition.

  \<^bold>\<open>Not modelled.\<close> Shell scripts that are rendered as text and the parsers of their output; the
  wire format of DNS (a package) and the sockets; GeoIP downloads; the tRPC services, which are
  mostly database rows and dispatches; the Cedar policy engine; the web application; sentences
  shown to people. Within the modelled files a definition says what it leaves out.
\<close>

end
